(* ===== verification/Prelude.thy ===== *)
theory Prelude
  imports Main
begin

text \<open>
  Shared vocabulary of the development: results with errors as values, SQL tables as
  lists of rows addressed by a key column, the scalar JSON values that event payloads
  carry, and the generic lemmas the component theories rely on.
\<close>

named_theorems table_simps \<open>lookups and updates of key-addressed tables\<close>
named_theorems result_simps \<open>case analysis of error results\<close>
named_theorems inv_rules \<open>operations that preserve a component invariant\<close>

section \<open>Results\<close>

text \<open>A fallible operation returns \<open>Inl\<close> the exception it raises or \<open>Inr\<close> its value.\<close>

definition bindr :: "'e + 'a \<Rightarrow> ('a \<Rightarrow> 'e + 'b) \<Rightarrow> 'e + 'b" where
  "bindr m f = (case m of Inl e \<Rightarrow> Inl e | Inr x \<Rightarrow> f x)"

lemma bindr_Inl [simp]: "bindr (Inl e) f = Inl e"
  by (simp add: bindr_def)

lemma bindr_Inr [simp]: "bindr (Inr x) f = f x"
  by (simp add: bindr_def)

lemma bindr_eq_Inr [result_simps]: "bindr m f = Inr y \<longleftrightarrow> (\<exists>x. m = Inr x \<and> f x = Inr y)"
  by (cases m) auto

lemma bindr_eq_Inl [result_simps]:
  "bindr m f = Inl e \<longleftrightarrow> m = Inl e \<or> (\<exists>x. m = Inr x \<and> f x = Inl e)"
  by (cases m) auto

lemma bindr_assoc: "bindr (bindr m f) g = bindr m (\<lambda>x. bindr (f x) g)"
  by (cases m) auto

text \<open>
  A database transaction runs on a snapshot: its writes are kept when it returns and
  rolled back when it raises.
\<close>

definition commit :: "'s \<Rightarrow> 'e + ('s \<times> 'a) \<Rightarrow> 's" where
  "commit s r = (case r of Inl _ \<Rightarrow> s | Inr (s', _) \<Rightarrow> s')"

lemma commit_Inl [simp]: "commit s (Inl e) = s"
  by (simp add: commit_def)

lemma commit_Inr [simp]: "commit s (Inr (s', x)) = s'"
  by (simp add: commit_def)

lemma commit_preserves [inv_rules]:
  "\<lbrakk>I s; \<And>s' x. r = Inr (s', x) \<Longrightarrow> I s'\<rbrakk> \<Longrightarrow> I (commit s r)"
  by (auto simp: commit_def split: sum.split)

section \<open>Tables\<close>

text \<open>
  A table is the list of its rows in insertion order. \<open>key\<close> is the column (or the tuple
  of columns) of a unique constraint; \<open>row_of\<close> is the row a query on that constraint
  finds, \<open>upd_of\<close> an update of the row with that key.
\<close>

definition row_of :: "('r \<Rightarrow> 'k) \<Rightarrow> 'k \<Rightarrow> 'r list \<Rightarrow> 'r option" where
  "row_of key k rows = find (\<lambda>r. key r = k) rows"

definition upd_of :: "('r \<Rightarrow> 'k) \<Rightarrow> 'k \<Rightarrow> ('r \<Rightarrow> 'r) \<Rightarrow> 'r list \<Rightarrow> 'r list" where
  "upd_of key k f rows = map (\<lambda>r. if key r = k then f r else r) rows"

definition uniq :: "('r \<Rightarrow> 'k) \<Rightarrow> 'r list \<Rightarrow> bool" where
  "uniq key rows = distinct (map key rows)"

lemma row_of_Nil [simp]: "row_of key k [] = None"
  by (simp add: row_of_def)

lemma row_of_Cons [simp]:
  "row_of key k (r # rows) = (if key r = k then Some r else row_of key k rows)"
  by (simp add: row_of_def)

lemma upd_of_Nil [simp]: "upd_of key k f [] = []"
  by (simp add: upd_of_def)

lemma upd_of_Cons [simp]:
  "upd_of key k f (r # rows) = (if key r = k then f r else r) # upd_of key k f rows"
  by (simp add: upd_of_def)

lemma uniq_Nil [simp]: "uniq key []"
  by (simp add: uniq_def)

lemma uniq_Cons [simp]: "uniq key (r # rows) \<longleftrightarrow> key r \<notin> key ` set rows \<and> uniq key rows"
  by (simp add: uniq_def)

lemma row_of_None: "row_of key k rows = None \<longleftrightarrow> k \<notin> key ` set rows"
  by (induction rows) auto

lemma row_of_Some: "row_of key k rows = Some r \<Longrightarrow> r \<in> set rows \<and> key r = k"
  by (induction rows) (auto split: if_splits)

lemma row_of_unique: "\<lbrakk>uniq key rows; r \<in> set rows\<rbrakk> \<Longrightarrow> row_of key (key r) rows = Some r"
  by (induction rows) auto

lemma row_of_eq_Some:
  "uniq key rows \<Longrightarrow> row_of key k rows = Some r \<longleftrightarrow> r \<in> set rows \<and> key r = k"
  using row_of_Some row_of_unique by fastforce

lemma row_of_append [table_simps]:
  "row_of key k (xs @ ys) = (case row_of key k xs of None \<Rightarrow> row_of key k ys | Some r \<Rightarrow> Some r)"
  by (induction xs) auto

lemma row_of_upd [table_simps]:
  assumes "\<And>r. key (f r) = key r"
  shows "row_of key k (upd_of key k' f rows) =
    (if k = k' then map_option f (row_of key k rows) else row_of key k rows)"
  by (induction rows) (auto simp: assms)

lemma row_of_upd_ex:
  assumes "\<And>r. key (f r) = key r"
  shows "row_of key k (upd_of key' k' f rows) =
    map_option (\<lambda>r. if key' r = k' then f r else r) (row_of key k rows)"
  by (induction rows) (auto simp: assms)

lemma map_key_upd [table_simps]:
  "(\<And>r. g (f r) = g r) \<Longrightarrow> map g (upd_of key k f rows) = map g rows"
  by (simp add: upd_of_def)

lemma uniq_upd [table_simps]:
  "(\<And>r. g (f r) = g r) \<Longrightarrow> uniq g (upd_of key k f rows) = uniq g rows"
  by (simp add: uniq_def map_key_upd)

lemma uniq_snoc [table_simps]:
  "uniq key (rows @ [r]) \<longleftrightarrow> uniq key rows \<and> row_of key (key r) rows = None"
  by (auto simp: uniq_def row_of_None)

lemma set_upd_of: "set (upd_of key k f rows) = (\<lambda>r. if key r = k then f r else r) ` set rows"
  by (simp add: upd_of_def)

lemma length_upd_of [simp]: "length (upd_of key k f rows) = length rows"
  by (simp add: upd_of_def)

lemma upd_of_absent: "row_of key k rows = None \<Longrightarrow> upd_of key k f rows = rows"
  by (induction rows) (auto split: if_splits)

section \<open>Sums over tables\<close>

definition total :: "('r \<Rightarrow> bool) \<Rightarrow> ('r \<Rightarrow> int) \<Rightarrow> 'r list \<Rightarrow> int" where
  "total P amt rows = sum_list (map amt (filter P rows))"

lemma total_Nil [simp]: "total P amt [] = 0"
  by (simp add: total_def)

lemma total_Cons [simp]: "total P amt (r # rows) = (if P r then amt r else 0) + total P amt rows"
  by (simp add: total_def)

lemma total_append [simp]: "total P amt (xs @ ys) = total P amt xs + total P amt ys"
  by (simp add: total_def)

lemma total_nonneg: "(\<And>r. \<lbrakk>r \<in> set rows; P r\<rbrakk> \<Longrightarrow> 0 \<le> amt r) \<Longrightarrow> 0 \<le> total P amt rows"
  by (induction rows) auto

lemma total_cong:
  "(\<And>r. r \<in> set rows \<Longrightarrow> P r = Q r) \<Longrightarrow> (\<And>r. r \<in> set rows \<Longrightarrow> amt r = amt' r)
   \<Longrightarrow> total P amt rows = total Q amt' rows"
  by (induction rows) auto

lemma total_ge_member:
  "\<lbrakk>r \<in> set rows; P r; \<And>r. \<lbrakk>r \<in> set rows; P r\<rbrakk> \<Longrightarrow> 0 \<le> amt r\<rbrakk> \<Longrightarrow> amt r \<le> total P amt rows"
proof (induction rows)
  case (Cons x rows)
  have "0 \<le> total P amt rows"
    by (rule total_nonneg) (use Cons.prems(3) in auto)
  moreover have "amt r \<le> total P amt rows" if "r \<in> set rows"
    by (rule Cons.IH) (use that Cons.prems in auto)
  ultimately show ?case
    using Cons.prems by (cases "r = x") (force, force)
qed simp

text \<open>Updating the row with a given key changes a sum by the difference of that row.\<close>

lemma total_upd:
  assumes "uniq key rows" and "row_of key k rows = Some r"
  shows "total P amt (upd_of key k f rows) =
    total P amt rows - (if P r then amt r else 0) + (if P (f r) then amt (f r) else 0)"
  using assms
proof (induction rows)
  case (Cons x rows)
  show ?case
  proof (cases "key x = k")
    case True
    with Cons.prems have "upd_of key k f rows = rows"
      by (auto simp: upd_of_absent row_of_None)
    with True Cons.prems show ?thesis by simp
  next
    case False
    with Cons show ?thesis by simp
  qed
qed simp

section \<open>Scalar JSON\<close>

text \<open>
  Event payloads are flat objects: every producer of the two services fills them with
  strings, integers, booleans and nulls only.
\<close>

datatype jval = JNull | JBool bool | JInt int | JStr string

type_synonym payload = "(string \<times> jval) list"

text \<open>\<open>payload.get(k)\<close>, and the truth value of a payload entry in a condition.\<close>

definition jget :: "payload \<Rightarrow> string \<Rightarrow> jval option" where
  "jget p k = map_of p k"

fun jtruthy :: "jval \<Rightarrow> bool" where
  "jtruthy JNull = False"
| "jtruthy (JBool b) = b"
| "jtruthy (JInt i) = (i \<noteq> 0)"
| "jtruthy (JStr s) = (s \<noteq> [])"

end
