(* ===== verification/PyText.thy ===== *)
theory PyText
  imports Prelude "HOL-Library.Word" "HOL-Library.Code_Target_Numeral"
begin

text \<open>
  The parts of Python's text handling the services use: \<open>str(int)\<close>, \<open>int(text, base)\<close>,
  zero padding, \<open>lower\<close>/\<open>upper\<close>/\<open>strip\<close>, and \<open>uuid.UUID\<close>. A string is a list of
  characters, that is of code points below 256. Rendering and parsing numbers are
  inverse to each other, which every identifier and amount that crosses a string
  boundary (event payloads, ledger references) relies on.
\<close>

section \<open>Digits in a base\<close>

function nat_digits :: "nat \<Rightarrow> nat \<Rightarrow> nat list" where
  "nat_digits b n = (if b < 2 \<or> n < b then [n] else nat_digits b (n div b) @ [n mod b])"
  by pat_completeness auto
termination
  by (relation "measure snd") auto

declare nat_digits.simps [simp del]

definition digits_val :: "nat \<Rightarrow> nat list \<Rightarrow> nat" where
  "digits_val b ds = foldl (\<lambda>a d. a * b + d) 0 ds"

definition digit_char :: "nat \<Rightarrow> char" where
  "digit_char d = (if d < 10 then char_of (48 + d) else char_of (87 + d))"

definition char_digit :: "char \<Rightarrow> nat option" where
  "char_digit c = (let n = of_char c :: nat in
     if 48 \<le> n \<and> n \<le> 57 then Some (n - 48)
     else if 97 \<le> n \<and> n \<le> 122 then Some (n - 87)
     else if 65 \<le> n \<and> n \<le> 90 then Some (n - 55)
     else None)"

definition is_digit :: "char \<Rightarrow> bool" where
  "is_digit c = (let n = of_char c :: nat in 48 \<le> n \<and> n \<le> 57)"

section \<open>Python text operations\<close>

definition py_str_nat :: "nat \<Rightarrow> string" where
  "py_str_nat n = map digit_char (nat_digits 10 n)"

definition py_str :: "int \<Rightarrow> string" where
  "py_str i = (if i < 0 then CHR ''-'' # py_str_nat (nat (- i)) else py_str_nat (nat i))"

definition quoted :: "string \<Rightarrow> string" where
  "quoted s = CHR 0x27 # s @ [CHR 0x27]"

text \<open>\<open>s.rjust(w, '0')\<close>, the zero padding of a format specification \<open>0wd\<close>.\<close>

definition zpad :: "nat \<Rightarrow> string \<Rightarrow> string" where
  "zpad w s = replicate (w - length s) (CHR ''0'') @ s"

definition py_lower_char :: "char \<Rightarrow> char" where
  "py_lower_char c = (let n = of_char c :: nat in
     if (65 \<le> n \<and> n \<le> 90) \<or> (192 \<le> n \<and> n \<le> 222 \<and> n \<noteq> 215) then char_of (n + 32) else c)"

definition py_lower :: "string \<Rightarrow> string" where
  "py_lower s = map py_lower_char s"

definition py_upper_ascii :: "string \<Rightarrow> string" where
  "py_upper_ascii s = map (\<lambda>c. let n = of_char c :: nat in
     if 97 \<le> n \<and> n \<le> 122 then char_of (n - 32) else c) s"

definition py_space :: "char \<Rightarrow> bool" where
  "py_space c = (let n = of_char c :: nat in
     (9 \<le> n \<and> n \<le> 13) \<or> (28 \<le> n \<and> n \<le> 32) \<or> n = 133 \<or> n = 160)"

definition strip_of :: "(char \<Rightarrow> bool) \<Rightarrow> string \<Rightarrow> string" where
  "strip_of P s = rev (dropWhile P (rev (dropWhile P s)))"

definition py_strip :: "string \<Rightarrow> string" where
  "py_strip s = strip_of py_space s"

text \<open>\<open>s.replace(pat, '')\<close> for a non-empty pattern: left to right, non-overlapping.\<close>

function py_remove :: "string \<Rightarrow> string \<Rightarrow> string" where
  "py_remove pat s =
     (case s of [] \<Rightarrow> []
      | c # cs \<Rightarrow> if pat \<noteq> [] \<and> take (length pat) s = pat then py_remove pat (drop (length pat) s)
                  else c # py_remove pat cs)"
  by pat_completeness auto
termination
  by (relation "measure (\<lambda>(pat, s). length s)") (auto simp: not_less_eq)

declare py_remove.simps [simp del]

text \<open>
  The digit group of \<open>int(text, base)\<close>: digits of the base, single underscores between
  digits.
\<close>

fun digit_group :: "nat \<Rightarrow> string \<Rightarrow> nat list option" where
  "digit_group b [] = None"
| "digit_group b [c] = (case char_digit c of Some d \<Rightarrow> if d < b then Some [d] else None | None \<Rightarrow> None)"
| "digit_group b (c # c' # cs) =
     (case char_digit c of
        Some d \<Rightarrow> if d < b then map_option (Cons d)
                    (if c' = CHR ''_'' then digit_group b cs else digit_group b (c' # cs))
                  else None
      | None \<Rightarrow> None)"

text \<open>
  \<open>int(text, base)\<close> for the two bases in use: surrounding white space, a sign, for base
  16 an optional \<open>0x\<close> prefix. A decimal text of more than 4300 digits is refused, as
  CPython's conversion limit does. \<open>None\<close> stands for \<open>ValueError\<close>.
\<close>

definition py_int :: "nat \<Rightarrow> string \<Rightarrow> int option" where
  "py_int b text =
     (let s = py_strip text;
          neg = (take 1 s = ''-'');
          s1 = (if take 1 s = ''-'' \<or> take 1 s = ''+'' then drop 1 s else s);
          s2 = (if b = 16 \<and> (take 2 s1 = ''0x'' \<or> take 2 s1 = ''0X'')
                then (if take 1 (drop 2 s1) = ''_'' then drop 3 s1 else drop 2 s1) else s1)
      in case digit_group b s2 of
           None \<Rightarrow> None
         | Some ds \<Rightarrow> if b = 10 \<and> 4300 < length ds then None
                      else Some (if neg then - int (digits_val b ds) else int (digits_val b ds)))"

text \<open>\<open>pat in s\<close> and \<open>s.removeprefix(pat)\<close>\<close>

fun py_in :: "string \<Rightarrow> string \<Rightarrow> bool" where
  "py_in pat [] = (pat = [])"
| "py_in pat (c # cs) = (take (length pat) (c # cs) = pat \<or> py_in pat cs)"

definition py_removeprefix :: "string \<Rightarrow> string \<Rightarrow> string" where
  "py_removeprefix pat s = (if take (length pat) s = pat then drop (length pat) s else s)"

text \<open>\<open>sep.join(parts)\<close>\<close>

fun join_with :: "string \<Rightarrow> string list \<Rightarrow> string" where
  "join_with sep [] = []"
| "join_with sep [x] = x"
| "join_with sep (x # y # xs) = x @ sep @ join_with sep (y # xs)"

section \<open>UUIDs\<close>

text \<open>A UUID is its 128-bit integer; \<open>str\<close> prints the 8-4-4-4-12 hexadecimal form.\<close>

type_synonym uuid = "128 word"

definition uuid_hex :: "uuid \<Rightarrow> string" where
  "uuid_hex u = zpad 32 (map digit_char (nat_digits 16 (unat u)))"

definition uuid_str :: "uuid \<Rightarrow> string" where
  "uuid_str u = (let h = uuid_hex u in
     take 8 h @ ''-'' @ take 4 (drop 8 h) @ ''-'' @ take 4 (drop 12 h) @ ''-'' @
     take 4 (drop 16 h) @ ''-'' @ drop 20 h)"

text \<open>\<open>uuid.UUID(text)\<close>; \<open>None\<close> stands for \<open>ValueError\<close>.\<close>

definition uuid_of_string :: "string \<Rightarrow> uuid option" where
  "uuid_of_string text =
     (let h = filter (\<lambda>c. c \<noteq> CHR ''-'')
                (strip_of (\<lambda>c. c = CHR ''{'' \<or> c = CHR ''}'')
                  (py_remove ''uuid:'' (py_remove ''urn:'' text)))
      in if length h \<noteq> 32 then None
         else case py_int 16 h of
                None \<Rightarrow> None
              | Some i \<Rightarrow> if 0 \<le> i \<and> i < 2 ^ 128 then Some (of_int i) else None)"

section \<open>Digits and their value\<close>

lemma nat_digits_not_Nil [simp]: "nat_digits b n \<noteq> []"
  by (subst nat_digits.simps) simp

lemma nat_digits_lt: "2 \<le> b \<Longrightarrow> d \<in> set (nat_digits b n) \<Longrightarrow> d < b"
proof (induction b n rule: nat_digits.induct)
  case (1 b n)
  show ?case
  proof (cases "n < b")
    case True
    with 1 show ?thesis by (simp add: nat_digits.simps [of b n])
  next
    case False
    with 1 show ?thesis by (auto simp: nat_digits.simps [of b n])
  qed
qed

lemma digits_val_snoc: "digits_val b (ds @ [d]) = digits_val b ds * b + d"
  by (simp add: digits_val_def)

lemma digits_val_Nil [simp]: "digits_val b [] = 0"
  by (simp add: digits_val_def)

lemma digits_val_single [simp]: "digits_val b [d] = d"
  by (simp add: digits_val_def)

lemma digits_val_digits [simp]: "2 \<le> b \<Longrightarrow> digits_val b (nat_digits b n) = n"
proof (induction b n rule: nat_digits.induct)
  case (1 b n)
  show ?case
  proof (cases "n < b")
    case True
    then show ?thesis by (simp add: nat_digits.simps [of b n])
  next
    case False
    with 1 show ?thesis by (simp add: nat_digits.simps [of b n] digits_val_snoc)
  qed
qed

lemma digits_val_append: "digits_val b (xs @ ys) = digits_val b xs * b ^ length ys + digits_val b ys"
proof (induction ys rule: rev_induct)
  case (snoc y ys)
  then show ?case
    by (simp add: digits_val_snoc flip: append_assoc) (simp add: algebra_simps)
qed simp

lemma digits_val_Cons: "digits_val b (d # ds) = d * b ^ length ds + digits_val b ds"
  using digits_val_append [of b "[d]" ds] by simp

lemma digits_val_replicate_0 [simp]: "digits_val b (replicate k 0) = 0"
  by (induction k) (auto simp: digits_val_Cons)

lemma digits_val_lt: "2 \<le> b \<Longrightarrow> \<forall>d\<in>set ds. d < b \<Longrightarrow> digits_val b ds < b ^ length ds"
proof (induction ds rule: rev_induct)
  case (snoc d ds)
  then have "digits_val b ds + 1 \<le> b ^ length ds" by simp
  then have "(digits_val b ds + 1) * b \<le> b ^ length ds * b" by (rule mult_le_mono1)
  moreover have "d < b" using snoc.prems by simp
  ultimately show ?case by (simp add: digits_val_snoc algebra_simps)
qed simp

lemma length_nat_digits_le: "2 \<le> b \<Longrightarrow> 0 < k \<Longrightarrow> n < b ^ k \<Longrightarrow> length (nat_digits b n) \<le> k"
proof (induction b n arbitrary: k rule: nat_digits.induct)
  case (1 b n)
  show ?case
  proof (cases "n < b")
    case True
    with 1 show ?thesis by (simp add: nat_digits.simps [of b n])
  next
    case False
    with 1 obtain j where k: "k = Suc j" and j: "0 < j"
      by (cases k; cases "k - 1") auto
    with 1 have "n div b < b ^ j"
      by (simp add: less_mult_imp_div_less mult.commute)
    with 1 False j have "length (nat_digits b (n div b)) \<le> j" by auto
    with False k 1 show ?thesis by (simp add: nat_digits.simps [of b n])
  qed
qed

section \<open>Characters\<close>

lemma of_char_digit_char: "d < 36 \<Longrightarrow> (of_char (digit_char d) :: nat) = (if d < 10 then 48 + d else 87 + d)"
  by (simp add: digit_char_def)

lemma char_digit_digit_char [simp]: "d < 36 \<Longrightarrow> char_digit (digit_char d) = Some d"
  by (simp add: char_digit_def of_char_digit_char Let_def)

lemma is_digit_digit_char [simp]: "d < 36 \<Longrightarrow> is_digit (digit_char d) \<longleftrightarrow> d < 10"
  by (simp add: is_digit_def of_char_digit_char Let_def)

lemma digit_char_neq:
  assumes "d < 36"
    and "(of_char c :: nat) < 48 \<or> 57 < (of_char c :: nat) \<and> (of_char c :: nat) < 97 \<or> 122 < (of_char c :: nat)"
  shows "digit_char d \<noteq> c"
  using assms of_char_digit_char [OF assms(1)] by (auto split: if_splits)

lemma digit_char_not_special [simp]:
  assumes "d < 36"
  shows "digit_char d \<noteq> CHR ''_''" "digit_char d \<noteq> CHR ''-''" "digit_char d \<noteq> CHR ''+''"
    "digit_char d \<noteq> CHR '':''" "digit_char d \<noteq> CHR ''{''" "digit_char d \<noteq> CHR ''}''"
    "digit_char d \<noteq> CHR ''.''" "digit_char d \<noteq> CHR ''X''"
  by (rule digit_char_neq [OF assms], simp)+

lemmas digit_char_not_special_sym [simp] = digit_char_not_special [symmetric]

lemma digit_char_not_space [simp]: "d < 36 \<Longrightarrow> \<not> py_space (digit_char d)"
  by (auto simp: py_space_def of_char_digit_char Let_def)

lemma digit_char_0 [simp]: "digit_char 0 = CHR ''0''"
  by code_simp

lemma strip_of_id: "\<lbrakk>s \<noteq> []; \<not> P (hd s); \<not> P (last s)\<rbrakk> \<Longrightarrow> strip_of P s = s"
proof -
  assume s: "s \<noteq> []" "\<not> P (hd s)" "\<not> P (last s)"
  then have "dropWhile P s = s" by (cases s) auto
  moreover have "dropWhile P (rev s) = rev s"
    using s by (cases s rule: rev_cases) auto
  ultimately show ?thesis by (simp add: strip_of_def)
qed

lemma strip_of_none: "\<forall>c\<in>set s. \<not> P c \<Longrightarrow> strip_of P s = s"
  by (cases "s = []") (auto simp: strip_of_id, simp add: strip_of_def)

lemma digit_group_digits:
  assumes "ds \<noteq> []" and "\<forall>d\<in>set ds. d < b" and "b \<le> 36"
  shows "digit_group b (map digit_char ds) = Some ds"
  using assms
proof (induction ds)
  case (Cons d ds)
  then have d: "d < 36" "d < b" by auto
  show ?case
  proof (cases ds)
    case Nil
    with d show ?thesis by simp
  next
    case (Cons e es)
    with Cons.prems have "e < 36" by auto
    with Cons Cons.IH Cons.prems d show ?thesis by simp
  qed
qed simp

section \<open>Round trips\<close>

lemma digits_36:
  "2 \<le> b \<Longrightarrow> b \<le> 36 \<Longrightarrow> d \<in> set (nat_digits b n) \<Longrightarrow> d < 36"
  using nat_digits_lt by fastforce

lemma py_str_nat_no_special:
  assumes "c \<in> set (py_str_nat n)"
  shows "is_digit c" "\<not> py_space c" "c \<noteq> CHR ''-''" "c \<noteq> CHR ''+''" "c \<noteq> CHR '':''"
proof -
  from assms obtain d where d: "d \<in> set (nat_digits 10 n)" "c = digit_char d"
    by (auto simp: py_str_nat_def)
  from d(1) have "d < 10" using nat_digits_lt [of 10 d n] by simp
  with d show "is_digit c" "\<not> py_space c" "c \<noteq> CHR ''-''" "c \<noteq> CHR ''+''" "c \<noteq> CHR '':''"
    by auto
qed

lemma py_str_nat_not_Nil [simp]: "py_str_nat n \<noteq> []"
  by (simp add: py_str_nat_def)

lemma py_str_not_Nil [simp]: "py_str i \<noteq> []"
  by (simp add: py_str_def)

lemma py_strip_str [simp]: "py_strip (py_str i) = py_str i"
proof -
  have "\<forall>c\<in>set (py_str i). \<not> py_space c"
    by (auto simp: py_str_def dest: py_str_nat_no_special(2)) (simp add: py_space_def)
  then show ?thesis by (simp add: py_strip_def strip_of_none)
qed

lemma py_str_nat_hd: "take 1 (py_str_nat n) \<noteq> ''-''" "take 1 (py_str_nat n) \<noteq> ''+''"
proof -
  obtain c cs where c: "py_str_nat n = c # cs" by (cases "py_str_nat n") auto
  then have "c \<noteq> CHR ''-'' \<and> c \<noteq> CHR ''+''"
    using py_str_nat_no_special(3,4) [of c n] by simp
  with c show "take 1 (py_str_nat n) \<noteq> ''-''" "take 1 (py_str_nat n) \<noteq> ''+''" by auto
qed

lemma digit_group_str_nat: "digit_group 10 (py_str_nat n) = Some (nat_digits 10 n)"
  unfolding py_str_nat_def by (rule digit_group_digits) (auto dest: nat_digits_lt [rotated])

lemma py_int_str: "\<bar>i\<bar> < 10 ^ 78 \<Longrightarrow> py_int 10 (py_str i) = Some i"
proof -
  assume "\<bar>i\<bar> < 10 ^ 78"
  then have "nat \<bar>i\<bar> < 10 ^ 78" by simp
  then have "length (nat_digits 10 (nat \<bar>i\<bar>)) \<le> 78"
    by (intro length_nat_digits_le) auto
  then have len: "length (nat_digits 10 (nat \<bar>i\<bar>)) \<le> 4300" by simp
  show ?thesis
    using len py_str_nat_hd [of "nat i"]
    unfolding py_int_def py_strip_str Let_def
    by (cases "i < 0") (simp_all add: py_str_def digit_group_str_nat)
qed

lemma py_str_inj: "py_str i = py_str j \<longleftrightarrow> i = j"
proof
  assume eq: "py_str i = py_str j"
  have nat_inj: "py_str_nat m = py_str_nat n \<Longrightarrow> m = n" for m n
  proof -
    assume "py_str_nat m = py_str_nat n"
    then have "digit_group 10 (py_str_nat m) = digit_group 10 (py_str_nat n)" by simp
    then have "nat_digits 10 m = nat_digits 10 n" by (simp add: digit_group_str_nat)
    then have "digits_val 10 (nat_digits 10 m) = digits_val 10 (nat_digits 10 n)" by simp
    then show "m = n" by simp
  qed
  have hd_nat: "hd (py_str_nat n) \<noteq> CHR ''-''" for n
    using py_str_nat_no_special(3) [of "hd (py_str_nat n)" n] by simp
  show "i = j"
  proof (cases "i < 0"; cases "j < 0")
    assume "i < 0" "\<not> j < 0"
    then have "hd (py_str_nat (nat j)) = CHR ''-''" using eq by (metis list.sel(1) py_str_def)
    with hd_nat show ?thesis by simp
  next
    assume "\<not> i < 0" "j < 0"
    then have "hd (py_str_nat (nat i)) = CHR ''-''" using eq by (metis list.sel(1) py_str_def)
    with hd_nat show ?thesis by simp
  qed (use eq in \<open>auto simp: py_str_def dest!: nat_inj\<close>)
qed simp

lemma py_remove_absent: "\<lbrakk>c \<in> set pat; c \<notin> set s\<rbrakk> \<Longrightarrow> py_remove pat s = s"
proof (induction pat s rule: py_remove.induct)
  case (1 pat s)
  show ?case
  proof (cases s)
    case (Cons x xs)
    have "set pat \<subseteq> set s" if "take (length pat) s = pat"
      using that by (metis set_take_subset)
    with 1 have "take (length pat) s \<noteq> pat" by blast
    with 1 Cons show ?thesis by (subst py_remove.simps) auto
  qed (simp add: py_remove.simps)
qed

definition uuid_digits :: "uuid \<Rightarrow> nat list" where
  "uuid_digits u = replicate (32 - length (nat_digits 16 (unat u))) 0 @ nat_digits 16 (unat u)"

lemma uuid_hex_digits: "uuid_hex u = map digit_char (uuid_digits u)"
  by (simp add: uuid_hex_def zpad_def uuid_digits_def)

lemma unat_uuid_lt: "unat (u :: uuid) < 16 ^ 32"
proof -
  have "unat u < 2 ^ 128" using unsigned_less [of u] by simp
  also have "(2 :: nat) ^ 128 = 16 ^ 32" by (simp flip: power_mult [of 2 4 32, simplified])
  finally show ?thesis .
qed

lemma length_uuid_digits [simp]: "length (uuid_digits u) = 32"
  using length_nat_digits_le [of 16 32 "unat u"] unat_uuid_lt [of u] by (simp add: uuid_digits_def)

lemma uuid_digits_lt: "d \<in> set (uuid_digits u) \<Longrightarrow> d < 16"
  using nat_digits_lt [of 16 d "unat u"] by (auto simp: uuid_digits_def)

lemma digits_val_uuid [simp]: "digits_val 16 (uuid_digits u) = unat u"
  by (simp add: uuid_digits_def digits_val_append)

lemma length_uuid_str [simp]: "length (uuid_str u) = 36"
  by (simp add: uuid_str_def Let_def uuid_hex_digits)

lemma uuid_hex_chars:
  assumes "c \<in> set (uuid_hex u)"
  shows "\<exists>d<16. c = digit_char d"
  using assms uuid_digits_lt by (auto simp: uuid_hex_digits)

lemma uuid_str_chars: "c \<in> set (uuid_str u) \<Longrightarrow> c = CHR ''-'' \<or> (\<exists>d<16. c = digit_char d)"
  using uuid_hex_chars by (fastforce simp: uuid_str_def Let_def dest: in_set_takeD in_set_dropD)

lemma uuid_str_filter: "filter (\<lambda>c. c \<noteq> CHR ''-'') (uuid_str u) = uuid_hex u"
proof -
  let ?h = "uuid_hex u"
  have "\<forall>c\<in>set ?h. c \<noteq> CHR ''-''"
    by (auto dest: uuid_hex_chars)
  then have "filter (\<lambda>c. c \<noteq> CHR ''-'') xs = xs" if "set xs \<subseteq> set ?h" for xs
    using that by (intro filter_True) auto
  then have *: "filter (\<lambda>c. c \<noteq> CHR ''-'') (take n (drop m ?h)) = take n (drop m ?h)"
    "filter (\<lambda>c. c \<noteq> CHR ''-'') (take n ?h) = take n ?h"
    "filter (\<lambda>c. c \<noteq> CHR ''-'') (drop m ?h) = drop m ?h" for m n
    by (meson in_set_dropD in_set_takeD subsetI)+
  have "filter (\<lambda>c. c \<noteq> CHR ''-'') (uuid_str u) =
      take 8 ?h @ take 4 (drop 8 ?h) @ take 4 (drop 12 ?h) @ take 4 (drop 16 ?h) @ drop 20 ?h"
    by (simp add: uuid_str_def Let_def *)
  also have "\<dots> = take 8 ?h @ take 4 (drop 8 ?h) @ take 4 (drop 12 ?h) @ drop 16 ?h"
    using append_take_drop_id [of 4 "drop 16 ?h"] by simp
  also have "\<dots> = take 8 ?h @ take 4 (drop 8 ?h) @ drop 12 ?h"
    using append_take_drop_id [of 4 "drop 12 ?h"] by simp
  also have "\<dots> = take 8 ?h @ drop 8 ?h"
    using append_take_drop_id [of 4 "drop 8 ?h"] by simp
  finally show ?thesis by simp
qed

lemma py_int_uuid_hex: "py_int 16 (uuid_hex u) = Some (uint u)"
proof -
  obtain a b ds where ds: "uuid_digits u = a # b # ds"
  proof -
    have "length (uuid_digits u) = Suc (Suc 30)" by simp
    then show ?thesis using that by (simp only: length_Suc_conv) blast
  qed
  then have ab: "a < 16" "b < 16" using uuid_digits_lt [of _ u] by auto
  have "digit_char b \<noteq> CHR ''x''" using of_char_digit_char [of b] ab by (auto split: if_splits)
  moreover have "py_strip (uuid_hex u) = uuid_hex u"
    unfolding py_strip_def by (intro strip_of_none) (auto dest: uuid_hex_chars)
  moreover have "digit_group 16 (uuid_hex u) = Some (uuid_digits u)"
    unfolding uuid_hex_digits
  proof (rule digit_group_digits)
    show "uuid_digits u \<noteq> []" using ds by simp
  qed (auto dest: uuid_digits_lt)
  ultimately show ?thesis
    using ab ds digits_val_uuid [of u] by (simp add: py_int_def Let_def uuid_hex_digits)
qed

lemma uuid_of_str [simp]: "uuid_of_string (uuid_str u) = Some u"
proof -
  have nocolon: "CHR '':'' \<notin> set (uuid_str u)"
    using uuid_str_chars [of "CHR '':''" u] by auto
  have nobrace: "\<forall>c\<in>set (uuid_str u). \<not> (c = CHR ''{'' \<or> c = CHR ''}'')"
    using uuid_str_chars [of _ u] by fastforce
  have len: "length (uuid_hex u) = 32" by (simp add: uuid_hex_digits)
  have "uint u < 2 ^ 128" using unsigned_less [of u] by simp
  with nocolon nobrace len show ?thesis
    by (simp add: uuid_of_string_def py_remove_absent [of "CHR '':''"] strip_of_none
        uuid_str_filter py_int_uuid_hex)
qed

lemma uuid_str_inj: "uuid_str u = uuid_str v \<longleftrightarrow> u = v"
  by (metis option.inject uuid_of_str)

end
