(* ===== verification/Errors.thy ===== *)
theory Errors
  imports PyText
begin

text \<open>
  The error taxonomy of \<open>mcw_common/errors.py\<close>, the exceptions of the libraries that the
  services let through or catch, and the translation of an exception into an HTTP
  problem document (\<open>mcw_common/http.py\<close>).
\<close>

datatype app_error =
    AppError
  | ValidationError
  | UnauthorizedError
  | NotFoundError
  | ConflictError
  | WalletInactiveError
  | InsufficientFundsError
  | IdempotencyConflictError
  | IdempotencyInProgressError
  | UpstreamUnavailableError

primrec status_code :: "app_error \<Rightarrow> nat" where
  "status_code AppError = 500"
| "status_code ValidationError = 422"
| "status_code UnauthorizedError = 401"
| "status_code NotFoundError = 404"
| "status_code ConflictError = 409"
| "status_code WalletInactiveError = 409"
| "status_code InsufficientFundsError = 409"
| "status_code IdempotencyConflictError = 409"
| "status_code IdempotencyInProgressError = 409"
| "status_code UpstreamUnavailableError = 503"

primrec error_code :: "app_error \<Rightarrow> string" where
  "error_code AppError = ''INTERNAL_ERROR''"
| "error_code ValidationError = ''VALIDATION_ERROR''"
| "error_code UnauthorizedError = ''UNAUTHORIZED''"
| "error_code NotFoundError = ''NOT_FOUND''"
| "error_code ConflictError = ''CONFLICT''"
| "error_code WalletInactiveError = ''WALLET_INACTIVE''"
| "error_code InsufficientFundsError = ''INSUFFICIENT_FUNDS''"
| "error_code IdempotencyConflictError = ''IDEMPOTENCY_KEY_REUSED''"
| "error_code IdempotencyInProgressError = ''IDEMPOTENT_REQUEST_IN_PROGRESS''"
| "error_code UpstreamUnavailableError = ''UPSTREAM_UNAVAILABLE''"

primrec error_title :: "app_error \<Rightarrow> string" where
  "error_title AppError = ''Internal server error''"
| "error_title ValidationError = ''Request validation failed''"
| "error_title UnauthorizedError = ''Missing or invalid credentials''"
| "error_title NotFoundError = ''Resource not found''"
| "error_title ConflictError = ''Conflicting state''"
| "error_title WalletInactiveError = ''Wallet is not active''"
| "error_title InsufficientFundsError = ''Insufficient available balance''"
| "error_title IdempotencyConflictError = ''Idempotency key already used with a different payload''"
| "error_title IdempotencyInProgressError = ''An identical request is currently being processed''"
| "error_title UpstreamUnavailableError = ''A downstream dependency is unavailable''"

text \<open>
  \<open>App k detail errors\<close> is a raised \<open>AppError\<close> of class \<open>k\<close>; the other constructors
  are exceptions of request validation (location, message and type of every error), of Python,
  of the database driver (\<open>IntegrityError\<close> names the violated
  constraint, \<open>DataError\<close> the column whose type the value does not fit), of the
  chain port, and of a library that the services only call (class name and text).
\<close>

datatype exn =
    App app_error string "payload list"
  | RequestValidationError "(string list \<times> string \<times> string) list"
  | IntegrityError string
  | DataError string
  | ProgrammingError string
  | KeyError string
  | ValueError string
  | TypeError string
  | AmountError string
  | UnsupportedAssetError string
  | AssertionError
  | LookupError string
  | DecimalOverflow
  | RpcUnavailableError string
  | TransactionRejectedError string
  | ForeignError string string

type_synonym 'a result = "exn + 'a"

text \<open>\<open>AppError.__init__\<close>: an empty detail falls back to the class title.\<close>

definition app_exn :: "app_error \<Rightarrow> string \<Rightarrow> payload list \<Rightarrow> exn" where
  "app_exn k detail errors = App k (if detail = [] then error_title k else detail) errors"

record problem_doc =
  p_type :: string
  p_title :: string
  p_status :: nat
  p_code :: string
  p_detail :: string
  p_correlation_id :: "string option"
  p_errors :: "payload list option"

definition problem :: "nat \<Rightarrow> string \<Rightarrow> string \<Rightarrow> string \<Rightarrow> payload list \<Rightarrow> string option \<Rightarrow> problem_doc" where
  "problem status code title detail errors cid =
     \<lparr>p_type = ''https://errors.mini-crypto-wallet.local/'' @ py_lower code,
      p_title = title, p_status = status, p_code = code, p_detail = detail,
      p_correlation_id = cid,
      p_errors = (if errors = [] then None else Some errors)\<rparr>"

text \<open>\<open>".".join(loc[1:]) or None\<close>\<close>

definition field_of :: "string list \<Rightarrow> jval" where
  "field_of loc = (let f = join_with ''.'' (drop 1 loc) in if f = [] then JNull else JStr f)"

text \<open>The three handlers of \<open>install_error_handlers\<close>.\<close>

definition error_response :: "string option \<Rightarrow> exn \<Rightarrow> problem_doc" where
  "error_response cid e =
     (case e of
        App k detail errors \<Rightarrow>
          problem (status_code k) (error_code k) (error_title k) detail errors cid
      | RequestValidationError errs \<Rightarrow>
          problem 422 ''VALIDATION_ERROR'' ''Request validation failed''
            ''One or more fields are invalid.''
            (map (\<lambda>(loc, msg, ty). [(''field'', field_of loc), (''message'', JStr msg), (''type'', JStr ty)]) errs) cid
      | _ \<Rightarrow>
          problem 500 ''INTERNAL_ERROR'' ''Internal server error''
            ''An unexpected error occurred. The correlation id identifies this request.'' [] cid)"

section \<open>Reading payload entries\<close>

text \<open>\<open>payload[k]\<close>: a missing key raises \<open>KeyError\<close>.\<close>

definition jreq :: "payload \<Rightarrow> string \<Rightarrow> jval result" where
  "jreq p k = (case jget p k of None \<Rightarrow> Inl (KeyError k) | Some v \<Rightarrow> Inr v)"

text \<open>A payload value inside an f-string.\<close>

fun jfmt :: "jval \<Rightarrow> string" where
  "jfmt JNull = ''None''"
| "jfmt (JBool b) = (if b then ''True'' else ''False'')"
| "jfmt (JInt i) = py_str i"
| "jfmt (JStr s) = s"

text \<open>\<open>int(value)\<close>\<close>

fun jint :: "jval \<Rightarrow> int result" where
  "jint JNull = Inl (TypeError ''int() argument must be a string or a number'')"
| "jint (JBool b) = Inr (if b then 1 else 0)"
| "jint (JInt i) = Inr i"
| "jint (JStr s) = (case py_int 10 s of None \<Rightarrow> Inl (ValueError s) | Some i \<Rightarrow> Inr i)"

text \<open>\<open>uuid.UUID(str(value))\<close>\<close>

definition juuid :: "jval \<Rightarrow> uuid result" where
  "juuid v = (case uuid_of_string (jfmt v) of
     None \<Rightarrow> Inl (ValueError ''badly formed hexadecimal UUID string'') | Some u \<Rightarrow> Inr u)"

text \<open>
  A payload value bound to a text column: the driver casts it to \<open>VARCHAR\<close>, so a number or
  a boolean becomes its SQL text and \<open>None\<close> becomes null.
\<close>

fun jtext :: "jval \<Rightarrow> string option" where
  "jtext JNull = None"
| "jtext (JStr s) = Some s"
| "jtext (JInt i) = Some (py_str i)"
| "jtext (JBool b) = Some (if b then ''true'' else ''false'')"

section \<open>Column types\<close>

text \<open>
  Assignment to a column: \<open>VARCHAR(n)\<close> drops spaces beyond the limit and rejects any other
  excess, \<open>NUMERIC(78,0)\<close>, \<open>BIGINT\<close> and \<open>INTEGER\<close> reject values out of range.
\<close>

definition varchar :: "nat \<Rightarrow> string \<Rightarrow> string \<Rightarrow> string result" where
  "varchar n col s =
     (if length s \<le> n then Inr s
      else if list_all (\<lambda>c. c = CHR '' '') (drop n s) then Inr (take n s)
      else Inl (DataError col))"

definition varchar_opt :: "nat \<Rightarrow> string \<Rightarrow> string option \<Rightarrow> string option result" where
  "varchar_opt n col v = (case v of None \<Rightarrow> Inr None | Some s \<Rightarrow> bindr (varchar n col s) (\<lambda>x. Inr (Some x)))"

definition numeric78 :: "string \<Rightarrow> int \<Rightarrow> int result" where
  "numeric78 col x = (if \<bar>x\<bar> < 10 ^ 78 then Inr x else Inl (DataError col))"

definition int8 :: "string \<Rightarrow> int \<Rightarrow> int result" where
  "int8 col x = (if - (2 ^ 63) \<le> x \<and> x < 2 ^ 63 then Inr x else Inl (DataError col))"

definition int4 :: "string \<Rightarrow> int \<Rightarrow> int result" where
  "int4 col x = (if - (2 ^ 31) \<le> x \<and> x < 2 ^ 31 then Inr x else Inl (DataError col))"

lemma varchar_length: "varchar n col s = Inr s' \<Longrightarrow> length s' \<le> n"
  by (auto simp: varchar_def split: if_splits)

lemma varchar_short [simp]: "length s \<le> n \<Longrightarrow> varchar n col s = Inr s"
  by (simp add: varchar_def)

lemma varchar_opt_None [simp]: "varchar_opt n col None = Inr None"
  by (simp add: varchar_opt_def)

lemma varchar_opt_short [simp]: "length s \<le> n \<Longrightarrow> varchar_opt n col (Some s) = Inr (Some s)"
  by (simp add: varchar_opt_def)

definition fits_opt :: "nat \<Rightarrow> string option \<Rightarrow> bool" where
  "fits_opt n v = (case v of None \<Rightarrow> True | Some s \<Rightarrow> length s \<le> n)"

lemma varchar_opt_fits: "fits_opt n v \<Longrightarrow> varchar_opt n col v = Inr v"
  by (auto simp: fits_opt_def split: option.splits)

lemma numeric78_eq [result_simps]: "numeric78 col x = Inr y \<longleftrightarrow> y = x \<and> \<bar>x\<bar> < 10 ^ 78"
  by (auto simp: numeric78_def)

lemma int8_eq [result_simps]: "int8 col x = Inr y \<longleftrightarrow> y = x \<and> - (2 ^ 63) \<le> x \<and> x < 2 ^ 63"
  by (auto simp: int8_def)

lemma int4_eq [result_simps]: "int4 col x = Inr y \<longleftrightarrow> y = x \<and> - (2 ^ 31) \<le> x \<and> x < 2 ^ 31"
  by (auto simp: int4_def)

lemma jreq_eq_Inr [result_simps]: "jreq p k = Inr v \<longleftrightarrow> jget p k = Some v"
  by (simp add: jreq_def split: option.split)

lemma juuid_str [simp]: "juuid (JStr (uuid_str u)) = Inr u"
  by (simp add: juuid_def)

lemma jint_str: "\<bar>i\<bar> < 10 ^ 78 \<Longrightarrow> jint (JStr (py_str i)) = Inr i"
  by (simp add: py_int_str)

text \<open>Client errors are answered with 4xx, everything unexpected with 500 and no detail.\<close>

lemma error_response_status:
  "p_status (error_response cid e) =
     (case e of App k _ _ \<Rightarrow> status_code k | RequestValidationError _ \<Rightarrow> 422 | _ \<Rightarrow> 500)"
  by (cases e) (simp_all add: error_response_def problem_def)

end
