(* ===== verification/Events.thy ===== *)
theory Events
  imports Errors
begin

text \<open>
  \<open>mcw_common/events.py\<close> and \<open>mcw_common/correlation.py\<close>: the event catalogue, the
  envelope, deterministic event identity and the correlation context. The name-based
  UUID (\<open>uuid.uuid5\<close> in the platform's namespace) is a parameter: a cryptographic digest
  of which the platform relies on distinct names having distinct ids.
\<close>

definition DEPOSIT_DETECTED :: string where "DEPOSIT_DETECTED = ''deposit.detected''"
definition DEPOSIT_CONFIRMED :: string where "DEPOSIT_CONFIRMED = ''deposit.confirmed''"
definition DEPOSIT_REORGED :: string where "DEPOSIT_REORGED = ''deposit.reorged''"
definition TX_BROADCASTED :: string where "TX_BROADCASTED = ''blockchain.transaction.broadcasted''"
definition TX_CONFIRMED :: string where "TX_CONFIRMED = ''blockchain.transaction.confirmed''"
definition TX_FAILED :: string where "TX_FAILED = ''blockchain.transaction.failed''"
definition TRANSFER_REQUESTED :: string where "TRANSFER_REQUESTED = ''transfer.requested''"

definition ALL_EVENTS :: "string list" where
  "ALL_EVENTS = [DEPOSIT_DETECTED, DEPOSIT_CONFIRMED, DEPOSIT_REORGED, TX_BROADCASTED,
     TX_CONFIRMED, TX_FAILED, TRANSFER_REQUESTED]"

definition STREAM_PREFIX :: string where "STREAM_PREFIX = ''mcw:events''"

definition stream_for :: "string \<Rightarrow> string" where
  "stream_for event_type = STREAM_PREFIX @ '':'' @ event_type"

record envelope =
  event_id :: string
  event_type :: string
  schema_version :: int
  occurred_at :: int
  producer :: string
  e_correlation_id :: string
  causation_id :: "string option"
  e_payload :: payload

text \<open>
  The environment of an operation: the clock (seconds), the correlation id bound in the
  current context, the identifiers the operation would mint next (\<open>uuid4 n\<close> is the \<open>n\<close>-th
  random UUID the service draws), and the name-based UUID.
\<close>

record env =
  now :: int
  cid :: "string option"
  minted_cid :: string
  uuid4 :: "nat \<Rightarrow> uuid"
  uuid5 :: "string \<Rightarrow> uuid"

definition get_correlation_id :: "env \<Rightarrow> string option" where
  "get_correlation_id \<Gamma> = cid \<Gamma>"

text \<open>\<open>new_correlation_id(prefix)\<close> for 16 hexadecimal digits of a random UUID.\<close>

definition new_correlation_id :: "string \<Rightarrow> uuid \<Rightarrow> string" where
  "new_correlation_id prefix u = prefix @ ''-'' @ take 16 (uuid_hex u)"

text \<open>\<open>correlation_scope\<close>: binds the given id, or a minted one when it is absent or empty.\<close>

definition correlation_scope :: "string option \<Rightarrow> env \<Rightarrow> env" where
  "correlation_scope c \<Gamma> =
     \<Gamma>\<lparr>cid := Some (case c of None \<Rightarrow> minted_cid \<Gamma> | Some v \<Rightarrow> if v = [] then minted_cid \<Gamma> else v)\<rparr>"

text \<open>\<open>a or b or c\<close> on optional strings: the first that is present and not empty.\<close>

definition first_nonempty :: "string option list \<Rightarrow> string \<Rightarrow> string" where
  "first_nonempty cs d = (case find (\<lambda>c. c \<noteq> None \<and> c \<noteq> Some []) cs of
     Some (Some v) \<Rightarrow> v | _ \<Rightarrow> d)"

definition event_name :: "string \<Rightarrow> string \<Rightarrow> string" where
  "event_name ty key = ty @ ''|'' @ key"

definition new_event ::
  "env \<Rightarrow> string \<Rightarrow> payload \<Rightarrow> string \<Rightarrow> string option \<Rightarrow> string option \<Rightarrow> string option \<Rightarrow> envelope" where
  "new_event \<Gamma> ty p pr dedupe_key correlation causation =
     \<lparr>event_id = uuid_str (case dedupe_key of
          None \<Rightarrow> uuid4 \<Gamma> 0
        | Some k \<Rightarrow> if k = [] then uuid4 \<Gamma> 0 else uuid5 \<Gamma> (event_name ty k)),
      event_type = ty, schema_version = 1, occurred_at = now \<Gamma>, producer = pr,
      e_correlation_id = first_nonempty [correlation, get_correlation_id \<Gamma>] (minted_cid \<Gamma>),
      causation_id = causation, e_payload = p\<rparr>"

text \<open>A concrete environment, for the evaluations below and in the other theories.\<close>

definition sample_env :: env where
  "sample_env = \<lparr>now = 0, cid = Some ''cid-0'', minted_cid = ''cid-1'', uuid4 = (\<lambda>n. of_nat (n + 1)),
     uuid5 = (\<lambda>s. of_nat (foldl (\<lambda>h c. (31 * h + of_char c) mod 1000000007) 7 s))\<rparr>"

lemmas event_type_defs = DEPOSIT_DETECTED_def DEPOSIT_CONFIRMED_def DEPOSIT_REORGED_def
  TX_BROADCASTED_def TX_CONFIRMED_def TX_FAILED_def TRANSFER_REQUESTED_def

lemma correlation_scope_sel [simp]:
  "uuid5 (correlation_scope c \<Gamma>) = uuid5 \<Gamma>" "uuid4 (correlation_scope c \<Gamma>) = uuid4 \<Gamma>" "now (correlation_scope c \<Gamma>) = now \<Gamma>"
  by (simp_all add: correlation_scope_def)

lemma ALL_EVENTS_distinct: "distinct ALL_EVENTS"
  by (simp add: ALL_EVENTS_def event_type_defs)

lemma stream_for_inj [simp]: "stream_for a = stream_for b \<longleftrightarrow> a = b"
  by (simp add: stream_for_def)

lemma new_event_sel [simp]:
  "event_type (new_event \<Gamma> ty p pr k c ca) = ty"
  "e_payload (new_event \<Gamma> ty p pr k c ca) = p"
  by (simp_all add: new_event_def)

text \<open>With a natural key the id depends on the type and the key only.\<close>

lemma new_event_id [simp]:
  "k \<noteq> [] \<Longrightarrow> event_id (new_event \<Gamma> ty p pr (Some k) c ca) = uuid_str (uuid5 \<Gamma> (event_name ty k))"
  by (simp add: new_event_def)

text \<open>No event type contains a bar, so type and key can be read off the hashed name.\<close>

lemma event_name_inj:
  assumes "ty \<in> set ALL_EVENTS" "ty' \<in> set ALL_EVENTS"
  shows "event_name ty k = event_name ty' k' \<longleftrightarrow> ty = ty' \<and> k = k'"
proof
  assume eq: "event_name ty k = event_name ty' k'"
  have nobar: "CHR ''|'' \<notin> set t" if "t \<in> set ALL_EVENTS" for t
    using that by (auto simp: ALL_EVENTS_def event_type_defs)
  have "takeWhile (\<lambda>c. c \<noteq> CHR ''|'') (event_name t k) = t" if "t \<in> set ALL_EVENTS" for t k
  proof -
    have "\<forall>c\<in>set t. c \<noteq> CHR ''|''" using nobar [OF that] by auto
    then show ?thesis by (simp add: event_name_def takeWhile_append2)
  qed
  with assms have "ty = ty'" by (metis eq)
  with eq show "ty = ty' \<and> k = k'" by (simp add: event_name_def)
qed simp

text \<open>
  Event identity is deterministic and faithful: two events of the catalogue
  built with natural keys carry the same id exactly when they have the same type and the
  same key, whatever their payload, time or producer, provided the name-based UUID does
  not collide on the two names.
\<close>

lemma event_identity:
  assumes "ty \<in> set ALL_EVENTS" and "ty' \<in> set ALL_EVENTS" and "k \<noteq> []" and "k' \<noteq> []"
    and "uuid5 \<Gamma>' = uuid5 \<Gamma>"
    and "uuid5 \<Gamma> (event_name ty k) = uuid5 \<Gamma> (event_name ty' k') \<Longrightarrow> event_name ty k = event_name ty' k'"
  shows "event_id (new_event \<Gamma> ty p pr (Some k) c ca) = event_id (new_event \<Gamma>' ty' p' pr' (Some k') c' ca')
    \<longleftrightarrow> ty = ty' \<and> k = k'"
  using assms event_name_inj [OF assms(1,2), of k k'] by (auto simp: uuid_str_inj)

end
