(* ===== verification/Outbox.thy ===== *)
theory Outbox
  imports Events "HOL-Library.Multiset"
begin

text \<open>
  \<open>mcw_common/outbox.py\<close>: the transactional outbox table, the insert that enqueues an
  event inside the caller's transaction, and the relay that publishes the rows. The bus is
  the relay's parameter \<open>publish\<close>: it returns its next state and the message of the
  exception it raised, if any, because a failed publication may still have reached the bus.
\<close>

record outbox_row =
  o_id :: nat
  o_event_id :: uuid
  o_event_type :: string
  o_envelope :: envelope
  o_correlation_id :: string
  o_published_at :: "int option"
  o_attempts :: nat
  o_next_attempt_at :: "int option"
  o_last_error :: "string option"

record outbox =
  o_rows :: "outbox_row list"
  o_seq :: nat

definition empty_outbox :: outbox where
  "empty_outbox = \<lparr>o_rows = [], o_seq = 0\<rparr>"

text \<open>
  \<open>enqueue_event\<close>: the values are coerced to the column types first, then the conflict on
  \<open>event_id\<close> is looked up. The sequence moves on a conflict too.
\<close>

definition enqueue_event :: "outbox \<Rightarrow> envelope \<Rightarrow> outbox result" where
  "enqueue_event ob ev =
     (case uuid_of_string (event_id ev) of
        None \<Rightarrow> Inl (DataError ''outbox.event_id'')
      | Some u \<Rightarrow>
          bindr (varchar 64 ''outbox.event_type'' (event_type ev)) (\<lambda>ty.
          bindr (varchar 64 ''outbox.correlation_id'' (e_correlation_id ev)) (\<lambda>c.
          if row_of o_event_id u (o_rows ob) \<noteq> None then Inr (ob\<lparr>o_seq := Suc (o_seq ob)\<rparr>)
          else Inr \<lparr>o_rows = o_rows ob @
                 [\<lparr>o_id = Suc (o_seq ob), o_event_id = u, o_event_type = ty,
                   o_envelope = ev, o_correlation_id = c,
                   o_published_at = None, o_attempts = 0, o_next_attempt_at = None,
                   o_last_error = None\<rparr>],
               o_seq = Suc (o_seq ob)\<rparr>)))"

section \<open>The relay\<close>

definition due :: "int \<Rightarrow> outbox_row \<Rightarrow> bool" where
  "due t r = (o_published_at r = None \<and>
     (case o_next_attempt_at r of None \<Rightarrow> True | Some n \<Rightarrow> n \<le> t))"

text \<open>\<open>_CLAIM_SQL\<close>: rows locked by another relay replica are skipped.\<close>

definition claim_rows :: "nat \<Rightarrow> nat list \<Rightarrow> int \<Rightarrow> outbox \<Rightarrow> outbox_row list" where
  "claim_rows limit locked t ob =
     take limit (sort_key o_id (filter (\<lambda>r. due t r \<and> o_id r \<notin> set locked) (o_rows ob)))"

definition mark_published :: "int \<Rightarrow> nat list \<Rightarrow> outbox_row list \<Rightarrow> outbox_row list" where
  "mark_published t ids rows =
     map (\<lambda>r. if o_id r \<in> set ids then r\<lparr>o_published_at := Some t, o_last_error := None\<rparr> else r) rows"

definition mark_failed :: "int \<Rightarrow> nat \<Rightarrow> string \<Rightarrow> nat \<Rightarrow> outbox_row list \<Rightarrow> outbox_row list" where
  "mark_failed t i error backoff rows =
     upd_of o_id i (\<lambda>r. r\<lparr>o_attempts := Suc (o_attempts r), o_last_error := Some error,
       o_next_attempt_at := Some (t + int backoff)\<rparr>) rows"

definition relay_backoff :: "nat \<Rightarrow> nat \<Rightarrow> nat" where
  "relay_backoff max_backoff attempts = min max_backoff (2 ^ min attempts 6)"

fun relay_loop ::
  "('b \<Rightarrow> envelope \<Rightarrow> 'b \<times> string option) \<Rightarrow> nat \<Rightarrow> int \<Rightarrow> outbox_row list \<Rightarrow>
   'b \<Rightarrow> outbox_row list \<Rightarrow> nat list \<Rightarrow> 'b \<times> outbox_row list \<times> nat list" where
  "relay_loop pub max_backoff t [] b rows succeeded = (b, rows, succeeded)"
| "relay_loop pub max_backoff t (row # todo) b rows succeeded =
     (case pub b (o_envelope row) of
        (b', None) \<Rightarrow> relay_loop pub max_backoff t todo b' rows (succeeded @ [o_id row])
      | (b', Some msg) \<Rightarrow>
          relay_loop pub max_backoff t todo b'
            (mark_failed t (o_id row) (take 1000 msg) (relay_backoff max_backoff (o_attempts row)) rows)
            succeeded)"

text \<open>\<open>OutboxRelay.run_once\<close>; the defaults of the constructor are a batch of 100 and 60 seconds.\<close>

definition relay_run_once ::
  "('b \<Rightarrow> envelope \<Rightarrow> 'b \<times> string option) \<Rightarrow> nat \<Rightarrow> nat \<Rightarrow> nat list \<Rightarrow> int \<Rightarrow> 'b \<Rightarrow> outbox \<Rightarrow> 'b \<times> outbox \<times> nat" where
  "relay_run_once pub batch_size max_backoff locked t b ob =
     (let claimed = claim_rows batch_size locked t ob in
      if claimed = [] then (b, ob, 0)
      else case relay_loop pub max_backoff t claimed b (o_rows ob) [] of
        (b', rows, succeeded) \<Rightarrow>
          (b', ob\<lparr>o_rows := (if succeeded = [] then rows else mark_published t succeeded rows)\<rparr>,
           length succeeded))"

definition backlog :: "outbox \<Rightarrow> nat" where
  "backlog ob = length (filter (\<lambda>r. o_published_at r = None) (o_rows ob))"

section \<open>Table invariant\<close>

definition outbox_ok :: "outbox \<Rightarrow> bool" where
  "outbox_ok ob = (uniq o_id (o_rows ob) \<and> uniq o_event_id (o_rows ob) \<and>
     (\<forall>r\<in>set (o_rows ob). o_id r \<le> o_seq ob \<and>
        uuid_of_string (event_id (o_envelope r)) = Some (o_event_id r)))"

lemma empty_outbox_ok [simp]: "outbox_ok empty_outbox"
  by (simp add: outbox_ok_def empty_outbox_def)

lemma enqueue_event_cases:
  assumes "enqueue_event ob ev = Inr ob'"
  obtains u where "uuid_of_string (event_id ev) = Some u" "row_of o_event_id u (o_rows ob) \<noteq> None"
      "o_rows ob' = o_rows ob" "o_seq ob' = Suc (o_seq ob)"
  | u r where "uuid_of_string (event_id ev) = Some u" "row_of o_event_id u (o_rows ob) = None"
      "o_rows ob' = o_rows ob @ [r]" "o_event_id r = u" "o_envelope r = ev" "o_id r = Suc (o_seq ob)"
      "o_published_at r = None" "o_seq ob' = Suc (o_seq ob)" "o_next_attempt_at r = None"
      "varchar 64 ''outbox.event_type'' (event_type ev) = Inr (o_event_type r)"
proof -
  from assms obtain u where u: "uuid_of_string (event_id ev) = Some u"
    by (auto simp: enqueue_event_def split: option.splits)
  from assms u obtain ty c where ty: "varchar 64 ''outbox.event_type'' (event_type ev) = Inr ty"
    and c: "varchar 64 ''outbox.correlation_id'' (e_correlation_id ev) = Inr c"
    by (auto simp: enqueue_event_def bindr_eq_Inr)
  show ?thesis
  proof (cases "row_of o_event_id u (o_rows ob) = None")
    case True
    let ?r = "\<lparr>o_id = Suc (o_seq ob), o_event_id = u, o_event_type = ty, o_envelope = ev,
       o_correlation_id = c, o_published_at = None, o_attempts = 0, o_next_attempt_at = None,
       o_last_error = None\<rparr>"
    from assms u ty c True have "ob' = \<lparr>o_rows = o_rows ob @ [?r], o_seq = Suc (o_seq ob)\<rparr>"
      by (simp add: enqueue_event_def)
    then show ?thesis using that(2) [of u ?r] u ty True by simp
  next
    case False
    with assms u ty c have "ob' = ob\<lparr>o_seq := Suc (o_seq ob)\<rparr>" by (simp add: enqueue_event_def)
    then show ?thesis using that(1) u False by simp
  qed
qed

lemma enqueue_event_ok [inv_rules]:
  assumes "enqueue_event ob ev = Inr ob'" and "outbox_ok ob"
  shows "outbox_ok ob'"
  using assms(1)
proof (cases rule: enqueue_event_cases)
  case (1 u)
  with assms(2) show ?thesis by (auto simp: outbox_ok_def)
next
  case (2 u r)
  with assms(2) have "row_of o_id (o_id r) (o_rows ob) = None"
    by (auto simp: outbox_ok_def row_of_None)
  with 2 assms(2) show ?thesis by (auto simp: outbox_ok_def uniq_snoc)
qed

text \<open>Enqueuing an id that is present leaves the table as it is; a new id is appended.\<close>

lemma enqueue_event_rows:
  assumes "enqueue_event ob ev = Inr ob'"
  shows "\<exists>xs. o_rows ob' = o_rows ob @ xs \<and> (\<forall>r\<in>set xs. o_envelope r = ev \<and> o_published_at r = None)"
  using assms by (cases rule: enqueue_event_cases) auto

text \<open>An event whose fields fit is always enqueued, and is in the table afterwards.\<close>

lemma enqueue_event_total:
  assumes "uuid_of_string (event_id ev) = Some u" "length (event_type ev) \<le> 64" "length (e_correlation_id ev) \<le> 64"
  shows "\<exists>ob'. enqueue_event ob ev = Inr ob' \<and> row_of o_event_id u (o_rows ob') \<noteq> None"
proof (cases "row_of o_event_id u (o_rows ob)")
  case None
  then show ?thesis using assms by (simp add: enqueue_event_def row_of_append)
next
  case (Some r)
  then show ?thesis using assms by (simp add: enqueue_event_def)
qed

text \<open>The part of a row that the relay never changes.\<close>

definition row_core :: "outbox_row \<Rightarrow> nat \<times> uuid \<times> string \<times> envelope" where
  "row_core r = (o_id r, o_event_id r, o_event_type r, o_envelope r)"

lemma map_core_mark_published [simp]: "map row_core (mark_published t ids rows) = map row_core rows"
  by (simp add: mark_published_def row_core_def)

lemma map_core_mark_failed [simp]: "map row_core (mark_failed t i e n rows) = map row_core rows"
  by (simp add: mark_failed_def row_core_def map_key_upd)

lemma map_core_relay_loop:
  "relay_loop pub mb t todo b rows ok = (b', rows', ok') \<Longrightarrow> map row_core rows' = map row_core rows"
  by (induction todo arbitrary: b rows ok) (auto split: prod.splits option.splits)

lemma relay_keeps_rows:
  "relay_run_once pub bs mb locked t b ob = (b', ob', n)
   \<Longrightarrow> map row_core (o_rows ob') = map row_core (o_rows ob) \<and> o_seq ob' = o_seq ob"
  by (auto simp: relay_run_once_def Let_def map_core_relay_loop split: if_splits prod.splits)

lemma outbox_ok_alt:
  "outbox_ok ob \<longleftrightarrow> (let cs = map row_core (o_rows ob) in
     distinct (map fst cs) \<and> distinct (map (\<lambda>c. fst (snd c)) cs) \<and>
     list_all (\<lambda>(i, u, ty, ev). i \<le> o_seq ob \<and> uuid_of_string (event_id ev) = Some u) cs)"
  by (simp add: outbox_ok_def uniq_def row_core_def list_all_iff comp_def)

lemma relay_ok [inv_rules]:
  "\<lbrakk>relay_run_once pub bs mb locked t b ob = (b', ob', n); outbox_ok ob\<rbrakk> \<Longrightarrow> outbox_ok ob'"
  by (drule relay_keeps_rows) (simp add: outbox_ok_alt)

section \<open>The outcome of every claimed row\<close>

lemma relay_backoff_bounds: "1 \<le> mb \<Longrightarrow> 1 \<le> relay_backoff mb n \<and> relay_backoff mb n \<le> mb"
  by (simp add: relay_backoff_def)

lemma claim_rows_props:
  assumes "uniq o_id (o_rows ob)"
  shows "distinct (map o_id (claim_rows limit locked t ob))"
    and "set (claim_rows limit locked t ob) \<subseteq> {r \<in> set (o_rows ob). due t r \<and> o_id r \<notin> set locked}"
    and "sorted (map o_id (claim_rows limit locked t ob))"
    and "length (claim_rows limit locked t ob) =
      min limit (length (filter (\<lambda>r. due t r \<and> o_id r \<notin> set locked) (o_rows ob)))"
proof -
  let ?P = "\<lambda>r. due t r \<and> o_id r \<notin> set locked"
  let ?xs = "sort_key o_id (filter ?P (o_rows ob))"
  have "distinct (map o_id (filter ?P (o_rows ob)))"
    using assms by (simp add: uniq_def distinct_map inj_on_def)
  moreover have "mset (map o_id ?xs) = mset (map o_id (filter ?P (o_rows ob)))" by simp
  ultimately have "distinct (map o_id ?xs)" using mset_eq_imp_distinct_iff by blast
  then show "distinct (map o_id (claim_rows limit locked t ob))"
    unfolding claim_rows_def take_map [symmetric] by (rule distinct_take)
  show "set (claim_rows limit locked t ob) \<subseteq> {r \<in> set (o_rows ob). ?P r}"
    using set_take_subset [of limit ?xs] by (auto simp: claim_rows_def)
  show "sorted (map o_id (claim_rows limit locked t ob))"
    unfolding claim_rows_def take_map [symmetric] by (simp add: sorted_wrt_take)
  show "length (claim_rows limit locked t ob) = min limit (length (filter ?P (o_rows ob)))"
    by (simp add: claim_rows_def)
qed

definition failed_row :: "int \<Rightarrow> string \<Rightarrow> nat \<Rightarrow> outbox_row \<Rightarrow> outbox_row" where
  "failed_row t error backoff r = r\<lparr>o_attempts := Suc (o_attempts r), o_last_error := Some error,
     o_next_attempt_at := Some (t + int backoff)\<rparr>"

lemma failed_row_sel [simp]:
  "o_id (failed_row t e n r) = o_id r" "o_published_at (failed_row t e n r) = o_published_at r"
  "o_attempts (failed_row t e n r) = Suc (o_attempts r)"
  "o_next_attempt_at (failed_row t e n r) = Some (t + int n)"
  "o_envelope (failed_row t e n r) = o_envelope r"
  by (simp_all add: failed_row_def)

lemma mark_failed_alt: "mark_failed t i e n rows = upd_of o_id i (failed_row t e n) rows"
  by (simp add: mark_failed_def failed_row_def [abs_def])

text \<open>A row is either recorded as published or rescheduled; rows outside the batch are untouched.\<close>

definition row_outcome :: "nat \<Rightarrow> int \<Rightarrow> nat list \<Rightarrow> outbox_row \<Rightarrow> outbox_row option \<Rightarrow> outbox_row option \<Rightarrow> bool" where
  "row_outcome mb t ok r before after =
     (if o_id r \<in> set ok then after = before
      else \<exists>e. after = map_option (failed_row t e (relay_backoff mb (o_attempts r))) before)"

lemma relay_loop_rows:
  assumes "relay_loop pub mb t todo b rows ok = (b', rows', ok')" and "distinct (map o_id todo)"
    and "set ok \<inter> o_id ` set todo = {}"
  shows "set ok \<subseteq> set ok'" and "set ok' \<subseteq> set ok \<union> o_id ` set todo"
    and "\<forall>r\<in>set todo. row_outcome mb t ok' r (row_of o_id (o_id r) rows) (row_of o_id (o_id r) rows')"
    and "\<forall>i. i \<notin> o_id ` set todo \<longrightarrow> row_of o_id i rows' = row_of o_id i rows"
proof -
  have "set ok \<subseteq> set ok' \<and> set ok' \<subseteq> set ok \<union> o_id ` set todo \<and>
    (\<forall>r\<in>set todo. row_outcome mb t ok' r (row_of o_id (o_id r) rows) (row_of o_id (o_id r) rows')) \<and>
    (\<forall>i. i \<notin> o_id ` set todo \<longrightarrow> row_of o_id i rows' = row_of o_id i rows)"
    using assms
  proof (induction todo arbitrary: b rows ok)
    case (Cons x todo)
    obtain b1 m where pub: "pub b (o_envelope x) = (b1, m)" by fastforce
    show ?case
    proof (cases m)
      case None
      with Cons.prems pub have "relay_loop pub mb t todo b1 rows (ok @ [o_id x]) = (b', rows', ok')" by simp
      note IH = Cons.IH [OF this]
      from Cons.prems have "distinct (map o_id todo)" "set (ok @ [o_id x]) \<inter> o_id ` set todo = {}" by auto
      note IH = IH [OF this]
      have "row_outcome mb t ok' x (row_of o_id (o_id x) rows) (row_of o_id (o_id x) rows')"
        using IH Cons.prems by (auto simp: row_outcome_def)
      with IH show ?thesis by auto
    next
      case (Some e)
      let ?f = "failed_row t (take 1000 e) (relay_backoff mb (o_attempts x))"
      from Some Cons.prems pub
      have "relay_loop pub mb t todo b1 (upd_of o_id (o_id x) ?f rows) ok = (b', rows', ok')"
        by (simp add: mark_failed_alt)
      note IH = Cons.IH [OF this]
      from Cons.prems have "distinct (map o_id todo)" "set ok \<inter> o_id ` set todo = {}" by auto
      note IH = IH [OF this]
      have other: "row_of o_id i (upd_of o_id (o_id x) ?f rows) = row_of o_id i rows" if "i \<noteq> o_id x" for i
        using that by (simp add: row_of_upd)
      have "row_outcome mb t ok' x (row_of o_id (o_id x) rows) (row_of o_id (o_id x) rows')"
        using IH Cons.prems by (auto simp: row_outcome_def row_of_upd)
      moreover have "row_outcome mb t ok' r (row_of o_id (o_id r) rows) (row_of o_id (o_id r) rows')"
        if "r \<in> set todo" for r
      proof -
        from that Cons.prems(2) have "o_id r \<noteq> o_id x" by (auto simp: image_iff)
        moreover have "row_outcome mb t ok' r (row_of o_id (o_id r) (upd_of o_id (o_id x) ?f rows))
            (row_of o_id (o_id r) rows')" using IH that by blast
        ultimately show ?thesis by (simp add: other)
      qed
      moreover have "row_of o_id i rows' = row_of o_id i rows" if "i \<notin> o_id ` set (x # todo)" for i
        using IH that other [of i] by simp
      moreover have "set ok \<subseteq> set ok'" "set ok' \<subseteq> set ok \<union> o_id ` set (x # todo)" using IH by auto
      ultimately show ?thesis by simp
    qed
  qed simp
  then show "set ok \<subseteq> set ok'" "set ok' \<subseteq> set ok \<union> o_id ` set todo"
    "\<forall>r\<in>set todo. row_outcome mb t ok' r (row_of o_id (o_id r) rows) (row_of o_id (o_id r) rows')"
    "\<forall>i. i \<notin> o_id ` set todo \<longrightarrow> row_of o_id i rows' = row_of o_id i rows"
    by blast+
qed

lemma row_of_mark_published:
  "row_of o_id i (mark_published t ids rows) =
     map_option (\<lambda>r. if i \<in> set ids then r\<lparr>o_published_at := Some t, o_last_error := None\<rparr> else r)
       (row_of o_id i rows)"
  unfolding mark_published_def by (induction rows) auto

lemma mark_published_Nil [simp]: "mark_published t [] rows = rows"
  by (simp add: mark_published_def)

lemma relay_loop_published:
  "relay_loop pub mb t todo b rows ok = (b', rows', ok')
   \<Longrightarrow> map_option o_published_at (row_of o_id i rows') = map_option o_published_at (row_of o_id i rows)"
proof (induction todo arbitrary: b rows ok)
  case (Cons x todo)
  have *: "map_option o_published_at (row_of o_id i (mark_failed t (o_id x) e n rows)) =
      map_option o_published_at (row_of o_id i rows)" for e n
    by (simp add: mark_failed_alt row_of_upd option.map_comp comp_def)
  from Cons show ?case by (auto simp: * split: prod.splits option.splits)
qed simp

lemma relay_run_once_eq:
  "relay_run_once pub bs mb locked t b ob =
     (case relay_loop pub mb t (claim_rows bs locked t ob) b (o_rows ob) [] of
        (b', rows, ok) \<Rightarrow> (b', ob\<lparr>o_rows := mark_published t ok rows\<rparr>, length ok))"
  by (auto simp: relay_run_once_def Let_def split: prod.splits)

text \<open>
  What one relay run does to the outbox, row by row: a row outside the claimed
  batch is unchanged; a claimed row is either marked published now, or it stays unpublished
  with one more attempt and is rescheduled by \<open>min max_backoff (2 ^ min attempts 6)\<close> seconds.
  No row is ever removed.
\<close>

lemma relay_row_outcome:
  assumes run: "relay_run_once pub bs mb locked t b ob = (b', ob', n)"
    and ok: "outbox_ok ob" and r: "row_of o_id i (o_rows ob) = Some r"
  shows "\<exists>r'. row_of o_id i (o_rows ob') = Some r' \<and> row_core r' = row_core r \<and>
     (if r \<in> set (claim_rows bs locked t ob)
      then o_published_at r' = Some t \<and> o_attempts r' = o_attempts r \<or>
           o_published_at r' = None \<and> o_attempts r' = Suc (o_attempts r) \<and>
           o_next_attempt_at r' = Some (t + int (min mb (2 ^ min (o_attempts r) 6)))
      else r' = r)"
proof -
  let ?cl = "claim_rows bs locked t ob"
  from ok have u: "uniq o_id (o_rows ob)" by (simp add: outbox_ok_def)
  note cl = claim_rows_props [OF u, of bs locked t]
  obtain rows ok1 where loop: "relay_loop pub mb t ?cl b (o_rows ob) [] = (b', rows, ok1)"
    and ob': "ob' = ob\<lparr>o_rows := mark_published t ok1 rows\<rparr>"
    using run by (auto simp: relay_run_once_eq split: prod.splits)
  note L = relay_loop_rows [OF loop cl(1)]
  from r have id: "o_id r = i" using row_of_Some by fastforce
  show ?thesis
  proof (cases "r \<in> set ?cl")
    case True
    with cl(2) have unpub: "o_published_at r = None" by (auto simp: due_def)
    from L(3) True have "row_outcome mb t ok1 r (Some r) (row_of o_id i rows)" using r id by auto
    then show ?thesis using True unpub id
      by (auto simp: row_outcome_def ob' row_of_mark_published row_core_def relay_backoff_def failed_row_def
          split: if_splits)
  next
    case False
    have "i \<notin> o_id ` set ?cl"
    proof
      assume "i \<in> o_id ` set ?cl"
      then obtain x where "x \<in> set ?cl" "o_id x = i" by blast
      with cl(2) have "row_of o_id i (o_rows ob) = Some x" using row_of_unique [OF u] by blast
      with r False \<open>x \<in> set ?cl\<close> show False by simp
    qed
    with L r have "row_of o_id i rows = Some r" "i \<notin> set ok1" by auto
    with False show ?thesis by (simp add: ob' row_of_mark_published)
  qed
qed

definition sample_outbox :: outbox where
  "sample_outbox =
     \<lparr>o_rows = [\<lparr>o_id = 1, o_event_id = 9, o_event_type = TRANSFER_REQUESTED,
        o_envelope = \<lparr>event_id = uuid_str 9, event_type = TRANSFER_REQUESTED, schema_version = 1,
          occurred_at = 0, producer = ''wallet-service'', e_correlation_id = ''cid-0'',
          causation_id = None, e_payload = []\<rparr>,
        o_correlation_id = ''cid-0'', o_published_at = None, o_attempts = 3,
        o_next_attempt_at = Some 4, o_last_error = None\<rparr>], o_seq = 1\<rparr>"

lemma sample_outbox_ok [simp]: "outbox_ok sample_outbox"
  by code_simp

section \<open>Interface to the bus\<close>

text \<open>
  What the relay relies on: a publication that returns has reached the bus, and the bus
  forgets nothing. \<open>delivered b ev\<close> says that the bus in state \<open>b\<close> carries \<open>ev\<close>.
\<close>

locale publisher =
  fixes publish :: "'b \<Rightarrow> envelope \<Rightarrow> 'b \<times> string option"
    and delivered :: "'b \<Rightarrow> envelope \<Rightarrow> bool"
  assumes publish_delivers: "publish b ev = (b', None) \<Longrightarrow> delivered b' ev"
    and publish_keeps: "\<lbrakk>publish b ev = (b', m); delivered b ev'\<rbrakk> \<Longrightarrow> delivered b' ev'"

text \<open>Every row that is marked published has reached the bus.\<close>

definition outbox_sound :: "(envelope \<Rightarrow> bool) \<Rightarrow> outbox \<Rightarrow> bool" where
  "outbox_sound seen ob = (\<forall>r\<in>set (o_rows ob). o_published_at r \<noteq> None \<longrightarrow> seen (o_envelope r))"

lemma outbox_sound_enqueue:
  "\<lbrakk>enqueue_event ob ev = Inr ob'; outbox_sound seen ob\<rbrakk> \<Longrightarrow> outbox_sound seen ob'"
  by (drule enqueue_event_rows) (auto simp: outbox_sound_def)

context publisher
begin

lemma loop_keeps:
  "\<lbrakk>relay_loop publish mb t todo b rows ok = (b', rows', ok'); delivered b ev\<rbrakk> \<Longrightarrow> delivered b' ev"
  by (induction todo arbitrary: b rows ok) (auto split: prod.splits option.splits dest: publish_keeps)

lemma loop_succeeded:
  "relay_loop publish mb t todo b rows ok = (b', rows', ok')
   \<Longrightarrow> \<forall>i\<in>set ok'. i \<in> set ok \<or> (\<exists>r\<in>set todo. o_id r = i \<and> delivered b' (o_envelope r))"
proof (induction todo arbitrary: b rows ok)
  case (Cons x todo)
  obtain b1 m where pub: "publish b (o_envelope x) = (b1, m)" by fastforce
  show ?case
  proof (cases m)
    case None
    then have "delivered b1 (o_envelope x)" using pub publish_delivers by simp
    moreover have "relay_loop publish mb t todo b1 rows (ok @ [o_id x]) = (b', rows', ok')"
      using Cons.prems pub None by simp
    ultimately show ?thesis using Cons.IH loop_keeps by fastforce
  next
    case (Some e)
    with Cons.prems pub Cons.IH show ?thesis by fastforce
  qed
qed simp

lemma relay_sound:
  assumes run: "relay_run_once publish bs mb locked t b ob = (b', ob', n)"
    and ok: "outbox_ok ob" and sound: "outbox_sound (delivered b) ob"
  shows "outbox_sound (delivered b') ob'"
  unfolding outbox_sound_def
proof (intro ballI impI)
  fix r' assume r': "r' \<in> set (o_rows ob')" and pub': "o_published_at r' \<noteq> None"
  let ?cl = "claim_rows bs locked t ob"
  from ok have u: "uniq o_id (o_rows ob)" by (simp add: outbox_ok_def)
  obtain rows ok1 where loop: "relay_loop publish mb t ?cl b (o_rows ob) [] = (b', rows, ok1)"
    and ob': "ob' = ob\<lparr>o_rows := mark_published t ok1 rows\<rparr>"
    using run by (auto simp: relay_run_once_eq split: prod.splits)
  have u': "uniq o_id (o_rows ob')" using relay_ok [OF run ok] by (simp add: outbox_ok_def)
  have "row_core ` set (o_rows ob') = row_core ` set (o_rows ob)"
    using arg_cong [OF conjunct1 [OF relay_keeps_rows [OF run]], of set] by simp
  with r' obtain r where r: "r \<in> set (o_rows ob)" and core: "row_core r' = row_core r" by (auto dest!: equalityD1 simp: image_subset_iff)
  then have id: "o_id r = o_id r'" and env: "o_envelope r' = o_envelope r" by (auto simp: row_core_def)
  have rof: "row_of o_id (o_id r') (o_rows ob) = Some r" using row_of_unique [OF u r] id by simp
  have rof': "row_of o_id (o_id r') (o_rows ob') = Some r'" using row_of_unique [OF u' r'] .
  show "delivered b' (o_envelope r')"
  proof (cases "o_id r' \<in> set ok1")
    case True
    with loop_succeeded [OF loop] obtain x where x: "x \<in> set ?cl" "o_id x = o_id r'" "delivered b' (o_envelope x)"
      by auto
    with claim_rows_props(2) [OF u] have "row_of o_id (o_id r') (o_rows ob) = Some x"
      using row_of_unique [OF u] by fastforce
    with rof x env show ?thesis by simp
  next
    case False
    have "row_of o_id (o_id r') rows = Some r'"
      using rof' False by (auto simp: ob' row_of_mark_published)
    then have "o_published_at r = o_published_at r'"
      using relay_loop_published [OF loop, of "o_id r'"] rof by simp
    then show ?thesis using sound r pub' env loop_keeps [OF loop] by (auto simp: outbox_sound_def)
  qed
qed

end

section \<open>Draining the backlog\<close>

definition reliable :: "('b \<Rightarrow> envelope \<Rightarrow> 'b \<times> string option) \<Rightarrow> bool" where
  "reliable pub = (\<forall>b ev. snd (pub b ev) = None)"

lemma relay_loop_reliable:
  "reliable pub \<Longrightarrow> relay_loop pub mb t todo b rows ok =
     (fold (\<lambda>r b. fst (pub b (o_envelope r))) todo b, rows, ok @ map o_id todo)"
proof (induction todo arbitrary: b ok)
  case (Cons x todo)
  obtain b1 where "pub b (o_envelope x) = (b1, None)"
    using Cons.prems unfolding reliable_def by (metis prod.collapse)
  with Cons show ?case by simp
qed simp

fun relay_rounds ::
  "('b \<Rightarrow> envelope \<Rightarrow> 'b \<times> string option) \<Rightarrow> nat \<Rightarrow> nat \<Rightarrow> int \<Rightarrow> nat \<Rightarrow> 'b \<Rightarrow> outbox \<Rightarrow> 'b \<times> outbox" where
  "relay_rounds pub bs mb t 0 b ob = (b, ob)"
| "relay_rounds pub bs mb t (Suc k) b ob =
     (case relay_run_once pub bs mb [] t b ob of (b', ob', _) \<Rightarrow> relay_rounds pub bs mb t k b' ob')"

definition all_due :: "int \<Rightarrow> outbox \<Rightarrow> bool" where
  "all_due t ob = (\<forall>r\<in>set (o_rows ob). o_published_at r = None \<longrightarrow> due t r)"

lemma relay_once_reliable:
  assumes "reliable pub" "outbox_ok ob" "all_due t ob" "relay_run_once pub bs mb [] t b ob = (b', ob', n)"
  shows "backlog ob' = backlog ob - bs" "all_due t ob'" "n = min bs (backlog ob)"
proof -
  let ?cl = "claim_rows bs [] t ob" and ?U = "\<lambda>r. o_published_at r = None"
  from assms(2) have u: "uniq o_id (o_rows ob)" by (simp add: outbox_ok_def)
  note cl = claim_rows_props [OF u, of bs "[]" t]
  have ob': "ob' = ob\<lparr>o_rows := mark_published t (map o_id ?cl) (o_rows ob)\<rparr>" and n: "n = length ?cl"
    using assms(4) by (auto simp: relay_run_once_eq relay_loop_reliable [OF assms(1)])
  have due: "due t r \<longleftrightarrow> ?U r" if "r \<in> set (o_rows ob)" for r
    using assms(3) that by (auto simp: all_due_def due_def)
  have "filter (due t) (o_rows ob) = filter ?U (o_rows ob)" by (rule filter_cong) (simp_all add: due)
  then have len: "length ?cl = min bs (backlog ob)" using cl(4) by (simp add: backlog_def)
  then show "n = min bs (backlog ob)" by (simp add: n)
  have inj: "r = x" if "r \<in> set (o_rows ob)" "x \<in> set (o_rows ob)" "o_id r = o_id x" for r x
    using u that row_of_unique by (metis option.inject)
  have dist: "distinct (o_rows ob)" using u by (simp add: uniq_def distinct_map)
  have in_cl: "o_id r \<in> o_id ` set ?cl \<longleftrightarrow> r \<in> set ?cl" if "r \<in> set (o_rows ob)" for r
    using inj that cl(2) by blast
  have "length (filter ?U (mark_published t (map o_id ?cl) rows)) =
      length (filter (\<lambda>r. ?U r \<and> r \<notin> set ?cl) rows)" if "set rows \<subseteq> set (o_rows ob)" for rows
    using that unfolding mark_published_def by (induction rows) (auto simp: in_cl)
  then have "backlog ob' = length (filter (\<lambda>r. ?U r \<and> r \<notin> set ?cl) (o_rows ob))"
    by (simp add: backlog_def ob')
  also have "\<dots> = card (set (filter (\<lambda>r. ?U r \<and> r \<notin> set ?cl) (o_rows ob)))"
    using dist by (simp only: distinct_card distinct_filter)
  also have "set (filter (\<lambda>r. ?U r \<and> r \<notin> set ?cl) (o_rows ob)) = {r \<in> set (o_rows ob). ?U r} - set ?cl"
    by auto
  also have "card ({r \<in> set (o_rows ob). ?U r} - set ?cl) = card {r \<in> set (o_rows ob). ?U r} - card (set ?cl)"
    using cl(2) due by (intro card_Diff_subset) auto
  also have "card (set ?cl) = length ?cl" using cl(1) by (metis distinct_card distinct_map)
  also have "card {r \<in> set (o_rows ob). ?U r} = backlog ob"
    using dist by (metis backlog_def distinct_card distinct_filter set_filter)
  finally show "backlog ob' = backlog ob - bs" using len by simp
  show "all_due t ob'"
    using assms(3) by (auto simp: all_due_def ob' mark_published_def due_def)
qed

lemma relay_rounds_backlog:
  "\<lbrakk>reliable pub; outbox_ok ob; all_due t ob\<rbrakk> \<Longrightarrow> backlog (snd (relay_rounds pub bs mb t k b ob)) = backlog ob - k * bs"
proof (induction k arbitrary: b ob)
  case (Suc k)
  obtain b' ob' n where run: "relay_run_once pub bs mb [] t b ob = (b', ob', n)"
    by (metis prod.collapse)
  note once = relay_once_reliable [OF Suc.prems run]
  from Suc.IH [OF Suc.prems(1) relay_ok [OF run Suc.prems(2)] once(2)] once(1) run
  show ?case by (simp add: diff_diff_left)
qed simp

text \<open>
  Nothing stays behind: with a bus that accepts every publication, once the
  backoff of every row has passed, \<open>k\<close> runs of the relay bring a backlog of at most
  \<open>k * batch_size\<close> events to zero.
\<close>

lemma relay_drains:
  assumes "reliable pub" and "outbox_ok ob" and "all_due t ob" and "backlog ob \<le> k * bs"
  shows "backlog (snd (relay_rounds pub bs mb t k b ob)) = 0"
  using relay_rounds_backlog [OF assms(1-3)] assms(4) by simp

end
