(* ===== verification/Assets.thy ===== *)
theory Assets
  imports Errors
begin

text \<open>\<open>mcw_common/assets.py\<close>: the static registry of supported assets.\<close>

record asset =
  symbol :: string
  decimals :: nat
  a_network :: string
  standard :: string
  contract_address :: string
  a_confirmations_required :: nat
  a_finality_depth :: nat

definition USDT :: asset where
  "USDT = \<lparr>symbol = ''USDT'', decimals = 6, a_network = ''BSC'', standard = ''BEP-20'',
     contract_address = ''0x55d398326f99059fF775485246999027B3197955'',
     a_confirmations_required = 3, a_finality_depth = 15\<rparr>"

definition ASSETS :: "(string \<times> asset) list" where
  "ASSETS = [(''USDT'', USDT)]"

text \<open>
  Only ASCII letters matter in \<open>symbol.upper()\<close>: no other character below code point 256
  has an upper case inside the registry's symbols.
\<close>

definition get_asset :: "string \<Rightarrow> asset result" where
  "get_asset s = (case map_of ASSETS (py_upper_ascii s) of
     None \<Rightarrow> Inl (UnsupportedAssetError s) | Some a \<Rightarrow> Inr a)"

definition is_supported :: "string \<Rightarrow> bool" where
  "is_supported s = (py_upper_ascii s \<in> set (map fst ASSETS))"

lemma get_asset_USDT [simp]: "get_asset ''USDT'' = Inr USDT"
  by code_simp

lemma get_asset_eq_Inr: "get_asset s = Inr a \<longleftrightarrow> py_upper_ascii s = ''USDT'' \<and> a = USDT"
  by (auto simp: get_asset_def ASSETS_def split: option.split)

lemma symbol_USDT [simp]: "symbol USDT = ''USDT''" "decimals USDT = 6"
  by (simp_all add: USDT_def)

lemma get_asset_symbol: "get_asset s = Inr a \<Longrightarrow> get_asset (symbol a) = Inr a"
  by (metis get_asset_USDT get_asset_eq_Inr symbol_USDT(1))

lemma is_supported_iff: "is_supported s \<longleftrightarrow> (\<exists>a. get_asset s = Inr a)"
  by (simp add: is_supported_def get_asset_eq_Inr ASSETS_def)

end
