(* ===== verification/Money.thy ===== *)
theory Money
  imports Errors
begin

text \<open>
  \<open>mcw_common/money.py\<close>: amounts as integers in the asset's smallest unit, parsed from
  and rendered to decimal text. Python's \<open>decimal\<close> is modelled as far as the parser uses
  it: construction from text, \<open>scaleb\<close> in a context of 80 digits (with the rounding that
  this context applies) and \<open>to_integral_value\<close>.
\<close>

section \<open>Decimal numbers\<close>

text \<open>Sign, coefficient and exponent of a finite number; the special values.\<close>

datatype decimal = Finite bool nat int | Infinite | NaN

definition dval :: "char \<Rightarrow> nat" where
  "dval c = of_char c - 48"

definition text_val :: "string \<Rightarrow> nat" where
  "text_val s = digits_val 10 (map dval s)"

text \<open>
  \<open>Decimal(text)\<close> for a text without an exponent part: white space around it and
  underscores are dropped; \<open>None\<close> stands for \<open>InvalidOperation\<close>.
\<close>

definition decimal_of_text :: "string \<Rightarrow> decimal option" where
  "decimal_of_text text =
     (let s = filter (\<lambda>c. c \<noteq> CHR ''_'') (py_strip text);
          neg = (take 1 s = ''-'');
          body = (if take 1 s = ''-'' \<or> take 1 s = ''+'' then drop 1 s else s);
          whole = takeWhile is_digit body;
          rest = dropWhile is_digit body;
          frac = (if take 1 rest = ''.'' then takeWhile is_digit (drop 1 rest) else []);
          tail = (if take 1 rest = ''.'' then dropWhile is_digit (drop 1 rest) else rest);
          word = py_lower body
      in if (whole \<noteq> [] \<or> frac \<noteq> []) \<and> tail = []
         then Some (Finite neg (text_val (whole @ frac)) (- int (length frac)))
         else if word = ''inf'' \<or> word = ''infinity'' then Some Infinite
         else if take 3 word = ''nan'' \<and> list_all is_digit (drop 3 word) then Some NaN
         else if take 4 word = ''snan'' \<and> list_all is_digit (drop 4 word) then Some NaN
         else None)"

definition PRECISION :: int where "PRECISION = 80"
definition EMAX :: int where "EMAX = 999999"
definition EMIN :: int where "EMIN = - 999999"

definition num_digits :: "nat \<Rightarrow> int" where
  "num_digits c = int (length (nat_digits 10 c))"

definition round_half_even :: "nat \<Rightarrow> nat \<Rightarrow> nat" where
  "round_half_even c k =
     (let q = c div 10 ^ k; r = c mod 10 ^ k
      in if 10 ^ k < 2 * r \<or> (10 ^ k = 2 * r \<and> odd q) then q + 1 else q)"

text \<open>
  Rounding a coefficient and exponent to the context (\<open>Decimal._fix\<close>): a coefficient of
  more than 80 digits loses its low digits; \<open>None\<close> stands for the \<open>Overflow\<close> trap.
\<close>

definition fix_context :: "nat \<Rightarrow> int \<Rightarrow> (nat \<times> int) option" where
  "fix_context c e =
     (let etiny = EMIN - PRECISION + 1; etop = EMAX - PRECISION + 1
      in if c = 0 then Some (0, min (max e etiny) EMAX)
         else let exp_min = num_digits c + e - PRECISION
              in if etop < exp_min then None
                 else let exp_min = max exp_min etiny
                      in if e < exp_min
                         then let q = round_half_even c (nat (exp_min - e));
                                  (q, exp_min) = (if PRECISION < num_digits q then (q div 10, exp_min + 1)
                                                  else (q, exp_min))
                              in if etop < exp_min then None else Some (q, exp_min)
                         else Some (c, e))"

definition is_integral :: "nat \<Rightarrow> int \<Rightarrow> bool" where
  "is_integral c e = (0 \<le> e \<or> 10 ^ nat (- e) dvd c)"

definition int_value :: "nat \<Rightarrow> int \<Rightarrow> nat" where
  "int_value c e = (if 0 \<le> e then c * 10 ^ nat e else c div 10 ^ nat (- e))"

section \<open>Parsing and formatting amounts\<close>

text \<open>
  The argument of \<open>parse_amount\<close>: a boolean, a float, an integer, or a text (a
  \<open>Decimal\<close> argument is read through its \<open>str\<close>).
\<close>

datatype amount_in = AmtBool bool | AmtFloat | AmtInt int | AmtText string

definition to_decimal :: "amount_in \<Rightarrow> decimal result" where
  "to_decimal value =
     (case value of
        AmtBool _ \<Rightarrow> Inl (AmountError ''amount must not be a boolean'')
      | AmtFloat \<Rightarrow> Inl (AmountError ''float amounts are not accepted; use a decimal string'')
      | AmtInt i \<Rightarrow> Inr (Finite (i < 0) (nat \<bar>i\<bar>) 0)
      | AmtText v \<Rightarrow>
          let text = py_strip v
          in if text = [] then Inl (AmountError ''amount must not be empty'')
             else if CHR ''e'' \<in> set (py_lower text)
             then Inl (AmountError ''scientific notation is not accepted'')
             else case decimal_of_text text of
                    None \<Rightarrow> Inl (AmountError (quoted v @ '' is not a valid decimal amount''))
                  | Some d \<Rightarrow> Inr d)"

definition parse_amount :: "amount_in \<Rightarrow> nat \<Rightarrow> bool \<Rightarrow> int result" where
  "parse_amount value decimals allow_zero =
     bindr (to_decimal value) (\<lambda>dec.
       case dec of
         Infinite \<Rightarrow> Inl (AmountError ''amount must be finite'')
       | NaN \<Rightarrow> Inl (AmountError ''amount must be finite'')
       | Finite neg c e \<Rightarrow>
           if neg \<and> c \<noteq> 0 then Inl (AmountError ''amount must not be negative'')
           else if c = 0 \<and> \<not> allow_zero then Inl (AmountError ''amount must be greater than zero'')
           else case fix_context c (e + int decimals) of
                  None \<Rightarrow> Inl DecimalOverflow
                | Some (c', e') \<Rightarrow>
                    if \<not> is_integral c' e'
                    then Inl (AmountError (''amount has more than '' @ py_str (int decimals) @ '' decimal places''))
                    else Inr (int (int_value c' e')))"

definition format_amount :: "int \<Rightarrow> nat \<Rightarrow> string" where
  "format_amount units decimals =
     (let sign = (if units < 0 then ''-'' else []);
          magnitude = nat \<bar>units\<bar>
      in if decimals = 0 then sign @ py_str_nat magnitude
         else sign @ py_str_nat (magnitude div 10 ^ decimals) @ ''.'' @
              zpad decimals (py_str_nat (magnitude mod 10 ^ decimals)))"

section \<open>Reading digits\<close>

lemma dval_digit_char [simp]: "d < 10 \<Longrightarrow> dval (digit_char d) = d"
  by (simp add: dval_def of_char_digit_char)

lemma text_val_append: "text_val (xs @ ys) = text_val xs * 10 ^ length ys + text_val ys"
  by (simp add: text_val_def digits_val_append)

lemma text_val_Nil [simp]: "text_val [] = 0"
  by (simp add: text_val_def)

lemma text_val_str_nat [simp]: "text_val (py_str_nat n) = n"
proof -
  have "map dval (map digit_char (nat_digits 10 n)) = nat_digits 10 n"
    by (simp add: map_idI nat_digits_lt [of 10])
  then show ?thesis by (simp add: text_val_def py_str_nat_def)
qed

lemma dval_0 [simp]: "dval CHR ''0'' = 0"
  by (simp add: dval_def)

lemma text_val_zpad [simp]: "text_val (zpad k s) = text_val s"
  by (simp add: zpad_def text_val_def digits_val_append)

lemma length_str_nat: "0 < k \<Longrightarrow> n < 10 ^ k \<Longrightarrow> length (py_str_nat n) \<le> k"
  by (simp add: py_str_nat_def length_nat_digits_le)

lemma length_zpad: "0 < k \<Longrightarrow> n < 10 ^ k \<Longrightarrow> length (zpad k (py_str_nat n)) = k"
  using length_str_nat [of k n] by (simp add: zpad_def)

lemma is_digit_0 [simp]: "is_digit CHR ''0''"
  by (simp add: is_digit_def)

lemma list_all_digit_str_nat [simp]: "list_all is_digit (py_str_nat n)"
  by (auto simp: list_all_iff dest: py_str_nat_no_special(1))

lemma list_all_digit_zpad [simp]: "list_all is_digit (zpad k (py_str_nat n))"
  using list_all_digit_str_nat [of n] by (auto simp: zpad_def list_all_iff)

lemma length_nat_digits_eq:
  assumes "2 \<le> b" and "b ^ k \<le> n" and "n < b ^ Suc k"
  shows "length (nat_digits b n) = Suc k"
proof (rule antisym)
  show "length (nat_digits b n) \<le> Suc k"
    using assms by (intro length_nat_digits_le) auto
  have "digits_val b (nat_digits b n) < b ^ length (nat_digits b n)"
    using nat_digits_lt [OF assms(1)] by (intro digits_val_lt [OF assms(1)]) blast
  then have "n < b ^ length (nat_digits b n)" using assms(1) by simp
  with assms(2) have "b ^ k < b ^ length (nat_digits b n)" by simp
  moreover have "1 < b" using assms(1) by simp
  ultimately have "k < length (nat_digits b n)" using power_less_imp_less_exp by blast
  then show "Suc k \<le> length (nat_digits b n)" by simp
qed

section \<open>Reading an amount text\<close>

text \<open>The plain decimal notation: digits, then optionally a point and more digits.\<close>

definition amount_text :: "string \<Rightarrow> string \<Rightarrow> string" where
  "amount_text w f = w @ (if f = [] then [] else CHR ''.'' # f)"

lemma digit_facts:
  assumes "is_digit c"
  shows "\<not> py_space c" "c \<noteq> CHR ''_''" "c \<noteq> CHR ''-''" "c \<noteq> CHR ''+''" "c \<noteq> CHR ''.''"
    "py_lower_char c = c" "c \<noteq> CHR ''e''"
  using assms by (auto simp: is_digit_def py_space_def py_lower_char_def Let_def)

lemma point_facts:
  "\<not> py_space CHR ''.''" "py_lower_char CHR ''.'' = CHR ''.''" "\<not> is_digit CHR ''.''"
  by (simp_all add: py_space_def py_lower_char_def is_digit_def)

lemma amount_text_chars:
  assumes "list_all is_digit w" "list_all is_digit f" "c \<in> set (amount_text w f)"
  shows "is_digit c \<or> c = CHR ''.''"
  using assms by (auto simp: amount_text_def list_all_iff split: if_splits)

lemma py_strip_amount_text:
  assumes "list_all is_digit w" "list_all is_digit f"
  shows "py_strip (amount_text w f) = amount_text w f"
  unfolding py_strip_def
  using amount_text_chars [OF assms] digit_facts(1) point_facts(1)
  by (intro strip_of_none) blast

lemma takeWhile_digits_append:
  assumes "list_all is_digit w"
  shows "takeWhile is_digit (w @ xs) = w @ takeWhile is_digit xs"
    and "dropWhile is_digit (w @ xs) = dropWhile is_digit xs"
  using assms by (induction w) auto

lemma decimal_of_amount_text:
  assumes w: "list_all is_digit w" "w \<noteq> []" and f: "list_all is_digit f"
  shows "decimal_of_text (amount_text w f) = Some (Finite False (text_val (w @ f)) (- int (length f)))"
proof -
  let ?s = "amount_text w f"
  have filt: "filter (\<lambda>c. c \<noteq> CHR ''_'') ?s = ?s"
    using amount_text_chars [OF w(1) f] digit_facts(2) by (intro filter_True) blast
  obtain c cs where c: "w = c # cs" using w(2) by (cases w) auto
  then have "c \<noteq> CHR ''-''" "c \<noteq> CHR ''+''" using w(1) digit_facts(3,4) [of c] by auto
  then have sign: "take 1 ?s \<noteq> ''-''" "take 1 ?s \<noteq> ''+''" by (auto simp: amount_text_def c)
  have f': "takeWhile is_digit f = f" "dropWhile is_digit f = []"
    using takeWhile_digits_append [OF f, of "[]"] by simp_all
  have w': "takeWhile is_digit w = w" "dropWhile is_digit w = []"
    using takeWhile_digits_append [OF w(1), of "[]"] by simp_all
  show ?thesis
    using sign w(2)
    unfolding decimal_of_text_def py_strip_amount_text [OF w(1) f] filt Let_def
    by (cases "f = []")
       (simp_all add: amount_text_def takeWhile_digits_append [OF w(1)] f' w' point_facts)
qed

lemma to_decimal_amount_text:
  assumes w: "list_all is_digit w" "w \<noteq> []" and f: "list_all is_digit f"
  shows "to_decimal (AmtText (amount_text w f)) =
    Inr (Finite False (text_val (w @ f)) (- int (length f)))"
proof -
  let ?s = "amount_text w f"
  have "py_lower_char c \<noteq> CHR ''e''" if "c \<in> set ?s" for c
    using amount_text_chars [OF w(1) f that] digit_facts(6,7) [of c] point_facts(2) by auto
  then have "CHR ''e'' \<notin> set (py_lower ?s)" unfolding py_lower_def by (metis imageE set_map)
  moreover have "?s \<noteq> []" using w(2) by (simp add: amount_text_def)
  ultimately show ?thesis
    using decimal_of_amount_text [OF assms]
    by (simp add: to_decimal_def py_strip_amount_text [OF w(1) f] Let_def)
qed

text \<open>Within 80 digits the context of the parser does not round.\<close>

lemma fix_context_exact:
  assumes "c < 10 ^ 80" "- 1000 \<le> e" "e \<le> 1000"
  shows "fix_context c e = Some (c, e)"
proof -
  have "length (nat_digits 10 c) \<le> 80"
    using assms(1) by (intro length_nat_digits_le) auto
  then have "num_digits c \<le> 80" by (simp add: num_digits_def)
  moreover from this have "\<not> e < max (num_digits c + e - 80) (- 1000078)"
    using assms(2) by simp
  ultimately show ?thesis
    using assms(2,3) by (simp add: fix_context_def PRECISION_def EMAX_def EMIN_def Let_def)
qed

lemma parse_amount_text:
  assumes w: "list_all is_digit w" "w \<noteq> []" and f: "list_all is_digit f"
    and v: "text_val (w @ f) < 10 ^ 80" and len: "length f \<le> 1000" "d \<le> 1000"
  shows "parse_amount (AmtText (amount_text w f)) d z =
    (let v = text_val (w @ f)
     in if v = 0 \<and> \<not> z then Inl (AmountError ''amount must be greater than zero'')
        else if length f \<le> d then Inr (int (v * 10 ^ (d - length f)))
        else if 10 ^ (length f - d) dvd v then Inr (int (v div 10 ^ (length f - d)))
        else Inl (AmountError (''amount has more than '' @ py_str (int d) @ '' decimal places'')))"
proof -
  have e: "nat (int d - int (length f)) = d - length f"
    "nat (int (length f) - int d) = length f - d" by simp_all
  have fx: "fix_context (text_val (w @ f)) (int d - int (length f)) =
      Some (text_val (w @ f), int d - int (length f))"
    using v len by (intro fix_context_exact) auto
  show ?thesis
    using fx
    by (auto simp: parse_amount_def to_decimal_amount_text [OF w f] is_integral_def int_value_def
        Let_def e not_le)
qed

lemma format_amount_text:
  assumes "0 \<le> u"
  shows "\<exists>w f. format_amount u d = amount_text w f \<and> list_all is_digit w \<and> w \<noteq> [] \<and>
    list_all is_digit f \<and> length f = d \<and> text_val (w @ f) = nat u"
proof (cases "d = 0")
  case True
  let ?w = "py_str_nat (nat u)"
  have "format_amount u d = amount_text ?w [] \<and> length [] = d \<and> text_val (?w @ []) = nat u"
    using assms True by (simp add: format_amount_def amount_text_def)
  moreover have "list_all is_digit []" by simp
  ultimately show ?thesis using list_all_digit_str_nat py_str_nat_not_Nil by blast
next
  case False
  let ?w = "py_str_nat (nat u div 10 ^ d)" and ?f = "zpad d (py_str_nat (nat u mod 10 ^ d))"
  have len: "length ?f = d" using False by (intro length_zpad) auto
  with False have "?f \<noteq> []" by auto
  with assms False len have "format_amount u d = amount_text ?w ?f \<and> text_val (?w @ ?f) = nat u"
    by (simp add: format_amount_def amount_text_def text_val_append Let_def div_mult_mod_eq)
  with len show ?thesis using list_all_digit_str_nat list_all_digit_zpad py_str_nat_not_Nil by blast
qed

lemma parse_format:
  assumes "0 \<le> u" "u < 10 ^ 80" "d \<le> 1000" "0 < u \<or> z"
  shows "parse_amount (AmtText (format_amount u d)) d z = Inr u"
proof -
  obtain w f where "format_amount u d = amount_text w f" "list_all is_digit w" "w \<noteq> []"
    "list_all is_digit f" "length f = d" "text_val (w @ f) = nat u"
    using format_amount_text [OF assms(1)] by blast
  moreover have "nat u < 10 ^ 80" using assms(2) by simp
  ultimately show ?thesis
    using assms by (auto simp: parse_amount_text Let_def)
qed

text \<open>Accepted amounts are exact.\<close>

lemma parse_amount_iff:
  assumes "list_all is_digit w" and "w \<noteq> []" and "list_all is_digit f"
    and "text_val (w @ f) < 10 ^ 80" and "length f \<le> 1000" and "d \<le> 1000"
  shows "parse_amount (AmtText (amount_text w f)) d False = Inr n \<longleftrightarrow>
    0 < n \<and> n * 10 ^ length f = int (text_val (w @ f)) * 10 ^ d"
proof -
  define v where "v = text_val (w @ f)"
  define p where "p = (10 :: int) ^ (length f - d)"
  have ten: "(10 :: int) ^ length f = 10 ^ d * p" if "\<not> length f \<le> d"
    unfolding p_def using that by (simp flip: power_add)
  show ?thesis
  proof (cases "length f \<le> d")
    case True
    then have "(10 :: int) ^ d = 10 ^ (d - length f) * 10 ^ length f" by (simp flip: power_add)
    then have "n * 10 ^ length f = int v * 10 ^ d \<longleftrightarrow> n = int v * 10 ^ (d - length f)" by simp
    with True show ?thesis
      unfolding parse_amount_text [OF assms] Let_def v_def [symmetric] by auto
  next
    case False
    have p: "0 < p" by (simp add: p_def)
    have dv: "10 ^ (length f - d) dvd v \<longleftrightarrow> p dvd int v"
      unfolding p_def by (metis of_nat_dvd_iff of_nat_numeral of_nat_power)
    have q: "int (v div 10 ^ (length f - d)) = int v div p" by (simp add: p_def zdiv_int)
    have "n * 10 ^ length f = int v * 10 ^ d \<longleftrightarrow> n * p = int v" using ten [OF False] by auto
    moreover have "n * p = int v \<Longrightarrow> p dvd int v" by (metis dvd_triv_right)
    ultimately show ?thesis
      using False p
      unfolding parse_amount_text [OF assms] Let_def v_def [symmetric] dv q
      by (auto simp: zdiv_eq_0_iff pos_imp_zdiv_pos_iff zero_less_mult_iff dest: zdvd_imp_le)
  qed
qed

section \<open>Properties\<close>

text \<open>
  Property C26. Rendering an amount and parsing it back is lossless: every positive number
  of smallest units below \<open>10^80\<close>, for every number of decimals the registry could
  hold, comes back as the same integer.
\<close>

theorem amount_round_trip:
  assumes "0 < u" and "u < 10 ^ 80" and "d \<le> 1000"
  shows "parse_amount (AmtText (format_amount u d)) d False = Inr u"
  using assms by (intro parse_format) auto

theorem amount_round_trip_witness:
  "parse_amount (AmtText (format_amount 250000000 6)) 6 False = Inr 250000000"
  by (rule amount_round_trip) simp_all

text \<open>
  An amount text \<open>w.f\<close> of at most 80 significant digits is read exactly or
  refused: no digit is dropped. The parser returns \<open>n\<close> smallest units only if \<open>n\<close> is
  the value of the text times \<open>10^d\<close>; it refuses zero, and refuses precision beyond the
  \<open>d\<close> decimals of the asset.
\<close>

lemma parse_amount_exact:
  assumes "list_all is_digit w" and "w \<noteq> []" and "list_all is_digit f"
    and "text_val (w @ f) < 10 ^ 80" and "length f \<le> 1000" and "d \<le> 1000"
  shows "parse_amount (AmtText (amount_text w f)) d False = Inr n \<longleftrightarrow>
    0 < n \<and> n * 10 ^ length f = int (text_val (w @ f)) * 10 ^ d"
  by (rule parse_amount_iff [OF assms])

text \<open>
  Beyond 80 significant digits the exactness is lost: the context of the
  parser rounds before the check for excess precision, so the text 1 followed by a point,
  79 zeros and a 1 is accepted as exactly one token.
\<close>

lemma parse_amount_rounds_beyond_precision:
  "parse_amount (AmtText (amount_text ''1'' (replicate 79 (CHR ''0'') @ ''1''))) 6 False = Inr 1000000"
proof -
  let ?f = "replicate 79 (CHR ''0'') @ ''1''"
  have v: "text_val (''1'' @ ?f) = 10 ^ 80 + 1"
    by (simp add: text_val_def digits_val_append digits_val_Cons dval_def)
  have digits: "list_all is_digit ''1''" "list_all is_digit ?f"
    by (simp_all add: is_digit_def list_all_iff)
  have nd: "num_digits (10 ^ 80 + 1) = 81"
    using length_nat_digits_eq [of 10 80 "10 ^ 80 + 1"] by (simp add: num_digits_def)
  have nd2: "num_digits (10 ^ 79) = 80"
    using length_nat_digits_eq [of 10 79 "10 ^ 79"] by (simp add: num_digits_def)
  have "round_half_even (10 ^ 80 + 1) 1 = 10 ^ 79"
    by (simp add: round_half_even_def Let_def)
  with nd nd2 have fx: "fix_context (10 ^ 80 + 1) (- 74) = Some (10 ^ 79, - 73)"
    by (simp add: fix_context_def PRECISION_def EMAX_def EMIN_def Let_def)
  show ?thesis
    unfolding parse_amount_def to_decimal_amount_text [OF digits(1) _ digits(2)]
    using v fx by (simp add: to_decimal_amount_text [OF digits(1) _ digits(2)] is_integral_def int_value_def)
qed

end
