(* ===== verification/WalletDb.thy ===== *)
theory WalletDb
  imports Outbox Assets Money
begin

text \<open>
  The schema of the wallet service (\<open>wallet_service/models.py\<close> and the initial migration):
  a record per table row, the database as a record of tables, and the column and check
  constraints as conditions on the rows that a statement writes.
\<close>

datatype entry_type = DEPOSIT | TRANSFER_DEBIT | TRANSFER_CREDIT | FEE | REVERSAL

datatype transfer_status = CREATED | PROCESSING | BROADCASTED | CONFIRMED | FAILED

definition OPEN :: "transfer_status list" where "OPEN = [CREATED, PROCESSING, BROADCASTED]"
definition TERMINAL :: "transfer_status list" where "TERMINAL = [CONFIRMED, FAILED]"

record user =
  u_id :: int
  u_name :: string
  u_email :: string
  u_status :: string
  u_created_at :: int

record wallet =
  w_id :: uuid
  w_user_id :: int
  w_network :: string
  w_asset :: string
  w_address :: string
  w_status :: string
  w_created_at :: int

record balance =
  b_user_id :: int
  b_asset :: string
  posted :: int
  reserved :: int
  version :: int
  b_updated_at :: int

record ledger_entry =
  l_id :: int
  entry_id :: uuid
  l_user_id :: int
  l_asset :: string
  l_amount :: int
  l_entry_type :: entry_type
  reference_type :: string
  reference_id :: string
  l_correlation_id :: "string option"
  l_created_at :: int

record transfer =
  t_id :: uuid
  t_idempotency_key :: string
  from_user_id :: int
  to_user_id :: int
  t_asset :: string
  t_network :: string
  t_amount :: int
  from_address :: string
  to_address :: string
  t_status :: transfer_status
  t_tx_hash :: "string option"
  failure_code :: "string option"
  failure_reason :: "string option"
  t_correlation_id :: "string option"
  t_created_at :: int
  t_updated_at :: int
  settled_at :: "int option"

text \<open>The body stored for a replay: the fields of \<open>TransferResponse\<close> in declaration order.\<close>

record idempotency_key =
  i_scope :: string
  i_key :: string
  request_hash :: string
  response_status :: int
  response_body :: payload
  resource_id :: "string option"
  i_created_at :: int

record processed_event =
  pe_consumer :: string
  pe_event_id :: uuid
  pe_event_type :: string
  processed_at :: int

record dead_letter_row =
  dr_id :: uuid
  dr_consumer :: string
  dr_event_id :: uuid
  dr_event_type :: string
  dr_envelope :: envelope
  dr_delivery_count :: int
  dr_error :: string
  dr_created_at :: int

text \<open>
  The tables with the sequences behind their serial keys. \<open>draws\<close> counts the random UUIDs
  drawn so far: \<open>uuid4 \<Gamma> (draws db)\<close> is the next one.
\<close>

record wdb =
  users :: "user list"
  user_seq :: int
  wallets :: "wallet list"
  balances :: "balance list"
  entries :: "ledger_entry list"
  entry_seq :: int
  transfers :: "transfer list"
  idem_keys :: "idempotency_key list"
  w_outbox :: outbox
  processed :: "processed_event list"
  dead_rows :: "dead_letter_row list"
  draws :: nat

definition empty_wdb :: wdb where
  "empty_wdb = \<lparr>users = [], user_seq = 0, wallets = [], balances = [], entries = [], entry_seq = 0,
     transfers = [], idem_keys = [], w_outbox = empty_outbox, processed = [], dead_rows = [], draws = 0\<rparr>"

section \<open>Keys of the unique constraints\<close>

definition bal_key :: "balance \<Rightarrow> int \<times> string" where
  "bal_key b = (b_user_id b, b_asset b)"

text \<open>\<open>uq_ledger_idempotency\<close>\<close>

definition entry_key :: "ledger_entry \<Rightarrow> int \<times> entry_type \<times> string \<times> string" where
  "entry_key e = (l_user_id e, l_entry_type e, reference_type e, reference_id e)"

text \<open>\<open>uq_wallet_user_network_asset\<close>\<close>

definition wallet_key :: "wallet \<Rightarrow> int \<times> string \<times> string" where
  "wallet_key w = (w_user_id w, w_network w, w_asset w)"

definition idem_key :: "idempotency_key \<Rightarrow> string \<times> string" where
  "idem_key i = (i_scope i, i_key i)"

definition pe_key :: "processed_event \<Rightarrow> string \<times> uuid" where
  "pe_key p = (pe_consumer p, pe_event_id p)"

definition user_exists :: "wdb \<Rightarrow> int \<Rightarrow> bool" where
  "user_exists db u = (row_of u_id u (users db) \<noteq> None)"

section \<open>Row constraints\<close>

text \<open>Column types of a balance row first, then its two checks.\<close>

definition check_balance :: "balance \<Rightarrow> balance result" where
  "check_balance b =
     bindr (numeric78 ''balances.posted'' (posted b)) (\<lambda>_.
     bindr (numeric78 ''balances.reserved'' (reserved b)) (\<lambda>_.
     bindr (int4 ''balances.version'' (version b)) (\<lambda>_.
       if reserved b < 0 then Inl (IntegrityError ''ck_balance_reserved_non_negative'')
       else if posted b - reserved b < 0 then Inl (IntegrityError ''ck_balance_available_non_negative'')
       else Inr b)))"

lemma check_balance_eq [result_simps]:
  "check_balance b = Inr b' \<longleftrightarrow> b' = b \<and> \<bar>posted b\<bar> < 10 ^ 78 \<and> \<bar>reserved b\<bar> < 10 ^ 78 \<and>
     - (2 ^ 31) \<le> version b \<and> version b < 2 ^ 31 \<and> 0 \<le> reserved b \<and> reserved b \<le> posted b"
  by (auto simp: check_balance_def result_simps simp del: power_numeral split: if_splits)

end
