(* ===== verification/Ledger.thy ===== *)
theory Ledger
  imports WalletDb "HOL-Library.Char_ord" "HOL-Library.List_Lexorder"
begin

text \<open>
  \<open>wallet_service/services/ledger.py\<close>, the posting engine: the only writer of ledger
  entries and of the posted balances, the holds, and the reconciliation report.
\<close>

record posting =
  p_user_id :: int
  p_amount :: int
  p_entry_type :: entry_type
  p_reference_type :: string
  p_reference_id :: string

text \<open>
  \<open>ensure_balance\<close>: insert with \<open>ON CONFLICT DO NOTHING\<close>. The asset is coerced to its column
  first, the foreign key is checked for an inserted row.
\<close>

definition ensure_balance :: "env \<Rightarrow> int \<Rightarrow> string \<Rightarrow> wdb \<Rightarrow> wdb result" where
  "ensure_balance \<Gamma> u a db =
     bindr (int8 ''balances.user_id'' u) (\<lambda>_.
     bindr (varchar 16 ''balances.asset'' a) (\<lambda>a'.
       if row_of bal_key (u, a') (balances db) \<noteq> None then Inr db
       else if \<not> user_exists db u then Inl (IntegrityError ''balances_user_id_fkey'')
       else Inr (db\<lparr>balances := balances db @
              [\<lparr>b_user_id = u, b_asset = a', posted = 0, reserved = 0, version = 0,
                b_updated_at = now \<Gamma>\<rparr>]\<rparr>)))"

definition read_balance :: "int \<Rightarrow> string \<Rightarrow> wdb \<Rightarrow> balance option" where
  "read_balance u a db = row_of bal_key (u, a) (balances db)"

text \<open>\<open>scalar_one\<close> raises when the select finds no row.\<close>

definition lock_balance :: "env \<Rightarrow> int \<Rightarrow> string \<Rightarrow> wdb \<Rightarrow> (wdb \<times> balance) result" where
  "lock_balance \<Gamma> u a db =
     bindr (ensure_balance \<Gamma> u a db) (\<lambda>db1.
       case read_balance u a db1 of
         None \<Rightarrow> Inl (LookupError ''NoResultFound'')
       | Some b \<Rightarrow> Inr (db1, b))"

definition moved :: "env \<Rightarrow> int \<Rightarrow> int \<Rightarrow> balance \<Rightarrow> balance" where
  "moved \<Gamma> dp dr b = b\<lparr>posted := posted b + dp, reserved := reserved b + dr,
     version := version b + 1, b_updated_at := now \<Gamma>\<rparr>"

text \<open>
  An \<open>UPDATE balances\<close> of one account: it moves \<open>posted\<close> and \<open>reserved\<close> and bumps the
  version; the result carries the row count.
\<close>

definition move_balance :: "env \<Rightarrow> int \<Rightarrow> string \<Rightarrow> int \<Rightarrow> int \<Rightarrow> wdb \<Rightarrow> (wdb \<times> nat) result" where
  "move_balance \<Gamma> u a dp dr db =
     (case read_balance u a db of
        None \<Rightarrow> Inr (db, 0)
      | Some b \<Rightarrow>
          bindr (check_balance (moved \<Gamma> dp dr b)) (\<lambda>_.
            Inr (db\<lparr>balances := upd_of bal_key (u, a) (moved \<Gamma> dp dr) (balances db)\<rparr>, 1)))"

text \<open>
  The insert of one entry, \<open>ON CONFLICT ON CONSTRAINT uq_ledger_idempotency DO NOTHING
  RETURNING id\<close>: \<open>None\<close> when the posting is already there.
\<close>

definition insert_entry :: "env \<Rightarrow> string \<Rightarrow> posting \<Rightarrow> wdb \<Rightarrow> (wdb \<times> int option) result" where
  "insert_entry \<Gamma> a p db =
     bindr (int8 ''ledger_entries.user_id'' (p_user_id p)) (\<lambda>_.
     bindr (varchar 16 ''ledger_entries.asset'' a) (\<lambda>a'.
     bindr (numeric78 ''ledger_entries.amount'' (p_amount p)) (\<lambda>_.
     bindr (varchar 24 ''ledger_entries.reference_type'' (p_reference_type p)) (\<lambda>rt.
     bindr (varchar 200 ''ledger_entries.reference_id'' (p_reference_id p)) (\<lambda>ri.
     bindr (varchar_opt 64 ''ledger_entries.correlation_id'' (get_correlation_id \<Gamma>)) (\<lambda>c.
     let uid = uuid4 \<Gamma> (draws db); seq = entry_seq db + 1;
         db1 = db\<lparr>draws := Suc (draws db), entry_seq := seq\<rparr>;
         e = \<lparr>l_id = seq, entry_id = uid, l_user_id = p_user_id p, l_asset = a',
              l_amount = p_amount p, l_entry_type = p_entry_type p, reference_type = rt,
              reference_id = ri, l_correlation_id = c, l_created_at = now \<Gamma>\<rparr>
     in if p_amount p = 0 then Inl (IntegrityError ''ck_ledger_amount_non_zero'')
        else if row_of entry_key (entry_key e) (entries db) \<noteq> None then Inr (db1, None)
        else if row_of entry_id uid (entries db) \<noteq> None then Inl (IntegrityError ''ledger_entries_entry_id_key'')
        else if \<not> user_exists db (p_user_id p) then Inl (IntegrityError ''ledger_entries_user_id_fkey'')
        else Inr (db1\<lparr>entries := entries db @ [e]\<rparr>, Some seq)))))))"

definition post_one :: "env \<Rightarrow> string \<Rightarrow> posting \<Rightarrow> wdb \<times> nat \<Rightarrow> (wdb \<times> nat) result" where
  "post_one \<Gamma> a p st =
     (case st of (db, written) \<Rightarrow>
        bindr (lock_balance \<Gamma> (p_user_id p) a db) (\<lambda>(db1, _).
        bindr (insert_entry \<Gamma> a p db1) (\<lambda>(db2, inserted).
          case inserted of
            None \<Rightarrow> Inr (db2, written)
          | Some _ \<Rightarrow> bindr (move_balance \<Gamma> (p_user_id p) a (p_amount p) 0 db2) (\<lambda>(db3, _). Inr (db3, Suc written)))))"

fun post_all :: "env \<Rightarrow> string \<Rightarrow> posting list \<Rightarrow> wdb \<times> nat \<Rightarrow> (wdb \<times> nat) result" where
  "post_all \<Gamma> a [] st = Inr st"
| "post_all \<Gamma> a (p # ps) st = bindr (post_one \<Gamma> a p st) (post_all \<Gamma> a ps)"

text \<open>\<open>post_entries\<close>: accounts are visited in ascending user id.\<close>

definition post_entries :: "env \<Rightarrow> string \<Rightarrow> posting list \<Rightarrow> wdb \<Rightarrow> (wdb \<times> nat) result" where
  "post_entries \<Gamma> a ps db = post_all \<Gamma> a (sort_key p_user_id ps) (db, 0)"

definition place_hold :: "env \<Rightarrow> int \<Rightarrow> string \<Rightarrow> int \<Rightarrow> wdb \<Rightarrow> (wdb \<times> bool) result" where
  "place_hold \<Gamma> u a amount db =
     (case read_balance u a db of
        None \<Rightarrow> Inr (db, False)
      | Some b \<Rightarrow>
          if posted b - reserved b < amount then Inr (db, False)
          else bindr (move_balance \<Gamma> u a 0 amount db) (\<lambda>(db', n). Inr (db', n = 1)))"

definition release_hold :: "env \<Rightarrow> int \<Rightarrow> string \<Rightarrow> int \<Rightarrow> wdb \<Rightarrow> wdb result" where
  "release_hold \<Gamma> u a amount db = bindr (move_balance \<Gamma> u a 0 (- amount) db) (\<lambda>(db', _). Inr db')"

section \<open>Reconciliation\<close>

record recon_row =
  rr_user_id :: int
  rr_asset :: string
  snapshot_posted :: string
  rr_ledger_sum :: string
  rr_reserved :: string
  consistent :: bool

definition ledger_sum :: "wdb \<Rightarrow> int \<Rightarrow> string \<Rightarrow> int" where
  "ledger_sum db u a = total (\<lambda>e. l_user_id e = u \<and> l_asset e = a) l_amount (entries db)"

definition recon_of :: "wdb \<Rightarrow> balance \<Rightarrow> recon_row" where
  "recon_of db b =
     (let s = ledger_sum db (b_user_id b) (b_asset b) in
      \<lparr>rr_user_id = b_user_id b, rr_asset = b_asset b, snapshot_posted = py_str (posted b),
       rr_ledger_sum = py_str s, rr_reserved = py_str (reserved b), consistent = (posted b = s)\<rparr>)"

text \<open>\<open>reconcile\<close>: every snapshot joined with the sum of its entries, ordered by user and asset.\<close>

definition reconcile :: "wdb \<Rightarrow> recon_row list" where
  "reconcile db = map (recon_of db)
     (sort_key b_user_id (sort_key b_asset (balances db)))"

section \<open>Invariant\<close>

text \<open>
  Unique keys, the two checks, every snapshot equal to the sum of its entries, and a
  snapshot for every account that has entries. Entries are numbered in insertion order.
\<close>

definition ledger_ok :: "wdb \<Rightarrow> bool" where
  "ledger_ok db =
     (uniq bal_key (balances db) \<and> uniq entry_key (entries db) \<and> uniq entry_id (entries db) \<and>
      sorted_wrt (<) (map l_id (entries db)) \<and> (\<forall>e\<in>set (entries db). l_id e \<le> entry_seq db) \<and>
      (\<forall>b\<in>set (balances db). 0 \<le> reserved b \<and> reserved b \<le> posted b \<and> length (b_asset b) \<le> 16 \<and>
         user_exists db (b_user_id b) \<and> posted b = ledger_sum db (b_user_id b) (b_asset b)) \<and>
      (\<forall>e\<in>set (entries db). l_amount e \<noteq> 0 \<and> row_of bal_key (l_user_id e, l_asset e) (balances db) \<noteq> None))"

lemma ledger_okD:
  assumes "ledger_ok db"
  shows "uniq bal_key (balances db)" "uniq entry_key (entries db)" "uniq entry_id (entries db)"
    "b \<in> set (balances db) \<Longrightarrow> 0 \<le> reserved b" "b \<in> set (balances db) \<Longrightarrow> reserved b \<le> posted b"
    "b \<in> set (balances db) \<Longrightarrow> length (b_asset b) \<le> 16" "b \<in> set (balances db) \<Longrightarrow> user_exists db (b_user_id b)"
    "b \<in> set (balances db) \<Longrightarrow> posted b = ledger_sum db (b_user_id b) (b_asset b)"
    "e \<in> set (entries db) \<Longrightarrow> row_of bal_key (l_user_id e, l_asset e) (balances db) \<noteq> None"
    "e \<in> set (entries db) \<Longrightarrow> l_amount e \<noteq> 0" "e \<in> set (entries db) \<Longrightarrow> l_id e \<le> entry_seq db"
    "sorted_wrt (<) (map l_id (entries db))"
  using assms unfolding ledger_ok_def by blast+

text \<open>The accounts a client of the ledger sees.\<close>

definition acct_posted :: "wdb \<Rightarrow> int \<times> string \<Rightarrow> int" where
  "acct_posted db k = (case row_of bal_key k (balances db) of None \<Rightarrow> 0 | Some b \<Rightarrow> posted b)"

definition acct_reserved :: "wdb \<Rightarrow> int \<times> string \<Rightarrow> int" where
  "acct_reserved db k = (case row_of bal_key k (balances db) of None \<Rightarrow> 0 | Some b \<Rightarrow> reserved b)"

definition has_acct :: "wdb \<Rightarrow> int \<times> string \<Rightarrow> bool" where
  "has_acct db k = (row_of bal_key k (balances db) \<noteq> None)"

lemma acct_posted_sum:
  assumes "ledger_ok db" shows "acct_posted db (u, a) = ledger_sum db u a"
proof (cases "row_of bal_key (u, a) (balances db)")
  case None
  then have "\<not> (l_user_id e = u \<and> l_asset e = a)" if "e \<in> set (entries db)" for e
    using ledger_okD(9) [OF assms that] by auto
  then have "ledger_sum db u a = 0"
    unfolding ledger_sum_def total_def by (metis (mono_tags, lifting) filter_False list.simps(8) sum_list.Nil)
  with None show ?thesis by (simp add: acct_posted_def)
next
  case (Some b)
  then have "b \<in> set (balances db)" "bal_key b = (u, a)" using row_of_Some by fast+
  with ledger_okD(8) [OF assms] Some show ?thesis by (auto simp: acct_posted_def bal_key_def)
qed

lemma acct_bounds: "ledger_ok db \<Longrightarrow> 0 \<le> acct_reserved db k \<and> acct_reserved db k \<le> acct_posted db k"
  by (auto simp: acct_reserved_def acct_posted_def split: option.split
      dest!: row_of_Some intro: ledger_okD(4,5))

text \<open>The ledger operations leave every other table alone.\<close>

definition ledger_frame :: "wdb \<Rightarrow> wdb \<Rightarrow> bool" where
  "ledger_frame db db' = (db' = db\<lparr>balances := balances db', entries := entries db',
     entry_seq := entry_seq db', draws := draws db'\<rparr>)"

lemma ledger_frame_refl [simp]: "ledger_frame db db"
  by (simp add: ledger_frame_def)

lemma ledger_frameI [simp]:
  "ledger_frame db (db\<lparr>balances := x\<rparr>)" "ledger_frame db (db\<lparr>entries := y, entry_seq := s, draws := n\<rparr>)"
  by (simp_all add: ledger_frame_def)

lemma ledger_frame_sel:
  assumes "ledger_frame db db'"
  shows "users db' = users db" "user_seq db' = user_seq db" "wallets db' = wallets db"
    "transfers db' = transfers db" "idem_keys db' = idem_keys db" "w_outbox db' = w_outbox db"
    "processed db' = processed db" "dead_rows db' = dead_rows db"
  by (subst assms [unfolded ledger_frame_def], simp)+

lemma ledger_frame_trans:
  assumes "ledger_frame a b" "ledger_frame b c" shows "ledger_frame a c"
  using ledger_frame_sel [OF assms(1)] ledger_frame_sel [OF assms(2)]
  by (simp add: ledger_frame_def)

lemma user_exists_frame: "ledger_frame db db' \<Longrightarrow> user_exists db' = user_exists db"
  by (simp add: user_exists_def fun_eq_iff ledger_frame_sel)

section \<open>What each operation does\<close>

lemma acct_append [simp]:
  "row_of bal_key k (balances db) = None \<Longrightarrow> bal_key b = k \<Longrightarrow> posted b = 0 \<Longrightarrow> reserved b = 0 \<Longrightarrow>
   acct_posted (db\<lparr>balances := balances db @ [b]\<rparr>) = acct_posted db \<and>
   acct_reserved (db\<lparr>balances := balances db @ [b]\<rparr>) = acct_reserved db"
  by (auto simp: acct_posted_def acct_reserved_def fun_eq_iff row_of_append split: option.split)

lemma ensure_balance_spec:
  assumes ok: "ledger_ok db" and run: "ensure_balance \<Gamma> u a db = Inr db'"
  shows "ledger_ok db'" and "ledger_frame db db'" and "acct_posted db' = acct_posted db"
    and "acct_reserved db' = acct_reserved db" and "entries db' = entries db"
    and "entry_seq db' = entry_seq db" and "draws db' = draws db"
    and "length a \<le> 16 \<Longrightarrow> has_acct db' (u, a)" and "has_acct db k \<Longrightarrow> has_acct db' k"
proof -
  from run obtain a' where a': "varchar 16 ''balances.asset'' a = Inr a'"
    and rest: "(if row_of bal_key (u, a') (balances db) \<noteq> None then Inr db
       else if \<not> user_exists db u then Inl (IntegrityError ''balances_user_id_fkey'')
       else Inr (db\<lparr>balances := balances db @
              [\<lparr>b_user_id = u, b_asset = a', posted = 0, reserved = 0, version = 0,
                b_updated_at = now \<Gamma>\<rparr>]\<rparr>)) = Inr db'"
    by (auto simp: ensure_balance_def bindr_eq_Inr)
  have len: "length a' \<le> 16" using a' by (auto simp: varchar_def split: if_splits)
  let ?b = "\<lparr>b_user_id = u, b_asset = a', posted = 0, reserved = 0, version = 0, b_updated_at = now \<Gamma>\<rparr>"
  consider (old) "row_of bal_key (u, a') (balances db) \<noteq> None" "db' = db"
    | (new) "row_of bal_key (u, a') (balances db) = None" "user_exists db u" "db' = db\<lparr>balances := balances db @ [?b]\<rparr>"
    using rest by (auto split: if_splits)
  note cs = this
  have sum: "ledger_sum db' = ledger_sum db" using cs by cases (auto simp: ledger_sum_def fun_eq_iff)
  show "ledger_ok db'"
    using cs
  proof cases
    case new
    have "ledger_sum db u a' = 0" using acct_posted_sum [OF ok, of u a'] new by (simp add: acct_posted_def)
    moreover have "user_exists db' = user_exists db" using new by (simp add: user_exists_def fun_eq_iff)
    ultimately show ?thesis
      using ok new len sum
      by (auto simp: ledger_ok_def uniq_snoc bal_key_def row_of_append split: option.split)
  qed (use ok in simp)
  show "ledger_frame db db'" using cs by cases simp_all
  show "acct_posted db' = acct_posted db" "acct_reserved db' = acct_reserved db"
    using cs by (cases, simp_all add: bal_key_def)+
  show "entries db' = entries db" "entry_seq db' = entry_seq db" "draws db' = draws db"
    using cs by (cases, simp_all)+
  show "has_acct db' (u, a)" if "length a \<le> 16"
  proof -
    have "a' = a" using a' that by simp
    with cs show ?thesis by cases (auto simp: has_acct_def row_of_append bal_key_def split: option.split)
  qed
  show "has_acct db' k" if "has_acct db k"
    using cs that by cases (auto simp: has_acct_def row_of_append split: option.split)
qed

lemma lock_balance_spec:
  assumes ok: "ledger_ok db" and run: "lock_balance \<Gamma> u a db = Inr (db', b)"
  shows "ledger_ok db'" and "ledger_frame db db'" and "acct_posted db' = acct_posted db"
    and "acct_reserved db' = acct_reserved db" and "entries db' = entries db"
    and "entry_seq db' = entry_seq db" and "draws db' = draws db"
    and "length a \<le> 16" and "row_of bal_key (u, a) (balances db') = Some b" and "has_acct db k \<Longrightarrow> has_acct db' k"
proof -
  from run have e: "ensure_balance \<Gamma> u a db = Inr db'" and r: "read_balance u a db' = Some b"
    by (auto simp: lock_balance_def bindr_eq_Inr split: option.splits)
  note E = ensure_balance_spec [OF ok e]
  show "ledger_ok db'" "ledger_frame db db'" "acct_posted db' = acct_posted db" "acct_reserved db' = acct_reserved db"
    "entries db' = entries db" "entry_seq db' = entry_seq db" "draws db' = draws db"
    "has_acct db k \<Longrightarrow> has_acct db' k"
    using E by simp_all
  show b: "row_of bal_key (u, a) (balances db') = Some b" using r by (simp add: read_balance_def)
  then have "b \<in> set (balances db')" "b_asset b = a" using row_of_Some by (fastforce simp: bal_key_def)+
  then show "length a \<le> 16" using ledger_okD(6) [OF E(1)] by auto
qed

lemma bal_key_moved [simp]: "bal_key (moved \<Gamma> dp dr b) = bal_key b"
  by (simp add: bal_key_def moved_def)

lemma moved_sel [simp]:
  "posted (moved \<Gamma> dp dr b) = posted b + dp" "reserved (moved \<Gamma> dp dr b) = reserved b + dr"
  "b_asset (moved \<Gamma> dp dr b) = b_asset b" "b_user_id (moved \<Gamma> dp dr b) = b_user_id b"
  by (simp_all add: moved_def)

lemma move_balance_cases:
  assumes "move_balance \<Gamma> u a dp dr db = Inr (db', n)"
  obtains (absent) "row_of bal_key (u, a) (balances db) = None" "db' = db" "n = 0"
  | (found) b where "row_of bal_key (u, a) (balances db) = Some b" "n = 1"
      "db' = db\<lparr>balances := upd_of bal_key (u, a) (moved \<Gamma> dp dr) (balances db)\<rparr>"
      "0 \<le> reserved b + dr" "reserved b + dr \<le> posted b + dp"
  using assms
  by (auto simp: move_balance_def read_balance_def bindr_eq_Inr check_balance_eq simp del: power_numeral split: option.splits)

lemma acct_upd:
  assumes "row_of bal_key k (balances db) \<noteq> None"
    and "db' = db\<lparr>balances := upd_of bal_key k (moved \<Gamma> dp dr) (balances db)\<rparr>"
  shows "acct_posted db' = (acct_posted db)(k := acct_posted db k + dp)"
    and "acct_reserved db' = (acct_reserved db)(k := acct_reserved db k + dr)"
    and "has_acct db' = has_acct db"
  using assms
  by (auto simp: acct_posted_def acct_reserved_def has_acct_def fun_eq_iff row_of_upd split: option.split)


lemma insert_entry_cases:
  assumes "insert_entry \<Gamma> a p db = Inr (db', i)"
  obtains (dup) "i = None" "ledger_frame db db'" "balances db' = balances db" "entries db' = entries db"
      "entry_seq db' = entry_seq db + 1" "draws db' = Suc (draws db)"
      "\<exists>e\<in>set (entries db). l_user_id e = p_user_id p \<and> l_entry_type e = p_entry_type p \<and>
         varchar 24 ''ledger_entries.reference_type'' (p_reference_type p) = Inr (reference_type e) \<and>
         varchar 200 ''ledger_entries.reference_id'' (p_reference_id p) = Inr (reference_id e)"
  | (fresh) e where "i = Some (entry_seq db + 1)"
      "db' = db\<lparr>draws := Suc (draws db), entry_seq := entry_seq db + 1, entries := entries db @ [e]\<rparr>"
      "l_user_id e = p_user_id p" "varchar 16 ''ledger_entries.asset'' a = Inr (l_asset e)" "l_amount e = p_amount p"
      "l_entry_type e = p_entry_type p"
      "varchar 24 ''ledger_entries.reference_type'' (p_reference_type p) = Inr (reference_type e)"
      "varchar 200 ''ledger_entries.reference_id'' (p_reference_id p) = Inr (reference_id e)"
      "l_id e = entry_seq db + 1" "entry_id e = uuid4 \<Gamma> (draws db)" "p_amount p \<noteq> 0"
      "row_of entry_key (entry_key e) (entries db) = None" "row_of entry_id (entry_id e) (entries db) = None"
      "user_exists db (p_user_id p)"
proof -
  from assms obtain a' rt ri c where
      a': "varchar 16 ''ledger_entries.asset'' a = Inr a'"
    and rt: "varchar 24 ''ledger_entries.reference_type'' (p_reference_type p) = Inr rt"
    and ri: "varchar 200 ''ledger_entries.reference_id'' (p_reference_id p) = Inr ri"
    and c: "varchar_opt 64 ''ledger_entries.correlation_id'' (get_correlation_id \<Gamma>) = Inr c"
    and n: "numeric78 ''ledger_entries.amount'' (p_amount p) = Inr (p_amount p)"
    and u: "int8 ''ledger_entries.user_id'' (p_user_id p) = Inr (p_user_id p)"
    unfolding insert_entry_def bindr_eq_Inr numeric78_eq int8_eq by blast
  let ?e = "\<lparr>l_id = entry_seq db + 1, entry_id = uuid4 \<Gamma> (draws db), l_user_id = p_user_id p, l_asset = a',
              l_amount = p_amount p, l_entry_type = p_entry_type p, reference_type = rt,
              reference_id = ri, l_correlation_id = c, l_created_at = now \<Gamma>\<rparr>"
  let ?db1 = "db\<lparr>draws := Suc (draws db), entry_seq := entry_seq db + 1\<rparr>"
  have run: "(if p_amount p = 0 then Inl (IntegrityError ''ck_ledger_amount_non_zero'')
        else if row_of entry_key (entry_key ?e) (entries db) \<noteq> None then Inr (?db1, None)
        else if row_of entry_id (entry_id ?e) (entries db) \<noteq> None then Inl (IntegrityError ''ledger_entries_entry_id_key'')
        else if \<not> user_exists db (p_user_id p) then Inl (IntegrityError ''ledger_entries_user_id_fkey'')
        else Inr (?db1\<lparr>entries := entries db @ [?e]\<rparr>, Some (entry_seq db + 1))) = Inr (db', i)"
    using assms unfolding insert_entry_def a' rt ri c n u bindr_Inr Let_def by (simp only: ledger_entry.select_convs)
  show ?thesis
  proof (cases "row_of entry_key (entry_key ?e) (entries db)")
    case None
    with run have "p_amount p \<noteq> 0" "row_of entry_id (entry_id ?e) (entries db) = None" "user_exists db (p_user_id p)"
      "db' = db\<lparr>draws := Suc (draws db), entry_seq := entry_seq db + 1, entries := entries db @ [?e]\<rparr>"
      "i = Some (entry_seq db + 1)"
      by (simp_all split: if_splits)
    with None show ?thesis using fresh [of ?e] a' rt ri by simp
  next
    case (Some e0)
    from row_of_Some [OF Some] have e0: "e0 \<in> set (entries db)" "entry_key e0 = entry_key ?e" by blast+
    from run Some have "i = None" "db' = ?db1" by (simp_all split: if_splits)
    moreover have "\<exists>e\<in>set (entries db). l_user_id e = p_user_id p \<and> l_entry_type e = p_entry_type p \<and>
         varchar 24 ''ledger_entries.reference_type'' (p_reference_type p) = Inr (reference_type e) \<and>
         varchar 200 ''ledger_entries.reference_id'' (p_reference_id p) = Inr (reference_id e)"
      using e0 rt ri by (intro bexI [of _ e0]) (simp_all add: entry_key_def)
    ultimately show ?thesis using dup by (simp add: ledger_frame_def)
  qed
qed

text \<open>The coerced key of a posting, as its row carries it.\<close>

definition posted_key :: "posting \<Rightarrow> (int \<times> entry_type \<times> string \<times> string) option" where
  "posted_key p =
     (case varchar 24 ''ledger_entries.reference_type'' (p_reference_type p) of
        Inl _ \<Rightarrow> None
      | Inr rt \<Rightarrow> (case varchar 200 ''ledger_entries.reference_id'' (p_reference_id p) of
          Inl _ \<Rightarrow> None
        | Inr ri \<Rightarrow> Some (p_user_id p, p_entry_type p, rt, ri)))"

text \<open>Whether a posting has been applied already.\<close>

definition is_posted :: "wdb \<Rightarrow> posting \<Rightarrow> bool" where
  "is_posted db p = (\<exists>e\<in>set (entries db). posted_key p = Some (entry_key e))"

lemma posted_key_plain:
  "\<lbrakk>length (p_reference_type p) \<le> 24; length (p_reference_id p) \<le> 200\<rbrakk> \<Longrightarrow>
   posted_key p = Some (p_user_id p, p_entry_type p, p_reference_type p, p_reference_id p)"
  by (simp add: posted_key_def)

text \<open>The row that a posting becomes.\<close>

definition entry_of :: "string \<Rightarrow> posting \<Rightarrow> ledger_entry \<Rightarrow> bool" where
  "entry_of a p e = (l_user_id e = p_user_id p \<and> l_asset e = a \<and> l_amount e = p_amount p \<and>
     posted_key p = Some (entry_key e))"

lemma ledger_sum_snoc:
  "ledger_sum (db\<lparr>draws := n, entry_seq := s, entries := entries db @ [e]\<rparr>) u a =
     ledger_sum db u a + (if l_user_id e = u \<and> l_asset e = a then l_amount e else 0)"
  by (simp add: ledger_sum_def)

lemma ledger_ok_post:
  assumes ok: "ledger_ok db" and b: "row_of bal_key (l_user_id e, l_asset e) (balances db) = Some b"
    and new: "row_of entry_key (entry_key e) (entries db) = None" "row_of entry_id (entry_id e) (entries db) = None"
    and e: "l_id e = entry_seq db + 1" "l_amount e \<noteq> 0"
    and bounds: "0 \<le> reserved b" "reserved b \<le> posted b + l_amount e"
    and db': "db' = db\<lparr>draws := n, entry_seq := entry_seq db + 1, entries := entries db @ [e],
      balances := upd_of bal_key (l_user_id e, l_asset e) (moved \<Gamma> (l_amount e) 0) (balances db)\<rparr>"
  shows "ledger_ok db'"
proof -
  let ?k = "(l_user_id e, l_asset e)"
  have sum: "ledger_sum db' u a = ledger_sum db u a + (if (u, a) = ?k then l_amount e else 0)" for u a
    by (auto simp: db' ledger_sum_def)
  have ue: "user_exists db' = user_exists db" by (simp add: db' user_exists_def fun_eq_iff)
  have bal: "0 \<le> reserved x \<and> reserved x \<le> posted x \<and> length (b_asset x) \<le> 16 \<and>
      user_exists db' (b_user_id x) \<and> posted x = ledger_sum db' (b_user_id x) (b_asset x)"
    if "x \<in> set (balances db')" for x
  proof -
    from that obtain y where y: "y \<in> set (balances db)"
      and x: "x = (if bal_key y = ?k then moved \<Gamma> (l_amount e) 0 y else y)"
      by (auto simp: db' set_upd_of)
    have "y = b" if "bal_key y = ?k"
      using that b y row_of_unique [OF ledger_okD(1) [OF ok] y] by simp
    with x y bounds ledger_okD(4-8) [OF ok y] show ?thesis
      by (auto simp: sum ue bal_key_def split: if_splits)
  qed
  have keep: "row_of bal_key k (balances db') \<noteq> None" if "row_of bal_key k (balances db) \<noteq> None" for k
    using that by (auto simp: db' row_of_upd)
  have ent: "l_amount x \<noteq> 0 \<and> row_of bal_key (l_user_id x, l_asset x) (balances db') \<noteq> None"
    if "x \<in> set (entries db')" for x
  proof (cases "x = e")
    case True
    then show ?thesis using e b keep by simp
  next
    case False
    with that have "x \<in> set (entries db)" by (simp add: db')
    then show ?thesis using ledger_okD(9,10) [OF ok] keep by simp
  qed
  have "uniq bal_key (balances db')" using ledger_okD(1) [OF ok] by (simp add: db' uniq_upd)
  moreover have "uniq entry_key (entries db')" "uniq entry_id (entries db')"
    using ledger_okD(2,3) [OF ok] new by (simp_all add: db' uniq_snoc)
  moreover have "sorted_wrt (<) (map l_id (entries db'))"
    using ledger_okD(11,12) [OF ok] e by (fastforce simp: db' sorted_wrt_append)
  moreover have "\<forall>x\<in>set (entries db'). l_id x \<le> entry_seq db'"
    using ledger_okD(11) [OF ok] e by (fastforce simp: db')
  ultimately show ?thesis using bal ent unfolding ledger_ok_def by blast
qed

lemma post_one_spec:
  assumes ok: "ledger_ok db" and run: "post_one \<Gamma> a p (db, n) = Inr (db', n')"
  shows "ledger_ok db'" and "ledger_frame db db'" and "has_acct db k \<Longrightarrow> has_acct db' k"
    and "has_acct db' (p_user_id p, a)" and "acct_reserved db' = acct_reserved db"
    and "if is_posted db p then entries db' = entries db \<and> acct_posted db' = acct_posted db \<and> n' = n
      else n' = Suc n \<and> (\<exists>e. entry_of a p e \<and> entries db' = entries db @ [e]) \<and>
        acct_posted db' = (acct_posted db)((p_user_id p, a) := acct_posted db (p_user_id p, a) + p_amount p)"
proof -
  let ?k = "(p_user_id p, a)"
  from run obtain db1 b db2 i where l: "lock_balance \<Gamma> (p_user_id p) a db = Inr (db1, b)"
    and ins: "insert_entry \<Gamma> a p db1 = Inr (db2, i)"
    and rest: "(case i of None \<Rightarrow> Inr (db2, n)
       | Some _ \<Rightarrow> bindr (move_balance \<Gamma> (p_user_id p) a (p_amount p) 0 db2) (\<lambda>(db3, _). Inr (db3, Suc n))) = Inr (db', n')"
    by (auto simp: post_one_def bindr_eq_Inr)
  note L = lock_balance_spec [OF ok l]
  have "ledger_ok db' \<and> ledger_frame db db' \<and> (\<forall>k. has_acct db k \<longrightarrow> has_acct db' k) \<and> has_acct db' ?k \<and>
    acct_reserved db' = acct_reserved db \<and>
    (if is_posted db p then entries db' = entries db \<and> acct_posted db' = acct_posted db \<and> n' = n
      else n' = Suc n \<and> (\<exists>e. entry_of a p e \<and> entries db' = entries db @ [e]) \<and>
        acct_posted db' = (acct_posted db)(?k := acct_posted db ?k + p_amount p))"
    using ins
  proof (cases rule: insert_entry_cases)
    case dup
    from rest dup(1) have eq: "db' = db2" "n' = n" by simp_all
    from dup(7) obtain e where "e \<in> set (entries db)" "posted_key p = Some (entry_key e)"
      using L(5) by (auto simp: posted_key_def entry_key_def)
    then have "is_posted db p" by (auto simp: is_posted_def)
    moreover have "ledger_ok db'"
      using L(1) dup(2-5) user_exists_frame [OF dup(2)] eq
      by (fastforce simp: ledger_ok_def ledger_sum_def)
    moreover have "ledger_frame db db'" using ledger_frame_trans [OF L(2) dup(2)] eq by simp
    moreover have "acct_posted db' = acct_posted db" "acct_reserved db' = acct_reserved db"
      using L(3,4) dup(3) eq by (auto simp: acct_posted_def acct_reserved_def fun_eq_iff)
    moreover have "has_acct db' k = has_acct db1 k" for k using dup(3) eq by (simp add: has_acct_def)
    ultimately show ?thesis using L(5,9,10) dup(4) eq by (auto simp: has_acct_def)
  next
    case (fresh e)
    from fresh(4) L(8) have asset: "l_asset e = a" by simp
    have b2: "row_of bal_key ?k (balances db2) = Some b" using L(9) fresh(2) by simp
    from rest fresh(1) obtain m where mv: "move_balance \<Gamma> (p_user_id p) a (p_amount p) 0 db2 = Inr (db', m)" and n': "n' = Suc n"
      by (auto simp: bindr_eq_Inr)
    from mv b2 have db': "db' = db2\<lparr>balances := upd_of bal_key ?k (moved \<Gamma> (p_amount p) 0) (balances db2)\<rparr>"
      and bounds: "0 \<le> reserved b" "reserved b \<le> posted b + p_amount p"
      by (auto elim: move_balance_cases)
    have "posted_key p = Some (entry_key e)" using fresh(3,6-8) by (simp add: posted_key_def entry_key_def)
    then have eo: "entry_of a p e" and np: "\<not> is_posted db p"
      using fresh(3,5,12) asset L(5) by (auto simp: entry_of_def is_posted_def row_of_None)
    have ok': "ledger_ok db'"
      using fresh asset b2 bounds db'
      by (intro ledger_ok_post [OF L(1), where e = e and b = b and n = "Suc (draws db1)" and \<Gamma> = \<Gamma>]) simp_all
    have acct2: "acct_posted db2 = acct_posted db" "acct_reserved db2 = acct_reserved db" "has_acct db2 = has_acct db1"
      using L(3,4) fresh(2) by (auto simp: acct_posted_def acct_reserved_def has_acct_def fun_eq_iff)
    have k2: "row_of bal_key ?k (balances db2) \<noteq> None" using b2 by simp
    note A = acct_upd [OF k2 db']
    have "ledger_frame db2 db'" using db' by simp
    moreover have "ledger_frame db1 db2" using fresh(2) by (simp add: ledger_frame_def)
    ultimately have "ledger_frame db db'" using L(2) ledger_frame_trans by blast
    moreover have "entries db' = entries db @ [e]" using L(5) fresh(2) db' by simp
    moreover have "has_acct db' ?k" using A(3) acct2 L(9) by (simp add: has_acct_def)
    ultimately show ?thesis using ok' eo np n' A acct2 L(10) by auto
  qed
  then show "ledger_ok db'" "ledger_frame db db'" "has_acct db k \<Longrightarrow> has_acct db' k" "has_acct db' ?k"
    "acct_reserved db' = acct_reserved db"
    "if is_posted db p then entries db' = entries db \<and> acct_posted db' = acct_posted db \<and> n' = n
      else n' = Suc n \<and> (\<exists>e. entry_of a p e \<and> entries db' = entries db @ [e]) \<and>
        acct_posted db' = (acct_posted db)(?k := acct_posted db ?k + p_amount p)"
    by blast+
qed

lemma is_posted_cong: "entries db' = entries db \<Longrightarrow> is_posted db' p = is_posted db p"
  by (simp add: is_posted_def)

lemma post_all_ok:
  assumes "ledger_ok db" and "post_all \<Gamma> a ps (db, n) = Inr (db', n')"
  shows "ledger_ok db' \<and> ledger_frame db db' \<and> acct_reserved db' = acct_reserved db \<and>
    (\<forall>k. has_acct db k \<longrightarrow> has_acct db' k) \<and> (\<forall>p\<in>set ps. has_acct db' (p_user_id p, a))"
  using assms
proof (induction ps arbitrary: db n)
  case (Cons p ps)
  then obtain db1 n1 where one: "post_one \<Gamma> a p (db, n) = Inr (db1, n1)" and rest: "post_all \<Gamma> a ps (db1, n1) = Inr (db', n')"
    by (auto simp: bindr_eq_Inr)
  note S = post_one_spec [OF Cons.prems(1) one]
  note IH = Cons.IH [OF S(1) rest]
  show ?case using S(2-5) IH ledger_frame_trans by fastforce
qed simp

text \<open>Replaying postings that are all in the ledger changes no account and reports zero.\<close>

lemma post_all_replay:
  assumes "ledger_ok db" and "post_all \<Gamma> a ps (db, n) = Inr (db', n')" and "\<forall>p\<in>set ps. is_posted db p"
  shows "n' = n \<and> entries db' = entries db \<and> acct_posted db' = acct_posted db"
  using assms
proof (induction ps arbitrary: db n)
  case (Cons p ps)
  then obtain db1 n1 where one: "post_one \<Gamma> a p (db, n) = Inr (db1, n1)" and rest: "post_all \<Gamma> a ps (db1, n1) = Inr (db', n')"
    by (auto simp: bindr_eq_Inr)
  note S = post_one_spec [OF Cons.prems(1) one]
  have s6: "entries db1 = entries db" "acct_posted db1 = acct_posted db" "n1 = n" using S(6) Cons.prems(3) by auto
  with Cons.IH [OF S(1) rest] Cons.prems(3) show ?case by (simp add: is_posted_cong [OF s6(1)])
qed simp

text \<open>Postings with new, pairwise distinct keys are all written, in order.\<close>

definition delta :: "string \<Rightarrow> posting list \<Rightarrow> int \<times> string \<Rightarrow> int" where
  "delta a ps k = total (\<lambda>p. (p_user_id p, a) = k) p_amount ps"

lemma post_all_fresh:
  assumes "ledger_ok db" and "post_all \<Gamma> a ps (db, n) = Inr (db', n')"
    and "\<forall>p\<in>set ps. \<not> is_posted db p" and "distinct (map posted_key ps)"
  shows "n' = n + length ps \<and> (\<exists>es. entries db' = entries db @ es \<and> list_all2 (entry_of a) ps es) \<and>
    acct_posted db' = (\<lambda>k. acct_posted db k + delta a ps k)"
  using assms
proof (induction ps arbitrary: db n)
  case (Cons p ps)
  then obtain db1 n1 where one: "post_one \<Gamma> a p (db, n) = Inr (db1, n1)" and rest: "post_all \<Gamma> a ps (db1, n1) = Inr (db', n')"
    by (auto simp: bindr_eq_Inr)
  note S = post_one_spec [OF Cons.prems(1) one]
  from S(6) Cons.prems(3) obtain e where e: "entry_of a p e" "entries db1 = entries db @ [e]" and n1: "n1 = Suc n"
    and ap: "acct_posted db1 = (acct_posted db)((p_user_id p, a) := acct_posted db (p_user_id p, a) + p_amount p)"
    by auto
  have "\<forall>q\<in>set ps. \<not> is_posted db1 q"
  proof
    fix q assume q: "q \<in> set ps"
    then have "posted_key q \<noteq> posted_key p" using Cons.prems(4) by (auto simp: image_iff)
    then show "\<not> is_posted db1 q" using Cons.prems(3) q e by (auto simp: is_posted_def entry_of_def)
  qed
  from Cons.IH [OF S(1) rest this] Cons.prems(4) obtain es where
    es: "n' = n1 + length ps" "entries db' = entries db1 @ es" "list_all2 (entry_of a) ps es"
      "acct_posted db' = (\<lambda>k. acct_posted db1 k + delta a ps k)" by auto
  have "\<exists>es. entries db' = entries db @ es \<and> list_all2 (entry_of a) (p # ps) es"
    using es e by (intro exI [of _ "e # es"]) simp
  then show ?case using es n1 ap by (auto simp: delta_def fun_eq_iff)
qed (simp add: delta_def)

lemma ledger_ok_reserve:
  assumes ok: "ledger_ok db" and b: "row_of bal_key k (balances db) = Some b"
    and bounds: "0 \<le> reserved b + dr" "reserved b + dr \<le> posted b"
  shows "ledger_ok (db\<lparr>balances := upd_of bal_key k (moved \<Gamma> 0 dr) (balances db)\<rparr>)" (is "ledger_ok ?db'")
proof -
  have same: "ledger_sum ?db' = ledger_sum db" "user_exists ?db' = user_exists db"
    by (simp_all add: ledger_sum_def user_exists_def fun_eq_iff)
  have bal: "0 \<le> reserved x \<and> reserved x \<le> posted x \<and> length (b_asset x) \<le> 16 \<and>
      user_exists db (b_user_id x) \<and> posted x = ledger_sum db (b_user_id x) (b_asset x)"
    if "x \<in> set (balances ?db')" for x
  proof -
    from that obtain y where y: "y \<in> set (balances db)"
      and x: "x = (if bal_key y = k then moved \<Gamma> 0 dr y else y)"
      by (auto simp: set_upd_of)
    have "y = b" if "bal_key y = k"
      using that b y row_of_unique [OF ledger_okD(1) [OF ok] y] by simp
    with x y bounds ledger_okD(4-8) [OF ok y] show ?thesis by (auto split: if_splits)
  qed
  have e: "entries ?db' = entries db" "entry_seq ?db' = entry_seq db" by simp_all
  have uq: "uniq bal_key (balances ?db')" using ledger_okD(1) [OF ok] by (simp add: uniq_upd)
  have rows: "row_of bal_key k' (balances ?db') \<noteq> None" if "row_of bal_key k' (balances db) \<noteq> None" for k'
    using that by (auto simp: row_of_upd)
  show ?thesis unfolding ledger_ok_def same e using ok [unfolded ledger_ok_def] bal uq rows by blast
qed

lemma move_reserved_spec:
  assumes ok: "ledger_ok db" and run: "move_balance \<Gamma> u a 0 dr db = Inr (db', n)"
  shows "ledger_ok db'" and "ledger_frame db db'" and "entries db' = entries db" and "draws db' = draws db"
    and "acct_posted db' = acct_posted db" and "has_acct db' = has_acct db" and "n = (if has_acct db (u, a) then 1 else 0)"
    and "acct_reserved db' = (if has_acct db (u, a)
      then (acct_reserved db)((u, a) := acct_reserved db (u, a) + dr) else acct_reserved db)"
proof -
  have "ledger_ok db' \<and> ledger_frame db db' \<and> entries db' = entries db \<and> draws db' = draws db \<and>
    acct_posted db' = acct_posted db \<and> has_acct db' = has_acct db \<and> n = (if has_acct db (u, a) then 1 else 0) \<and>
    acct_reserved db' = (if has_acct db (u, a)
      then (acct_reserved db)((u, a) := acct_reserved db (u, a) + dr) else acct_reserved db)"
    using run
  proof (cases rule: move_balance_cases)
    case absent
    then show ?thesis using ok by (simp add: has_acct_def)
  next
    case (found b)
    then have "row_of bal_key (u, a) (balances db) \<noteq> None" by simp
    note A = acct_upd [OF this found(3)]
    have "ledger_ok db'" using ledger_ok_reserve [OF ok found(1)] found(3-5) by simp
    then show ?thesis using found A by (auto simp: has_acct_def)
  qed
  then show "ledger_ok db'" "ledger_frame db db'" "entries db' = entries db" "draws db' = draws db"
    "acct_posted db' = acct_posted db" "has_acct db' = has_acct db" "n = (if has_acct db (u, a) then 1 else 0)"
    "acct_reserved db' = (if has_acct db (u, a)
      then (acct_reserved db)((u, a) := acct_reserved db (u, a) + dr) else acct_reserved db)"
    by blast+
qed

lemma place_hold_spec:
  assumes ok: "ledger_ok db" and run: "place_hold \<Gamma> u a amount db = Inr (db', r)"
  shows "ledger_ok db'" and "ledger_frame db db'" and "entries db' = entries db" and "draws db' = draws db"
    and "acct_posted db' = acct_posted db" and "has_acct db' = has_acct db"
    and "r \<longleftrightarrow> has_acct db (u, a) \<and> amount \<le> acct_posted db (u, a) - acct_reserved db (u, a)"
    and "acct_reserved db' = (if r then (acct_reserved db)((u, a) := acct_reserved db (u, a) + amount) else acct_reserved db)"
proof -
  consider (no) "db' = db" "\<not> r" "\<not> (has_acct db (u, a) \<and> amount \<le> acct_posted db (u, a) - acct_reserved db (u, a))"
    | (yes) n where "move_balance \<Gamma> u a 0 amount db = Inr (db', n)" "r = (n = 1)"
        "has_acct db (u, a)" "amount \<le> acct_posted db (u, a) - acct_reserved db (u, a)"
    using run
    by (auto simp: place_hold_def read_balance_def has_acct_def acct_posted_def acct_reserved_def bindr_eq_Inr
        split: option.splits if_splits)
  then have "ledger_ok db' \<and> ledger_frame db db' \<and> entries db' = entries db \<and> draws db' = draws db \<and>
    acct_posted db' = acct_posted db \<and> has_acct db' = has_acct db \<and>
    (r \<longleftrightarrow> has_acct db (u, a) \<and> amount \<le> acct_posted db (u, a) - acct_reserved db (u, a)) \<and>
    acct_reserved db' = (if r then (acct_reserved db)((u, a) := acct_reserved db (u, a) + amount) else acct_reserved db)"
  proof cases
    case no
    then show ?thesis using ok by simp
  next
    case (yes n)
    note M = move_reserved_spec [OF ok yes(1)]
    show ?thesis using yes M by simp
  qed
  then show "ledger_ok db'" "ledger_frame db db'" "entries db' = entries db" "draws db' = draws db"
    "acct_posted db' = acct_posted db" "has_acct db' = has_acct db"
    "r \<longleftrightarrow> has_acct db (u, a) \<and> amount \<le> acct_posted db (u, a) - acct_reserved db (u, a)"
    "acct_reserved db' = (if r then (acct_reserved db)((u, a) := acct_reserved db (u, a) + amount) else acct_reserved db)"
    by blast+
qed

lemma release_hold_spec:
  assumes ok: "ledger_ok db" and run: "release_hold \<Gamma> u a amount db = Inr db'"
  shows "ledger_ok db'" and "ledger_frame db db'" and "entries db' = entries db" and "draws db' = draws db"
    and "acct_posted db' = acct_posted db" and "has_acct db' = has_acct db"
    and "acct_reserved db' = (if has_acct db (u, a)
      then (acct_reserved db)((u, a) := acct_reserved db (u, a) - amount) else acct_reserved db)"
proof -
  from run obtain n where "move_balance \<Gamma> u a 0 (- amount) db = Inr (db', n)"
    by (auto simp: release_hold_def bindr_eq_Inr)
  note M = move_reserved_spec [OF ok this]
  show "ledger_ok db'" "ledger_frame db db'" "entries db' = entries db" "draws db' = draws db"
    "acct_posted db' = acct_posted db" "has_acct db' = has_acct db"
    "acct_reserved db' = (if has_acct db (u, a)
      then (acct_reserved db)((u, a) := acct_reserved db (u, a) - amount) else acct_reserved db)"
    using M by simp_all
qed

section \<open>The contract of holds\<close>

text \<open>
  What a client of the ledger relies on: an account has a posted and a reserved amount, a
  hold is granted only within what is available and moves nothing but the reservation.
\<close>

locale hold_ledger =
  fixes ok :: "'s \<Rightarrow> bool" and bal :: "'s \<Rightarrow> 'k \<Rightarrow> int" and res :: "'s \<Rightarrow> 'k \<Rightarrow> int"
    and hold :: "'k \<Rightarrow> int \<Rightarrow> 's \<Rightarrow> ('s \<times> bool) result" and release :: "'k \<Rightarrow> int \<Rightarrow> 's \<Rightarrow> 's result"
  assumes bounds: "ok s \<Longrightarrow> 0 \<le> res s k \<and> res s k \<le> bal s k"
    and hold_ok: "\<lbrakk>ok s; hold k n s = Inr (s', r)\<rbrakk> \<Longrightarrow> ok s'"
    and hold_bal: "\<lbrakk>ok s; hold k n s = Inr (s', r)\<rbrakk> \<Longrightarrow> bal s' = bal s"
    and hold_res: "\<lbrakk>ok s; hold k n s = Inr (s', r)\<rbrakk> \<Longrightarrow> res s' = (if r then (res s)(k := res s k + n) else res s)"
    and release_ok: "\<lbrakk>ok s; release k n s = Inr s'\<rbrakk> \<Longrightarrow> ok s'"
    and release_bal: "\<lbrakk>ok s; release k n s = Inr s'\<rbrakk> \<Longrightarrow> bal s' = bal s"
    and hold_release: "\<lbrakk>ok s; hold k n s = Inr (s', True); release k n s' = Inr s''\<rbrakk> \<Longrightarrow> res s'' = res s"

text \<open>A series of hold requests on one account, as the row lock serialises them: the sum of the granted ones.\<close>

fun hold_seq :: "('k \<Rightarrow> int \<Rightarrow> 's \<Rightarrow> ('s \<times> bool) result) \<Rightarrow> 'k \<Rightarrow> int list \<Rightarrow> 's \<Rightarrow> ('s \<times> int) result" where
  "hold_seq h k [] s = Inr (s, 0)"
| "hold_seq h k (n # ns) s =
     bindr (h k n s) (\<lambda>(s1, r). bindr (hold_seq h k ns s1) (\<lambda>(s2, t). Inr (s2, (if r then n else 0) + t)))"

context hold_ledger
begin

lemma hold_seq_spec:
  "\<lbrakk>ok s; hold_seq hold k ns s = Inr (s', t)\<rbrakk> \<Longrightarrow> ok s' \<and> bal s' = bal s \<and> res s' = (res s)(k := res s k + t)"
proof (induction ns arbitrary: s t)
  case (Cons n ns)
  then obtain s1 r t1 where h: "hold k n s = Inr (s1, r)" and rest: "hold_seq hold k ns s1 = Inr (s', t1)"
    and t: "t = (if r then n else 0) + t1"
    by (auto simp: bindr_eq_Inr)
  from Cons.IH [OF hold_ok [OF Cons.prems(1) h] rest]
  show ?case using hold_bal [OF Cons.prems(1) h] hold_res [OF Cons.prems(1) h] t by auto
qed simp

lemma no_double_spend: "\<lbrakk>ok s; hold_seq hold k ns s = Inr (s', t)\<rbrakk> \<Longrightarrow> t \<le> bal s k - res s k"
  using hold_seq_spec [of s k ns s' t] bounds [of s' k] by auto

lemma hold_release_neutral:
  "\<lbrakk>ok s; hold k n s = Inr (s', True); release k n s' = Inr s''\<rbrakk> \<Longrightarrow> ok s'' \<and> bal s'' = bal s \<and> res s'' = res s"
  using hold_ok hold_bal hold_release release_ok release_bal by metis

end

definition hold_at :: "env \<Rightarrow> int \<times> string \<Rightarrow> int \<Rightarrow> wdb \<Rightarrow> (wdb \<times> bool) result" where
  "hold_at \<Gamma> k n db = place_hold \<Gamma> (fst k) (snd k) n db"

definition release_at :: "env \<Rightarrow> int \<times> string \<Rightarrow> int \<Rightarrow> wdb \<Rightarrow> wdb result" where
  "release_at \<Gamma> k n db = release_hold \<Gamma> (fst k) (snd k) n db"

interpretation ledger: hold_ledger ledger_ok acct_posted acct_reserved "hold_at \<Gamma>" "release_at \<Gamma>" for \<Gamma>
proof
  fix s s' s'' k n r
  show "0 \<le> acct_reserved s k \<and> acct_reserved s k \<le> acct_posted s k" if "ledger_ok s"
    using acct_bounds [OF that] .
  show "ledger_ok s'" "acct_posted s' = acct_posted s"
      "acct_reserved s' = (if r then (acct_reserved s)(k := acct_reserved s k + n) else acct_reserved s)"
    if "ledger_ok s" "hold_at \<Gamma> k n s = Inr (s', r)"
    using place_hold_spec [OF that(1) that(2) [unfolded hold_at_def]] by simp_all
  show "ledger_ok s'" "acct_posted s' = acct_posted s" if "ledger_ok s" "release_at \<Gamma> k n s = Inr s'"
    using release_hold_spec [OF that(1) that(2) [unfolded release_at_def]] by simp_all
  show "acct_reserved s'' = acct_reserved s"
    if ok: "ledger_ok s" and h: "hold_at \<Gamma> k n s = Inr (s', True)" and r: "release_at \<Gamma> k n s' = Inr s''"
  proof -
    note H = place_hold_spec [OF ok h [unfolded hold_at_def]]
    note R = release_hold_spec [OF H(1) r [unfolded release_at_def]]
    show ?thesis using H(6,7,8) R(7) by (auto simp: fun_eq_iff)
  qed
qed

section \<open>Replays\<close>

definition postable :: "string \<Rightarrow> posting \<Rightarrow> bool" where
  "postable a p = (int8 ''ledger_entries.user_id'' (p_user_id p) = Inr (p_user_id p) \<and> length a \<le> 16 \<and>
     numeric78 ''ledger_entries.amount'' (p_amount p) = Inr (p_amount p) \<and> posted_key p \<noteq> None \<and> p_amount p \<noteq> 0)"

lemma post_one_posted:
  assumes ok: "ledger_ok db" and run: "post_one \<Gamma> a p (db, n) = Inr (db', n')"
  shows "is_posted db' p" and "\<exists>es. entries db' = entries db @ es" and "postable a p"
proof -
  note S = post_one_spec(6) [OF ok run]
  show "is_posted db' p" "\<exists>es. entries db' = entries db @ es"
    using S by (auto simp: is_posted_def entry_of_def split: if_splits)
  from run obtain db1 b db2 i where l: "lock_balance \<Gamma> (p_user_id p) a db = Inr (db1, b)"
    and ins: "insert_entry \<Gamma> a p db1 = Inr (db2, i)"
    by (auto simp: post_one_def bindr_eq_Inr)
  have "p_amount p \<noteq> 0" "int8 ''ledger_entries.user_id'' (p_user_id p) = Inr (p_user_id p)"
    "numeric78 ''ledger_entries.amount'' (p_amount p) = Inr (p_amount p)" "posted_key p \<noteq> None"
    using ins by (auto simp: insert_entry_def bindr_eq_Inr int8_eq numeric78_eq posted_key_def Let_def
        simp del: power_numeral split: if_splits)
  then show "postable a p" using lock_balance_spec(8) [OF ok l] by (simp add: postable_def)
qed

lemma post_one_replay:
  assumes p: "postable a p" "is_posted db p" "has_acct db (p_user_id p, a)"
    and c: "varchar_opt 64 ''ledger_entries.correlation_id'' (get_correlation_id \<Gamma>) = Inr c"
  shows "post_one \<Gamma> a p (db, n) = Inr (db\<lparr>draws := Suc (draws db), entry_seq := entry_seq db + 1\<rparr>, n)"
proof -
  obtain b where b: "row_of bal_key (p_user_id p, a) (balances db) = Some b" using p(3) by (auto simp: has_acct_def)
  have a: "length a \<le> 16" and u: "int8 col (p_user_id p) = Inr (p_user_id p)" for col
    using p(1) by (auto simp: postable_def int8_def simp del: power_numeral split: if_splits)
  have lock: "lock_balance \<Gamma> (p_user_id p) a db = Inr (db, b)"
    using b a by (simp add: lock_balance_def ensure_balance_def u read_balance_def)
  from p(1) obtain rt ri where
      rt: "varchar 24 ''ledger_entries.reference_type'' (p_reference_type p) = Inr rt"
    and ri: "varchar 200 ''ledger_entries.reference_id'' (p_reference_id p) = Inr ri"
    by (auto simp: postable_def posted_key_def split: sum.splits)
  from p(2) rt ri obtain e where "e \<in> set (entries db)" "entry_key e = (p_user_id p, p_entry_type p, rt, ri)"
    by (auto simp: is_posted_def posted_key_def)
  then have row: "row_of entry_key (p_user_id p, p_entry_type p, rt, ri) (entries db) \<noteq> None"
    by (metis imageI row_of_None)
  have "insert_entry \<Gamma> a p db = Inr (db\<lparr>draws := Suc (draws db), entry_seq := entry_seq db + 1\<rparr>, None)"
    using p(1) a row unfolding insert_entry_def rt ri c u bindr_Inr Let_def
    by (auto simp: postable_def entry_key_def)
  then show ?thesis using lock by (simp add: post_one_def)
qed

lemma post_all_posted:
  assumes "ledger_ok db" and "post_all \<Gamma> a ps (db, n) = Inr (db', n')"
  shows "(\<exists>es. entries db' = entries db @ es) \<and> (\<forall>p\<in>set ps. is_posted db' p \<and> postable a p)"
  using assms
proof (induction ps arbitrary: db n)
  case (Cons p ps)
  then obtain db1 n1 where one: "post_one \<Gamma> a p (db, n) = Inr (db1, n1)" and rest: "post_all \<Gamma> a ps (db1, n1) = Inr (db', n')"
    by (auto simp: bindr_eq_Inr)
  note P = post_one_posted [OF Cons.prems(1) one]
  note IH = Cons.IH [OF post_one_spec(1) [OF Cons.prems(1) one] rest]
  from IH obtain es where "entries db' = entries db1 @ es" by blast
  then have "is_posted db' p" using P(1) by (auto simp: is_posted_def)
  with P IH show ?case by auto
qed simp

lemma post_all_again:
  assumes "\<forall>p\<in>set ps. postable a p \<and> is_posted db p \<and> has_acct db (p_user_id p, a)"
    and c: "varchar_opt 64 ''ledger_entries.correlation_id'' (get_correlation_id \<Gamma>) = Inr c"
  shows "\<exists>i j. post_all \<Gamma> a ps (db, n) = Inr (db\<lparr>draws := i, entry_seq := j\<rparr>, n)"
  using assms(1)
proof (induction ps arbitrary: db)
  case Nil
  have "db = db\<lparr>draws := draws db, entry_seq := entry_seq db\<rparr>" by simp
  then show ?case by (metis post_all.simps(1))
next
  case (Cons p ps)
  let ?db = "db\<lparr>draws := Suc (draws db), entry_seq := entry_seq db + 1\<rparr>"
  have "\<exists>i j. post_all \<Gamma> a ps (?db, n) = Inr (?db\<lparr>draws := i, entry_seq := j\<rparr>, n)"
    using Cons.prems by (intro Cons.IH) (auto simp: is_posted_def has_acct_def)
  moreover have "post_one \<Gamma> a p (db, n) = Inr (?db, n)"
    using Cons.prems c by (intro post_one_replay) simp_all
  ultimately show ?case by simp
qed

text \<open>
  Replaying postings is a no-op: when the same postings are submitted again,
  under any clock and correlation id that fits its column, the call succeeds, writes no
  entry, reports zero and changes no posted or reserved amount.
\<close>

lemma post_entries_replay:
  assumes ok: "ledger_ok db" and first: "post_entries \<Gamma> a ps db = Inr (db1, n)"
    and c: "\<And>s. cid \<Gamma>' = Some s \<Longrightarrow> length s \<le> 64"
  shows "\<exists>db2. post_entries \<Gamma>' a ps db1 = Inr (db2, 0) \<and> entries db2 = entries db1 \<and> balances db2 = balances db1"
proof -
  let ?ps = "sort_key p_user_id ps"
  note run = first [unfolded post_entries_def]
  have "\<exists>c'. varchar_opt 64 ''ledger_entries.correlation_id'' (get_correlation_id \<Gamma>') = Inr c'"
    using c by (cases "cid \<Gamma>'") (auto simp: get_correlation_id_def)
  then obtain c' where c': "varchar_opt 64 ''ledger_entries.correlation_id'' (get_correlation_id \<Gamma>') = Inr c'" ..
  have "\<exists>i j. post_all \<Gamma>' a ?ps (db1, 0) = Inr (db1\<lparr>draws := i, entry_seq := j\<rparr>, 0)"
    using post_all_posted [OF ok run] post_all_ok [OF ok run] by (intro post_all_again [OF _ c']) auto
  then show ?thesis by (auto simp: post_entries_def)
qed

text \<open>
  Postings that are new to the ledger (their idempotency keys are pairwise
  distinct and none is present) are all written: one entry each, in ascending order of the
  user id, the posted amount of every account moves by exactly the sum of its postings and
  no reserved amount moves.
\<close>

lemma post_entries_exact:
  assumes ok: "ledger_ok db" and run: "post_entries \<Gamma> a ps db = Inr (db', n)"
    and new: "list_all (\<lambda>p. \<not> is_posted db p) ps" and dist: "distinct (map posted_key ps)"
  shows "n = length ps \<and> (\<exists>es. entries db' = entries db @ es \<and> list_all2 (entry_of a) (sort_key p_user_id ps) es) \<and>
    acct_posted db' = (\<lambda>k. acct_posted db k + delta a ps k) \<and> acct_reserved db' = acct_reserved db"
proof -
  note run' = run [unfolded post_entries_def]
  have "mset (map posted_key (sort_key p_user_id ps)) = mset (map posted_key ps)" by simp
  then have d: "distinct (map posted_key (sort_key p_user_id ps))"
    using dist mset_eq_imp_distinct_iff by blast
  have "delta a (sort_key p_user_id ps) k = delta a ps k" for k
    unfolding delta_def total_def by (simp add: filter_sort sum_mset_sum_list [symmetric])
  with post_all_fresh [OF ok run' _ d] post_all_ok [OF ok run'] new show ?thesis
    by (auto simp: list_all_iff)
qed

text \<open>
  No double spending: however many hold requests on one account are tried one
  after the other, the sum of the granted ones never exceeds what was available.
\<close>

lemma holds_within_available:
  assumes "ledger_ok db" and "hold_seq (hold_at \<Gamma>) k ns db = Inr (db', granted)"
  shows "granted \<le> acct_posted db k - acct_reserved db k \<and> acct_reserved db' k \<le> acct_posted db' k"
  using ledger.no_double_spend [OF assms] ledger.hold_seq_spec [OF assms] acct_bounds by blast

lemma reconcile_ok: "ledger_ok db \<Longrightarrow> r \<in> set (reconcile db) \<Longrightarrow> consistent r"
  by (auto simp: reconcile_def recon_of_def Let_def dest: ledger_okD(8))

section \<open>Postings that cannot fail\<close>

text \<open>
  Room for a movement of \<open>n\<close> on an account: the columns of the moved row stay in range and
  the checks hold.
\<close>

definition room :: "wdb \<Rightarrow> int \<times> string \<Rightarrow> int \<Rightarrow> bool" where
  "room db k n = (case row_of bal_key k (balances db) of
      None \<Rightarrow> 0 \<le> n
    | Some b \<Rightarrow> reserved b \<le> posted b + n \<and> posted b + n < 10 ^ 78 \<and> 0 \<le> version b \<and> version b + 1 < 2 ^ 31)"

lemma move_balance_total:
  assumes "row_of bal_key (u, a) (balances db) = Some b" and "0 \<le> reserved b + dr" "reserved b + dr \<le> posted b + dp"
    and "posted b + dp < 10 ^ 78" "0 \<le> version b" "version b + 1 < 2 ^ 31"
  shows "move_balance \<Gamma> u a dp dr db =
    Inr (db\<lparr>balances := upd_of bal_key (u, a) (moved \<Gamma> dp dr) (balances db)\<rparr>, 1)"
proof -
  have "version (moved \<Gamma> dp dr b) = version b + 1" by (simp add: moved_def)
  moreover have "- (2 ^ 31) \<le> version b + 1" by (rule order_trans [of _ 0]) (use assms(5) in simp_all)
  ultimately have "check_balance (moved \<Gamma> dp dr b) = Inr (moved \<Gamma> dp dr b)"
    using assms by (simp only: check_balance_eq moved_sel) (simp del: power_numeral)
  then show ?thesis using assms(1) by (simp add: move_balance_def read_balance_def)
qed

lemma post_one_total:
  assumes ok: "ledger_ok db" and p: "postable a p" "\<not> is_posted db p" "user_exists db (p_user_id p)"
    and c: "varchar_opt 64 ''ledger_entries.correlation_id'' (get_correlation_id \<Gamma>) = Inr c"
    and uid: "row_of entry_id (uuid4 \<Gamma> (draws db)) (entries db) = None" and rm: "room db (p_user_id p, a) (p_amount p)"
  obtains db' e where "post_one \<Gamma> a p (db, n) = Inr (db', Suc n)" "draws db' = Suc (draws db)"
    "entries db' = entries db @ [e]" "entry_id e = uuid4 \<Gamma> (draws db)"
    "\<And>k. k \<noteq> (p_user_id p, a) \<Longrightarrow> row_of bal_key k (balances db') = row_of bal_key k (balances db)"
proof -
  let ?u = "p_user_id p"
  let ?k = "(?u, a)"
  have a: "length a \<le> 16" and u: "int8 col ?u = Inr ?u"
    and m: "numeric78 ''ledger_entries.amount'' (p_amount p) = Inr (p_amount p)" "p_amount p \<noteq> 0" for col
    using p(1) by (auto simp: postable_def int8_def simp del: power_numeral split: if_splits)
  from p(1) obtain rt ri where
      rt: "varchar 24 ''ledger_entries.reference_type'' (p_reference_type p) = Inr rt"
    and ri: "varchar 200 ''ledger_entries.reference_id'' (p_reference_id p) = Inr ri"
    by (auto simp: postable_def posted_key_def split: sum.splits)
  have key: "row_of entry_key (?u, p_entry_type p, rt, ri) (entries db) = None"
    using p(2) rt ri by (auto simp: is_posted_def posted_key_def row_of_None)
  obtain db1 b where lock: "lock_balance \<Gamma> ?u a db = Inr (db1, b)"
      and db1: "users db1 = users db" "entries db1 = entries db" "draws db1 = draws db"
      and b: "row_of bal_key ?k (balances db1) = Some b" "0 \<le> reserved b" "reserved b \<le> posted b + p_amount p" "posted b + p_amount p < 10 ^ 78"
        "0 \<le> version b" "version b + 1 < 2 ^ 31"
      and other: "\<And>k. k \<noteq> ?k \<Longrightarrow> row_of bal_key k (balances db1) = row_of bal_key k (balances db)"
  proof (cases "row_of bal_key ?k (balances db)")
    case None
    let ?b = "\<lparr>b_user_id = ?u, b_asset = a, posted = 0, reserved = 0, version = 0, b_updated_at = now \<Gamma>\<rparr>"
    have "p_amount p < 10 ^ 78" using m(1) by (simp add: numeric78_eq del: power_numeral)
    with None show ?thesis using rm a u p(3)
      by (intro that [of "db\<lparr>balances := balances db @ [?b]\<rparr>" ?b])
        (auto simp: lock_balance_def ensure_balance_def read_balance_def row_of_append bal_key_def room_def split: option.split)
  next
    case (Some b)
    then have "b \<in> set (balances db)" using row_of_Some by fast
    with Some show ?thesis using rm a u ledger_okD(4) [OF ok]
      by (intro that [of db b]) (auto simp: lock_balance_def ensure_balance_def read_balance_def room_def)
  qed
  let ?e = "\<lparr>l_id = entry_seq db1 + 1, entry_id = uuid4 \<Gamma> (draws db1), l_user_id = ?u, l_asset = a,
              l_amount = p_amount p, l_entry_type = p_entry_type p, reference_type = rt,
              reference_id = ri, l_correlation_id = c, l_created_at = now \<Gamma>\<rparr>"
  let ?db2 = "db1\<lparr>draws := Suc (draws db1), entry_seq := entry_seq db1 + 1, entries := entries db1 @ [?e]\<rparr>"
  have av: "varchar 16 ''ledger_entries.asset'' a = Inr a" using a by simp
  have "insert_entry \<Gamma> a p db1 = Inr (?db2, Some (entry_seq db1 + 1))"
    unfolding insert_entry_def u m(1) av rt ri c bindr_Inr Let_def
    using m(2) key uid p(3) db1 by (simp add: entry_key_def user_exists_def)
  moreover have "move_balance \<Gamma> ?u a (p_amount p) 0 ?db2 =
      Inr (?db2\<lparr>balances := upd_of bal_key ?k (moved \<Gamma> (p_amount p) 0) (balances ?db2)\<rparr>, 1)"
    using b by (intro move_balance_total [of _ _ _ b]) simp_all
  ultimately have "post_one \<Gamma> a p (db, n) =
      Inr (?db2\<lparr>balances := upd_of bal_key ?k (moved \<Gamma> (p_amount p) 0) (balances ?db2)\<rparr>, Suc n)"
    using lock by (simp add: post_one_def)
  then show ?thesis by (rule that [of _ ?e]) (simp_all add: db1 other row_of_upd)
qed

section \<open>A concrete ledger\<close>

text \<open>Two users with wallets; the first one has deposited 1000 smallest units.\<close>

definition sample_user :: "int \<Rightarrow> string \<Rightarrow> user" where
  "sample_user i n = \<lparr>u_id = i, u_name = n, u_email = n @ ''@example.com'', u_status = ''ACTIVE'', u_created_at = 0\<rparr>"

definition sample_wallet :: "int \<Rightarrow> string \<Rightarrow> wallet" where
  "sample_wallet i addr = \<lparr>w_id = of_int (100 + i), w_user_id = i, w_network = ''BSC'', w_asset = ''USDT'',
     w_address = addr, w_status = ''ACTIVE'', w_created_at = 0\<rparr>"

definition sample_wdb :: wdb where
  "sample_wdb = empty_wdb\<lparr>users := [sample_user 1 ''a'', sample_user 2 ''b''], user_seq := 2,
     wallets := [sample_wallet 1 ''0xa'', sample_wallet 2 ''0xb''],
     balances := [\<lparr>b_user_id = 1, b_asset = ''USDT'', posted = 1000, reserved = 0, version = 1, b_updated_at = 0\<rparr>],
     entries := [\<lparr>l_id = 1, entry_id = 900, l_user_id = 1, l_asset = ''USDT'', l_amount = 1000, l_entry_type = DEPOSIT,
       reference_type = ''DEPOSIT'', reference_id = ''BSC:0x1:0:0xb1'', l_correlation_id = None, l_created_at = 0\<rparr>],
     entry_seq := 1\<rparr>"

definition sample_postings :: "posting list" where
  "sample_postings =
     [\<lparr>p_user_id = 2, p_amount = 250, p_entry_type = TRANSFER_CREDIT, p_reference_type = ''TRANSFER'', p_reference_id = ''t''\<rparr>,
      \<lparr>p_user_id = 1, p_amount = - 250, p_entry_type = TRANSFER_DEBIT, p_reference_type = ''TRANSFER'', p_reference_id = ''t''\<rparr>]"

definition sample_posted :: "wdb \<times> nat" where
  "sample_posted = (case post_entries sample_env ''USDT'' sample_postings sample_wdb of Inr x \<Rightarrow> x | Inl _ \<Rightarrow> (empty_wdb, 0))"

lemma sample_ledger_ok [simp]: "ledger_ok sample_wdb"
  by code_simp

lemma sample_post_run: "post_entries sample_env ''USDT'' sample_postings sample_wdb = Inr sample_posted"
proof -
  have "(case post_entries sample_env ''USDT'' sample_postings sample_wdb of Inr _ \<Rightarrow> True | Inl _ \<Rightarrow> False)"
    by code_simp
  then show ?thesis by (auto simp: sample_posted_def split: sum.splits)
qed

end
