(* ===== verification/Users.thy ===== *)
theory Users
  imports Ledger
begin

text \<open>\<open>wallet_service/services/users.py\<close>: users, their wallets, and the lookups of both.\<close>

definition create_user :: "env \<Rightarrow> string \<Rightarrow> string \<Rightarrow> wdb \<Rightarrow> (wdb \<times> user) result" where
  "create_user \<Gamma> name email db =
     bindr (varchar 128 ''users.name'' name) (\<lambda>name'.
     bindr (varchar 255 ''users.email'' (py_lower email)) (\<lambda>email'.
       if row_of u_email email' (users db) \<noteq> None
       then Inl (app_exn ConflictError (''A user with email '' @ quoted email @ '' already exists.'') [])
       else let i = user_seq db + 1;
                u = \<lparr>u_id = i, u_name = name', u_email = email', u_status = ''ACTIVE'', u_created_at = now \<Gamma>\<rparr>
            in Inr (db\<lparr>users := users db @ [u], user_seq := i\<rparr>, u)))"

definition get_user :: "int \<Rightarrow> wdb \<Rightarrow> user result" where
  "get_user i db =
     bindr (int8 ''users.id'' i) (\<lambda>_.
       case row_of u_id i (users db) of
         None \<Rightarrow> Inl (app_exn NotFoundError (''User '' @ py_str i @ '' does not exist.'') [])
       | Some u \<Rightarrow> Inr u)"

definition get_wallet :: "int \<Rightarrow> string \<Rightarrow> string \<Rightarrow> wdb \<Rightarrow> wallet option" where
  "get_wallet u network a db = row_of wallet_key (u, network, a) (wallets db)"

text \<open>The insert of \<open>attach_wallet\<close>: \<open>None\<close> when the constraint's row is already there.\<close>

definition insert_wallet :: "env \<Rightarrow> int \<Rightarrow> string \<Rightarrow> string \<Rightarrow> string \<Rightarrow> wdb \<Rightarrow> (wdb \<times> uuid option) result" where
  "insert_wallet \<Gamma> u network a address db =
     bindr (int8 ''wallets.user_id'' u) (\<lambda>_.
     bindr (varchar 32 ''wallets.network'' network) (\<lambda>network'.
     bindr (varchar 16 ''wallets.asset'' a) (\<lambda>a'.
     bindr (varchar 64 ''wallets.address'' address) (\<lambda>address'.
     let i = uuid4 \<Gamma> (draws db); db1 = db\<lparr>draws := Suc (draws db)\<rparr>;
         w = \<lparr>w_id = i, w_user_id = u, w_network = network', w_asset = a', w_address = address',
              w_status = ''ACTIVE'', w_created_at = now \<Gamma>\<rparr>
     in if row_of wallet_key (u, network', a') (wallets db) \<noteq> None then Inr (db1, None)
        else if row_of w_id i (wallets db) \<noteq> None then Inl (IntegrityError ''wallets_pkey'')
        else if row_of w_address address' (wallets db) \<noteq> None then Inl (IntegrityError ''wallets_address_key'')
        else if \<not> user_exists db u then Inl (IntegrityError ''wallets_user_id_fkey'')
        else Inr (db1\<lparr>wallets := wallets db @ [w]\<rparr>, Some i)))))"

definition attach_wallet :: "env \<Rightarrow> int \<Rightarrow> string \<Rightarrow> string \<Rightarrow> string \<Rightarrow> wdb \<Rightarrow> (wdb \<times> wallet \<times> bool) result" where
  "attach_wallet \<Gamma> u network a address db =
     bindr (insert_wallet \<Gamma> u network a address db) (\<lambda>(db1, inserted).
     bindr (ensure_balance \<Gamma> u a db1) (\<lambda>db2.
       case get_wallet u network a db2 of
         None \<Rightarrow> Inl AssertionError
       | Some w \<Rightarrow> Inr (db2, w, inserted \<noteq> None)))"

definition wallet_by_address :: "string \<Rightarrow> wdb \<Rightarrow> wallet option" where
  "wallet_by_address address db = row_of w_address address (wallets db)"

section \<open>Invariant\<close>

definition users_ok :: "wdb \<Rightarrow> bool" where
  "users_ok db = (uniq u_id (users db) \<and> uniq u_email (users db) \<and> (\<forall>u\<in>set (users db). u_id u \<le> user_seq db) \<and>
     uniq w_id (wallets db) \<and> uniq wallet_key (wallets db) \<and> uniq w_address (wallets db) \<and>
     (\<forall>w\<in>set (wallets db). user_exists db (w_user_id w)))"

lemma create_user_cases:
  assumes "create_user \<Gamma> name email db = Inr (db', u)"
  obtains "row_of u_email (u_email u) (users db) = None" "u_id u = user_seq db + 1"
    "db' = db\<lparr>users := users db @ [u], user_seq := user_seq db + 1\<rparr>" "u_status u = ''ACTIVE''"
  using assms by (auto simp: create_user_def bindr_eq_Inr Let_def split: if_splits)

lemma user_exists_append: "user_exists db u \<Longrightarrow> user_exists (db\<lparr>users := users db @ xs, user_seq := n\<rparr>) u"
  by (auto simp: user_exists_def row_of_append split: option.split)

lemma create_user_ok [inv_rules]:
  assumes ok: "users_ok db" and run: "create_user \<Gamma> name email db = Inr (db', u)"
  shows "users_ok db'"
  using run
proof (cases rule: create_user_cases)
  case 1
  have "row_of u_id (u_id u) (users db) = None" using ok 1 by (auto simp: users_ok_def row_of_None)
  moreover have "user_exists db' x" if "user_exists db x" for x using 1 that user_exists_append by simp
  ultimately show ?thesis using ok 1 by (auto simp: users_ok_def uniq_snoc)
qed

definition new_wallet :: "env \<Rightarrow> wdb \<Rightarrow> int \<Rightarrow> string \<Rightarrow> string \<Rightarrow> string \<Rightarrow> wallet" where
  "new_wallet \<Gamma> db u network a address =
     \<lparr>w_id = uuid4 \<Gamma> (draws db), w_user_id = u, w_network = network, w_asset = a, w_address = address,
      w_status = ''ACTIVE'', w_created_at = now \<Gamma>\<rparr>"

lemma insert_wallet_cases:
  assumes "insert_wallet \<Gamma> u network a address db = Inr (db', i)"
  obtains (dup) n' a' where "i = None" "db' = db\<lparr>draws := Suc (draws db)\<rparr>"
      "varchar 32 ''wallets.network'' network = Inr n'" "varchar 16 ''wallets.asset'' a = Inr a'"
      "row_of wallet_key (u, n', a') (wallets db) \<noteq> None"
  | (new) n' a' addr w where "w = new_wallet \<Gamma> db u n' a' addr" "i = Some (w_id w)"
      "db' = db\<lparr>draws := Suc (draws db), wallets := wallets db @ [w]\<rparr>"
      "row_of w_id (w_id w) (wallets db) = None" "row_of w_address (w_address w) (wallets db) = None"
      "row_of wallet_key (wallet_key w) (wallets db) = None" "user_exists db u"
  using assms
  by (auto simp: insert_wallet_def bindr_eq_Inr Let_def wallet_key_def new_wallet_def simp del: power_numeral split: if_splits)

lemma ledger_ok_cong:
  "\<lbrakk>balances db' = balances db; entries db' = entries db; entry_seq db' = entry_seq db; users db' = users db\<rbrakk>
   \<Longrightarrow> ledger_ok db' = ledger_ok db"
  by (simp only: ledger_ok_def ledger_sum_def user_exists_def)

lemma ledger_ok_add_user:
  assumes "ledger_ok db" shows "ledger_ok (db\<lparr>users := users db @ xs, user_seq := n\<rparr>)" (is "ledger_ok ?db")
proof -
  have "entries ?db = entries db" "balances ?db = balances db" "entry_seq ?db = entry_seq db" "ledger_sum ?db = ledger_sum db"
    by (simp_all add: ledger_sum_def fun_eq_iff)
  then show ?thesis using assms user_exists_append [of db] unfolding ledger_ok_def by metis
qed

lemma users_ok_cong:
  "\<lbrakk>users db' = users db; user_seq db' = user_seq db; wallets db' = wallets db\<rbrakk> \<Longrightarrow> users_ok db' = users_ok db"
  by (simp add: users_ok_def user_exists_def)

lemma attach_wallet_ok [inv_rules]:
  assumes ok: "users_ok db" and lok: "ledger_ok db" and run: "attach_wallet \<Gamma> u network a address db = Inr (db', w, c)"
  shows "users_ok db'" and "ledger_ok db'"
proof -
  from run obtain db1 i where ins: "insert_wallet \<Gamma> u network a address db = Inr (db1, i)"
    and ens: "ensure_balance \<Gamma> u a db1 = Inr db'"
    by (auto simp: attach_wallet_def bindr_eq_Inr split: option.splits)
  have "users_ok db1 \<and> ledger_ok db1"
    using ins
  proof (cases rule: insert_wallet_cases)
    case dup
    then show ?thesis using ok lok users_ok_cong [of db1 db] ledger_ok_cong [of db1 db] by simp
  next
    case (new n' a' addr w)
    then have "w_user_id w = u" by (simp add: new_wallet_def)
    then have "users_ok db1" using new ok by (auto simp: users_ok_def user_exists_def uniq_snoc)
    moreover have "ledger_ok db1" using new lok ledger_ok_cong [of db1 db] by simp
    ultimately show ?thesis by blast
  qed
  then have ok1: "users_ok db1" and lok1: "ledger_ok db1" by blast+
  note E = ensure_balance_spec [OF lok1 ens]
  show "ledger_ok db'" by (rule E(1))
  show "users_ok db'" using ok1 users_ok_cong ledger_frame_sel(1-3) [OF E(2)] by metis
qed

lemma get_user_eq [result_simps]:
  "get_user i db = Inr u \<longleftrightarrow> row_of u_id i (users db) = Some u \<and> - (2 ^ 63) \<le> i \<and> i < 2 ^ 63"
  by (auto simp: get_user_def bindr_eq_Inr int8_eq simp del: power_numeral split: option.split)

section \<open>Properties\<close>

text \<open>
  Attaching a wallet is idempotent: a second call with the same user, network
  and asset, whatever address it brings, returns the wallet recorded by the first call,
  reports that none was created, and leaves the tables as they are.
\<close>

lemma attach_wallet_idempotent:
  assumes first: "attach_wallet \<Gamma> u network a address db = Inr (db1, w, c)"
    and len: "length network \<le> 32" "length a \<le> 16" "length address' \<le> 64"
  shows "\<exists>db2. attach_wallet \<Gamma>' u network a address' db1 = Inr (db2, w, False) \<and>
     wallets db2 = wallets db1 \<and> balances db2 = balances db1"
proof -
  from first obtain db0 i where ins: "insert_wallet \<Gamma> u network a address db = Inr (db0, i)"
    and ens: "ensure_balance \<Gamma> u a db0 = Inr db1" and w: "get_wallet u network a db1 = Some w"
    by (auto simp: attach_wallet_def bindr_eq_Inr split: option.splits)
  have u: "int8 col u = Inr u" for col
    using ens by (auto simp: ensure_balance_def bindr_eq_Inr int8_def simp del: power_numeral split: if_splits)
  from ens len(2) have bal: "row_of bal_key (u, a) (balances db1) \<noteq> None"
    by (auto simp: ensure_balance_def bindr_eq_Inr u row_of_append bal_key_def split: if_splits option.split)
  let ?db = "db1\<lparr>draws := Suc (draws db1)\<rparr>"
  have row: "row_of wallet_key (u, network, a) (wallets db1) \<noteq> None" using w by (simp add: get_wallet_def)
  have "insert_wallet \<Gamma>' u network a address' db1 = Inr (?db, None)"
    using row len by (simp add: insert_wallet_def u Let_def)
  moreover have "ensure_balance \<Gamma>' u a ?db = Inr ?db" using bal len by (simp add: ensure_balance_def u)
  moreover have "get_wallet u network a ?db = Some w" using w by (simp add: get_wallet_def)
  ultimately show ?thesis by (simp add: attach_wallet_def)
qed

text \<open>
  The custody address issued for an owner is shared by all its networks, and
  \<open>wallets.address\<close> is unique: attaching the address of an existing wallet for a second
  network or asset raises the integrity error of that constraint instead of creating it.
\<close>

lemma second_network_rejected:
  assumes w: "w \<in> set (wallets db)" and absent: "get_wallet u network a db = None"
    and fresh: "row_of w_id (uuid4 \<Gamma> (draws db)) (wallets db) = None"
    and fits: "length network \<le> 32" "length a \<le> 16" "length (w_address w) \<le> 64" "- (2 ^ 63) \<le> u" "u < 2 ^ 63"
  shows "attach_wallet \<Gamma> u network a (w_address w) db = Inl (IntegrityError ''wallets_address_key'')"
proof -
  have "row_of w_address (w_address w) (wallets db) \<noteq> None" using w by (simp add: row_of_None)
  moreover have "int8 col u = Inr u" for col using fits by (simp add: int8_def)
  ultimately show ?thesis
    using absent fresh fits by (simp add: attach_wallet_def insert_wallet_def get_wallet_def Let_def)
qed

definition sample_attached :: "wdb \<times> wallet \<times> bool" where
  "sample_attached = (case attach_wallet sample_env 1 ''BSC'' ''USDT'' ''0xa'' sample_wdb of Inr x \<Rightarrow> x)"

end
