(* ===== verification/Transfers.thy ===== *)
theory Transfers
  imports Users
begin

text \<open>
  \<open>wallet_service/services/transfers.py\<close>: the transfer life cycle. Money is held when a
  transfer is created and posted when the chain confirms it; a failure releases the hold, or
  reverses the postings of a settled transfer.
\<close>

definition PRODUCER :: string where "PRODUCER = ''wallet-service''"
definition TRANSFER_REF :: string where "TRANSFER_REF = ''TRANSFER''"

section \<open>Creation\<close>

definition check_active :: "user \<Rightarrow> unit result" where
  "check_active u = (if u_status u \<noteq> ''ACTIVE''
     then Inl (app_exn ConflictError (''User '' @ py_str (u_id u) @ '' is not active.'') []) else Inr ())"

definition check_wallet :: "wallet \<Rightarrow> unit result" where
  "check_wallet w = (if w_status w \<noteq> ''ACTIVE''
     then Inl (app_exn WalletInactiveError (''Wallet '' @ uuid_str (w_id w) @ '' is not active.'') []) else Inr ())"

definition insufficient_funds :: "asset \<Rightarrow> int \<Rightarrow> int \<Rightarrow> exn" where
  "insufficient_funds a available requested =
     app_exn InsufficientFundsError
       (''Available balance is '' @ format_amount available (decimals a) @ '' '' @ symbol a @
        '', requested '' @ format_amount requested (decimals a) @ ''.'')
       [[(''available'', JStr (format_amount available (decimals a))),
         (''requested'', JStr (format_amount requested (decimals a))), (''asset'', JStr (symbol a))]]"

text \<open>
  The flush of a new row: coercions first (an error of the database), then the checks and
  unique constraints, whose violation is reported as a conflict. The stored row carries
  the coerced correlation id, the object in memory the original one.
\<close>

definition insert_transfer :: "transfer \<Rightarrow> wdb \<Rightarrow> wdb result" where
  "insert_transfer t db =
     bindr (varchar 128 ''transfers.idempotency_key'' (t_idempotency_key t)) (\<lambda>key.
     bindr (varchar 16 ''transfers.asset'' (t_asset t)) (\<lambda>a.
     bindr (varchar 32 ''transfers.network'' (t_network t)) (\<lambda>network.
     bindr (numeric78 ''transfers.amount'' (t_amount t)) (\<lambda>_.
     bindr (varchar 64 ''transfers.from_address'' (from_address t)) (\<lambda>fa.
     bindr (varchar 64 ''transfers.to_address'' (to_address t)) (\<lambda>ta.
     bindr (varchar_opt 64 ''transfers.correlation_id'' (t_correlation_id t)) (\<lambda>c.
       if t_amount t \<le> 0 \<or> from_user_id t = to_user_id t \<or>
          row_of t_id (t_id t) (transfers db) \<noteq> None \<or>
          row_of t_idempotency_key key (transfers db) \<noteq> None \<or>
          \<not> user_exists db (from_user_id t) \<or> \<not> user_exists db (to_user_id t)
       then Inl (app_exn ConflictError ''This transfer has already been created.'' [])
       else Inr (db\<lparr>transfers := transfers db @
              [t\<lparr>t_idempotency_key := key, t_asset := a, t_network := network, from_address := fa,
                 to_address := ta, t_correlation_id := c\<rparr>]\<rparr>))))))))"

definition requested_payload :: "asset \<Rightarrow> transfer \<Rightarrow> payload" where
  "requested_payload a t =
     [(''transfer_id'', JStr (uuid_str (t_id t))), (''from_user_id'', JInt (from_user_id t)),
      (''to_user_id'', JInt (to_user_id t)), (''asset'', JStr (symbol a)), (''network'', JStr (t_network t)),
      (''from_address'', JStr (from_address t)), (''to_address'', JStr (to_address t)),
      (''amount'', JStr (format_amount (t_amount t) (decimals a))), (''amount_units'', JStr (py_str (t_amount t)))]"

definition requested_event :: "env \<Rightarrow> asset \<Rightarrow> transfer \<Rightarrow> envelope" where
  "requested_event \<Gamma> a t =
     new_event \<Gamma> TRANSFER_REQUESTED (requested_payload a t) PRODUCER (Some (uuid_str (t_id t))) None None"

definition enqueue :: "envelope \<Rightarrow> wdb \<Rightarrow> wdb result" where
  "enqueue ev db = bindr (enqueue_event (w_outbox db) ev) (\<lambda>ob. Inr (db\<lparr>w_outbox := ob\<rparr>))"

definition new_transfer :: "env \<Rightarrow> wdb \<Rightarrow> int \<Rightarrow> int \<Rightarrow> asset \<Rightarrow> int \<Rightarrow> string \<Rightarrow> string \<Rightarrow> wallet \<Rightarrow> wallet \<Rightarrow> transfer" where
  "new_transfer \<Gamma> db fu tu a amount key network fw tw =
     \<lparr>t_id = uuid4 \<Gamma> (draws db), t_idempotency_key = key, from_user_id = fu, to_user_id = tu,
      t_asset = symbol a, t_network = network, t_amount = amount, from_address = w_address fw,
      to_address = w_address tw, t_status = CREATED, t_tx_hash = None, failure_code = None,
      failure_reason = None, t_correlation_id = get_correlation_id \<Gamma>, t_created_at = now \<Gamma>,
      t_updated_at = now \<Gamma>, settled_at = None\<rparr>"

definition create_transfer ::
  "env \<Rightarrow> int \<Rightarrow> int \<Rightarrow> string \<Rightarrow> int \<Rightarrow> string \<Rightarrow> string \<Rightarrow> wdb \<Rightarrow> (wdb \<times> transfer) result" where
  "create_transfer \<Gamma> fu tu asset amount key network db =
     (if fu = tu then Inl (app_exn ValidationError ''A transfer must have two distinct parties.'' []) else
      bindr (get_asset asset) (\<lambda>a.
      bindr (get_user fu db) (\<lambda>sender.
      bindr (get_user tu db) (\<lambda>recipient.
      bindr (check_active sender) (\<lambda>_.
      bindr (check_active recipient) (\<lambda>_.
      case (get_wallet fu network (symbol a) db, get_wallet tu network (symbol a) db) of
        (Some fw, Some tw) \<Rightarrow>
          bindr (check_wallet fw) (\<lambda>_.
          bindr (check_wallet tw) (\<lambda>_.
          bindr (lock_balance \<Gamma> fu (symbol a) db) (\<lambda>(db1, b).
          bindr (place_hold \<Gamma> fu (symbol a) amount db1) (\<lambda>(db2, held).
            if \<not> held then Inl (insufficient_funds a (posted b - reserved b) amount)
            else let t = new_transfer \<Gamma> db2 fu tu a amount key network fw tw in
              bindr (insert_transfer t (db2\<lparr>draws := Suc (draws db2)\<rparr>)) (\<lambda>db3.
              bindr (enqueue (requested_event \<Gamma> a t) db3) (\<lambda>db4. Inr (db4, t)))))))
      | (fw, _) \<Rightarrow>
          Inl (app_exn NotFoundError
            (''User '' @ py_str (if fw = None then fu else tu) @ '' has no '' @ symbol a @
             '' wallet on '' @ network @ ''.'') [])))))))"

section \<open>Chain events\<close>

definition load_for_update :: "payload \<Rightarrow> wdb \<Rightarrow> transfer option result" where
  "load_for_update p db =
     bindr (jreq p ''transfer_id'') (\<lambda>v. bindr (juuid v) (\<lambda>u. Inr (row_of t_id u (transfers db))))"

text \<open>
  The changed attributes of a loaded row are written when the transaction commits;
  \<open>updated_at\<close> moves only if something changed.
\<close>

definition with_mutable :: "transfer \<Rightarrow> transfer \<Rightarrow> transfer" where
  "with_mutable n r = r\<lparr>t_status := t_status n, t_tx_hash := t_tx_hash n, failure_code := failure_code n,
     failure_reason := failure_reason n, t_updated_at := t_updated_at n, settled_at := settled_at n\<rparr>"

definition save_transfer :: "env \<Rightarrow> transfer \<Rightarrow> transfer \<Rightarrow> wdb \<Rightarrow> wdb result" where
  "save_transfer \<Gamma> old new db =
     (if new = old then Inr db else
      bindr (varchar_opt 80 ''transfers.tx_hash'' (t_tx_hash new)) (\<lambda>h.
      bindr (varchar_opt 48 ''transfers.failure_code'' (failure_code new)) (\<lambda>fc.
        Inr (db\<lparr>transfers := upd_of t_id (t_id old)
              (with_mutable (new\<lparr>t_tx_hash := h, failure_code := fc, t_updated_at := now \<Gamma>\<rparr>)) (transfers db)\<rparr>))))"

text \<open>\<open>payload.get(k)\<close> stored in a text column, and \<open>payload.get(k) or old\<close>.\<close>

definition pget_text :: "payload \<Rightarrow> string \<Rightarrow> string option" where
  "pget_text p k = (case jget p k of None \<Rightarrow> None | Some v \<Rightarrow> jtext v)"

definition pget_or :: "payload \<Rightarrow> string \<Rightarrow> string option \<Rightarrow> string option" where
  "pget_or p k old = (case jget p k of None \<Rightarrow> old | Some v \<Rightarrow> if jtruthy v then jtext v else old)"

definition pget_default :: "payload \<Rightarrow> string \<Rightarrow> jval \<Rightarrow> jval" where
  "pget_default p k d = (case jget p k of None \<Rightarrow> d | Some v \<Rightarrow> v)"

definition mark_broadcasted :: "env \<Rightarrow> payload \<Rightarrow> wdb \<Rightarrow> (wdb \<times> string) result" where
  "mark_broadcasted \<Gamma> p db =
     bindr (load_for_update p db) (\<lambda>r.
       case r of
         None \<Rightarrow> Inr (db, ''ignored'')
       | Some t \<Rightarrow>
           if t_status t \<in> set TERMINAL then Inr (db, ''duplicate'')
           else bindr (save_transfer \<Gamma> t (t\<lparr>t_status := BROADCASTED, t_tx_hash := pget_text p ''tx_hash''\<rparr>) db)
             (\<lambda>db1. Inr (db1, ''processed'')))"

definition settle_postings :: "transfer \<Rightarrow> posting list" where
  "settle_postings t =
     [\<lparr>p_user_id = from_user_id t, p_amount = - t_amount t, p_entry_type = TRANSFER_DEBIT,
       p_reference_type = TRANSFER_REF, p_reference_id = uuid_str (t_id t)\<rparr>,
      \<lparr>p_user_id = to_user_id t, p_amount = t_amount t, p_entry_type = TRANSFER_CREDIT,
       p_reference_type = TRANSFER_REF, p_reference_id = uuid_str (t_id t)\<rparr>]"

definition reversal_postings :: "transfer \<Rightarrow> posting list" where
  "reversal_postings t =
     [\<lparr>p_user_id = from_user_id t, p_amount = t_amount t, p_entry_type = REVERSAL,
       p_reference_type = TRANSFER_REF, p_reference_id = uuid_str (t_id t)\<rparr>,
      \<lparr>p_user_id = to_user_id t, p_amount = - t_amount t, p_entry_type = REVERSAL,
       p_reference_type = TRANSFER_REF, p_reference_id = uuid_str (t_id t)\<rparr>]"

definition settle_transfer :: "env \<Rightarrow> payload \<Rightarrow> wdb \<Rightarrow> (wdb \<times> string) result" where
  "settle_transfer \<Gamma> p db =
     bindr (load_for_update p db) (\<lambda>r.
       case r of
         None \<Rightarrow> Inr (db, ''ignored'')
       | Some t \<Rightarrow>
           if t_status t = CONFIRMED then Inr (db, ''duplicate'')
           else if t_status t = FAILED then Inr (db, ''ignored'')
           else
             bindr (release_hold \<Gamma> (from_user_id t) (t_asset t) (t_amount t) db) (\<lambda>db1.
             bindr (post_entries \<Gamma> (t_asset t) (settle_postings t) db1) (\<lambda>(db2, _).
             bindr (save_transfer \<Gamma> t (t\<lparr>t_status := CONFIRMED, t_tx_hash := pget_or p ''tx_hash'' (t_tx_hash t),
                      settled_at := Some (now \<Gamma>)\<rparr>) db2) (\<lambda>db3. Inr (db3, ''processed'')))))"

definition fail_transfer :: "env \<Rightarrow> payload \<Rightarrow> wdb \<Rightarrow> (wdb \<times> string) result" where
  "fail_transfer \<Gamma> p db =
     bindr (load_for_update p db) (\<lambda>r.
       case r of
         None \<Rightarrow> Inr (db, ''ignored'')
       | Some t \<Rightarrow>
           if t_status t = FAILED then Inr (db, ''duplicate'')
           else
             let code = pget_default p ''code'' (JStr ''UNKNOWN'');
                 reason = pget_default p ''reason'' (JStr ''transaction failed'') in
             bindr (if t_status t = CONFIRMED
                    then bindr (post_entries \<Gamma> (t_asset t) (reversal_postings t) db) (\<lambda>(db1, _). Inr db1)
                    else release_hold \<Gamma> (from_user_id t) (t_asset t) (t_amount t) db) (\<lambda>db1.
             bindr (save_transfer \<Gamma> t (t\<lparr>t_status := FAILED, failure_code := jtext code,
                      failure_reason := Some (take 1000 (jfmt reason)),
                      t_tx_hash := pget_or p ''tx_hash'' (t_tx_hash t)\<rparr>) db1) (\<lambda>db2. Inr (db2, ''processed''))))"

section \<open>Invariant\<close>

definition is_open :: "transfer \<Rightarrow> bool" where
  "is_open t = (t_status t \<in> set OPEN)"

text \<open>The funds of an account held for its open transfers.\<close>

definition held :: "wdb \<Rightarrow> int \<times> string \<Rightarrow> int" where
  "held db k = total (\<lambda>t. is_open t \<and> (from_user_id t, t_asset t) = k) t_amount (transfers db)"

type_synonym row_view = "int \<times> string \<times> int \<times> entry_type"

definition view_entry :: "ledger_entry \<Rightarrow> row_view" where
  "view_entry e = (l_user_id e, l_asset e, l_amount e, l_entry_type e)"

definition view_posting :: "string \<Rightarrow> posting \<Rightarrow> row_view" where
  "view_posting a p = (p_user_id p, a, p_amount p, p_entry_type p)"

definition of_transfer :: "transfer \<Rightarrow> ledger_entry \<Rightarrow> bool" where
  "of_transfer t e = (reference_type e = TRANSFER_REF \<and> reference_id e = uuid_str (t_id t))"

text \<open>The ledger entries of a transfer, and what they are in each status.\<close>

definition trail :: "wdb \<Rightarrow> transfer \<Rightarrow> row_view list" where
  "trail db t = map view_entry (filter (of_transfer t) (entries db))"

definition settled_rows :: "transfer \<Rightarrow> row_view list" where
  "settled_rows t = map (view_posting (t_asset t)) (sort_key p_user_id (settle_postings t))"

definition reversed_rows :: "transfer \<Rightarrow> row_view list" where
  "reversed_rows t = map (view_posting (t_asset t)) (sort_key p_user_id (reversal_postings t))"

definition trail_ok :: "wdb \<Rightarrow> transfer \<Rightarrow> bool" where
  "trail_ok db t =
     (if is_open t then trail db t = []
      else if t_status t = CONFIRMED then trail db t = settled_rows t
      else trail db t = [] \<or> trail db t = settled_rows t @ reversed_rows t)"

definition transfer_net :: "wdb \<Rightarrow> string \<Rightarrow> int" where
  "transfer_net db a = total (\<lambda>e. reference_type e = TRANSFER_REF \<and> l_asset e = a) l_amount (entries db)"

definition transfers_ok :: "wdb \<Rightarrow> bool" where
  "transfers_ok db =
     (uniq t_id (transfers db) \<and> uniq t_idempotency_key (transfers db) \<and>
      (\<forall>t\<in>set (transfers db). 0 < t_amount t \<and> from_user_id t \<noteq> to_user_id t \<and> length (t_asset t) \<le> 16 \<and>
         has_acct db (from_user_id t, t_asset t) \<and> trail_ok db t) \<and>
      (\<forall>k. acct_reserved db k = held db k) \<and>
      (\<forall>e\<in>set (entries db). reference_type e = TRANSFER_REF \<longrightarrow> (\<exists>t\<in>set (transfers db). of_transfer t e)) \<and>
      (\<forall>a. transfer_net db a = 0) \<and> (\<forall>t\<in>set (transfers db). user_exists db (to_user_id t)))"

lemma transfers_okD:
  assumes "transfers_ok db"
  shows "uniq t_id (transfers db)" "uniq t_idempotency_key (transfers db)"
    "t \<in> set (transfers db) \<Longrightarrow> 0 < t_amount t" "t \<in> set (transfers db) \<Longrightarrow> from_user_id t \<noteq> to_user_id t"
    "t \<in> set (transfers db) \<Longrightarrow> length (t_asset t) \<le> 16"
    "t \<in> set (transfers db) \<Longrightarrow> has_acct db (from_user_id t, t_asset t)" "t \<in> set (transfers db) \<Longrightarrow> trail_ok db t"
    "acct_reserved db k = held db k"
    "\<lbrakk>e \<in> set (entries db); reference_type e = TRANSFER_REF\<rbrakk> \<Longrightarrow> \<exists>t\<in>set (transfers db). of_transfer t e"
    "transfer_net db a = 0" "t \<in> set (transfers db) \<Longrightarrow> user_exists db (to_user_id t)"
  using assms unfolding transfers_ok_def by blast+

lemma TRANSFER_REF_len [simp]: "length TRANSFER_REF \<le> 24"
  by (simp add: TRANSFER_REF_def)

lemma settle_keys:
  "map posted_key (settle_postings t) =
     [Some (from_user_id t, TRANSFER_DEBIT, TRANSFER_REF, uuid_str (t_id t)),
      Some (to_user_id t, TRANSFER_CREDIT, TRANSFER_REF, uuid_str (t_id t))]"
  "map posted_key (reversal_postings t) =
     [Some (from_user_id t, REVERSAL, TRANSFER_REF, uuid_str (t_id t)),
      Some (to_user_id t, REVERSAL, TRANSFER_REF, uuid_str (t_id t))]"
  by (simp_all add: settle_postings_def reversal_postings_def posted_key_plain)

text \<open>A posting of a transfer is in the ledger exactly when its trail shows it.\<close>

lemma is_posted_trail:
  assumes "posted_key p = Some (u, ty, TRANSFER_REF, uuid_str (t_id t))"
  shows "is_posted db p \<longleftrightarrow> (\<exists>a n. (u, a, n, ty) \<in> set (trail db t))"
proof -
  have "is_posted db p \<longleftrightarrow> (\<exists>e\<in>set (entries db). l_user_id e = u \<and> l_entry_type e = ty \<and> of_transfer t e)"
    using assms by (auto simp: is_posted_def entry_key_def of_transfer_def)
  also have "\<dots> \<longleftrightarrow> (\<exists>a n. (u, a, n, ty) \<in> set (trail db t))"
    by (auto simp: trail_def view_entry_def)
  finally show ?thesis .
qed

lemma trail_append: "entries db' = entries db @ es \<Longrightarrow> trail db' t = trail db t @ map view_entry (filter (of_transfer t) es)"
  by (simp add: trail_def)

definition immut :: "transfer \<Rightarrow> uuid \<times> string \<times> int \<times> int \<times> string \<times> string \<times> int \<times> string \<times> string" where
  "immut t = (t_id t, t_idempotency_key t, from_user_id t, to_user_id t, t_asset t, t_network t, t_amount t,
     from_address t, to_address t)"

lemma immut_sel:
  assumes "immut a = immut b"
  shows "t_id a = t_id b" "t_idempotency_key a = t_idempotency_key b" "from_user_id a = from_user_id b"
    "to_user_id a = to_user_id b" "t_asset a = t_asset b" "t_amount a = t_amount b" "of_transfer a = of_transfer b"
    "trail db a = trail db b" "settled_rows a = settled_rows b" "reversed_rows a = reversed_rows b"
  using assms
  by (simp_all add: immut_def of_transfer_def [abs_def] trail_def settled_rows_def reversed_rows_def
      settle_postings_def reversal_postings_def)

lemma of_transfer_other: "\<lbrakk>of_transfer t e; t_id t' \<noteq> t_id t\<rbrakk> \<Longrightarrow> \<not> of_transfer t' e"
  by (auto simp: of_transfer_def uuid_str_inj)

lemma transfers_ok_step:
  assumes ok: "transfers_ok db" and row: "row_of t_id (t_id t) (transfers db) = Some t"
    and tr: "transfers db' = upd_of t_id (t_id t) f (transfers db)" and im: "\<And>r. immut (f r) = immut r"
    and en: "entries db' = entries db @ es" "\<And>e. e \<in> set es \<Longrightarrow> of_transfer t e"
    and net: "\<And>a. total (\<lambda>e. l_asset e = a) l_amount es = 0"
    and res: "\<And>k. acct_reserved db' k = acct_reserved db k
      - (if is_open t \<and> (from_user_id t, t_asset t) = k then t_amount t else 0)
      + (if is_open (f t) \<and> (from_user_id t, t_asset t) = k then t_amount t else 0)"
    and trail: "trail_ok db' (f t)" and acct: "\<And>k. has_acct db k \<Longrightarrow> has_acct db' k"
    and us: "users db' = users db"
  shows "transfers_ok db'"
proof -
  note D = transfers_okD [OF ok]
  note I = immut_sel [OF im]
  from row have t: "t \<in> set (transfers db)" using row_of_Some by fast
  have mem: "\<exists>y\<in>set (transfers db). immut x = immut y \<and> (x = f t \<and> y = t \<or> x = y \<and> t_id x \<noteq> t_id t)"
    if "x \<in> set (transfers db')" for x
  proof -
    from that obtain y where y: "y \<in> set (transfers db)" and x: "x = (if t_id y = t_id t then f y else y)"
      by (auto simp: tr set_upd_of)
    show ?thesis
    proof (cases "t_id y = t_id t")
      case True
      have "y = t" using row_of_unique [OF D(1) y] row unfolding True by simp
      moreover have "x = f y" using x True by (simp only: simp_thms if_True)
      ultimately show ?thesis using t im by blast
    next
      case False
      with x y show ?thesis by (intro bexI [of _ y]) simp_all
    qed
  qed
  have rows: "0 < t_amount x \<and> from_user_id x \<noteq> to_user_id x \<and> length (t_asset x) \<le> 16 \<and>
      has_acct db' (from_user_id x, t_asset x) \<and> trail_ok db' x \<and> user_exists db' (to_user_id x)" if x: "x \<in> set (transfers db')" for x
  proof -
    from mem [OF x] obtain y where y: "y \<in> set (transfers db)" "immut x = immut y"
      and alt: "x = f t \<and> y = t \<or> x = y \<and> t_id x \<noteq> t_id t" by blast
    have "trail_ok db' x"
    proof (cases "x = f t \<and> y = t")
      case False
      with alt have eq: "x = y" and ne: "t_id x \<noteq> t_id t" by auto
      have "filter (of_transfer x) es = []" using en(2) of_transfer_other [OF _ ne] by (auto simp: filter_empty_conv)
      then have "trail db' x = trail db x" using trail_append [OF en(1)] by simp
      then show ?thesis using D(7) [OF y(1)] eq by (simp add: trail_ok_def)
    qed (use trail in simp)
    moreover have "has_acct db' (from_user_id x, t_asset x)"
      using acct D(6) [OF y(1)] immut_sel(3,5) [OF y(2)] by simp
    moreover have "user_exists db' (to_user_id x)"
      using D(11) [OF y(1)] immut_sel(4) [OF y(2)] us by (simp add: user_exists_def)
    ultimately show ?thesis using D(3-5) [OF y(1)] immut_sel(3-6) [OF y(2)] by simp
  qed
  have held: "held db' k = held db k
      - (if is_open t \<and> (from_user_id t, t_asset t) = k then t_amount t else 0)
      + (if is_open (f t) \<and> (from_user_id t, t_asset t) = k then t_amount t else 0)" for k
    unfolding held_def tr using total_upd [OF D(1) row] I by simp
  have refs: "\<exists>x\<in>set (transfers db'). of_transfer x e"
    if e: "e \<in> set (entries db')" "reference_type e = TRANSFER_REF" for e
  proof -
    have "\<exists>y\<in>set (transfers db). of_transfer y e" using e en t D(9) by auto
    then obtain y where y: "y \<in> set (transfers db)" "of_transfer y e" ..
    then have "(if t_id y = t_id t then f y else y) \<in> set (transfers db')" by (auto simp: tr set_upd_of)
    moreover have "of_transfer (if t_id y = t_id t then f y else y) e" using y I(7) by simp
    ultimately show ?thesis by blast
  qed
  have "transfer_net db' a = 0" for a
  proof -
    have "total (\<lambda>e. reference_type e = TRANSFER_REF \<and> l_asset e = a) l_amount es = total (\<lambda>e. l_asset e = a) l_amount es"
      using en(2) by (intro total_cong) (auto simp: of_transfer_def)
    then show ?thesis using D(10) net by (simp add: transfer_net_def en(1))
  qed
  moreover have "uniq t_id (transfers db')" "uniq t_idempotency_key (transfers db')"
    using D(1,2) I(1,2) by (simp_all add: tr uniq_upd)
  moreover have "acct_reserved db' k = held db' k" for k using res held D(8) by simp
  ultimately show ?thesis using rows refs unfolding transfers_ok_def by blast
qed

lemma save_transfer_cases:
  assumes "save_transfer \<Gamma> old new db = Inr db'"
    and "immut new = immut old"
  obtains f where "db' = db\<lparr>transfers := upd_of t_id (t_id old) f (transfers db)\<rparr>" "\<And>r. immut (f r) = immut r"
    "t_status (f old) = t_status new" "settled_at (f old) = settled_at new"
    "failure_reason (f old) = failure_reason new"
proof (cases "new = old")
  case True
  with assms have "db' = db" by (simp add: save_transfer_def)
  moreover have "upd_of t_id (t_id old) (\<lambda>r. r) (transfers db) = transfers db" by (simp add: upd_of_def)
  ultimately show ?thesis using that [of "\<lambda>r. r"] True by simp
next
  case False
  with assms obtain h fc where "db' = db\<lparr>transfers := upd_of t_id (t_id old)
      (with_mutable (new\<lparr>t_tx_hash := h, failure_code := fc, t_updated_at := now \<Gamma>\<rparr>)) (transfers db)\<rparr>"
    by (auto simp: save_transfer_def bindr_eq_Inr)
  then show ?thesis by (rule that) (simp_all add: with_mutable_def immut_def)
qed

section \<open>What the operations do\<close>

text \<open>Only the tables of the ledger and the transfers are touched by a chain event.\<close>

definition core_frame :: "wdb \<Rightarrow> wdb \<Rightarrow> bool" where
  "core_frame db db' = (db' = db\<lparr>balances := balances db', entries := entries db', entry_seq := entry_seq db',
     draws := draws db', transfers := transfers db'\<rparr>)"

lemma core_frame_sel:
  assumes "core_frame db db'"
  shows "users db' = users db" "user_seq db' = user_seq db" "wallets db' = wallets db"
    "idem_keys db' = idem_keys db" "w_outbox db' = w_outbox db"
    "processed db' = processed db" "dead_rows db' = dead_rows db"
  by (subst assms [unfolded core_frame_def], simp)+

lemma core_frame_refl [simp]: "core_frame db db"
  by (simp add: core_frame_def)

lemma core_frame_ledger:
  assumes "ledger_frame db db1" "db' = db1\<lparr>transfers := x\<rparr>" shows "core_frame db db'"
  using ledger_frame_sel [OF assms(1)] by (simp add: core_frame_def assms(2))

lemma acct_transfers [simp]:
  "acct_posted (db\<lparr>transfers := x\<rparr>) = acct_posted db" "acct_reserved (db\<lparr>transfers := x\<rparr>) = acct_reserved db"
  "has_acct (db\<lparr>transfers := x\<rparr>) = has_acct db"
  by (simp_all add: acct_posted_def acct_reserved_def has_acct_def fun_eq_iff)

lemma ledger_ok_transfers: "ledger_ok (db\<lparr>transfers := x\<rparr>) = ledger_ok db"
  by (rule ledger_ok_cong) simp_all

lemma load_for_update_eq:
  "load_for_update p db = Inr (Some t) \<Longrightarrow> row_of t_id (t_id t) (transfers db) = Some t"
  by (auto simp: load_for_update_def bindr_eq_Inr dest: row_of_Some)

lemma view_of_entry: "entry_of a p e \<Longrightarrow> view_entry e = view_posting a p"
  by (auto simp: entry_of_def view_entry_def view_posting_def posted_key_def entry_key_def split: sum.splits)

lemma list_all2_view: "list_all2 (entry_of a) ps es \<Longrightarrow> map view_entry es = map (view_posting a) ps"
  by (induction rule: list_all2_induct) (simp_all add: view_of_entry)

lemma entry_of_transfer:
  assumes "entry_of a p e" "p_reference_type p = TRANSFER_REF" "p_reference_id p = uuid_str (t_id t)"
  shows "of_transfer t e"
proof -
  have "posted_key p = Some (p_user_id p, p_entry_type p, TRANSFER_REF, uuid_str (t_id t))"
    using assms(2,3) by (simp add: posted_key_plain)
  moreover have "posted_key p = Some (entry_key e)" using assms(1) by (simp add: entry_of_def)
  ultimately show ?thesis by (simp add: entry_key_def of_transfer_def)
qed

lemma list_all2_of_transfer:
  assumes "list_all2 (entry_of a) ps es" "\<forall>p\<in>set ps. p_reference_type p = TRANSFER_REF \<and> p_reference_id p = uuid_str (t_id t)"
  shows "\<forall>e\<in>set es. of_transfer t e"
  using assms by (induction rule: list_all2_induct) (simp_all add: entry_of_transfer)

lemma total_view:
  "map view_entry es = map (view_posting a) ps \<Longrightarrow> total (\<lambda>e. l_asset e = b) l_amount es =
     (if a = b then sum_list (map p_amount ps) else 0)"
proof (induction es arbitrary: ps)
  case (Cons e es)
  then obtain p ps' where "ps = p # ps'" by (cases ps) auto
  with Cons show ?case by (auto simp: view_entry_def view_posting_def)
qed simp

lemma sum_list_sort_key: "sum_list (map (f :: _ \<Rightarrow> int) (sort_key g xs)) = sum_list (map f xs)"
proof -
  have "mset (map f (sort_key g xs)) = mset (map f xs)" by simp
  then show ?thesis by (metis sum_mset_sum_list)
qed

text \<open>
  The two postings of a settlement or of a reversal, applied to a transfer whose trail does
  not show them: both are written, they cancel, and they move the two accounts.
\<close>

definition pair_of :: "transfer \<Rightarrow> posting list \<Rightarrow> bool" where
  "pair_of t ps = (ps = settle_postings t \<or> ps = reversal_postings t)"

lemma post_pair:
  assumes ok: "ledger_ok db" and run: "post_entries \<Gamma> (t_asset t) ps db = Inr (db', n)"
    and pair: "pair_of t ps" and ne: "from_user_id t \<noteq> to_user_id t"
    and new: "\<forall>u a m ty. (u, a, m, ty) \<in> set (trail db t) \<longrightarrow> ty \<notin> p_entry_type ` set ps"
  shows "ledger_ok db'" and "ledger_frame db db'" and "acct_reserved db' = acct_reserved db"
    and "has_acct db k \<Longrightarrow> has_acct db' k"
    and "acct_posted db' = (\<lambda>k. acct_posted db k + delta (t_asset t) ps k)"
    and "trail db' t = trail db t @ map (view_posting (t_asset t)) (sort_key p_user_id ps)"
    and "\<exists>es. entries db' = entries db @ es \<and> (\<forall>e\<in>set es. of_transfer t e) \<and>
      (\<forall>a. total (\<lambda>e. l_asset e = a) l_amount es = 0)"
proof -
  have refs: "\<forall>p\<in>set ps. p_reference_type p = TRANSFER_REF \<and> p_reference_id p = uuid_str (t_id t)"
    and zero: "sum_list (map p_amount ps) = 0" and dist: "distinct (map posted_key ps)"
    and key: "\<forall>p\<in>set ps. posted_key p = Some (p_user_id p, p_entry_type p, TRANSFER_REF, uuid_str (t_id t))"
    using pair ne by (auto simp: pair_of_def settle_postings_def reversal_postings_def posted_key_plain)
  have "list_all (\<lambda>p. \<not> is_posted db p) ps"
    unfolding list_all_iff
  proof
    fix p assume "p \<in> set ps"
    with key new show "\<not> is_posted db p" using is_posted_trail [of p _ _ t db] by blast
  qed
  note X = post_entries_exact [OF ok run this dist]
  then obtain es where es: "entries db' = entries db @ es" "list_all2 (entry_of (t_asset t)) (sort_key p_user_id ps) es" by blast
  note view = list_all2_view [OF es(2)]
  have of: "\<forall>e\<in>set es. of_transfer t e" using refs by (intro list_all2_of_transfer [OF es(2)]) simp
  then have "filter (of_transfer t) es = es" by simp
  then show "trail db' t = trail db t @ map (view_posting (t_asset t)) (sort_key p_user_id ps)"
    using trail_append [OF es(1)] view by simp
  have "total (\<lambda>e. l_asset e = a) l_amount es = 0" for a
    using total_view [OF view] zero by (simp add: sum_list_sort_key)
  with es(1) of show "\<exists>es. entries db' = entries db @ es \<and> (\<forall>e\<in>set es. of_transfer t e) \<and>
      (\<forall>a. total (\<lambda>e. l_asset e = a) l_amount es = 0)" by blast
  show "acct_posted db' = (\<lambda>k. acct_posted db k + delta (t_asset t) ps k)" using X by blast
  show "ledger_ok db'" "ledger_frame db db'" "acct_reserved db' = acct_reserved db" "has_acct db k \<Longrightarrow> has_acct db' k"
    using post_all_ok [OF ok run [unfolded post_entries_def]] by blast+
qed

text \<open>An open transfer settles: the hold is gone, the amount has moved, the trail has both rows.\<close>

lemma settle_spec:
  assumes lok: "ledger_ok db" and tok: "transfers_ok db"
    and run: "settle_transfer \<Gamma> p db = Inr (db', outcome)"
    and row: "load_for_update p db = Inr (Some t)" and op: "is_open t"
  shows "outcome = ''processed''" and "ledger_ok db'" and "transfers_ok db'" and "core_frame db db'"
    and "acct_posted db' = (\<lambda>k. acct_posted db k + delta (t_asset t) (settle_postings t) k)"
    and "acct_reserved db' = (acct_reserved db)((from_user_id t, t_asset t) := acct_reserved db (from_user_id t, t_asset t) - t_amount t)"
    and "\<exists>t'. row_of t_id (t_id t) (transfers db') = Some t' \<and> immut t' = immut t \<and> t_status t' = CONFIRMED \<and> settled_at t' = Some (now \<Gamma>)"
    and "trail db' t = settled_rows t"
proof -
  let ?k = "(from_user_id t, t_asset t)"
  let ?new = "t\<lparr>t_status := CONFIRMED, t_tx_hash := pget_or p ''tx_hash'' (t_tx_hash t), settled_at := Some (now \<Gamma>)\<rparr>"
  note t = load_for_update_eq [OF row]
  then have mem: "t \<in> set (transfers db)" using row_of_Some by fast
  note D = transfers_okD [OF tok]
  from op have st: "t_status t \<noteq> CONFIRMED" "t_status t \<noteq> FAILED" by (auto simp: is_open_def OPEN_def)
  from run row st obtain db1 db2 n where rel: "release_hold \<Gamma> (from_user_id t) (t_asset t) (t_amount t) db = Inr db1"
    and post: "post_entries \<Gamma> (t_asset t) (settle_postings t) db1 = Inr (db2, n)"
    and save: "save_transfer \<Gamma> t ?new db2 = Inr db'" and out: "outcome = ''processed''"
    by (auto simp: settle_transfer_def bindr_eq_Inr)
  show "outcome = ''processed''" by (rule out)
  note R = release_hold_spec [OF lok rel]
  have tr0: "trail db1 t = []" using D(7) [OF mem] op R(3) by (simp add: trail_ok_def trail_def)
  note P = post_pair [OF R(1) post _ D(4) [OF mem]]
  have pp: "pair_of t (settle_postings t)" by (simp add: pair_of_def)
  note P = P [OF pp] 
  have nw: "\<forall>u a m ty. (u, a, m, ty) \<in> set (trail db1 t) \<longrightarrow> ty \<notin> p_entry_type ` set (settle_postings t)" using tr0 by simp
  note P = P [OF nw]
  from save obtain f where f: "db' = db2\<lparr>transfers := upd_of t_id (t_id t) f (transfers db2)\<rparr>" "\<And>r. immut (f r) = immut r"
    "t_status (f t) = CONFIRMED" "settled_at (f t) = Some (now \<Gamma>)"
    by (rule save_transfer_cases) (auto simp: immut_def)
  have lf: "ledger_frame db db2" using ledger_frame_trans [OF R(2) P(2)] .
  have trs: "transfers db' = upd_of t_id (t_id t) f (transfers db)" using f(1) ledger_frame_sel(4) [OF lf] by simp
  have res: "acct_reserved db' = (acct_reserved db)(?k := acct_reserved db ?k - t_amount t)"
    using R(7) P(3) D(6) [OF mem] f(1) by simp
  have tr: "trail db' t = settled_rows t" using P(6) tr0 f(1) by (simp add: settled_rows_def trail_def)
  from P(7) obtain es where es: "entries db2 = entries db1 @ es" "\<forall>e\<in>set es. of_transfer t e"
    "\<forall>a. total (\<lambda>e. l_asset e = a) l_amount es = 0" by blast
  have closed: "\<not> is_open (f t)" using f(3) by (simp add: is_open_def OPEN_def)
  show "transfers_ok db'"
  proof (rule transfers_ok_step [OF tok t trs f(2)])
    show "entries db' = entries db @ es" using es(1) R(3) f(1) by simp
    show "trail_ok db' (f t)"
      using tr closed f(3) immut_sel(8,9) [OF f(2)] by (simp add: trail_ok_def)
    show "has_acct db' k" if "has_acct db k" for k using that R(6) P(4) f(1) by simp
    show "users db' = users db" using ledger_frame_sel(1) [OF lf] f(1) by simp
    show "acct_reserved db' k = acct_reserved db k
      - (if is_open t \<and> ?k = k then t_amount t else 0)
      + (if is_open (f t) \<and> ?k = k then t_amount t else 0)" for k
      using res op closed by auto
  qed (use es in auto)
  show "ledger_ok db'" using P(1) f(1) ledger_ok_transfers by simp
  show "core_frame db db'" using core_frame_ledger [OF lf f(1)] .
  show "acct_posted db' = (\<lambda>k. acct_posted db k + delta (t_asset t) (settle_postings t) k)" using P(5) R(5) f(1) by simp
  show "acct_reserved db' = (acct_reserved db)(?k := acct_reserved db ?k - t_amount t)" by (rule res)
  show "trail db' t = settled_rows t" by (rule tr)
  show "\<exists>t'. row_of t_id (t_id t) (transfers db') = Some t' \<and> immut t' = immut t \<and> t_status t' = CONFIRMED \<and> settled_at t' = Some (now \<Gamma>)"
    using t f(2-4) immut_sel(1) [OF f(2)] by (simp add: trs row_of_upd)
qed

text \<open>Failing an open transfer releases its hold and posts nothing.\<close>

lemma fail_open_spec:
  assumes lok: "ledger_ok db" and tok: "transfers_ok db"
    and run: "fail_transfer \<Gamma> p db = Inr (db', outcome)"
    and row: "load_for_update p db = Inr (Some t)" and op: "is_open t"
  shows "outcome = ''processed''" and "ledger_ok db'" and "transfers_ok db'" and "core_frame db db'"
    and "acct_posted db' = acct_posted db" and "entries db' = entries db"
    and "acct_reserved db' = (acct_reserved db)((from_user_id t, t_asset t) := acct_reserved db (from_user_id t, t_asset t) - t_amount t)"
    and "\<exists>t'. row_of t_id (t_id t) (transfers db') = Some t' \<and> immut t' = immut t \<and> t_status t' = FAILED"
proof -
  let ?k = "(from_user_id t, t_asset t)"
  note t = load_for_update_eq [OF row]
  then have mem: "t \<in> set (transfers db)" using row_of_Some by fast
  note D = transfers_okD [OF tok]
  from op have st: "t_status t \<noteq> CONFIRMED" "t_status t \<noteq> FAILED" by (auto simp: is_open_def OPEN_def)
  let ?new = "t\<lparr>t_status := FAILED, failure_code := jtext (pget_default p ''code'' (JStr ''UNKNOWN'')),
    failure_reason := Some (take 1000 (jfmt (pget_default p ''reason'' (JStr ''transaction failed'')))),
    t_tx_hash := pget_or p ''tx_hash'' (t_tx_hash t)\<rparr>"
  from run row st obtain db1 where rel: "release_hold \<Gamma> (from_user_id t) (t_asset t) (t_amount t) db = Inr db1"
    and save: "save_transfer \<Gamma> t ?new db1 = Inr db'" and out: "outcome = ''processed''"
    by (auto simp: fail_transfer_def bindr_eq_Inr Let_def)
  show "outcome = ''processed''" by (rule out)
  note R = release_hold_spec [OF lok rel]
  from save obtain f where f: "db' = db1\<lparr>transfers := upd_of t_id (t_id t) f (transfers db1)\<rparr>" "\<And>r. immut (f r) = immut r"
    "t_status (f t) = FAILED"
    by (rule save_transfer_cases) (auto simp: immut_def)
  have trs: "transfers db' = upd_of t_id (t_id t) f (transfers db)" using f(1) ledger_frame_sel(4) [OF R(2)] by simp
  have res: "acct_reserved db' = (acct_reserved db)(?k := acct_reserved db ?k - t_amount t)"
    using R(7) D(6) [OF mem] f(1) by simp
  have closed: "\<not> is_open (f t)" using f(3) by (simp add: is_open_def OPEN_def)
  have en: "entries db' = entries db" using R(3) f(1) by simp
  show "transfers_ok db'"
  proof (rule transfers_ok_step [OF tok t trs f(2)])
    show "entries db' = entries db @ []" using en by simp
    have "trail db' t = []" using D(7) [OF mem] op en by (simp add: trail_ok_def trail_def)
    then show "trail_ok db' (f t)"
      using closed f(3) immut_sel(8) [OF f(2)] by (simp add: trail_ok_def)
    show "has_acct db' k" if "has_acct db k" for k using that R(6) f(1) by simp
    show "users db' = users db" using ledger_frame_sel(1) [OF R(2)] f(1) by simp
    show "acct_reserved db' k = acct_reserved db k
      - (if is_open t \<and> ?k = k then t_amount t else 0)
      + (if is_open (f t) \<and> ?k = k then t_amount t else 0)" for k
      using res op closed by auto
  qed simp_all
  show "ledger_ok db'" using R(1) f(1) ledger_ok_transfers by simp
  show "core_frame db db'" using core_frame_ledger [OF R(2) f(1)] .
  show "acct_posted db' = acct_posted db" using R(5) f(1) by simp
  show "entries db' = entries db" by (rule en)
  show "acct_reserved db' = (acct_reserved db)(?k := acct_reserved db ?k - t_amount t)" by (rule res)
  show "\<exists>t'. row_of t_id (t_id t) (transfers db') = Some t' \<and> immut t' = immut t \<and> t_status t' = FAILED"
    using t f(2,3) immut_sel(1) [OF f(2)] by (simp add: trs row_of_upd)
qed

text \<open>Failing a settled transfer posts the two reversals.\<close>

lemma fail_settled_spec:
  assumes lok: "ledger_ok db" and tok: "transfers_ok db"
    and run: "fail_transfer \<Gamma> p db = Inr (db', outcome)"
    and row: "load_for_update p db = Inr (Some t)" and st: "t_status t = CONFIRMED"
  shows "outcome = ''processed''" and "ledger_ok db'" and "transfers_ok db'" and "core_frame db db'"
    and "acct_posted db' = (\<lambda>k. acct_posted db k + delta (t_asset t) (reversal_postings t) k)"
    and "acct_reserved db' = acct_reserved db"
    and "\<exists>t'. row_of t_id (t_id t) (transfers db') = Some t' \<and> immut t' = immut t \<and> t_status t' = FAILED"
    and "trail db' t = settled_rows t @ reversed_rows t"
proof -
  note t = load_for_update_eq [OF row]
  then have mem: "t \<in> set (transfers db)" using row_of_Some by fast
  note D = transfers_okD [OF tok]
  let ?new = "t\<lparr>t_status := FAILED, failure_code := jtext (pget_default p ''code'' (JStr ''UNKNOWN'')),
    failure_reason := Some (take 1000 (jfmt (pget_default p ''reason'' (JStr ''transaction failed'')))),
    t_tx_hash := pget_or p ''tx_hash'' (t_tx_hash t)\<rparr>"
  from run row st obtain db1 n where post: "post_entries \<Gamma> (t_asset t) (reversal_postings t) db = Inr (db1, n)"
    and save: "save_transfer \<Gamma> t ?new db1 = Inr db'" and out: "outcome = ''processed''"
    by (auto simp: fail_transfer_def bindr_eq_Inr Let_def)
  show "outcome = ''processed''" by (rule out)
  have closed0: "\<not> is_open t" using st by (simp add: is_open_def OPEN_def)
  have tr0: "trail db t = settled_rows t" using D(7) [OF mem] st closed0 by (simp add: trail_ok_def)
  have pp: "pair_of t (reversal_postings t)" by (simp add: pair_of_def)
  have nw: "\<forall>u a m ty. (u, a, m, ty) \<in> set (trail db t) \<longrightarrow> ty \<notin> p_entry_type ` set (reversal_postings t)"
    unfolding tr0 by (auto simp: settled_rows_def settle_postings_def reversal_postings_def view_posting_def)
  note P = post_pair [OF lok post pp D(4) [OF mem] nw]
  from save obtain f where f: "db' = db1\<lparr>transfers := upd_of t_id (t_id t) f (transfers db1)\<rparr>" "\<And>r. immut (f r) = immut r"
    "t_status (f t) = FAILED"
    by (rule save_transfer_cases) (auto simp: immut_def)
  have trs: "transfers db' = upd_of t_id (t_id t) f (transfers db)" using f(1) ledger_frame_sel(4) [OF P(2)] by simp
  have res: "acct_reserved db' = acct_reserved db" using P(3) f(1) by simp
  have tr: "trail db' t = settled_rows t @ reversed_rows t" using P(6) tr0 f(1) by (simp add: reversed_rows_def trail_def)
  from P(7) obtain es where es: "entries db1 = entries db @ es" "\<forall>e\<in>set es. of_transfer t e"
    "\<forall>a. total (\<lambda>e. l_asset e = a) l_amount es = 0" by blast
  have closed: "\<not> is_open (f t)" using f(3) by (simp add: is_open_def OPEN_def)
  show "transfers_ok db'"
  proof (rule transfers_ok_step [OF tok t trs f(2)])
    show "entries db' = entries db @ es" using es(1) f(1) by simp
    show "trail_ok db' (f t)"
      using tr closed f(3) immut_sel(8-10) [OF f(2)] by (simp add: trail_ok_def)
    show "has_acct db' k" if "has_acct db k" for k using that P(4) f(1) by simp
    show "users db' = users db" using ledger_frame_sel(1) [OF P(2)] f(1) by simp
  qed (use es res closed closed0 in auto)
  show "ledger_ok db'" using P(1) f(1) ledger_ok_transfers by simp
  show "core_frame db db'" using core_frame_ledger [OF P(2) f(1)] .
  show "acct_posted db' = (\<lambda>k. acct_posted db k + delta (t_asset t) (reversal_postings t) k)" using P(5) f(1) by simp
  show "acct_reserved db' = acct_reserved db" by (rule res)
  show "trail db' t = settled_rows t @ reversed_rows t" by (rule tr)
  show "\<exists>t'. row_of t_id (t_id t) (transfers db') = Some t' \<and> immut t' = immut t \<and> t_status t' = FAILED"
    using t f(2,3) immut_sel(1) [OF f(2)] by (simp add: trs row_of_upd)
qed

text \<open>A broadcast moves the status of an open transfer and no money.\<close>

lemma broadcast_spec:
  assumes lok: "ledger_ok db" and tok: "transfers_ok db"
    and run: "mark_broadcasted \<Gamma> p db = Inr (db', outcome)"
    and row: "load_for_update p db = Inr (Some t)" and op: "is_open t"
  shows "outcome = ''processed''" and "ledger_ok db'" and "transfers_ok db'" and "core_frame db db'"
    and "balances db' = balances db" and "entries db' = entries db"
    and "\<exists>t'. row_of t_id (t_id t) (transfers db') = Some t' \<and> immut t' = immut t \<and> t_status t' = BROADCASTED"
proof -
  note t = load_for_update_eq [OF row]
  then have mem: "t \<in> set (transfers db)" using row_of_Some by fast
  note D = transfers_okD [OF tok]
  from op have st: "t_status t \<notin> set TERMINAL" by (auto simp: is_open_def OPEN_def TERMINAL_def)
  let ?new = "t\<lparr>t_status := BROADCASTED, t_tx_hash := pget_text p ''tx_hash''\<rparr>"
  from run row st have save: "save_transfer \<Gamma> t ?new db = Inr db'" and out: "outcome = ''processed''"
    by (auto simp: mark_broadcasted_def bindr_eq_Inr)
  show "outcome = ''processed''" by (rule out)
  from save obtain f where f: "db' = db\<lparr>transfers := upd_of t_id (t_id t) f (transfers db)\<rparr>" "\<And>r. immut (f r) = immut r"
    "t_status (f t) = BROADCASTED"
    by (rule save_transfer_cases) (auto simp: immut_def)
  have op': "is_open (f t)" using f(3) by (simp add: is_open_def OPEN_def)
  show "transfers_ok db'"
  proof (rule transfers_ok_step [OF tok t])
    show "transfers db' = upd_of t_id (t_id t) f (transfers db)" using f(1) by simp
    show "entries db' = entries db @ []" using f(1) by simp
    show "trail_ok db' (f t)" using D(7) [OF mem] op op' f(1) immut_sel(8) [OF f(2)] by (simp add: trail_ok_def trail_def)
  qed (use f op op' in auto)
  show "ledger_ok db'" using lok f(1) ledger_ok_transfers by simp
  show "core_frame db db'" using f(1) by (simp add: core_frame_def)
  show "balances db' = balances db" "entries db' = entries db" using f(1) by simp_all
  show "\<exists>t'. row_of t_id (t_id t) (transfers db') = Some t' \<and> immut t' = immut t \<and> t_status t' = BROADCASTED"
    using t f immut_sel(1) [OF f(2)] by (simp add: row_of_upd)
qed

lemma insert_transfer_cases:
  assumes "insert_transfer t db = Inr db'"
  obtains t' where "db' = db\<lparr>transfers := transfers db @ [t']\<rparr>" "t_id t' = t_id t" "from_user_id t' = from_user_id t"
    "to_user_id t' = to_user_id t" "t_amount t' = t_amount t" "t_status t' = t_status t"
    "varchar 16 ''transfers.asset'' (t_asset t) = Inr (t_asset t')"
    "varchar 128 ''transfers.idempotency_key'' (t_idempotency_key t) = Inr (t_idempotency_key t')"
    "0 < t_amount t" "from_user_id t \<noteq> to_user_id t" "row_of t_id (t_id t) (transfers db) = None"
    "row_of t_idempotency_key (t_idempotency_key t') (transfers db) = None" "user_exists db (to_user_id t)"
proof -
  from assms obtain key a network fa ta c where
      key: "varchar 128 ''transfers.idempotency_key'' (t_idempotency_key t) = Inr key"
    and a: "varchar 16 ''transfers.asset'' (t_asset t) = Inr a"
    and rest: "varchar 32 ''transfers.network'' (t_network t) = Inr network"
      "numeric78 ''transfers.amount'' (t_amount t) = Inr (t_amount t)"
      "varchar 64 ''transfers.from_address'' (from_address t) = Inr fa"
      "varchar 64 ''transfers.to_address'' (to_address t) = Inr ta"
      "varchar_opt 64 ''transfers.correlation_id'' (t_correlation_id t) = Inr c"
    unfolding insert_transfer_def bindr_eq_Inr numeric78_eq by blast
  let ?t = "t\<lparr>t_idempotency_key := key, t_asset := a, t_network := network, from_address := fa,
                 to_address := ta, t_correlation_id := c\<rparr>"
  let ?bad = "t_amount t \<le> 0 \<or> from_user_id t = to_user_id t \<or>
          row_of t_id (t_id t) (transfers db) \<noteq> None \<or>
          row_of t_idempotency_key key (transfers db) \<noteq> None \<or>
          \<not> user_exists db (from_user_id t) \<or> \<not> user_exists db (to_user_id t)"
  have run: "(if ?bad then Inl (app_exn ConflictError ''This transfer has already been created.'' [])
       else Inr (db\<lparr>transfers := transfers db @ [?t]\<rparr>)) = Inr db'"
    using assms unfolding insert_transfer_def key a rest bindr_Inr .
  then have ok: "\<not> ?bad" by (meson Inl_Inr_False)
  with run have "db' = db\<lparr>transfers := transfers db @ [?t]\<rparr>" by simp
  then show ?thesis using that [of ?t] key a ok by simp
qed

lemma transfers_ok_append:
  assumes tok: "transfers_ok db" and t: "row_of t_id (t_id t) (transfers db) = None"
      "row_of t_idempotency_key (t_idempotency_key t) (transfers db) = None" "0 < t_amount t"
      "from_user_id t \<noteq> to_user_id t" "length (t_asset t) \<le> 16" "is_open t"
    and db': "transfers db' = transfers db @ [t]" "entries db' = entries db"
    and acct: "has_acct db' (from_user_id t, t_asset t)" "\<And>k. has_acct db k \<Longrightarrow> has_acct db' k"
    and res: "acct_reserved db' = (acct_reserved db)((from_user_id t, t_asset t) :=
      acct_reserved db (from_user_id t, t_asset t) + t_amount t)"
    and us: "users db' = users db" "user_exists db (to_user_id t)"
  shows "transfers_ok db'"
proof -
  note D = transfers_okD [OF tok]
  have trail: "trail db' x = trail db x" for x using db'(2) by (simp add: trail_def)
  have "\<not> of_transfer t e" if e: "e \<in> set (entries db)" for e
  proof
    assume of: "of_transfer t e"
    then obtain x where "x \<in> set (transfers db)" "of_transfer x e" using D(9) [OF e] by (auto simp: of_transfer_def)
    with of t(1) show False by (auto simp: of_transfer_def uuid_str_inj row_of_None)
  qed
  then have "trail db t = []" by (simp add: trail_def filter_empty_conv)
  then have "trail_ok db' t" using t(6) trail by (simp add: trail_ok_def)
  moreover have "trail_ok db' x" if "x \<in> set (transfers db)" for x
    using D(7) [OF that] trail by (simp add: trail_ok_def)
  moreover have "acct_reserved db' k = held db' k" for k
    using D(8) res t(6) by (auto simp: held_def db'(1))
  moreover have "transfer_net db' a = 0" for a using D(10) db'(2) by (simp add: transfer_net_def)
  moreover have "\<exists>x\<in>set (transfers db'). of_transfer x e" if "e \<in> set (entries db')" "reference_type e = TRANSFER_REF" for e
    using D(9) that db' by auto
  ultimately show ?thesis
    using D(1-6,11) t acct db'(1) us unfolding transfers_ok_def by (auto simp: uniq_snoc user_exists_def)
qed

lemma transfers_ok_cong:
  assumes "transfers db' = transfers db" "entries db' = entries db" "balances db' = balances db" "users db' = users db"
  shows "transfers_ok db' = transfers_ok db"
proof -
  have "trail_ok db' = trail_ok db" "has_acct db' = has_acct db" "acct_reserved db' = acct_reserved db"
    "held db' = held db" "transfer_net db' = transfer_net db" "user_exists db' = user_exists db"
    using assms by (simp_all add: user_exists_def fun_eq_iff trail_ok_def trail_def has_acct_def acct_reserved_def held_def transfer_net_def)
  then show ?thesis using assms by (simp add: transfers_ok_def)
qed

lemma create_spec:
  assumes lok: "ledger_ok db" and tok: "transfers_ok db"
    and run: "create_transfer \<Gamma> fu tu s amount key network db = Inr (db', t)"
  shows "ledger_ok db'" and "transfers_ok db'" and "outbox_ok (w_outbox db) \<Longrightarrow> outbox_ok (w_outbox db')"
    and "acct_posted db' = acct_posted db"
    and "acct_reserved db' = (acct_reserved db)((fu, t_asset t) := acct_reserved db (fu, t_asset t) + amount)"
    and "amount \<le> acct_posted db (fu, t_asset t) - acct_reserved db (fu, t_asset t)"
    and "entries db' = entries db"
    and "\<exists>t'. transfers db' = transfers db @ [t'] \<and> t_id t' = t_id t \<and> t_status t' = CREATED \<and> t_amount t' = amount \<and>
       from_user_id t' = fu \<and> to_user_id t' = tu"
    and "users db' = users db" "user_seq db' = user_seq db" "wallets db' = wallets db" "idem_keys db' = idem_keys db"
      "processed db' = processed db" "dead_rows db' = dead_rows db"
    and "\<exists>a. get_asset s = Inr a \<and> t_asset t = symbol a \<and> enqueue_event (w_outbox db) (requested_event \<Gamma> a t) = Inr (w_outbox db')"
proof -
  from run have ne: "fu \<noteq> tu" by (auto simp: create_transfer_def)
  from run ne obtain a where a: "get_asset s = Inr a" by (auto simp: create_transfer_def bindr_eq_Inr)
  let ?a = "symbol a"
  from run ne a obtain fw tw db1 b db2 db3 where
      lk: "lock_balance \<Gamma> fu ?a db = Inr (db1, b)"
    and ph: "place_hold \<Gamma> fu ?a amount db1 = Inr (db2, True)"
    and t: "t = new_transfer \<Gamma> db2 fu tu a amount key network fw tw"
    and ins: "insert_transfer t (db2\<lparr>draws := Suc (draws db2)\<rparr>) = Inr db3"
    and enq: "enqueue (requested_event \<Gamma> a t) db3 = Inr db'"
    by (auto simp: create_transfer_def bindr_eq_Inr Let_def split: option.splits if_splits)
  note L = lock_balance_spec [OF lok lk]
  note H = place_hold_spec [OF L(1) ph]
  have ts: "t_id t = uuid4 \<Gamma> (draws db2)" "from_user_id t = fu" "to_user_id t = tu" "t_amount t = amount"
    "t_asset t = ?a" "t_status t = CREATED"
    by (simp_all add: t new_transfer_def)
  from ins obtain t' where t': "db3 = db2\<lparr>draws := Suc (draws db2), transfers := transfers db2 @ [t']\<rparr>" "t_id t' = t_id t"
      "from_user_id t' = fu" "to_user_id t' = tu" "t_amount t' = amount" "t_status t' = CREATED" "t_asset t' = ?a"
      "0 < amount" "row_of t_id (t_id t') (transfers db2) = None" "row_of t_idempotency_key (t_idempotency_key t') (transfers db2) = None"
      "user_exists db2 tu"
  proof (cases rule: insert_transfer_cases)
    case (1 t')
    have "t_asset t' = ?a" using 1(7) L(8) ts(5) by simp
    with 1 show ?thesis by (intro that [of t']) (simp_all add: ts user_exists_def)
  qed
  from enq obtain ob where ob: "enqueue_event (w_outbox db3) (requested_event \<Gamma> a t) = Inr ob" "db' = db3\<lparr>w_outbox := ob\<rparr>"
    by (auto simp: enqueue_def bindr_eq_Inr)
  have lf: "ledger_frame db db2" using ledger_frame_trans [OF L(2) H(2)] .
  note S = ledger_frame_sel [OF lf]
  have res2: "acct_reserved db2 = (acct_reserved db)((fu, ?a) := acct_reserved db (fu, ?a) + amount)" using H(8) L(4) by simp
  have acct: "acct_posted db' = acct_posted db2" "acct_reserved db' = acct_reserved db2" "has_acct db' = has_acct db2"
    by (simp_all add: ob(2) t'(1) acct_posted_def acct_reserved_def has_acct_def fun_eq_iff)
  have hk: "has_acct db2 (fu, ?a)" using H(6,7) by simp
  show "transfers_ok db'"
  proof (rule transfers_ok_append [OF tok])
    show "transfers db' = transfers db @ [t']" using t'(1) ob(2) S(4) by simp
    show "entries db' = entries db" using t'(1) ob(2) H(3) L(5) by simp
    show "acct_reserved db' = (acct_reserved db)((from_user_id t', t_asset t') :=
        acct_reserved db (from_user_id t', t_asset t') + t_amount t')"
      using acct(2) res2 t' by simp
    show "has_acct db' k" if "has_acct db k" for k using that L(10) H(6) acct(3) by simp
    show "users db' = users db" using t'(1) ob(2) S(1) by simp
    show "user_exists db (to_user_id t')" using t'(4,11) S(1) by (simp add: user_exists_def)
  qed (use t' S(4) L(8) ne hk acct in \<open>simp_all add: is_open_def OPEN_def\<close>)
  have "ledger_ok db' = ledger_ok db2" by (rule ledger_ok_cong) (simp_all add: ob(2) t'(1))
  then show "ledger_ok db'" using H(1) by simp
  show "outbox_ok (w_outbox db')" if "outbox_ok (w_outbox db)"
    using enqueue_event_ok [OF ob(1)] that S(6) t'(1) ob(2) by simp
  show "acct_posted db' = acct_posted db" using acct(1) H(5) L(3) by simp
  show "acct_reserved db' = (acct_reserved db)((fu, t_asset t) := acct_reserved db (fu, t_asset t) + amount)"
    using acct(2) res2 ts(5) by simp
  show "amount \<le> acct_posted db (fu, t_asset t) - acct_reserved db (fu, t_asset t)" using H(7) L(3,4) ts(5) by simp
  show "entries db' = entries db" using t'(1) ob(2) H(3) L(5) by simp
  show "\<exists>t'. transfers db' = transfers db @ [t'] \<and> t_id t' = t_id t \<and> t_status t' = CREATED \<and> t_amount t' = amount \<and>
       from_user_id t' = fu \<and> to_user_id t' = tu"
    using t' ob(2) S(4) by (intro exI [of _ t']) simp
  show "users db' = users db" "user_seq db' = user_seq db" "wallets db' = wallets db" "idem_keys db' = idem_keys db"
      "processed db' = processed db" "dead_rows db' = dead_rows db"
    using S t'(1) ob(2) by simp_all
  show "\<exists>a. get_asset s = Inr a \<and> t_asset t = symbol a \<and> enqueue_event (w_outbox db) (requested_event \<Gamma> a t) = Inr (w_outbox db')"
    using a ts(5) ob t'(1) S(6) by (intro exI [of _ a]) simp
qed

end
