(* ===== verification/TransferCycle.thy ===== *)
theory TransferCycle
  imports Transfers
begin

text \<open>
  The transfer life cycle as a client sees it: acceptance is decided by the available
  balance, settlement of an open transfer cannot fail and moves exactly the held amount, a
  failure refunds it, a reversal restores the balances, and late events change nothing.
\<close>

section \<open>Settlement cannot fail\<close>

lemma save_transfer_total:
  "\<lbrakk>fits_opt 80 (t_tx_hash new); fits_opt 48 (failure_code new)\<rbrakk> \<Longrightarrow> \<exists>db'. save_transfer \<Gamma> old new db = Inr db'"
  by (simp add: save_transfer_def varchar_opt_fits)

lemma sort_pair: "sort_key f [x, y] = (if f x \<le> f y then [x, y] else [y, x])"
  by simp

lemma post_two_total:
  assumes ok: "ledger_ok db" and ne: "p_user_id p \<noteq> p_user_id q" and kne: "posted_key p \<noteq> posted_key q"
    and p: "postable a p" "\<not> is_posted db p" "user_exists db (p_user_id p)" "room db (p_user_id p, a) (p_amount p)"
    and q: "postable a q" "\<not> is_posted db q" "user_exists db (p_user_id q)" "room db (p_user_id q, a) (p_amount q)"
    and c: "varchar_opt 64 ''ledger_entries.correlation_id'' (get_correlation_id \<Gamma>) = Inr c"
    and uid: "row_of entry_id (uuid4 \<Gamma> (draws db)) (entries db) = None"
      "row_of entry_id (uuid4 \<Gamma> (Suc (draws db))) (entries db) = None" "uuid4 \<Gamma> (draws db) \<noteq> uuid4 \<Gamma> (Suc (draws db))"
  shows "\<exists>db'. post_all \<Gamma> a [p, q] (db, n) = Inr (db', Suc (Suc n))"
proof -
  from post_one_total [OF ok p(1-3) c uid(1) p(4), of n] obtain db1 e where
    one: "post_one \<Gamma> a p (db, n) = Inr (db1, Suc n)" and d: "draws db1 = Suc (draws db)"
    and en: "entries db1 = entries db @ [e]" "entry_id e = uuid4 \<Gamma> (draws db)"
    and rows: "\<And>k. k \<noteq> (p_user_id p, a) \<Longrightarrow> row_of bal_key k (balances db1) = row_of bal_key k (balances db)"
    by blast
  note S = post_one_spec [OF ok one]
  from S(6) p(2) en(1) have pk: "posted_key p = Some (entry_key e)" by (auto simp: entry_of_def)
  then have q': "\<not> is_posted db1 q" using q(2) kne en(1) by (auto simp: is_posted_def)
  have u': "user_exists db1 (p_user_id q)" using q(3) user_exists_frame [OF S(2)] by simp
  have r': "room db1 (p_user_id q, a) (p_amount q)" using q(4) rows ne by (simp add: room_def)
  have uid': "row_of entry_id (uuid4 \<Gamma> (draws db1)) (entries db1) = None"
    using uid en d by (simp add: row_of_append)
  from post_one_total [OF S(1) q(1) q' u' c uid' r', of "Suc n"] obtain db2 where
    "post_one \<Gamma> a q (db1, Suc n) = Inr (db2, Suc (Suc n))" by blast
  with one show ?thesis by simp
qed

text \<open>Column values of a stored transfer and of the incoming event that fit their types.\<close>

definition settle_fits :: "env \<Rightarrow> payload \<Rightarrow> transfer \<Rightarrow> bool" where
  "settle_fits \<Gamma> p t =
     (fits_opt 64 (cid \<Gamma>) \<and>
      fits_opt 80 (pget_or p ''tx_hash'' (t_tx_hash t)) \<and>
      fits_opt 48 (failure_code t) \<and>
      t_amount t < 10 ^ 78 \<and> - (2 ^ 63) \<le> from_user_id t \<and> from_user_id t < 2 ^ 63 \<and>
      - (2 ^ 63) \<le> to_user_id t \<and> to_user_id t < 2 ^ 63)"

text \<open>The random ids that the two entries will carry are new.\<close>

definition fresh_pair :: "env \<Rightarrow> wdb \<Rightarrow> bool" where
  "fresh_pair \<Gamma> db = (row_of entry_id (uuid4 \<Gamma> (draws db)) (entries db) = None \<and>
     row_of entry_id (uuid4 \<Gamma> (Suc (draws db))) (entries db) = None \<and> uuid4 \<Gamma> (draws db) \<noteq> uuid4 \<Gamma> (Suc (draws db)))"

definition settle_room :: "wdb \<Rightarrow> transfer \<Rightarrow> bool" where
  "settle_room db t =
     ((case row_of bal_key (from_user_id t, t_asset t) (balances db) of
         None \<Rightarrow> False | Some b \<Rightarrow> posted b < 10 ^ 78 \<and> 0 \<le> version b \<and> version b + 2 < 2 ^ 31) \<and>
      room db (to_user_id t, t_asset t) (t_amount t))"

lemma hold_covers:
  assumes tok: "transfers_ok db" and t: "t \<in> set (transfers db)" "is_open t"
  shows "t_amount t \<le> acct_reserved db (from_user_id t, t_asset t)"
proof -
  note D = transfers_okD [OF tok]
  have "t_amount t \<le> held db (from_user_id t, t_asset t)"
    unfolding held_def
  proof (rule total_ge_member [OF t(1)])
    show "0 \<le> t_amount r" if "r \<in> set (transfers db)" for r using D(3) [OF that] by simp
  qed (simp add: t(2))
  then show ?thesis using D(8) by simp
qed

lemma settle_postable:
  assumes "settle_fits \<Gamma> p t" "0 < t_amount t" "length (t_asset t) \<le> 16" "q \<in> set (settle_postings t)"
  shows "postable (t_asset t) q"
proof -
  have "int8 col (p_user_id q) = Inr (p_user_id q)" for col
    using assms(1,4) by (auto simp: settle_fits_def settle_postings_def int8_eq simp del: power_numeral)
  moreover have "numeric78 ''ledger_entries.amount'' (p_amount q) = Inr (p_amount q)" "p_amount q \<noteq> 0"
    using assms(1,2,4) by (auto simp: settle_fits_def settle_postings_def numeric78_eq simp del: power_numeral)
  moreover have "posted_key q \<noteq> None"
    using assms(4) by (auto simp: settle_postings_def posted_key_plain)
  ultimately show ?thesis using assms(3) by (simp add: postable_def)
qed

lemma settle_total:
  assumes lok: "ledger_ok db" and tok: "transfers_ok db" and row: "load_for_update p db = Inr (Some t)"
    and op: "is_open t" and fits: "settle_fits \<Gamma> p t" and fr: "fresh_pair \<Gamma> db" and rm: "settle_room db t"
  shows "\<exists>db'. settle_transfer \<Gamma> p db = Inr (db', ''processed'')"
proof -
  let ?k = "(from_user_id t, t_asset t)"
  let ?a = "t_asset t"
  note t = load_for_update_eq [OF row]
  then have mem: "t \<in> set (transfers db)" using row_of_Some by fast
  note D = transfers_okD [OF tok]
  from op have st: "t_status t \<noteq> CONFIRMED" "t_status t \<noteq> FAILED" by (auto simp: is_open_def OPEN_def)
  from rm obtain b where b: "row_of bal_key ?k (balances db) = Some b" "posted b < 10 ^ 78" "0 \<le> version b" "version b + 2 < 2 ^ 31"
    by (auto simp: settle_room_def split: option.splits)
  have bnd: "t_amount t \<le> reserved b" "0 \<le> reserved b" "reserved b \<le> posted b"
    using hold_covers [OF tok mem op] b(1) acct_bounds [OF lok, of ?k] by (simp_all add: acct_reserved_def acct_posted_def)
  have pos: "0 < t_amount t" using D(3) [OF mem] .
  let ?db1 = "db\<lparr>balances := upd_of bal_key ?k (moved \<Gamma> 0 (- t_amount t)) (balances db)\<rparr>"
  have "move_balance \<Gamma> (from_user_id t) ?a 0 (- t_amount t) db = Inr (?db1, 1)"
    using b bnd pos by (intro move_balance_total [of _ _ _ b]) simp_all
  then have rel: "release_hold \<Gamma> (from_user_id t) ?a (t_amount t) db = Inr ?db1"
    by (simp add: release_hold_def)
  note R = release_hold_spec [OF lok rel]
  have tr0: "trail ?db1 t = []" using D(7) [OF mem] op by (simp add: trail_ok_def trail_def)
  obtain x y where xy: "settle_postings t = [x, y]" "p_user_id x = from_user_id t" "p_user_id y = to_user_id t"
      "p_amount x = - t_amount t" "p_amount y = t_amount t"
    by (simp add: settle_postings_def)
  have keys: "posted_key x = Some (from_user_id t, TRANSFER_DEBIT, TRANSFER_REF, uuid_str (t_id t))"
      "posted_key y = Some (to_user_id t, TRANSFER_CREDIT, TRANSFER_REF, uuid_str (t_id t))"
    using settle_keys(1) [of t] xy(1) by simp_all
  have np: "\<not> is_posted ?db1 x" "\<not> is_posted ?db1 y"
    using is_posted_trail [OF keys(1)] is_posted_trail [OF keys(2)] tr0 by simp_all
  have pst: "postable ?a x" "postable ?a y" using settle_postable [OF fits pos D(5) [OF mem]] xy(1) by simp_all
  have ne: "from_user_id t \<noteq> to_user_id t" using D(4) [OF mem] .
  have bm: "b \<in> set (balances db)" "b_user_id b = from_user_id t" using row_of_Some [OF b(1)] by (auto simp: bal_key_def)
  have ue: "user_exists ?db1 (p_user_id x)" "user_exists ?db1 (p_user_id y)"
    using ledger_okD(7) [OF lok bm(1)] bm(2) D(11) [OF mem] xy by (simp_all add: user_exists_def)
  have "version (moved \<Gamma> 0 (- t_amount t) b) = version b + 1" by (simp add: moved_def)
  then have rms: "room ?db1 (p_user_id x, ?a) (p_amount x)" "room ?db1 (p_user_id y, ?a) (p_amount y)"
    using b bnd pos rm ne xy by (auto simp: room_def settle_room_def row_of_upd split: option.splits)
  have c: "varchar_opt 64 ''ledger_entries.correlation_id'' (get_correlation_id \<Gamma>) = Inr (cid \<Gamma>)"
    using fits by (simp add: settle_fits_def get_correlation_id_def varchar_opt_fits)
  have fr1: "row_of entry_id (uuid4 \<Gamma> (draws ?db1)) (entries ?db1) = None"
      "row_of entry_id (uuid4 \<Gamma> (Suc (draws ?db1))) (entries ?db1) = None"
      "uuid4 \<Gamma> (draws ?db1) \<noteq> uuid4 \<Gamma> (Suc (draws ?db1))"
    using fr by (simp_all add: fresh_pair_def)
  have "\<exists>db2. post_entries \<Gamma> ?a (settle_postings t) ?db1 = Inr (db2, 2)"
  proof (cases "from_user_id t \<le> to_user_id t")
    case True
    have "\<exists>db2. post_all \<Gamma> ?a [x, y] (?db1, 0) = Inr (db2, Suc (Suc 0))"
      using ne keys xy by (intro post_two_total [OF R(1) _ _ pst(1) np(1) ue(1) rms(1) pst(2) np(2) ue(2) rms(2) c fr1]) auto
    then show ?thesis using True xy by (simp add: post_entries_def sort_pair numeral_2_eq_2)
  next
    case False
    have "\<exists>db2. post_all \<Gamma> ?a [y, x] (?db1, 0) = Inr (db2, Suc (Suc 0))"
      using ne keys xy by (intro post_two_total [OF R(1) _ _ pst(2) np(2) ue(2) rms(2) pst(1) np(1) ue(1) rms(1) c fr1]) auto
    then show ?thesis using False xy by (simp add: post_entries_def sort_pair numeral_2_eq_2)
  qed
  then obtain db2 where post: "post_entries \<Gamma> ?a (settle_postings t) ?db1 = Inr (db2, 2)" ..
  let ?new = "t\<lparr>t_status := CONFIRMED, t_tx_hash := pget_or p ''tx_hash'' (t_tx_hash t), settled_at := Some (now \<Gamma>)\<rparr>"
  have "\<exists>db3. save_transfer \<Gamma> t ?new db2 = Inr db3"
    using fits by (intro save_transfer_total) (simp_all add: settle_fits_def)
  then obtain db3 where "save_transfer \<Gamma> t ?new db2 = Inr db3" ..
  with rel post row st show ?thesis by (simp add: settle_transfer_def)
qed

section \<open>Properties of the life cycle\<close>

lemma delta_settle:
  "delta a (settle_postings t) k = (if (from_user_id t, a) = k then - t_amount t else 0) + (if (to_user_id t, a) = k then t_amount t else 0)"
  "delta a (reversal_postings t) k = (if (from_user_id t, a) = k then t_amount t else 0) + (if (to_user_id t, a) = k then - t_amount t else 0)"
  by (simp_all add: delta_def settle_postings_def reversal_postings_def)

text \<open>
  Property C19. Settlement works and moves exactly the held amount: a confirmation for an
  open transfer, whose columns are in range and whose new entry ids do not collide, always
  succeeds. The sender's posted and reserved amounts both drop by the transfer amount, the
  recipient's posted amount rises by it, no other account moves, the transfer is
  \<open>CONFIRMED\<close>, its ledger trail is the debit and the credit, and the invariants hold. In
  particular neither check constraint of the balances can fail.
\<close>

theorem settle_moves_funds:
  assumes lok: "ledger_ok db" and tok: "transfers_ok db" and row: "load_for_update p db = Inr (Some t)"
    and op: "is_open t" and fits: "settle_fits \<Gamma> p t" and fr: "fresh_pair \<Gamma> db" and rm: "settle_room db t"
  shows "\<exists>db' t'. settle_transfer \<Gamma> p db = Inr (db', ''processed'') \<and> ledger_ok db' \<and> transfers_ok db' \<and>
     acct_posted db' = (acct_posted db)((from_user_id t, t_asset t) := acct_posted db (from_user_id t, t_asset t) - t_amount t,
       (to_user_id t, t_asset t) := acct_posted db (to_user_id t, t_asset t) + t_amount t) \<and>
     acct_reserved db' = (acct_reserved db)((from_user_id t, t_asset t) := acct_reserved db (from_user_id t, t_asset t) - t_amount t) \<and>
     row_of t_id (t_id t) (transfers db') = Some t' \<and> t_status t' = CONFIRMED \<and> trail db' t' = settled_rows t"
proof -
  from settle_total [OF assms] obtain db' where run: "settle_transfer \<Gamma> p db = Inr (db', ''processed'')" ..
  note S = settle_spec [OF lok tok run row op]
  from S(7) obtain t' where t': "row_of t_id (t_id t) (transfers db') = Some t'" "immut t' = immut t" "t_status t' = CONFIRMED" by blast
  have mem: "t \<in> set (transfers db)" using load_for_update_eq [OF row] row_of_Some by fast
  have ne: "from_user_id t \<noteq> to_user_id t" using transfers_okD(4) [OF tok mem] .
  have "acct_posted db' = (acct_posted db)((from_user_id t, t_asset t) := acct_posted db (from_user_id t, t_asset t) - t_amount t,
       (to_user_id t, t_asset t) := acct_posted db (to_user_id t, t_asset t) + t_amount t)"
    using S(5) ne by (auto simp: delta_settle fun_eq_iff)
  moreover have "trail db' t' = settled_rows t" using S(8) immut_sel(8) [OF t'(2)] by simp
  ultimately show ?thesis using run S(2,3,6) t' by blast
qed

text \<open>
  Property C21. A failure of an open transfer refunds it: when the event is applied, the hold
  is released, nothing is posted, the ledger is unchanged, and the transfer is \<open>FAILED\<close>.
\<close>

theorem fail_releases_hold:
  assumes lok: "ledger_ok db" and tok: "transfers_ok db" and row: "load_for_update p db = Inr (Some t)" and op: "is_open t"
    and fits: "fits_opt 48 (jtext (pget_default p ''code'' (JStr ''UNKNOWN'')))"
      "fits_opt 80 (pget_or p ''tx_hash'' (t_tx_hash t))"
    and rm: "room db (from_user_id t, t_asset t) 0"
  shows "\<exists>db' t'. fail_transfer \<Gamma> p db = Inr (db', ''processed'') \<and> ledger_ok db' \<and> transfers_ok db' \<and>
     entries db' = entries db \<and> acct_posted db' = acct_posted db \<and>
     acct_reserved db' = (acct_reserved db)((from_user_id t, t_asset t) := acct_reserved db (from_user_id t, t_asset t) - t_amount t) \<and>
     row_of t_id (t_id t) (transfers db') = Some t' \<and> t_status t' = FAILED"
proof -
  let ?k = "(from_user_id t, t_asset t)"
  have mem: "t \<in> set (transfers db)" using load_for_update_eq [OF row] row_of_Some by fast
  note D = transfers_okD [OF tok]
  from op have st: "t_status t \<noteq> CONFIRMED" "t_status t \<noteq> FAILED" by (auto simp: is_open_def OPEN_def)
  obtain b where b: "row_of bal_key ?k (balances db) = Some b" using D(6) [OF mem] by (auto simp: has_acct_def)
  have bnd: "t_amount t \<le> reserved b" "reserved b \<le> posted b" "0 < t_amount t"
    using hold_covers [OF tok mem op] b D(3) [OF mem] acct_bounds [OF lok, of ?k] by (simp_all add: acct_reserved_def acct_posted_def)
  have "move_balance \<Gamma> (from_user_id t) (t_asset t) 0 (- t_amount t) db =
      Inr (db\<lparr>balances := upd_of bal_key ?k (moved \<Gamma> 0 (- t_amount t)) (balances db)\<rparr>, 1)"
    using b bnd rm by (intro move_balance_total [of _ _ _ b]) (simp_all add: room_def)
  then obtain db1 where rel: "release_hold \<Gamma> (from_user_id t) (t_asset t) (t_amount t) db = Inr db1"
    by (simp add: release_hold_def)
  let ?new = "t\<lparr>t_status := FAILED, failure_code := jtext (pget_default p ''code'' (JStr ''UNKNOWN'')),
    failure_reason := Some (take 1000 (jfmt (pget_default p ''reason'' (JStr ''transaction failed'')))),
    t_tx_hash := pget_or p ''tx_hash'' (t_tx_hash t)\<rparr>"
  have "\<exists>db2. save_transfer \<Gamma> t ?new db1 = Inr db2"
    using fits by (intro save_transfer_total) simp_all
  then obtain db2 where "save_transfer \<Gamma> t ?new db1 = Inr db2" ..
  with rel row st have run: "fail_transfer \<Gamma> p db = Inr (db2, ''processed'')" by (simp add: fail_transfer_def Let_def)
  note F = fail_open_spec [OF lok tok run row op]
  from F(8) obtain t' where "row_of t_id (t_id t) (transfers db2) = Some t'" "t_status t' = FAILED" by blast
  then show ?thesis using run F(2,3,5,6,7) by (intro exI [of _ db2] exI [of _ t']) simp
qed


text \<open>
  A reversal never overdraws: when the recipient no longer has the amount
  available, failing the settled transfer raises the integrity error of
  \<open>ck_balance_available_non_negative\<close> (or another error before it), so the transaction
  rolls back and no balance moves.
\<close>

lemma reversal_never_overdraws:
  assumes lok: "ledger_ok db" and tok: "transfers_ok db" and row: "load_for_update p db = Inr (Some t)"
    and st: "t_status t = CONFIRMED"
    and spent: "acct_posted db (to_user_id t, t_asset t) - acct_reserved db (to_user_id t, t_asset t) < t_amount t"
  shows "\<exists>e. fail_transfer \<Gamma> p db = Inl e \<and> commit db (fail_transfer \<Gamma> p db) = db"
proof (cases "fail_transfer \<Gamma> p db")
  case (Inr r)
  obtain db' oc where r: "r = (db', oc)" by fastforce
  note F = fail_settled_spec [OF lok tok Inr [unfolded r] row st]
  let ?k = "(to_user_id t, t_asset t)"
  have mem: "t \<in> set (transfers db)" using load_for_update_eq [OF row] row_of_Some by fast
  have "acct_posted db' ?k = acct_posted db ?k - t_amount t"
    using F(5) transfers_okD(4) [OF tok mem] by (simp add: delta_settle)
  moreover have "acct_reserved db' ?k \<le> acct_posted db' ?k" using acct_bounds [OF F(2)] by simp
  ultimately have False using spent F(6) by simp
  then show ?thesis ..
qed simp

text \<open>
  Late and repeated chain events change nothing: a broadcast for a settled or
  failed transfer and a confirmation of a settled one are duplicates, a confirmation of a
  failed one is ignored (money is never silently corrected), a failure of a failed one is a
  duplicate, and any event for an unknown transfer is ignored.
\<close>

lemma late_events_ignored:
  assumes "load_for_update p db = Inr r"
  shows "(r = None \<longrightarrow> mark_broadcasted \<Gamma> p db = Inr (db, ''ignored'') \<and> settle_transfer \<Gamma> p db = Inr (db, ''ignored'') \<and>
       fail_transfer \<Gamma> p db = Inr (db, ''ignored'')) \<and>
     (\<forall>t. r = Some t \<longrightarrow>
       (t_status t \<in> set TERMINAL \<longrightarrow> mark_broadcasted \<Gamma> p db = Inr (db, ''duplicate'')) \<and>
       (t_status t = CONFIRMED \<longrightarrow> settle_transfer \<Gamma> p db = Inr (db, ''duplicate'')) \<and>
       (t_status t = FAILED \<longrightarrow> settle_transfer \<Gamma> p db = Inr (db, ''ignored'') \<and> fail_transfer \<Gamma> p db = Inr (db, ''duplicate'')))"
  using assms by (auto simp: mark_broadcasted_def settle_transfer_def fail_transfer_def)

section \<open>Acceptance of a transfer\<close>

text \<open>The validations that precede the hold.\<close>

definition valid_parties :: "int \<Rightarrow> int \<Rightarrow> string \<Rightarrow> string \<Rightarrow> wdb \<Rightarrow> asset \<Rightarrow> wallet \<Rightarrow> wallet \<Rightarrow> bool" where
  "valid_parties fu tu s network db a fw tw =
     (fu \<noteq> tu \<and> get_asset s = Inr a \<and>
      (case (get_user fu db, get_user tu db) of (Inr x, Inr y) \<Rightarrow> u_status x = ''ACTIVE'' \<and> u_status y = ''ACTIVE'' | _ \<Rightarrow> False) \<and>
      get_wallet fu network (symbol a) db = Some fw \<and> get_wallet tu network (symbol a) db = Some tw \<and>
      w_status fw = ''ACTIVE'' \<and> w_status tw = ''ACTIVE'')"

lemma create_transfer_valid:
  assumes "valid_parties fu tu s network db a fw tw" and "lock_balance \<Gamma> fu (symbol a) db = Inr (db1, b)"
  shows "create_transfer \<Gamma> fu tu s amount key network db =
     bindr (place_hold \<Gamma> fu (symbol a) amount db1) (\<lambda>(db2, held).
       if \<not> held then Inl (insufficient_funds a (posted b - reserved b) amount)
       else let t = new_transfer \<Gamma> db2 fu tu a amount key network fw tw in
         bindr (insert_transfer t (db2\<lparr>draws := Suc (draws db2)\<rparr>)) (\<lambda>db3.
         bindr (enqueue (requested_event \<Gamma> a t) db3) (\<lambda>db4. Inr (db4, t))))"
proof -
  from assms(1) obtain x y where xy: "get_user fu db = Inr x" "get_user tu db = Inr y" "u_status x = ''ACTIVE''" "u_status y = ''ACTIVE''"
    by (auto simp: valid_parties_def split: sum.splits)
  from assms(1) have "fu \<noteq> tu" "get_asset s = Inr a" "get_wallet fu network (symbol a) db = Some fw"
    "get_wallet tu network (symbol a) db = Some tw" "w_status fw = ''ACTIVE''" "w_status tw = ''ACTIVE''"
    by (simp_all add: valid_parties_def)
  with xy assms(2) show ?thesis by (simp add: create_transfer_def check_active_def check_wallet_def)
qed

lemma lock_existing:
  assumes "row_of bal_key (u, a) (balances db) = Some b" "length a \<le> 16" "- (2 ^ 63) \<le> u" "u < 2 ^ 63"
  shows "lock_balance \<Gamma> u a db = Inr (db, b)"
  using assms by (simp add: lock_balance_def ensure_balance_def read_balance_def int8_def)

definition create_fits :: "env \<Rightarrow> string \<Rightarrow> string \<Rightarrow> int \<Rightarrow> wallet \<Rightarrow> wallet \<Rightarrow> bool" where
  "create_fits \<Gamma> key network amount fw tw =
     (length key \<le> 128 \<and> length network \<le> 32 \<and> 0 < amount \<and> amount < 10 ^ 78 \<and>
      length (w_address fw) \<le> 64 \<and> length (w_address tw) \<le> 64 \<and>
      (case cid \<Gamma> of None \<Rightarrow> length (minted_cid \<Gamma>) \<le> 64 | Some c \<Rightarrow> c \<noteq> [] \<and> length c \<le> 64))"

lemma requested_event_enqueues:
  assumes "create_fits \<Gamma> key network amount fw tw"
  obtains ob' where "enqueue_event ob (requested_event \<Gamma> a t) = Inr ob'"
    "row_of o_event_id (uuid5 \<Gamma> (event_name TRANSFER_REQUESTED (uuid_str (t_id t)))) (o_rows ob') \<noteq> None"
proof -
  have ne: "uuid_str (t_id t) \<noteq> []" using length_uuid_str [of "t_id t"] by (metis list.size(3) zero_neq_numeral)
  let ?ev = "requested_event \<Gamma> a t"
  have id: "event_id ?ev = uuid_str (uuid5 \<Gamma> (event_name TRANSFER_REQUESTED (uuid_str (t_id t))))"
    using ne by (simp add: requested_event_def)
  have ty: "event_type ?ev = TRANSFER_REQUESTED" by (simp add: requested_event_def)
  have "length TRANSFER_REQUESTED \<le> 64" by (simp add: TRANSFER_REQUESTED_def)
  moreover have "length (e_correlation_id ?ev) \<le> 64"
    using assms by (auto simp: create_fits_def requested_event_def new_event_def first_nonempty_def get_correlation_id_def split: option.splits)
  ultimately show ?thesis
    using that enqueue_event_total [of ?ev "uuid5 \<Gamma> (event_name TRANSFER_REQUESTED (uuid_str (t_id t)))" ob] by (auto simp: id ty)
qed

text \<open>
  Property C20. A transfer between two valid parties is decided by the available balance
  alone. If the sender's posted minus reserved amount is below the requested one, the call
  raises the insufficient-funds error that reports both amounts, and nothing is kept. If it
  covers it (and the values fit their columns, the new id and the key are unused), the
  transfer is created: it is \<open>CREATED\<close>, the amount is added to the sender's reservation, no
  posted amount moves, the invariants hold, and the outbox holds the request event.
\<close>

theorem create_transfer_decides:
  assumes lok: "ledger_ok db" and tok: "transfers_ok db"
    and v: "valid_parties fu tu s network db a fw tw"
    and b: "row_of bal_key (fu, symbol a) (balances db) = Some b" "0 \<le> version b" "version b + 1 < 2 ^ 31" "posted b < 10 ^ 78"
    and fits: "create_fits \<Gamma> key network amount fw tw"
    and fresh: "row_of t_id (uuid4 \<Gamma> (draws db)) (transfers db) = None" "row_of t_idempotency_key key (transfers db) = None"
  shows "if posted b - reserved b < amount
     then create_transfer \<Gamma> fu tu s amount key network db = Inl (insufficient_funds a (posted b - reserved b) amount)
     else \<exists>db' t. create_transfer \<Gamma> fu tu s amount key network db = Inr (db', t) \<and> t_status t = CREATED \<and>
       acct_posted db' = acct_posted db \<and>
       acct_reserved db' = (acct_reserved db)((fu, symbol a) := acct_reserved db (fu, symbol a) + amount) \<and>
       ledger_ok db' \<and> transfers_ok db' \<and>
       row_of o_event_id (uuid5 \<Gamma> (event_name TRANSFER_REQUESTED (uuid_str (t_id t)))) (o_rows (w_outbox db')) \<noteq> None"
proof -
  let ?k = "(fu, symbol a)"
  from v have u: "user_exists db fu" "user_exists db tu" "- (2 ^ 63) \<le> fu" "fu < 2 ^ 63"
    by (auto simp: valid_parties_def get_user_eq user_exists_def simp del: power_numeral split: sum.splits)
  from b(1) have bm: "b \<in> set (balances db)" "b_asset b = symbol a" using row_of_Some [OF b(1)] by (auto simp: bal_key_def)
  have len: "length (symbol a) \<le> 16" using ledger_okD(6) [OF lok bm(1)] bm(2) by simp
  note cr = create_transfer_valid [OF v lock_existing [OF b(1) len u(3,4)], of \<Gamma> amount key]
  show ?thesis
  proof (cases "posted b - reserved b < amount")
    case True
    then show ?thesis using cr b(1) by (simp add: place_hold_def read_balance_def)
  next
    case False
    let ?db2 = "db\<lparr>balances := upd_of bal_key ?k (moved \<Gamma> 0 amount) (balances db)\<rparr>"
    let ?t = "new_transfer \<Gamma> ?db2 fu tu a amount key network fw tw"
    have pos: "0 < amount" using fits by (simp add: create_fits_def)
    have "move_balance \<Gamma> fu (symbol a) 0 amount db = Inr (?db2, 1)"
      using b False pos ledger_okD(4) [OF lok bm(1)] by (intro move_balance_total [of _ _ _ b]) simp_all
    then have ph: "place_hold \<Gamma> fu (symbol a) amount db = Inr (?db2, True)"
      using False b(1) by (simp add: place_hold_def read_balance_def)
    have "\<exists>db3. insert_transfer ?t (?db2\<lparr>draws := Suc (draws ?db2)\<rparr>) = Inr db3"
    proof -
      have "numeric78 ''transfers.amount'' amount = Inr amount" using fits by (simp add: create_fits_def numeric78_def)
      moreover have "\<exists>c. varchar_opt 64 ''transfers.correlation_id'' (cid \<Gamma>) = Inr c"
        using fits by (cases "cid \<Gamma>") (auto simp: create_fits_def)
      ultimately show ?thesis
        using fits len fresh u v
        by (auto simp: insert_transfer_def new_transfer_def create_fits_def get_correlation_id_def user_exists_def valid_parties_def)
    qed
    then obtain db3 where ins: "insert_transfer ?t (?db2\<lparr>draws := Suc (draws ?db2)\<rparr>) = Inr db3" ..
    from requested_event_enqueues [OF fits, of "w_outbox db3" a ?t] obtain ob' where
      ob: "enqueue_event (w_outbox db3) (requested_event \<Gamma> a ?t) = Inr ob'"
        "row_of o_event_id (uuid5 \<Gamma> (event_name TRANSFER_REQUESTED (uuid_str (t_id ?t)))) (o_rows ob') \<noteq> None" by blast
    have run: "create_transfer \<Gamma> fu tu s amount key network db = Inr (db3\<lparr>w_outbox := ob'\<rparr>, ?t)"
      using cr ph ins ob(1) by (simp add: enqueue_def Let_def)
    note C = create_spec [OF lok tok run]
    have "t_asset ?t = symbol a" "t_status ?t = CREATED" by (simp_all add: new_transfer_def)
    then show ?thesis using False run C(1,2,4,5) ob(2) by simp
  qed
qed

section \<open>The life cycle on a concrete database\<close>

definition result_of :: "'a result \<Rightarrow> 'a" where
  "result_of r = (case r of Inr x \<Rightarrow> x)"

definition returns :: "'a result \<Rightarrow> bool" where
  "returns r = (case r of Inr _ \<Rightarrow> True | Inl _ \<Rightarrow> False)"

lemma returns_eq: "returns r \<Longrightarrow> r = Inr (result_of r)"
  by (auto simp: returns_def result_of_def split: sum.splits)

definition sample_t :: transfer where
  "sample_t = \<lparr>t_id = 1, t_idempotency_key = ''key-1'', from_user_id = 1, to_user_id = 2, t_asset = ''USDT'',
     t_network = ''BSC'', t_amount = 250, from_address = ''0xa'', to_address = ''0xb'', t_status = CREATED,
     t_tx_hash = None, failure_code = None, failure_reason = None, t_correlation_id = None,
     t_created_at = 0, t_updated_at = 0, settled_at = None\<rparr>"

definition sample_bal :: "int \<Rightarrow> int \<Rightarrow> int \<Rightarrow> int \<Rightarrow> balance" where
  "sample_bal u p r v = \<lparr>b_user_id = u, b_asset = ''USDT'', posted = p, reserved = r, version = v, b_updated_at = 0\<rparr>"

text \<open>The first user has sent 250 to the second: still open, and settled with the money spent again.\<close>

definition sample_db :: wdb where
  "sample_db = sample_wdb\<lparr>balances := [sample_bal 1 1000 250 2], transfers := [sample_t], draws := 1\<rparr>"

definition sample_entry :: "int \<Rightarrow> int \<Rightarrow> int \<Rightarrow> entry_type \<Rightarrow> ledger_entry" where
  "sample_entry i u n ty = \<lparr>l_id = i, entry_id = of_int i, l_user_id = u, l_asset = ''USDT'', l_amount = n, l_entry_type = ty,
     reference_type = ''TRANSFER'', reference_id = uuid_str 1, l_correlation_id = Some ''cid-0'', l_created_at = 0\<rparr>"

definition sample_settled :: wdb where
  "sample_settled = sample_wdb\<lparr>balances := [sample_bal 1 750 0 4, sample_bal 2 250 0 1],
     entries := entries sample_wdb @ [sample_entry 2 1 (- 250) TRANSFER_DEBIT, sample_entry 3 2 250 TRANSFER_CREDIT],
     entry_seq := 3, transfers := [sample_t\<lparr>t_status := CONFIRMED, t_tx_hash := Some ''0xabc'', settled_at := Some 0\<rparr>], draws := 3\<rparr>"

definition sample_spent :: wdb where
  "sample_spent = sample_settled\<lparr>balances := [sample_bal 1 750 0 4, sample_bal 2 250 100 2],
     transfers := [sample_t\<lparr>t_status := CONFIRMED\<rparr>,
       sample_t\<lparr>t_id := 2, t_idempotency_key := ''key-2'', from_user_id := 2, to_user_id := 1, t_amount := 100\<rparr>]\<rparr>"

definition sample_p :: payload where
  "sample_p = [(''transfer_id'', JStr (uuid_str 1)), (''tx_hash'', JStr ''0xabc'')]"

lemmas sample_defs = sample_db_def sample_settled_def sample_spent_def sample_wdb_def empty_wdb_def sample_t_def
  sample_bal_def sample_entry_def

text \<open>The parts of the invariant that quantify over all accounts and assets need the rows only.\<close>

lemma transfers_ok_rows:
  assumes "uniq t_id (transfers db)" "uniq t_idempotency_key (transfers db)"
    and "list_all (\<lambda>t. 0 < t_amount t \<and> from_user_id t \<noteq> to_user_id t \<and> length (t_asset t) \<le> 16 \<and>
         has_acct db (from_user_id t, t_asset t) \<and> trail_ok db t \<and> user_exists db (to_user_id t)) (transfers db)"
    and "list_all (\<lambda>b. reserved b = held db (bal_key b)) (balances db)"
    and "list_all (\<lambda>e. reference_type e = TRANSFER_REF \<longrightarrow> list_ex (\<lambda>t. of_transfer t e) (transfers db) \<and> transfer_net db (l_asset e) = 0) (entries db)"
  shows "transfers_ok db"
proof -
  have "acct_reserved db k = held db k" for k
  proof (cases "row_of bal_key k (balances db)")
    case None
    then have "\<forall>t\<in>set (transfers db). (from_user_id t, t_asset t) \<noteq> k"
      using assms(3) by (auto simp: list_all_iff has_acct_def)
    then have "held db k = 0"
      unfolding held_def total_def by (metis (mono_tags, lifting) filter_False list.simps(8) sum_list.Nil)
    with None show ?thesis by (simp add: acct_reserved_def)
  next
    case (Some b)
    from row_of_Some [OF this] assms(4) Some show ?thesis by (auto simp: list_all_iff acct_reserved_def)
  qed
  moreover have "transfer_net db a = 0" for a
  proof (cases "\<exists>e\<in>set (entries db). reference_type e = TRANSFER_REF \<and> l_asset e = a")
    case True
    then show ?thesis using assms(5) by (auto simp: list_all_iff)
  next
    case False
    then show ?thesis
      unfolding transfer_net_def total_def by (metis (mono_tags, lifting) filter_False list.simps(8) sum_list.Nil)
  qed
  ultimately show ?thesis using assms by (auto simp: transfers_ok_def list_all_iff list_ex_iff)
qed

lemma sample_db_ok: "ledger_ok sample_db" "transfers_ok sample_db"
  by (code_simp, rule transfers_ok_rows) code_simp+

lemma sample_transfers_ok [simp]: "transfers_ok sample_wdb"
  by (rule transfers_ok_rows) code_simp+

lemma sample_spent_ok: "ledger_ok sample_spent" "transfers_ok sample_spent"
  by (code_simp, rule transfers_ok_rows) code_simp+

lemma sample_load: "load_for_update sample_p sample_db = Inr (Some sample_t)" and sample_open: "is_open sample_t"
  by code_simp+

lemma sample_settle: "settle_transfer sample_env sample_p sample_db = Inr (sample_settled, ''processed'')"
  by code_simp

definition sample_reversed :: "wdb \<times> string" where
  "sample_reversed = result_of (fail_transfer sample_env sample_p sample_settled)"

theorem settle_moves_funds_witness:
  "\<exists>db' t'. settle_transfer sample_env sample_p sample_db = Inr (db', ''processed'') \<and> ledger_ok db' \<and> transfers_ok db' \<and>
     acct_posted db' = (acct_posted sample_db)((from_user_id sample_t, t_asset sample_t) := acct_posted sample_db (from_user_id sample_t, t_asset sample_t) - t_amount sample_t,
       (to_user_id sample_t, t_asset sample_t) := acct_posted sample_db (to_user_id sample_t, t_asset sample_t) + t_amount sample_t) \<and>
     acct_reserved db' = (acct_reserved sample_db)((from_user_id sample_t, t_asset sample_t) := acct_reserved sample_db (from_user_id sample_t, t_asset sample_t) - t_amount sample_t) \<and>
     row_of t_id (t_id sample_t) (transfers db') = Some t' \<and> t_status t' = CONFIRMED \<and> trail db' t' = settled_rows sample_t"
  by (rule settle_moves_funds [OF sample_db_ok sample_load sample_open]) code_simp+

theorem fail_releases_hold_witness:
  "\<exists>db' t'. fail_transfer sample_env sample_p sample_db = Inr (db', ''processed'') \<and> ledger_ok db' \<and> transfers_ok db' \<and>
     entries db' = entries sample_db \<and> acct_posted db' = acct_posted sample_db \<and>
     acct_reserved db' = (acct_reserved sample_db)((from_user_id sample_t, t_asset sample_t) := acct_reserved sample_db (from_user_id sample_t, t_asset sample_t) - t_amount sample_t) \<and>
     row_of t_id (t_id sample_t) (transfers db') = Some t' \<and> t_status t' = FAILED"
  by (rule fail_releases_hold [OF sample_db_ok sample_load sample_open]) code_simp+


theorem create_transfer_decides_witness:
  "if posted (hd (balances sample_wdb)) - reserved (hd (balances sample_wdb)) < 2000
     then create_transfer sample_env 1 2 ''USDT'' 2000 ''key-9'' ''BSC'' sample_wdb =
       Inl (insufficient_funds USDT (posted (hd (balances sample_wdb)) - reserved (hd (balances sample_wdb))) 2000)
     else \<exists>db' t. create_transfer sample_env 1 2 ''USDT'' 2000 ''key-9'' ''BSC'' sample_wdb = Inr (db', t) \<and> t_status t = CREATED \<and>
       acct_posted db' = acct_posted sample_wdb \<and>
       acct_reserved db' = (acct_reserved sample_wdb)((1, symbol USDT) := acct_reserved sample_wdb (1, symbol USDT) + 2000) \<and>
       ledger_ok db' \<and> transfers_ok db' \<and>
       row_of o_event_id (uuid5 sample_env (event_name TRANSFER_REQUESTED (uuid_str (t_id t)))) (o_rows (w_outbox db')) \<noteq> None"
proof (rule create_transfer_decides [OF sample_ledger_ok sample_transfers_ok])
  show "valid_parties 1 2 ''USDT'' ''BSC'' sample_wdb USDT (sample_wallet 1 ''0xa'') (sample_wallet 2 ''0xb'')" by code_simp
  show "row_of bal_key (1, symbol USDT) (balances sample_wdb) = Some (hd (balances sample_wdb))" by code_simp
qed code_simp+

end
