(* ===== verification/WalletDeposits.thy ===== *)
theory WalletDeposits
  imports TransferCycle
begin

text \<open>
  \<open>wallet_service/services/deposits.py\<close>: crediting a confirmed deposit and reversing one that
  disappeared from the chain. Both are a single posting keyed by the deposit's chain identity.
\<close>

definition DEPOSIT_REF :: string where "DEPOSIT_REF = ''DEPOSIT''"

text \<open>\<open>network:tx_hash:log_index:\<close> followed by the block hash under the given payload key.\<close>

definition chain_ref :: "payload \<Rightarrow> string \<Rightarrow> string result" where
  "chain_ref p key =
     bindr (jreq p ''network'') (\<lambda>network.
     bindr (jreq p ''tx_hash'') (\<lambda>tx_hash.
     bindr (jreq p ''log_index'') (\<lambda>log_index.
       Inr (jfmt network @ '':'' @ jfmt tx_hash @ '':'' @ jfmt log_index @ '':'' @
            jfmt (pget_default p key (JStr []))))))"

definition deposit_reference_id :: "payload \<Rightarrow> string result" where
  "deposit_reference_id p = chain_ref p ''block_hash''"

definition payload_wallet :: "payload \<Rightarrow> wdb \<Rightarrow> wallet option result" where
  "payload_wallet p db =
     bindr (jreq p ''to_address'') (\<lambda>v.
       Inr (case jtext v of None \<Rightarrow> None | Some s \<Rightarrow> wallet_by_address s db))"

text \<open>A null asset is refused by the balance row that \<open>post_entries\<close> locks first.\<close>

definition post_deposit :: "env \<Rightarrow> jval \<Rightarrow> posting \<Rightarrow> wdb \<Rightarrow> (wdb \<times> nat) result" where
  "post_deposit \<Gamma> asset q db =
     (case jtext asset of
        None \<Rightarrow> Inl (IntegrityError ''balances.asset'')
      | Some a \<Rightarrow> post_entries \<Gamma> a [q] db)"

definition deposit_posting :: "wallet \<Rightarrow> int \<Rightarrow> entry_type \<Rightarrow> string \<Rightarrow> posting" where
  "deposit_posting w amount ty ref =
     \<lparr>p_user_id = w_user_id w, p_amount = amount, p_entry_type = ty, p_reference_type = DEPOSIT_REF,
      p_reference_id = ref\<rparr>"

definition credit_deposit :: "env \<Rightarrow> payload \<Rightarrow> wdb \<Rightarrow> (wdb \<times> string) result" where
  "credit_deposit \<Gamma> p db =
     bindr (payload_wallet p db) (\<lambda>r.
       case r of
         None \<Rightarrow> Inr (db, ''ignored'')
       | Some w \<Rightarrow>
           bindr (jreq p ''amount_units'') (\<lambda>v. bindr (jint v) (\<lambda>amount.
           bindr (jreq p ''asset'') (\<lambda>a.
           bindr (deposit_reference_id p) (\<lambda>ref.
           bindr (post_deposit \<Gamma> a (deposit_posting w amount DEPOSIT ref) db) (\<lambda>(db', written).
             Inr (db', if written = 0 then ''duplicate'' else ''processed'')))))))"

definition reverse_deposit :: "env \<Rightarrow> payload \<Rightarrow> wdb \<Rightarrow> (wdb \<times> string) result" where
  "reverse_deposit \<Gamma> p db =
     (if \<not> jtruthy (pget_default p ''was_confirmed'' JNull) then Inr (db, ''processed'') else
      bindr (payload_wallet p db) (\<lambda>r.
        case r of
          None \<Rightarrow> Inr (db, ''ignored'')
        | Some w \<Rightarrow>
            bindr (jreq p ''amount_units'') (\<lambda>v. bindr (jint v) (\<lambda>amount.
            bindr (chain_ref p ''orphaned_block_hash'') (\<lambda>ref.
            bindr (jreq p ''asset'') (\<lambda>a.
            bindr (post_deposit \<Gamma> a (deposit_posting w (- amount) REVERSAL ref) db) (\<lambda>(db', written).
              Inr (db', if written = 0 then ''duplicate'' else ''processed''))))))))"

section \<open>One deposit posting\<close>

lemma DEPOSIT_REF_simps [simp]: "DEPOSIT_REF \<noteq> TRANSFER_REF" "length DEPOSIT_REF \<le> 24"
  by (simp_all add: DEPOSIT_REF_def TRANSFER_REF_def)

lemma deposit_posting_sel [simp]:
  "p_user_id (deposit_posting w n ty ref) = w_user_id w" "p_amount (deposit_posting w n ty ref) = n"
  "p_entry_type (deposit_posting w n ty ref) = ty" "p_reference_type (deposit_posting w n ty ref) = DEPOSIT_REF"
  "p_reference_id (deposit_posting w n ty ref) = ref"
  by (simp_all add: deposit_posting_def)

lemma deposit_posted_key [simp]:
  "posted_key (deposit_posting w n ty ref) =
     (case varchar 200 ''ledger_entries.reference_id'' ref of Inl _ \<Rightarrow> None
      | Inr ri \<Rightarrow> Some (w_user_id w, ty, DEPOSIT_REF, ri))"
  by (simp add: posted_key_def cong: sum.case_cong)

text \<open>
  The effect of a deposit posting: nothing when its key is in the ledger, otherwise one entry
  and a movement of exactly its amount.
\<close>

lemma post_deposit_spec:
  assumes ok: "ledger_ok db" and run: "post_deposit \<Gamma> a (deposit_posting w n ty ref) db = Inr (db', k)"
  shows "ledger_ok db'" and "ledger_frame db db'" and "acct_reserved db' = acct_reserved db"
    and "has_acct db x \<Longrightarrow> has_acct db' x"
    and "\<exists>s. jtext a = Some s \<and> (if is_posted db (deposit_posting w n ty ref)
       then k = 0 \<and> entries db' = entries db \<and> acct_posted db' = acct_posted db
       else k = 1 \<and> (\<exists>e. entry_of s (deposit_posting w n ty ref) e \<and> entries db' = entries db @ [e]) \<and>
         acct_posted db' = (acct_posted db)((w_user_id w, s) := acct_posted db (w_user_id w, s) + n))"
proof -
  from run obtain s where s: "jtext a = Some s" and one: "post_one \<Gamma> s (deposit_posting w n ty ref) (db, 0) = Inr (db', k)"
    by (auto simp: post_deposit_def post_entries_def bindr_eq_Inr split: option.splits)
  note P = post_one_spec [OF ok one]
  show "ledger_ok db'" "ledger_frame db db'" "acct_reserved db' = acct_reserved db" "has_acct db x \<Longrightarrow> has_acct db' x"
    by (fact P(1) P(2) P(5) P(3))+
  show "\<exists>s. jtext a = Some s \<and> (if is_posted db (deposit_posting w n ty ref)
       then k = 0 \<and> entries db' = entries db \<and> acct_posted db' = acct_posted db
       else k = 1 \<and> (\<exists>e. entry_of s (deposit_posting w n ty ref) e \<and> entries db' = entries db @ [e]) \<and>
         acct_posted db' = (acct_posted db)((w_user_id w, s) := acct_posted db (w_user_id w, s) + n))"
    using s P(6) by simp
qed

text \<open>Deposit postings leave the transfers alone: their entries carry another reference type.\<close>

lemma transfers_ok_deposit:
  assumes tok: "transfers_ok db" and fr: "ledger_frame db db'" and res: "acct_reserved db' = acct_reserved db"
    and acct: "\<And>x. has_acct db x \<Longrightarrow> has_acct db' x"
    and ent: "entries db' = entries db @ es" "\<And>e. e \<in> set es \<Longrightarrow> reference_type e \<noteq> TRANSFER_REF"
  shows "transfers_ok db'"
proof -
  note F = ledger_frame_sel [OF fr]
  have "filter (of_transfer t) es = []" for t using ent(2) by (auto simp: filter_empty_conv of_transfer_def)
  then have tr: "trail db' t = trail db t" for t using trail_append [OF ent(1)] by simp
  have "trail_ok db' = trail_ok db" by (simp add: fun_eq_iff trail_ok_def tr)
  moreover have "filter (\<lambda>e. reference_type e = TRANSFER_REF \<and> l_asset e = a) es = []" for a
    using ent(2) by (auto simp: filter_empty_conv)
  then have "transfer_net db' = transfer_net db" by (simp add: fun_eq_iff transfer_net_def total_def ent(1))
  moreover have "held db' = held db" "user_exists db' = user_exists db"
    using F by (simp_all add: fun_eq_iff held_def user_exists_def)
  ultimately show ?thesis
    using tok acct ent unfolding transfers_ok_def F(4) res by (auto simp: ent(1))
qed

lemma post_deposit_transfers_ok:
  assumes ok: "ledger_ok db" and tok: "transfers_ok db"
    and run: "post_deposit \<Gamma> a (deposit_posting w n ty ref) db = Inr (db', k)"
  shows "transfers_ok db'"
proof -
  note P = post_deposit_spec [OF ok run]
  obtain es where "entries db' = entries db @ es" "\<And>e. e \<in> set es \<Longrightarrow> reference_type e = DEPOSIT_REF"
  proof (cases "is_posted db (deposit_posting w n ty ref)")
    case True
    with P(5) show thesis using that [of "[]"] by auto
  next
    case False
    with P(5) obtain s e where "entry_of s (deposit_posting w n ty ref) e" "entries db' = entries db @ [e]" by auto
    then show thesis using that [of "[e]"] by (auto simp: entry_of_def entry_key_def split: sum.splits)
  qed
  then show ?thesis using transfers_ok_deposit [OF tok P(2,3,4)] by simp
qed

lemma credit_deposit_cases:
  assumes "credit_deposit \<Gamma> p db = Inr (db', out)"
  obtains (unknown) "payload_wallet p db = Inr None" "db' = db" "out = ''ignored''"
  | (posted) w v n a ref k where "payload_wallet p db = Inr (Some w)" "jget p ''amount_units'' = Some v" "jint v = Inr n"
      "jget p ''asset'' = Some a" "deposit_reference_id p = Inr ref"
      "post_deposit \<Gamma> a (deposit_posting w n DEPOSIT ref) db = Inr (db', k)" "out = (if k = 0 then ''duplicate'' else ''processed'')"
proof -
  from assms obtain r where r: "payload_wallet p db = Inr r" by (auto simp: credit_deposit_def bindr_eq_Inr)
  show thesis
  proof (cases r)
    case None
    with assms r show thesis by (intro unknown) (simp_all add: credit_deposit_def)
  next
    case (Some w)
    with assms r show thesis by (auto simp: credit_deposit_def bindr_eq_Inr jreq_eq_Inr intro: posted)
  qed
qed

lemma reverse_deposit_cases:
  assumes "reverse_deposit \<Gamma> p db = Inr (db', out)"
  obtains (early) "\<not> jtruthy (pget_default p ''was_confirmed'' JNull)" "db' = db" "out = ''processed''"
  | (unknown) "payload_wallet p db = Inr None" "db' = db" "out = ''ignored''"
  | (posted) w v n a ref k where "payload_wallet p db = Inr (Some w)" "jget p ''amount_units'' = Some v" "jint v = Inr n"
      "jget p ''asset'' = Some a" "chain_ref p ''orphaned_block_hash'' = Inr ref"
      "post_deposit \<Gamma> a (deposit_posting w (- n) REVERSAL ref) db = Inr (db', k)" "out = (if k = 0 then ''duplicate'' else ''processed'')"
proof (cases "jtruthy (pget_default p ''was_confirmed'' JNull)")
  case True
  from assms True obtain r where r: "payload_wallet p db = Inr r" by (auto simp: reverse_deposit_def bindr_eq_Inr)
  show thesis
  proof (cases r)
    case None
    with assms True r show thesis by (intro unknown) (simp_all add: reverse_deposit_def)
  next
    case (Some w)
    with assms True r show thesis by (auto simp: reverse_deposit_def bindr_eq_Inr jreq_eq_Inr intro: posted)
  qed
next
  case False
  with assms have "db' = db" "out = ''processed''" by (simp_all add: reverse_deposit_def)
  with False show thesis by (rule early)
qed

lemma post_deposit_keeps:
  assumes "ledger_ok db" "transfers_ok db" and "post_deposit \<Gamma> a (deposit_posting w n ty ref) db = Inr (db', k)"
  shows "ledger_ok db' \<and> transfers_ok db' \<and> ledger_frame db db'"
  using post_deposit_spec(1,2) [OF assms(1,3)] post_deposit_transfers_ok [OF assms] by blast

lemma credit_deposit_keeps [inv_rules]:
  assumes ok: "ledger_ok db" "transfers_ok db" and run: "credit_deposit \<Gamma> p db = Inr (db', out)"
  shows "ledger_ok db' \<and> transfers_ok db' \<and> ledger_frame db db'"
  using run
proof (cases rule: credit_deposit_cases)
  case (posted w v n a ref k)
  show ?thesis by (rule post_deposit_keeps [OF ok posted(6)])
qed (use ok in simp)

lemma reverse_deposit_keeps [inv_rules]:
  assumes ok: "ledger_ok db" "transfers_ok db" and run: "reverse_deposit \<Gamma> p db = Inr (db', out)"
  shows "ledger_ok db' \<and> transfers_ok db' \<and> ledger_frame db db'"
  using run
proof (cases rule: reverse_deposit_cases)
  case (posted w v n a ref k)
  show ?thesis by (rule post_deposit_keeps [OF ok posted(6)])
qed (use ok in simp_all)

section \<open>Properties\<close>

text \<open>What a deposit event names: the wallet it pays, the asset, the amount and the ledger reference.\<close>

definition deposit_of :: "string \<Rightarrow> payload \<Rightarrow> wdb \<Rightarrow> wallet \<Rightarrow> string \<Rightarrow> int \<Rightarrow> string \<Rightarrow> bool" where
  "deposit_of key p db w a n ref =
     (payload_wallet p db = Inr (Some w) \<and> bindr (jreq p ''amount_units'') jint = Inr n \<and>
      pget_text p ''asset'' = Some a \<and> chain_ref p key = Inr ref)"

lemma deposit_ofD:
  assumes "deposit_of key p db w a n ref"
  obtains v va where "payload_wallet p db = Inr (Some w)" "jreq p ''amount_units'' = Inr v" "jint v = Inr n"
    "jreq p ''asset'' = Inr va" "jtext va = Some a" "chain_ref p key = Inr ref"
  using assms by (auto simp: deposit_of_def bindr_eq_Inr pget_text_def jreq_def split: option.splits)

lemma deposit_of_frame: "wallets db' = wallets db \<Longrightarrow> deposit_of key p db' w a n ref = deposit_of key p db w a n ref"
proof -
  assume "wallets db' = wallets db"
  then have "wallet_by_address s db' = wallet_by_address s db" for s by (simp add: wallet_by_address_def)
  then show ?thesis by (simp add: deposit_of_def payload_wallet_def cong: option.case_cong)
qed

text \<open>Both handlers on a well-formed event are one posting.\<close>

definition outcome_of :: "(wdb \<times> nat) result \<Rightarrow> (wdb \<times> string) result" where
  "outcome_of r = bindr r (\<lambda>(db', k). Inr (db', if k = 0 then ''duplicate'' else ''processed''))"

lemma credit_deposit_eq:
  "deposit_of ''block_hash'' p db w a n ref \<Longrightarrow>
   credit_deposit \<Gamma> p db = outcome_of (post_one \<Gamma> a (deposit_posting w n DEPOSIT ref) (db, 0))"
  by (erule deposit_ofD)
    (simp add: credit_deposit_def deposit_reference_id_def post_deposit_def post_entries_def outcome_of_def bindr_assoc;
     simp add: bindr_def split: sum.split)

lemma reverse_deposit_eq:
  "\<lbrakk>deposit_of ''orphaned_block_hash'' p db w a n ref; jtruthy (pget_default p ''was_confirmed'' JNull)\<rbrakk> \<Longrightarrow>
   reverse_deposit \<Gamma> p db = outcome_of (post_one \<Gamma> a (deposit_posting w (- n) REVERSAL ref) (db, 0))"
  by (erule deposit_ofD)
    (simp add: reverse_deposit_def post_deposit_def post_entries_def outcome_of_def bindr_assoc;
     simp add: bindr_def split: sum.split)

text \<open>The column ranges and fresh identifiers that a new posting needs.\<close>

definition deposit_fits :: "env \<Rightarrow> wdb \<Rightarrow> string \<Rightarrow> posting \<Rightarrow> bool" where
  "deposit_fits \<Gamma> db a q = (postable a q \<and> \<not> is_posted db q \<and> user_exists db (p_user_id q) \<and>
     fits_opt 64 (get_correlation_id \<Gamma>) \<and> row_of entry_id (uuid4 \<Gamma> (draws db)) (entries db) = None)"

lemma post_one_fits:
  assumes ok: "ledger_ok db" and f: "deposit_fits \<Gamma> db a q" and rm: "room db (p_user_id q, a) (p_amount q)"
  obtains db' where "post_one \<Gamma> a q (db, 0) = Inr (db', 1)" "ledger_ok db'" "ledger_frame db db'" "is_posted db' q"
    "acct_reserved db' = acct_reserved db" "has_acct db' (p_user_id q, a)"
    "acct_posted db' = (acct_posted db)((p_user_id q, a) := acct_posted db (p_user_id q, a) + p_amount q)"
proof -
  from f have p: "postable a q" "\<not> is_posted db q" "user_exists db (p_user_id q)"
    "row_of entry_id (uuid4 \<Gamma> (draws db)) (entries db) = None" "fits_opt 64 (get_correlation_id \<Gamma>)"
    by (auto simp: deposit_fits_def)
  obtain db' where run: "post_one \<Gamma> a q (db, 0) = Inr (db', Suc 0)"
    by (rule post_one_total [OF ok p(1-3) varchar_opt_fits [OF p(5)] p(4) rm])
  note S = post_one_spec [OF ok run]
  show ?thesis
    using that [of db'] run S p(2) post_one_posted(1) [OF ok run] by simp
qed

lemma outcome_simps [simp]:
  "outcome_of (Inr (db', 0)) = Inr (db', ''duplicate'')" "outcome_of (Inr (db', Suc k)) = Inr (db', ''processed'')"
  "outcome_of (Inl e) = Inl e"
  by (simp_all add: outcome_of_def)

text \<open>
  Property C9. A confirmed deposit is credited exactly once: the first event for a deposit
  whose owner is known credits its amount to the owner's posted balance and nothing else,
  and any later event with the same payload is reported as a duplicate and changes neither
  a balance nor the ledger.
\<close>

theorem deposit_credited_once:
  assumes ok: "ledger_ok db" and d: "deposit_of ''block_hash'' p db w a n ref"
    and fits: "deposit_fits \<Gamma> db a (deposit_posting w n DEPOSIT ref)" and rm: "room db (w_user_id w, a) n"
    and later: "fits_opt 64 (get_correlation_id \<Gamma>')"
  shows "\<exists>db1 db2. credit_deposit \<Gamma> p db = Inr (db1, ''processed'') \<and> ledger_ok db1 \<and>
     acct_posted db1 = (acct_posted db)((w_user_id w, a) := acct_posted db (w_user_id w, a) + n) \<and>
     acct_reserved db1 = acct_reserved db \<and>
     credit_deposit \<Gamma>' p db1 = Inr (db2, ''duplicate'') \<and> balances db2 = balances db1 \<and> entries db2 = entries db1"
proof -
  let ?q = "deposit_posting w n DEPOSIT ref"
  from post_one_fits [OF ok fits] rm obtain db1 where
      run: "post_one \<Gamma> a ?q (db, 0) = Inr (db1, 1)" and ok1: "ledger_ok db1" and fr: "ledger_frame db db1"
    and rest: "is_posted db1 ?q" "acct_reserved db1 = acct_reserved db" "has_acct db1 (p_user_id ?q, a)"
      "acct_posted db1 = (acct_posted db)((w_user_id w, a) := acct_posted db (w_user_id w, a) + n)"
    by auto
  have pq: "postable a ?q" using fits by (simp add: deposit_fits_def)
  have d1: "deposit_of ''block_hash'' p db1 w a n ref" using d ledger_frame_sel(3) [OF fr] deposit_of_frame by blast
  have "post_one \<Gamma>' a ?q (db1, 0) = Inr (db1\<lparr>draws := Suc (draws db1), entry_seq := entry_seq db1 + 1\<rparr>, 0)"
    by (rule post_one_replay [OF pq rest(1,3) varchar_opt_fits [OF later]])
  then show ?thesis using run rest ok1 by (simp add: credit_deposit_eq [OF d] credit_deposit_eq [OF d1])
qed

text \<open>
  Property C10. The reversal of a credited deposit is decided by what the owner still has:
  if the amount is available it is taken back and nothing else moves; if it is not (spent,
  or held for a transfer), the event raises and the database stays as it was, so no balance
  goes negative.
\<close>

theorem deposit_reversal_decides:
  assumes ok: "ledger_ok db" and d: "deposit_of ''orphaned_block_hash'' p db w a n ref"
    and conf: "jtruthy (pget_default p ''was_confirmed'' JNull)"
    and fits: "deposit_fits \<Gamma> db a (deposit_posting w (- n) REVERSAL ref)" and n: "0 < n"
    and b: "row_of bal_key (w_user_id w, a) (balances db) = Some b" "posted b < 10 ^ 78" "0 \<le> version b" "version b + 1 < 2 ^ 31"
  shows "if n \<le> posted b - reserved b
    then \<exists>db'. reverse_deposit \<Gamma> p db = Inr (db', ''processed'') \<and> ledger_ok db' \<and>
      acct_posted db' = (acct_posted db)((w_user_id w, a) := acct_posted db (w_user_id w, a) - n) \<and>
      acct_reserved db' = acct_reserved db
    else \<exists>e. reverse_deposit \<Gamma> p db = Inl e \<and> commit db (reverse_deposit \<Gamma> p db) = db"
proof (cases "n \<le> posted b - reserved b")
  case True
  have rm: "room db (p_user_id (deposit_posting w (- n) REVERSAL ref), a) (p_amount (deposit_posting w (- n) REVERSAL ref))"
    using True b n by (simp add: room_def)
  obtain db' where run: "post_one \<Gamma> a (deposit_posting w (- n) REVERSAL ref) (db, 0) = Inr (db', 1)"
    "ledger_ok db'" "acct_reserved db' = acct_reserved db"
    "acct_posted db' = (acct_posted db)((w_user_id w, a) := acct_posted db (w_user_id w, a) + - n)"
    by (rule post_one_fits [OF ok fits rm]) (rule that, simp_all)
  have "reverse_deposit \<Gamma> p db = Inr (db', ''processed'')" by (simp add: reverse_deposit_eq [OF d conf] run(1))
  with run(2-4) show ?thesis unfolding if_P [OF True] by (intro exI [of _ db']) simp
next
  case False
  let ?r = "post_one \<Gamma> a (deposit_posting w (- n) REVERSAL ref) (db, 0)"
  have np: "\<not> is_posted db (deposit_posting w (- n) REVERSAL ref)" using fits by (simp add: deposit_fits_def)
  have "\<exists>e. ?r = Inl e"
  proof (cases ?r)
    case (Inr x)
    then obtain db' k where run: "?r = Inr (db', k)" by (cases x) simp
    note S = post_one_spec [OF ok run]
    have "acct_posted db' (w_user_id w, a) = posted b - n" "acct_reserved db' (w_user_id w, a) = reserved b"
      using S(5,6) np b(1) by (simp_all add: acct_posted_def acct_reserved_def)
    with False acct_bounds [OF S(1), of "(w_user_id w, a)"] show ?thesis by simp
  qed simp
  then show ?thesis using False by (auto simp: reverse_deposit_eq [OF d conf])
qed

text \<open>
  Property C29. When the chain flips back to the block that first carried a deposit, the
  credit is lost: after the credit and its reversal, a further confirmation of the same log
  in the same block meets the ledger key of the first credit, is reported as a duplicate,
  and the owner's balance stays where it was before the deposit.
\<close>

theorem flip_back_credit_lost:
  assumes ok: "ledger_ok db" and d: "deposit_of ''block_hash'' p db w a n ref"
    and credit: "credit_deposit \<Gamma> p db = Inr (db1, ''processed'')"
    and r: "deposit_of ''orphaned_block_hash'' p' db1 w a n ref" "jtruthy (pget_default p' ''was_confirmed'' JNull)"
    and reversal: "reverse_deposit \<Gamma>' p' db1 = Inr (db2, ''processed'')"
    and again: "fits_opt 64 (get_correlation_id \<Gamma>'')"
  shows "\<exists>db3. credit_deposit \<Gamma>'' p db2 = Inr (db3, ''duplicate'') \<and> acct_posted db3 = acct_posted db"
proof -
  let ?q = "deposit_posting w n DEPOSIT ref" and ?q' = "deposit_posting w (- n) REVERSAL ref"
  from credit obtain k where one: "post_one \<Gamma> a ?q (db, 0) = Inr (db1, k)" and k: "k \<noteq> 0"
    by (auto simp: credit_deposit_eq [OF d] outcome_of_def bindr_eq_Inr split: if_splits)
  note S = post_one_spec [OF ok one] and P = post_one_posted [OF ok one]
  from reversal obtain k' where two: "post_one \<Gamma>' a ?q' (db1, 0) = Inr (db2, k')" and k': "k' \<noteq> 0"
    by (auto simp: reverse_deposit_eq [OF r] outcome_of_def bindr_eq_Inr split: if_splits)
  note S' = post_one_spec [OF S(1) two] and P' = post_one_posted [OF S(1) two]
  have "is_posted db2 ?q" using P(1) P'(2) by (auto simp: is_posted_def)
  then have "post_one \<Gamma>'' a ?q (db2, 0) = Inr (db2\<lparr>draws := Suc (draws db2), entry_seq := entry_seq db2 + 1\<rparr>, 0)"
    using S'(3) [OF S(4)] by (intro post_one_replay [OF P(3) _ _ varchar_opt_fits [OF again]]) simp_all
  moreover have "deposit_of ''block_hash'' p db2 w a n ref"
    using d ledger_frame_sel(3) [OF S(2)] ledger_frame_sel(3) [OF S'(2)] by (simp add: deposit_of_frame [of db2 db])
  moreover have "acct_posted db2 = acct_posted db"
    using S(6) S'(6) k k' by (auto simp: fun_eq_iff split: if_splits)
  ultimately show ?thesis by (auto simp: credit_deposit_eq acct_posted_def fun_eq_iff)
qed

definition sample_deposit :: payload where
  "sample_deposit = [(''network'', JStr ''BSC''), (''tx_hash'', JStr ''0x2''), (''log_index'', JInt 0), (''asset'', JStr ''USDT''),
     (''to_address'', JStr ''0xb''), (''amount_units'', JStr ''70''), (''block_hash'', JStr ''0xb2''),
     (''orphaned_block_hash'', JStr ''0xb2''), (''was_confirmed'', JBool True)]"

definition sample_deposit_entry :: "int \<Rightarrow> int \<Rightarrow> entry_type \<Rightarrow> ledger_entry" where
  "sample_deposit_entry i n ty = \<lparr>l_id = i, entry_id = of_int (i - 1), l_user_id = 2, l_asset = ''USDT'', l_amount = n, l_entry_type = ty,
     reference_type = ''DEPOSIT'', reference_id = ''BSC:0x2:0:0xb2'', l_correlation_id = Some ''cid-0'', l_created_at = 0\<rparr>"

definition sample_credited :: wdb where
  "sample_credited = sample_wdb\<lparr>balances := balances sample_wdb @ [sample_bal 2 70 0 1],
     entries := entries sample_wdb @ [sample_deposit_entry 2 70 DEPOSIT], entry_seq := 2, draws := 1\<rparr>"

definition sample_taken_back :: wdb where
  "sample_taken_back = sample_credited\<lparr>balances := balances sample_wdb @ [sample_bal 2 0 0 2],
     entries := entries sample_credited @ [sample_deposit_entry 3 (- 70) REVERSAL], entry_seq := 3, draws := 2\<rparr>"

lemma sample_deposit_of:
  "deposit_of ''block_hash'' sample_deposit sample_wdb (sample_wallet 2 ''0xb'') ''USDT'' 70 ''BSC:0x2:0:0xb2''"
  "deposit_of ''orphaned_block_hash'' sample_deposit sample_credited (sample_wallet 2 ''0xb'') ''USDT'' 70 ''BSC:0x2:0:0xb2''"
  "jtruthy (pget_default sample_deposit ''was_confirmed'' JNull)"
  by code_simp+

lemma sample_deposit_posting:
  "deposit_posting (sample_wallet 2 ''0xb'') n ty ref =
    \<lparr>p_user_id = 2, p_amount = n, p_entry_type = ty, p_reference_type = DEPOSIT_REF, p_reference_id = ref\<rparr>"
  by (simp add: deposit_posting_def sample_wallet_def)

lemma sample_deposit_runs:
  "credit_deposit sample_env sample_deposit sample_wdb = Inr (sample_credited, ''processed'')"
  "reverse_deposit sample_env sample_deposit sample_credited = Inr (sample_taken_back, ''processed'')"
proof -
  have "post_one sample_env ''USDT'' (deposit_posting (sample_wallet 2 ''0xb'') 70 DEPOSIT ''BSC:0x2:0:0xb2'') (sample_wdb, 0) = Inr (sample_credited, 1)"
    unfolding sample_deposit_posting by code_simp
  then show "credit_deposit sample_env sample_deposit sample_wdb = Inr (sample_credited, ''processed'')"
    by (simp add: credit_deposit_eq [OF sample_deposit_of(1)])
  have "post_one sample_env ''USDT'' (deposit_posting (sample_wallet 2 ''0xb'') (- 70) REVERSAL ''BSC:0x2:0:0xb2'') (sample_credited, 0) = Inr (sample_taken_back, 1)"
    unfolding sample_deposit_posting by code_simp
  then show "reverse_deposit sample_env sample_deposit sample_credited = Inr (sample_taken_back, ''processed'')"
    by (simp add: reverse_deposit_eq [OF sample_deposit_of(2,3)])
qed

theorem deposit_credited_once_witness:
  "\<exists>db1 db2. credit_deposit sample_env sample_deposit sample_wdb = Inr (db1, ''processed'') \<and> ledger_ok db1 \<and>
     acct_posted db1 = (acct_posted sample_wdb)((w_user_id (sample_wallet 2 ''0xb''), ''USDT'') :=
       acct_posted sample_wdb (w_user_id (sample_wallet 2 ''0xb''), ''USDT'') + 70) \<and>
     acct_reserved db1 = acct_reserved sample_wdb \<and>
     credit_deposit sample_env sample_deposit db1 = Inr (db2, ''duplicate'') \<and> balances db2 = balances db1 \<and> entries db2 = entries db1"
  by (rule deposit_credited_once [OF sample_ledger_ok sample_deposit_of(1)]) (unfold sample_deposit_posting, code_simp+)

theorem deposit_reversal_decides_witness:
  "if 70 \<le> posted (sample_bal 2 70 0 1) - reserved (sample_bal 2 70 0 1)
    then \<exists>db'. reverse_deposit sample_env sample_deposit sample_credited = Inr (db', ''processed'') \<and> ledger_ok db' \<and>
      acct_posted db' = (acct_posted sample_credited)((w_user_id (sample_wallet 2 ''0xb''), ''USDT'') :=
        acct_posted sample_credited (w_user_id (sample_wallet 2 ''0xb''), ''USDT'') - 70) \<and>
      acct_reserved db' = acct_reserved sample_credited
    else \<exists>e. reverse_deposit sample_env sample_deposit sample_credited = Inl e \<and>
      commit sample_credited (reverse_deposit sample_env sample_deposit sample_credited) = sample_credited"
  by (rule deposit_reversal_decides [OF _ sample_deposit_of(2,3)]) (unfold sample_deposit_posting, code_simp+)

theorem flip_back_credit_lost_witness:
  "\<exists>db3. credit_deposit sample_env sample_deposit sample_taken_back = Inr (db3, ''duplicate'') \<and>
     acct_posted db3 = acct_posted sample_wdb"
  by (rule flip_back_credit_lost [OF sample_ledger_ok sample_deposit_of(1) sample_deposit_runs(1) sample_deposit_of(2,3)
        sample_deposit_runs(2)]) code_simp

end
