(* ===== verification/Bus.thy ===== *)
theory Bus
  imports Outbox "HOL-Library.AList"
begin

text \<open>
  \<open>mcw_common/bus.py\<close>: the event bus protocol, the in-process bus with its consumer
  groups, pending entries and delivery counts, and the consumer runtime (read, retry,
  acknowledge, dead-letter). Clock readings are arguments, in milliseconds. An operation of
  the protocol returns its next state and, when it raised, the message of the exception.
\<close>

record delivered_event =
  d_stream :: string
  d_message_id :: string
  d_envelope :: envelope
  d_delivery_count :: nat

record dead_letter_item =
  dl_envelope :: envelope
  dl_delivery_count :: nat
  dl_error :: string

section \<open>The protocol\<close>

record 'b event_bus =
  eb_publish :: "'b \<Rightarrow> envelope \<Rightarrow> 'b \<times> string option"
  eb_ensure_group :: "'b \<Rightarrow> string list \<Rightarrow> string \<Rightarrow> 'b \<times> string option"
  eb_read_new :: "int \<Rightarrow> 'b \<Rightarrow> string list \<Rightarrow> string \<Rightarrow> string \<Rightarrow> nat \<Rightarrow> int \<Rightarrow> 'b \<times> (string + delivered_event list)"
  eb_claim_stale :: "int \<Rightarrow> 'b \<Rightarrow> string list \<Rightarrow> string \<Rightarrow> string \<Rightarrow> int \<Rightarrow> nat \<Rightarrow> 'b \<times> (string + delivered_event list \<times> delivered_event list)"
  eb_ack :: "'b \<Rightarrow> string \<Rightarrow> string \<Rightarrow> string \<Rightarrow> 'b \<times> string option"
  eb_dead_letter :: "'b \<Rightarrow> string \<Rightarrow> dead_letter_item \<Rightarrow> 'b \<times> string option"

section \<open>The in-process bus\<close>

text \<open>A pending entry: envelope, delivery count and the time of the last delivery.\<close>

type_synonym pending_entry = "envelope \<times> nat \<times> int"

record bus =
  streams :: "string \<rightharpoonup> (string \<times> envelope) list"
  cursors :: "string \<times> string \<rightharpoonup> nat"
  pending :: "string \<times> string \<rightharpoonup> (string \<times> pending_entry) list"
  dead_letters :: "dead_letter_item list"
  bus_seq :: nat

definition empty_bus :: bus where
  "empty_bus = \<lparr>streams = Map.empty, cursors = Map.empty, pending = Map.empty,
     dead_letters = [], bus_seq = 0\<rparr>"

text \<open>\<open>dict.get(key, default)\<close>\<close>

definition get_or :: "'v \<Rightarrow> ('k \<rightharpoonup> 'v) \<Rightarrow> 'k \<Rightarrow> 'v" where
  "get_or d m k = (case m k of None \<Rightarrow> d | Some v \<Rightarrow> v)"

definition msg_id_of :: "nat \<Rightarrow> string" where
  "msg_id_of n = py_str (int n) @ ''-0''"

definition publish :: "bus \<Rightarrow> envelope \<Rightarrow> bus" where
  "publish b ev =
     (let s = stream_for (event_type ev) in
      b\<lparr>bus_seq := Suc (bus_seq b),
        streams := (streams b)(s \<mapsto> get_or [] (streams b) s @ [(msg_id_of (Suc (bus_seq b)), ev)])\<rparr>)"

fun ensure_group :: "bus \<Rightarrow> string list \<Rightarrow> string \<Rightarrow> bus" where
  "ensure_group b [] g = b"
| "ensure_group b (ty # tys) g =
     (let k = (stream_for ty, g) in
      ensure_group (b\<lparr>cursors := (cursors b)(k \<mapsto> get_or 0 (cursors b) k),
                      pending := (pending b)(k \<mapsto> get_or [] (pending b) k)\<rparr>) tys g)"

definition set_pending :: "string \<times> string \<Rightarrow> string \<Rightarrow> pending_entry \<Rightarrow> bus \<Rightarrow> bus" where
  "set_pending k m e b =
     b\<lparr>pending := (pending b)(k \<mapsto> AList.update m e (get_or [] (pending b) k))\<rparr>"

fun read_new :: "int \<Rightarrow> bus \<Rightarrow> string list \<Rightarrow> string \<Rightarrow> nat \<Rightarrow> bus \<times> delivered_event list" where
  "read_new t b [] g cnt = (b, [])"
| "read_new t b (ty # tys) g cnt =
     (let s = stream_for ty; k = (s, g); messages = get_or [] (streams b) s;
          cursor = get_or 0 (cursors b) k; batch = take cnt (drop cursor messages);
          b1 = fold (\<lambda>(m, ev). set_pending k m (ev, 1, t)) batch b;
          b2 = b1\<lparr>cursors := (cursors b1)(k \<mapsto> min (cursor + cnt) (length messages))\<rparr>
      in case read_new t b2 tys g cnt of (b3, out) \<Rightarrow>
        (b3, map (\<lambda>(m, ev). \<lparr>d_stream = s, d_message_id = m, d_envelope = ev, d_delivery_count = 1\<rparr>) batch @ out))"

text \<open>
  The inner loop of \<open>claim_stale\<close> over a snapshot of the pending entries of one stream: the
  limit is tested after an entry has been taken.
\<close>

fun claim_loop :: "int \<Rightarrow> int \<Rightarrow> nat \<Rightarrow> string \<Rightarrow> string \<Rightarrow> (string \<times> pending_entry) list \<Rightarrow>
    bus \<Rightarrow> delivered_event list \<Rightarrow> bus \<times> delivered_event list" where
  "claim_loop t min_idle cnt s g [] b out = (b, out)"
| "claim_loop t min_idle cnt s g ((m, ev, n, ts) # rest) b out =
     (if min_idle \<le> t - ts
      then let b' = set_pending (s, g) m (ev, Suc n, t) b;
               out' = out @ [\<lparr>d_stream = s, d_message_id = m, d_envelope = ev, d_delivery_count = Suc n\<rparr>]
           in if cnt \<le> length out' then (b', out')
              else claim_loop t min_idle cnt s g rest b' out'
      else claim_loop t min_idle cnt s g rest b out)"

fun claim_types :: "int \<Rightarrow> bus \<Rightarrow> string list \<Rightarrow> string \<Rightarrow> int \<Rightarrow> nat \<Rightarrow> delivered_event list \<Rightarrow>
    bus \<times> delivered_event list" where
  "claim_types t b [] g min_idle cnt out = (b, out)"
| "claim_types t b (ty # tys) g min_idle cnt out =
     (let s = stream_for ty in
      case claim_loop t min_idle cnt s g (get_or [] (pending b) (s, g)) b out of
        (b', out') \<Rightarrow> claim_types t b' tys g min_idle cnt out')"

definition claim_stale :: "int \<Rightarrow> bus \<Rightarrow> string list \<Rightarrow> string \<Rightarrow> int \<Rightarrow> nat \<Rightarrow>
    bus \<times> delivered_event list \<times> delivered_event list" where
  "claim_stale t b tys g min_idle cnt =
     (case claim_types t b tys g min_idle cnt [] of (b', retryable) \<Rightarrow> (b', retryable, []))"

definition ack :: "bus \<Rightarrow> string \<Rightarrow> string \<Rightarrow> string \<Rightarrow> bus" where
  "ack b s g m =
     (case pending b (s, g) of
        None \<Rightarrow> b
      | Some p \<Rightarrow> b\<lparr>pending := (pending b)((s, g) \<mapsto> AList.delete m p)\<rparr>)"

definition dead_letter :: "bus \<Rightarrow> string \<Rightarrow> dead_letter_item \<Rightarrow> bus" where
  "dead_letter b g item = b\<lparr>dead_letters := dead_letters b @ [item]\<rparr>"

definition InMemoryBus :: "bus event_bus" where
  "InMemoryBus =
     \<lparr>eb_publish = (\<lambda>b ev. (publish b ev, None)),
      eb_ensure_group = (\<lambda>b tys g. (ensure_group b tys g, None)),
      eb_read_new = (\<lambda>t b tys g c n block. case read_new t b tys g n of (b', out) \<Rightarrow> (b', Inr out)),
      eb_claim_stale = (\<lambda>t b tys g c idle n. case claim_stale t b tys g idle n of (b', out) \<Rightarrow> (b', Inr out)),
      eb_ack = (\<lambda>b s g m. (ack b s g m, None)),
      eb_dead_letter = (\<lambda>b g item. (dead_letter b g item, None))\<rparr>"

section \<open>The consumer runtime\<close>

record consumer =
  c_group :: string
  c_name :: string
  c_event_types :: "string list"
  c_max_delivery :: nat
  c_claim_idle_ms :: int
  c_batch :: nat
  c_block_ms :: int

text \<open>
  \<open>dispatch\<close> acts on the consumer's own state and returns an outcome or the text
  \<open>type: message\<close> of its exception; \<open>on_dead_letter\<close> may raise too.
\<close>

type_synonym 's dispatcher = "'s \<Rightarrow> envelope \<Rightarrow> 's \<times> (string + string)"
type_synonym 's dl_callback = "('s \<Rightarrow> dead_letter_item \<Rightarrow> 's \<times> string option) option"

definition reject :: "'b event_bus \<Rightarrow> consumer \<Rightarrow> 's dl_callback \<Rightarrow> delivered_event \<Rightarrow> string \<Rightarrow>
    'b \<Rightarrow> 's \<Rightarrow> 'b \<times> 's \<times> string option" where
  "reject B c on_dl d error b s =
     (let item = \<lparr>dl_envelope = d_envelope d, dl_delivery_count = d_delivery_count d, dl_error = error\<rparr> in
      case eb_dead_letter B b (c_group c) item of
        (b1, Some e) \<Rightarrow> (b1, s, Some e)
      | (b1, None) \<Rightarrow>
          (case (case on_dl of None \<Rightarrow> (s, None) | Some f \<Rightarrow> f s item) of
             (s1, Some e) \<Rightarrow> (b1, s1, Some e)
           | (s1, None) \<Rightarrow>
               (case eb_ack B b1 (d_stream d) (c_group c) (d_message_id d) of (b2, m) \<Rightarrow> (b2, s1, m))))"

definition handler_failed :: "'b event_bus \<Rightarrow> consumer \<Rightarrow> 's dl_callback \<Rightarrow> delivered_event \<Rightarrow> string \<Rightarrow>
    'b \<Rightarrow> 's \<Rightarrow> 'b \<times> 's \<times> string option" where
  "handler_failed B c on_dl d error b s =
     (if c_max_delivery c \<le> d_delivery_count d then reject B c on_dl d error b s else (b, s, None))"

definition handle :: "'b event_bus \<Rightarrow> consumer \<Rightarrow> 's dispatcher \<Rightarrow> 's dl_callback \<Rightarrow> delivered_event \<Rightarrow>
    'b \<Rightarrow> 's \<Rightarrow> 'b \<times> 's \<times> string option" where
  "handle B c dispatch on_dl d b s =
     (if c_max_delivery c < d_delivery_count d
      then reject B c on_dl d ''max delivery count exceeded'' b s
      else case dispatch s (d_envelope d) of
        (s1, Inl e) \<Rightarrow> handler_failed B c on_dl d e b s1
      | (s1, Inr outcome) \<Rightarrow>
          (case eb_ack B b (d_stream d) (c_group c) (d_message_id d) of
             (b1, None) \<Rightarrow> (b1, s1, None)
           | (b1, Some e) \<Rightarrow> handler_failed B c on_dl d e b1 s1))"

text \<open>The loop of \<open>run_once\<close>: an exception that leaves \<open>_handle\<close> ends it.\<close>

fun handle_all :: "'b event_bus \<Rightarrow> consumer \<Rightarrow> 's dispatcher \<Rightarrow> 's dl_callback \<Rightarrow> delivered_event list \<Rightarrow>
    nat \<Rightarrow> 'b \<Rightarrow> 's \<Rightarrow> 'b \<times> 's \<times> (string + nat)" where
  "handle_all B c dispatch on_dl [] handled b s = (b, s, Inr handled)"
| "handle_all B c dispatch on_dl (d # ds) handled b s =
     (case handle B c dispatch on_dl d b s of
        (b1, s1, Some e) \<Rightarrow> (b1, s1, Inl e)
      | (b1, s1, None) \<Rightarrow> handle_all B c dispatch on_dl ds (Suc handled) b1 s1)"

definition start :: "'b event_bus \<Rightarrow> consumer \<Rightarrow> bool \<Rightarrow> 'b \<Rightarrow> 'b \<times> string option" where
  "start B c started b = (if started then (b, None) else eb_ensure_group B b (c_event_types c) (c_group c))"

definition consumer_run_once :: "'b event_bus \<Rightarrow> consumer \<Rightarrow> 's dispatcher \<Rightarrow> 's dl_callback \<Rightarrow> int \<Rightarrow> int option \<Rightarrow>
    bool \<Rightarrow> 'b \<Rightarrow> 's \<Rightarrow> bool \<times> 'b \<times> 's \<times> (string + nat)" where
  "consumer_run_once B c dispatch on_dl t block started b s =
     (case start B c started b of
        (b1, Some e) \<Rightarrow> (started, b1, s, Inl e)
      | (b1, None) \<Rightarrow>
          (True,
           case eb_claim_stale B t b1 (c_event_types c) (c_group c) (c_name c) (c_claim_idle_ms c) (c_batch c) of
             (b2, Inl e) \<Rightarrow> (b2, s, Inl e)
           | (b2, Inr (stale, _)) \<Rightarrow>
               (case eb_read_new B t b2 (c_event_types c) (c_group c) (c_name c) (c_batch c)
                       (case block of None \<Rightarrow> c_block_ms c | Some n \<Rightarrow> n) of
                  (b3, Inl e) \<Rightarrow> (b3, s, Inl e)
                | (b3, Inr fresh) \<Rightarrow> handle_all B c dispatch on_dl (stale @ fresh) 0 b3 s)))"

section \<open>What the runtime relies on\<close>

text \<open>
  The contract of the bus with its consumers: \<open>pend b s g m\<close> is the pending entry of message
  \<open>m\<close> (envelope and delivery count), \<open>dlq\<close> the dead letters. An acknowledgement removes at
  most the acknowledged entry, even when it raises; dead-lettering removes none.
\<close>

locale acking_bus =
  fixes B :: "'b event_bus"
    and pend :: "'b \<Rightarrow> string \<Rightarrow> string \<Rightarrow> string \<Rightarrow> (envelope \<times> nat) option"
    and dlq :: "'b \<Rightarrow> dead_letter_item list"
  assumes ack_frame: "\<lbrakk>eb_ack B b s g m = (b', r); (s', g', m') \<noteq> (s, g, m)\<rbrakk> \<Longrightarrow> pend b' s' g' m' = pend b s' g' m'"
    and ack_done: "eb_ack B b s g m = (b', None) \<Longrightarrow> pend b' s g m = None"
    and ack_dlq: "eb_ack B b s g m = (b', r) \<Longrightarrow> dlq b' = dlq b"
    and dead_letter_pend: "eb_dead_letter B b g item = (b', r) \<Longrightarrow> pend b' = pend b"
    and dead_letter_done: "eb_dead_letter B b g item = (b', None) \<Longrightarrow> dlq b' = dlq b @ [item]"
    and dead_letter_keeps: "eb_dead_letter B b g item = (b', r) \<Longrightarrow> set (dlq b) \<subseteq> set (dlq b')"
begin

lemma reject_frame:
  assumes "reject B c on_dl d e b s = (b', s', r)"
    and "(st, g, m) \<noteq> (d_stream d, c_group c, d_message_id d)"
  shows "pend b' st g m = pend b st g m"
  using assms(1)
  by (auto simp: reject_def Let_def split: prod.splits option.splits
      dest!: dead_letter_pend ack_frame [OF _ assms(2)])

lemma reject_dlq_mono: "reject B c on_dl d e b s = (b', s', r) \<Longrightarrow> set (dlq b) \<subseteq> set (dlq b')"
  by (auto simp: reject_def Let_def split: prod.splits option.splits
      dest!: dead_letter_keeps ack_dlq)

lemma reject_done:
  assumes "reject B c on_dl d e b s = (b', s', None)"
  shows "pend b' (d_stream d) (c_group c) (d_message_id d) = None"
    and "dlq b' = dlq b @ [\<lparr>dl_envelope = d_envelope d, dl_delivery_count = d_delivery_count d, dl_error = e\<rparr>]"
  using assms
  by (auto simp: reject_def Let_def ack_done ack_dlq dead_letter_done split: prod.splits option.splits)

text \<open>An exception of the rejection leaves the entry pending, unless it is the ack that raised.\<close>

lemma reject_safe:
  assumes "reject B c on_dl d e b s = (b', s', r)"
  shows "pend b' (d_stream d) (c_group c) (d_message_id d) = pend b (d_stream d) (c_group c) (d_message_id d)
    \<or> (\<exists>item\<in>set (dlq b'). dl_envelope item = d_envelope d)"
  using assms by (auto simp: reject_def Let_def split: prod.splits option.splits
      dest!: dead_letter_done ack_dlq dest: dead_letter_pend)

lemma handle_frame:
  assumes "handle B c disp on_dl d b s = (b', s', r)"
    and "(st, g, m) \<noteq> (d_stream d, c_group c, d_message_id d)"
  shows "pend b' st g m = pend b st g m"
  using assms(1)
  by (auto simp: handle_def handler_failed_def split: if_splits prod.splits option.splits sum.splits
      dest!: reject_frame [OF _ assms(2)] ack_frame [OF _ assms(2)])

lemma handle_dlq_mono: "handle B c disp on_dl d b s = (b', s', r) \<Longrightarrow> set (dlq b) \<subseteq> set (dlq b')"
  by (auto simp: handle_def handler_failed_def split: if_splits prod.splits option.splits sum.splits
      dest!: reject_dlq_mono ack_dlq)

text \<open>No message is lost, whatever raises: it was processed, it stays pending, or it is dead-lettered.\<close>

lemma handle_not_lost:
  assumes "handle B c disp on_dl d b s = (b', s', r)"
  shows "(\<exists>s1 outcome. disp s (d_envelope d) = (s1, Inr outcome)) \<or>
    pend b' (d_stream d) (c_group c) (d_message_id d) = pend b (d_stream d) (c_group c) (d_message_id d) \<or>
    (\<exists>item\<in>set (dlq b'). dl_envelope item = d_envelope d)"
  using assms
  by (auto simp: handle_def handler_failed_def split: if_splits prod.splits option.splits sum.splits
      dest: reject_safe)

lemma handle_all_dlq_mono:
  "handle_all B c disp on_dl ds n b s = (b', s', r) \<Longrightarrow> set (dlq b) \<subseteq> set (dlq b')"
proof (induction ds arbitrary: n b s)
  case (Cons d ds)
  obtain b1 s1 r1 where h: "handle B c disp on_dl d b s = (b1, s1, r1)" by (metis prod.collapse)
  with Cons show ?case using handle_dlq_mono [OF h] by (cases r1) fastforce+
qed simp

lemma handle_all_not_lost:
  assumes "handle_all B c disp on_dl ds n b s = (b', s', r)"
  shows "pend b' st (c_group c) m = pend b st (c_group c) m \<or>
    (\<exists>d\<in>set ds. d_stream d = st \<and> d_message_id d = m \<and>
      ((\<exists>s0 s1 outcome. disp s0 (d_envelope d) = (s1, Inr outcome)) \<or>
       (\<exists>item\<in>set (dlq b'). dl_envelope item = d_envelope d)))"
  using assms
proof (induction ds arbitrary: n b s)
  case (Cons d ds)
  obtain b1 s1 r1 where h: "handle B c disp on_dl d b s = (b1, s1, r1)" by (metis prod.collapse)
  have mono: "set (dlq b1) \<subseteq> set (dlq b')"
    using Cons.prems h by (cases r1) (auto dest: handle_all_dlq_mono)
  have first: "pend b1 st (c_group c) m = pend b st (c_group c) m \<or>
      d_stream d = st \<and> d_message_id d = m \<and>
      ((\<exists>s0 s1 outcome. disp s0 (d_envelope d) = (s1, Inr outcome)) \<or>
       (\<exists>item\<in>set (dlq b'). dl_envelope item = d_envelope d))"
    using handle_frame [OF h] handle_not_lost [OF h] mono by (metis prod.inject subsetD)
  show ?case
  proof (cases r1)
    case None
    with Cons.prems h have "handle_all B c disp on_dl ds (Suc n) b1 s1 = (b', s', r)" by simp
    from Cons.IH [OF this] first show ?thesis by auto
  next
    case (Some e)
    with Cons.prems h first show ?thesis by auto
  qed
qed simp

end

section \<open>The in-process bus keeps the contracts\<close>

lemma get_or_upd [simp]: "get_or d (m(k \<mapsto> v)) k' = (if k' = k then v else get_or d m k')"
  by (simp add: get_or_def)

definition inmem_pend :: "bus \<Rightarrow> string \<Rightarrow> string \<Rightarrow> string \<Rightarrow> (envelope \<times> nat) option" where
  "inmem_pend b s g m = map_option (\<lambda>(ev, n, ts). (ev, n)) (map_of (get_or [] (pending b) (s, g)) m)"

definition carried :: "bus \<Rightarrow> envelope \<Rightarrow> bool" where
  "carried b ev = (\<exists>m. (m, ev) \<in> set (get_or [] (streams b) (stream_for (event_type ev))))"

lemma map_of_delete [simp]: "map_of (AList.delete k xs) k' = (if k' = k then None else map_of xs k')"
  by (simp add: delete_conv')

lemma inmem_pend_ack [simp]:
  "inmem_pend (ack b s g m) s' g' m' = (if (s', g', m') = (s, g, m) then None else inmem_pend b s' g' m')"
  by (auto simp: inmem_pend_def ack_def get_or_def split: option.split)

lemma dead_letters_ack [simp]: "dead_letters (ack b s g m) = dead_letters b"
  by (simp add: ack_def split: option.split)

lemma inmem_pend_dead_letter [simp]: "inmem_pend (dead_letter b g item) = inmem_pend b"
  by (simp add: dead_letter_def inmem_pend_def fun_eq_iff)

lemma dead_letters_dead_letter [simp]: "dead_letters (dead_letter b g item) = dead_letters b @ [item]"
  by (simp add: dead_letter_def)

interpretation inmem: acking_bus InMemoryBus inmem_pend dead_letters
  by unfold_locales (auto simp: InMemoryBus_def)

lemma carried_publish: "carried (publish b ev) ev' \<longleftrightarrow> ev' = ev \<or> carried b ev'"
  by (auto simp: publish_def carried_def Let_def)

interpretation inmem_pub: publisher "eb_publish InMemoryBus" carried
  by unfold_locales (auto simp: InMemoryBus_def carried_publish)

section \<open>Invariant of the in-process bus\<close>

abbreviation msgs :: "bus \<Rightarrow> string \<Rightarrow> (string \<times> envelope) list" where
  "msgs b s \<equiv> get_or [] (streams b) s"

abbreviation cur :: "bus \<Rightarrow> string \<times> string \<Rightarrow> nat" where
  "cur b k \<equiv> get_or 0 (cursors b) k"

abbreviation pel :: "bus \<Rightarrow> string \<times> string \<Rightarrow> (string \<times> pending_entry) list" where
  "pel b k \<equiv> get_or [] (pending b) k"

text \<open>Message ids are unique in a stream; a group's pending entries were read from it.\<close>

definition bus_ok :: "bus \<Rightarrow> bool" where
  "bus_ok b = ((\<forall>s. distinct (map fst (msgs b s)) \<and> fst ` set (msgs b s) \<subseteq> msg_id_of ` {..bus_seq b}) \<and>
     (\<forall>s g. distinct (map fst (pel b (s, g))) \<and>
        (\<forall>m ev n ts. (m, ev, n, ts) \<in> set (pel b (s, g)) \<longrightarrow> (m, ev) \<in> set (take (cur b (s, g)) (msgs b s)))))"

lemma bus_okI [intro?]:
  assumes "\<And>s. distinct (map fst (msgs b s))" "\<And>s. fst ` set (msgs b s) \<subseteq> msg_id_of ` {..bus_seq b}"
    and "\<And>s g. distinct (map fst (pel b (s, g)))"
    and "\<And>s g m ev n ts. (m, ev, n, ts) \<in> set (pel b (s, g)) \<Longrightarrow> (m, ev) \<in> set (take (cur b (s, g)) (msgs b s))"
  shows "bus_ok b"
  using assms by (simp add: bus_ok_def)

lemma bus_okD:
  assumes "bus_ok b"
  shows "distinct (map fst (msgs b s))" "fst ` set (msgs b s) \<subseteq> msg_id_of ` {..bus_seq b}"
    "distinct (map fst (pel b (s, g)))"
    "(m, ev, n, ts) \<in> set (pel b (s, g)) \<Longrightarrow> (m, ev) \<in> set (take (cur b (s, g)) (msgs b s))"
  using assms unfolding bus_ok_def by blast+

lemma empty_bus_ok [simp]: "bus_ok empty_bus"
  by rule (simp_all add: empty_bus_def get_or_def)

lemma msg_id_of_inj [simp]: "msg_id_of a = msg_id_of b \<longleftrightarrow> a = b"
  by (simp add: msg_id_of_def py_str_inj)

lemma publish_ok [inv_rules]:
  assumes "bus_ok b" shows "bus_ok (publish b ev)"
proof
  fix s g m e n ts
  note b = bus_okD [OF assms]
  let ?s = "stream_for (event_type ev)"
  have fresh: "msg_id_of (Suc (bus_seq b)) \<notin> fst ` set (msgs b ?s)" using b(2) [of ?s] by auto
  show "distinct (map fst (msgs (publish b ev) s))"
    using b(1) fresh by (simp add: publish_def Let_def)
  show "fst ` set (msgs (publish b ev) s) \<subseteq> msg_id_of ` {..bus_seq (publish b ev)}"
  proof -
    have "fst ` set (msgs (publish b ev) s) \<subseteq> insert (msg_id_of (Suc (bus_seq b))) (fst ` set (msgs b s))"
      by (auto simp: publish_def Let_def)
    also have "\<dots> \<subseteq> msg_id_of ` {..Suc (bus_seq b)}" using b(2) [of s] by (auto simp: atMost_Suc)
    finally show ?thesis by (simp add: publish_def Let_def)
  qed
  show "distinct (map fst (pel (publish b ev) (s, g)))"
    using b(3) by (simp add: publish_def Let_def)
  show "(m, e) \<in> set (take (cur (publish b ev) (s, g)) (msgs (publish b ev) s))"
    if "(m, e, n, ts) \<in> set (pel (publish b ev) (s, g))"
    using b(4) [of m e n ts s g] that by (auto simp: publish_def Let_def split: if_splits)
qed

lemma set_alist_update: "set (AList.update k v xs) \<subseteq> insert (k, v) (set xs)"
  by (induction xs) auto

lemma pel_set_pending:
  "pel (set_pending k m e b) k' = (if k' = k then AList.update m e (pel b k) else pel b k')"
  by (simp add: set_pending_def)

lemma set_pending_same [simp]:
  "streams (set_pending k m e b) = streams b" "cursors (set_pending k m e b) = cursors b"
  "bus_seq (set_pending k m e b) = bus_seq b" "dead_letters (set_pending k m e b) = dead_letters b"
  by (simp_all add: set_pending_def)

lemma keys_set_pending:
  "fst ` set (pel (set_pending k m e b) k') = (if k' = k then insert m (fst ` set (pel b k)) else fst ` set (pel b k'))"
  by (simp add: pel_set_pending flip: dom_map_of_conv_image_fst) (auto simp: update_conv')

lemma set_pending_ok:
  assumes "bus_ok b" "(m, ev) \<in> set (take (cur b (s, g)) (msgs b s))"
  shows "bus_ok (set_pending (s, g) m (ev, n, ts) b)"
proof
  note b = bus_okD [OF assms(1)]
  fix s' g' m' e' n' ts'
  show "distinct (map fst (pel (set_pending (s, g) m (ev, n, ts) b) (s', g')))"
    using b(3) by (simp add: pel_set_pending distinct_update)
  show "(m', e') \<in> set (take (cur (set_pending (s, g) m (ev, n, ts) b) (s', g')) (msgs (set_pending (s, g) m (ev, n, ts) b) s'))"
    if "(m', e', n', ts') \<in> set (pel (set_pending (s, g) m (ev, n, ts) b) (s', g'))"
    using that b(4) assms(2) set_alist_update [of m "(ev, n, ts)" "pel b (s, g)"]
    by (auto simp: pel_set_pending split: if_splits)
qed (use bus_okD [OF assms(1)] in simp_all)

section \<open>No delivery is lost\<close>

text \<open>A message waits for a group while it is unread or pending there.\<close>

definition awaiting :: "bus \<Rightarrow> string \<Rightarrow> string \<Rightarrow> string \<Rightarrow> envelope \<Rightarrow> bool" where
  "awaiting b s g m ev =
     ((m, ev) \<in> set (msgs b s) \<and>
      (m \<in> fst ` set (pel b (s, g)) \<or> (m, ev) \<in> set (drop (cur b (s, g)) (msgs b s))))"

lemma pend_keys:
  assumes "bus_ok b"
  shows "(m \<in> fst ` set (pel b (s, g))) = (inmem_pend b s g m \<noteq> None)"
  by (simp add: inmem_pend_def flip: dom_map_of_conv_image_fst) (simp add: dom_def)

definition same_log :: "bus \<Rightarrow> bus \<Rightarrow> bool" where
  "same_log b b' = (streams b' = streams b \<and> dead_letters b' = dead_letters b)"

text \<open>A read or a claim keeps the invariant and what waits, and delivers messages of the log.\<close>

definition delivers :: "bus \<Rightarrow> bus \<Rightarrow> delivered_event list \<Rightarrow> bool" where
  "delivers b b' out = (bus_ok b' \<and> same_log b b' \<and>
     (\<forall>d\<in>set out. (d_message_id d, d_envelope d) \<in> set (msgs b (d_stream d))) \<and>
     (\<forall>s g m ev. awaiting b s g m ev \<longrightarrow> awaiting b' s g m ev))"

lemma delivers_refl: "bus_ok b \<Longrightarrow> delivers b b []"
  by (simp add: delivers_def same_log_def)

lemma delivers_trans: "\<lbrakk>delivers b b1 o1; delivers b1 b2 o2\<rbrakk> \<Longrightarrow> delivers b b2 (o1 @ o2)"
  by (auto simp: delivers_def same_log_def)

lemma delivers_set_pending:
  assumes "bus_ok b" "(m, ev) \<in> set (take (cur b (s, g)) (msgs b s))"
  shows "delivers b (set_pending (s, g) m (ev, n, ts) b)
    [\<lparr>d_stream = s, d_message_id = m, d_envelope = ev, d_delivery_count = n\<rparr>]"
  using set_pending_ok [OF assms] assms(2)
  by (auto simp: delivers_def same_log_def awaiting_def keys_set_pending dest: in_set_takeD)

lemma claim_loop_delivers:
  assumes "claim_loop t idle cnt s g items b out = (b', out')" and "bus_ok b"
    and "\<forall>(m, ev, n, ts)\<in>set items. (m, ev) \<in> set (take (cur b (s, g)) (msgs b s))"
  shows "\<exists>new. out' = out @ new \<and> delivers b b' new"
  using assms
proof (induction t idle cnt s g items b out rule: claim_loop.induct)
  case (2 t idle cnt s g m ev n ts rest b out)
  let ?d = "\<lparr>d_stream = s, d_message_id = m, d_envelope = ev, d_delivery_count = Suc n\<rparr>"
  let ?b = "set_pending (s, g) m (ev, Suc n, t) b"
  have step: "delivers b ?b [?d]" using "2.prems" by (intro delivers_set_pending) auto
  have cursors: "cur ?b (s, g) = cur b (s, g)" "msgs ?b s = msgs b s" by simp_all
  show ?case
  proof (cases "idle \<le> t - ts")
    case False
    with 2 show ?thesis by simp
  next
    case idle: True
    show ?thesis
    proof (cases "cnt \<le> length (out @ [?d])")
      case True
      with idle "2.prems"(1) step show ?thesis by (auto simp: Let_def)
    next
      case False
      with idle "2.prems"(1) have "claim_loop t idle cnt s g rest ?b (out @ [?d]) = (b', out')"
        by (simp add: Let_def)
      from "2.IH"(1) [OF idle refl refl False this] step "2.prems"(3)
      obtain new where "out' = (out @ [?d]) @ new" "delivers ?b b' new"
        by (auto simp: delivers_def)
      then show ?thesis using delivers_trans [OF step] by (intro exI [of _ "?d # new"]) force
    qed
  qed
qed (auto intro: delivers_refl)

lemma claim_types_delivers:
  "\<lbrakk>claim_types t b tys g idle cnt out = (b', out'); bus_ok b\<rbrakk> \<Longrightarrow> \<exists>new. out' = out @ new \<and> delivers b b' new"
proof (induction tys arbitrary: b out)
  case (Cons ty tys)
  let ?s = "stream_for ty"
  obtain b1 out1 where l: "claim_loop t idle cnt ?s g (pel b (?s, g)) b out = (b1, out1)" by fastforce
  obtain n1 where n1: "out1 = out @ n1" "delivers b b1 n1"
    using claim_loop_delivers [OF l Cons.prems(2)] bus_okD(4) [OF Cons.prems(2)] by fastforce
  from Cons.prems l have "claim_types t b1 tys g idle cnt out1 = (b', out')" by (simp add: Let_def)
  with Cons.IH n1 obtain n2 where "out' = out1 @ n2" "delivers b1 b' n2" by (metis delivers_def)
  then show ?case using n1 delivers_trans by fastforce
qed (auto intro: delivers_refl)

lemma set_pending_cursors: "set_pending k m e (b\<lparr>cursors := c\<rparr>) = (set_pending k m e b)\<lparr>cursors := c\<rparr>"
  by (simp add: set_pending_def)

lemma fold_pending_delivers:
  assumes "bus_ok b" and "set batch \<subseteq> set (take (cur b (s, g)) (msgs b s))"
  shows "delivers b (fold (\<lambda>(m, ev). set_pending (s, g) m (ev, 1, t)) batch b)
    (map (\<lambda>(m, ev). \<lparr>d_stream = s, d_message_id = m, d_envelope = ev, d_delivery_count = 1\<rparr>) batch)"
    and "fst ` set batch \<subseteq> fst ` set (pel (fold (\<lambda>(m, ev). set_pending (s, g) m (ev, 1, t)) batch b) (s, g))"
proof -
  let ?f = "fold (\<lambda>(m, ev). set_pending (s, g) m (ev, 1, t))"
  let ?d = "\<lambda>(m, ev). \<lparr>d_stream = s, d_message_id = m, d_envelope = ev, d_delivery_count = 1\<rparr>"
  have keys: "fst ` set (pel (?f batch b) (s, g)) = fst ` set batch \<union> fst ` set (pel b (s, g))" for b
    by (induction batch arbitrary: b) (auto simp: keys_set_pending split: prod.splits)
  then show "fst ` set batch \<subseteq> fst ` set (pel (?f batch b) (s, g))" by blast
  show "delivers b (?f batch b) (map ?d batch)"
    using assms
  proof (induction batch arbitrary: b)
    case (Cons x batch)
    obtain m ev where x: "x = (m, ev)" by fastforce
    have step: "delivers b (set_pending (s, g) m (ev, 1, t) b) [?d (m, ev)]"
      using Cons.prems x by (auto intro: delivers_set_pending)
    then have "delivers (set_pending (s, g) m (ev, 1, t) b) (?f batch (set_pending (s, g) m (ev, 1, t) b)) (map ?d batch)"
      using Cons.prems by (intro Cons.IH) (auto simp: delivers_def)
    from delivers_trans [OF step this] show ?case by (simp add: x)
  qed (simp add: delivers_refl)
qed

text \<open>Advancing the cursor over a batch that is pending loses nothing.\<close>

lemma read_new_delivers:
  "\<lbrakk>read_new t b tys g cnt = (b', out); bus_ok b\<rbrakk> \<Longrightarrow> delivers b b' out"
proof (induction tys arbitrary: b b' out)
  case (Cons ty tys)
  let ?s = "stream_for ty"
  let ?k = "(?s, g)"
  let ?msgs = "msgs b ?s" and ?cur = "cur b ?k"
  let ?batch = "take cnt (drop ?cur ?msgs)"
  let ?new = "min (?cur + cnt) (length ?msgs)"
  let ?b0 = "b\<lparr>cursors := (cursors b)(?k \<mapsto> ?new)\<rparr>"
  let ?upd = "fold (\<lambda>(m, ev). set_pending ?k m (ev, 1, t)) ?batch"
  let ?ds = "map (\<lambda>(m, ev). \<lparr>d_stream = ?s, d_message_id = m, d_envelope = ev, d_delivery_count = 1\<rparr>) ?batch"
  have swap: "fold (\<lambda>(m, ev). set_pending ?k m (ev, 1, t)) xs (b\<lparr>cursors := c\<rparr>) =
      (fold (\<lambda>(m, ev). set_pending ?k m (ev, 1, t)) xs b)\<lparr>cursors := c\<rparr>" for xs b c
    by (induction xs arbitrary: b) (auto simp: set_pending_cursors)
  have cursors: "cursors (fold (\<lambda>(m, ev). set_pending ?k m (ev, 1, t)) xs b) = cursors b" for xs b
    by (induction xs arbitrary: b) (auto)
  have take_new: "take ?new ?msgs = take ?cur ?msgs @ ?batch"
    by (simp add: min_def take_add)
  have drop_cur: "drop ?cur ?msgs = ?batch @ drop ?new ?msgs"
  proof -
    have "drop ?new ?msgs = drop cnt (drop ?cur ?msgs)" by (simp add: min_def add.commute)
    then show ?thesis by (simp only: append_take_drop_id)
  qed
  have ok0: "bus_ok ?b0"
  proof
    fix s g' m ev n ts
    show "(m, ev) \<in> set (take (cur ?b0 (s, g')) (msgs ?b0 s))" if "(m, ev, n, ts) \<in> set (pel ?b0 (s, g'))"
      using bus_okD(4) [OF Cons.prems(2), of m ev n ts s g'] that take_new by (auto split: if_splits)
  qed (use bus_okD [OF Cons.prems(2)] in simp_all)
  have sub: "set ?batch \<subseteq> set (take (cur ?b0 ?k) (msgs ?b0 ?s))" using take_new by simp
  note F = fold_pending_delivers [OF ok0 sub]
  have "awaiting (?upd ?b0) s g' m ev" if "awaiting b s g' m ev" for s g' m ev
  proof (cases "(s, g') = ?k \<and> (m, ev) \<in> set ?batch")
    case True
    then have "m \<in> fst ` set ?batch" by (metis fst_conv image_eqI)
    then have "m \<in> fst ` set (pel (?upd ?b0) ?k)" by (rule subsetD [OF F(2)])
    then have "m \<in> fst ` set (pel (?upd ?b0) (s, g'))" using True by (simp only:)
    moreover have "msgs (?upd ?b0) s = msgs b s" using F(1) by (simp add: delivers_def same_log_def)
    ultimately show ?thesis using that unfolding awaiting_def by simp
  next
    case False
    have "set (drop ?cur ?msgs) = set ?batch \<union> set (drop ?new ?msgs)"
      by (rule trans [OF arg_cong [OF drop_cur, of set]]) simp
    with that False have "awaiting ?b0 s g' m ev" by (auto simp: awaiting_def)
    with F(1) show ?thesis by (simp add: delivers_def)
  qed
  with F(1) have "delivers b (?upd ?b0) ?ds" by (simp add: delivers_def same_log_def)
  moreover have "?upd ?b0 = (?upd b)\<lparr>cursors := (cursors (?upd b))(?k \<mapsto> ?new)\<rparr>" by (simp only: swap cursors)
  ultimately have step: "delivers b ((?upd b)\<lparr>cursors := (cursors (?upd b))(?k \<mapsto> ?new)\<rparr>) ?ds" by simp
  obtain b3 o3 where r: "read_new t ((?upd b)\<lparr>cursors := (cursors (?upd b))(?k \<mapsto> ?new)\<rparr>) tys g cnt = (b3, o3)"
    by fastforce
  from Cons.prems(1) r have eq: "b' = b3" "out = ?ds @ o3" by (simp_all add: Let_def)
  have "delivers ((?upd b)\<lparr>cursors := (cursors (?upd b))(?k \<mapsto> ?new)\<rparr>) b3 o3"
    using Cons.IH [OF r] step by (simp add: delivers_def)
  from delivers_trans [OF step this] eq show ?case by simp
qed (auto intro: delivers_refl)

lemma ensure_group_delivers: "bus_ok b \<Longrightarrow> delivers b (ensure_group b tys g) []"
proof (induction tys arbitrary: b)
  case (Cons ty tys)
  let ?k = "(stream_for ty, g)"
  let ?b = "b\<lparr>cursors := (cursors b)(?k \<mapsto> cur b ?k), pending := (pending b)(?k \<mapsto> pel b ?k)\<rparr>"
  have eq: "cur ?b k = cur b k" "pel ?b k = pel b k" "msgs ?b s = msgs b s" "bus_seq ?b = bus_seq b" for k s
    by simp_all
  have "bus_ok ?b" using Cons.prems unfolding bus_ok_def eq .
  moreover have "awaiting ?b = awaiting b" unfolding awaiting_def [abs_def] eq ..
  ultimately have "delivers b ?b []" by (simp add: delivers_def same_log_def)
  from delivers_trans [OF this Cons.IH] \<open>bus_ok ?b\<close> show ?case by (simp add: Let_def)
qed (simp add: delivers_refl)

text \<open>Handling a delivery touches the pending entries and the dead letters only.\<close>

definition same_reads :: "bus \<Rightarrow> bus \<Rightarrow> bool" where
  "same_reads b b' = (streams b' = streams b \<and> cursors b' = cursors b \<and> bus_seq b' = bus_seq b \<and>
     (\<forall>k. distinct (map fst (pel b k)) \<longrightarrow> distinct (map fst (pel b' k))) \<and>
     (\<forall>k. set (pel b' k) \<subseteq> set (pel b k)))"

lemma same_reads_refl: "same_reads b b"
  by (simp add: same_reads_def)

lemma same_reads_trans: "\<lbrakk>same_reads a b; same_reads b c\<rbrakk> \<Longrightarrow> same_reads a c"
proof -
  assume a: "same_reads a b" "same_reads b c"
  have "set (pel c k) \<subseteq> set (pel a k)" for k
    using a unfolding same_reads_def by blast
  moreover have "distinct (map fst (pel a k)) \<longrightarrow> distinct (map fst (pel c k))" for k
    using a unfolding same_reads_def by blast
  ultimately show ?thesis using a by (simp add: same_reads_def)
qed

lemma same_reads_ok: "\<lbrakk>same_reads b b'; bus_ok b\<rbrakk> \<Longrightarrow> bus_ok b'"
  unfolding bus_ok_def same_reads_def by (metis (no_types, lifting) subsetD)

lemma same_reads_ack: "same_reads b (ack b s g m)"
proof -
  have "set (AList.delete m p) \<subseteq> set p" for p :: "(string \<times> pending_entry) list"
    by (auto simp: AList.delete_eq)
  then show ?thesis
    by (auto simp: same_reads_def ack_def get_or_def distinct_delete split: option.split)
qed

lemma same_reads_dead_letter: "same_reads b (dead_letter b g item)"
  by (simp add: same_reads_def dead_letter_def)

lemma same_reads_reject: "reject InMemoryBus c on_dl d e b s = (b', s', r) \<Longrightarrow> same_reads b b'"
  using same_reads_trans [OF same_reads_dead_letter same_reads_ack] same_reads_dead_letter
  by (auto simp: reject_def InMemoryBus_def Let_def split: prod.splits option.splits)

lemma same_reads_handle: "handle InMemoryBus c disp on_dl d b s = (b', s', r) \<Longrightarrow> same_reads b b'"
  using same_reads_ack same_reads_refl
  by (auto simp: handle_def handler_failed_def split: if_splits prod.splits option.splits sum.splits
      dest: same_reads_reject simp: InMemoryBus_def [THEN arg_cong [of _ _ eb_ack]])

lemma same_reads_handle_all: "handle_all InMemoryBus c disp on_dl ds n b s = (b', s', r) \<Longrightarrow> same_reads b b'"
proof (induction ds arbitrary: n b s)
  case (Cons d ds)
  obtain b1 s1 r1 where h: "handle InMemoryBus c disp on_dl d b s = (b1, s1, r1)" by (metis prod.collapse)
  note step = same_reads_handle [OF h]
  show ?case
  proof (cases r1)
    case None
    with Cons h same_reads_trans [OF step] show ?thesis by simp
  next
    case (Some e)
    with Cons.prems h step show ?thesis by simp
  qed
qed (simp add: same_reads_refl)



definition sample_consumer :: consumer where
  "sample_consumer = \<lparr>c_group = ''wallet'', c_name = ''w1'', c_event_types = [TX_CONFIRMED],
     c_max_delivery = 5, c_claim_idle_ms = 30000, c_batch = 32, c_block_ms = 2000\<rparr>"

definition sample_event :: envelope where
  "sample_event = \<lparr>event_id = uuid_str 9, event_type = TX_CONFIRMED, schema_version = 1,
     occurred_at = 0, producer = ''blockchain-service'', e_correlation_id = ''cid-0'',
     causation_id = None, e_payload = []\<rparr>"

definition sample_delivery :: delivered_event where
  "sample_delivery = \<lparr>d_stream = stream_for TX_CONFIRMED, d_message_id = ''1-0'', d_envelope = sample_event, d_delivery_count = 5\<rparr>"

definition sample_run :: "bool \<times> bus \<times> unit \<times> (string + nat)" where
  "sample_run = consumer_run_once InMemoryBus sample_consumer (\<lambda>s ev. (s, Inl ''boom'')) None 0 None False
     (publish empty_bus sample_event) ()"

definition count_dead_letter :: "nat \<Rightarrow> dead_letter_item \<Rightarrow> nat \<times> string option" where
  "count_dead_letter n item = (Suc n, None)"



section \<open>The relay on the in-process bus\<close>


definition sample_relay :: "bus \<times> outbox \<times> nat" where
  "sample_relay = relay_run_once (eb_publish InMemoryBus) 100 60 [] 5 empty_bus sample_outbox"


end
