(* ===== verification/Dedup.thy ===== *)
theory Dedup
  imports Bus
begin

text \<open>
  Exactly-once effects over at-least-once delivery. Both services record the id of an event
  they have handled in the transaction that applies it (\<open>processed_events\<close>); the contract
  below is what their dispatchers promise, and what follows from it for a stream of
  deliveries with repetitions.
\<close>

locale dedup_consumer =
  fixes disp :: "'e \<Rightarrow> envelope \<Rightarrow> 's \<Rightarrow> ('s \<times> string) result" and seen :: "'s \<Rightarrow> uuid set"
    and inv :: "'s \<Rightarrow> bool"
  assumes repeated: "\<lbrakk>uuid_of_string (event_id ev) = Some u; u \<in> seen s; length (event_type ev) \<le> 64\<rbrakk> \<Longrightarrow>
      disp e ev s = Inr (s, ''duplicate'')"
    and keeps: "\<lbrakk>inv s; disp e ev s = Inr (s', out)\<rbrakk> \<Longrightarrow> inv s'"
    and marked: "\<lbrakk>inv s; disp e ev s = Inr (s', out)\<rbrakk> \<Longrightarrow> \<exists>u. uuid_of_string (event_id ev) = Some u \<and> seen s' = insert u (seen s)"

text \<open>A stream of deliveries, each in its own environment and its own transaction.\<close>

fun deliver_all :: "('e \<Rightarrow> envelope \<Rightarrow> 's \<Rightarrow> ('s \<times> string) result) \<Rightarrow> ('e \<times> envelope) list \<Rightarrow> 's \<Rightarrow> 's" where
  "deliver_all disp [] s = s"
| "deliver_all disp ((e, ev) # ds) s = deliver_all disp ds (commit s (disp e ev s))"

lemma deliver_all_append: "deliver_all disp (xs @ ys) s = deliver_all disp ys (deliver_all disp xs s)"
  by (induction xs arbitrary: s) auto

context dedup_consumer
begin

lemma deliver_keeps: "inv s \<Longrightarrow> inv (commit s (disp e ev s)) \<and> seen s \<subseteq> seen (commit s (disp e ev s))"
  using keeps marked by (fastforce simp: commit_def split: sum.split)

lemma deliver_all_keeps: "inv s \<Longrightarrow> inv (deliver_all disp ds s) \<and> seen s \<subseteq> seen (deliver_all disp ds s)"
proof (induction ds arbitrary: s)
  case (Cons d ds)
  obtain e ev where "d = (e, ev)" by fastforce
  then show ?case using deliver_keeps [OF Cons.prems, of e ev] Cons.IH by fastforce
qed simp

lemma redelivery_absorbed:
  assumes "inv s" and "disp e ev s = Inr (s1, out)" and "length (event_type ev) \<le> 64"
  shows "disp e' ev (deliver_all disp ds s1) = Inr (deliver_all disp ds s1, ''duplicate'')"
proof -
  obtain u where u: "uuid_of_string (event_id ev) = Some u" "u \<in> seen s1" using marked [OF assms(1,2)] by auto
  with deliver_all_keeps [OF keeps [OF assms(1,2)]] assms(3) show ?thesis by (intro repeated) auto
qed

text \<open>The state a stream ends in does not change when handled events are delivered again at the end.\<close>

lemma repetitions_absorbed:
  assumes "\<forall>(e, ev) \<in> set ds'. length (event_type ev) \<le> 64 \<and> (\<exists>u. uuid_of_string (event_id ev) = Some u \<and> u \<in> seen s)"
  shows "deliver_all disp ds' s = s"
  using assms
proof (induction ds')
  case (Cons d ds')
  obtain e ev where d: "d = (e, ev)" by fastforce
  with Cons.prems have "disp e ev s = Inr (s, ''duplicate'')" using repeated by auto
  with Cons d show ?case by simp
qed simp

end

text \<open>The view the consumer runtime has of a dispatcher: its text on an exception.\<close>

definition as_dispatcher :: "(exn \<Rightarrow> string) \<Rightarrow> (envelope \<Rightarrow> 's \<Rightarrow> ('s \<times> string) result) \<Rightarrow> 's dispatcher" where
  "as_dispatcher describe disp s ev =
     (case disp ev s of Inl e \<Rightarrow> (s, Inl (describe e)) | Inr (s', out) \<Rightarrow> (s', Inr out))"

end
