(* ===== verification/WalletDispatch.thy ===== *)
theory WalletDispatch
  imports WalletDeposits Dedup
begin

text \<open>
  \<open>wallet_service/consumers/dispatcher.py\<close> and \<open>services/progress.py\<close>: the idempotent event
  dispatcher of the wallet service, its dead-letter table, and the worker that moves
  transfers from \<open>CREATED\<close> to \<open>PROCESSING\<close> once their event is published.
\<close>

definition CONSUMER_NAME :: string where "CONSUMER_NAME = ''wallet-service''"

definition SUBSCRIBED_EVENTS :: "string list" where
  "SUBSCRIBED_EVENTS = [DEPOSIT_DETECTED, DEPOSIT_CONFIRMED, DEPOSIT_REORGED, TX_BROADCASTED, TX_CONFIRMED, TX_FAILED]"

definition handle_event :: "env \<Rightarrow> envelope \<Rightarrow> wdb \<Rightarrow> (wdb \<times> string) result" where
  "handle_event \<Gamma> ev db =
     (if event_type ev = DEPOSIT_DETECTED then Inr (db, ''processed'')
      else if event_type ev = DEPOSIT_CONFIRMED then credit_deposit \<Gamma> (e_payload ev) db
      else if event_type ev = DEPOSIT_REORGED then reverse_deposit \<Gamma> (e_payload ev) db
      else if event_type ev = TX_BROADCASTED then mark_broadcasted \<Gamma> (e_payload ev) db
      else if event_type ev = TX_CONFIRMED then settle_transfer \<Gamma> (e_payload ev) db
      else if event_type ev = TX_FAILED then fail_transfer \<Gamma> (e_payload ev) db
      else Inr (db, ''ignored''))"

text \<open>
  \<open>dispatch\<close>: the dedupe row and the effects share one transaction; a conflict on
  \<open>(consumer, event_id)\<close> means that the event was handled.
\<close>

definition dispatch :: "env \<Rightarrow> envelope \<Rightarrow> wdb \<Rightarrow> (wdb \<times> string) result" where
  "dispatch \<Gamma> ev db =
     (let \<Gamma>' = correlation_scope (Some (e_correlation_id ev)) \<Gamma> in
      case uuid_of_string (event_id ev) of
        None \<Rightarrow> Inl (ValueError ''badly formed hexadecimal UUID string'')
      | Some u \<Rightarrow>
          bindr (varchar 64 ''processed_events.event_type'' (event_type ev)) (\<lambda>ty.
            if row_of pe_key (CONSUMER_NAME, u) (processed db) \<noteq> None then Inr (db, ''duplicate'')
            else handle_event \<Gamma>' ev (db\<lparr>processed := processed db @
                   [\<lparr>pe_consumer = CONSUMER_NAME, pe_event_id = u, pe_event_type = ty, processed_at = now \<Gamma>\<rparr>]\<rparr>)))"

definition record_dead_letter :: "env \<Rightarrow> dead_letter_item \<Rightarrow> wdb \<Rightarrow> (wdb \<times> unit) result" where
  "record_dead_letter \<Gamma> item db =
     (let ev = dl_envelope item; i = uuid4 \<Gamma> (draws db) in
      case uuid_of_string (event_id ev) of
        None \<Rightarrow> Inl (ValueError ''badly formed hexadecimal UUID string'')
      | Some u \<Rightarrow>
          bindr (varchar 64 ''dead_letters.event_type'' (event_type ev)) (\<lambda>ty.
          bindr (int4 ''dead_letters.delivery_count'' (int (dl_delivery_count item))) (\<lambda>n.
            if row_of dr_id i (dead_rows db) \<noteq> None then Inl (IntegrityError ''dead_letters_pkey'')
            else Inr (db\<lparr>dead_rows := dead_rows db @
                   [\<lparr>dr_id = i, dr_consumer = CONSUMER_NAME, dr_event_id = u, dr_event_type = ty, dr_envelope = ev,
                     dr_delivery_count = n, dr_error = dl_error item, dr_created_at = now \<Gamma>\<rparr>],
                   draws := Suc (draws db)\<rparr>, ()))))"

section \<open>Progress\<close>

text \<open>\<open>_ADVANCE_SQL\<close>: the join of the transfer with its published request event.\<close>

definition announced :: "wdb \<Rightarrow> transfer \<Rightarrow> bool" where
  "announced db t = list_ex (\<lambda>r. o_event_type r = ''transfer.requested'' \<and> o_published_at r \<noteq> None \<and>
     pget_text (e_payload (o_envelope r)) ''transfer_id'' = Some (uuid_str (t_id t))) (o_rows (w_outbox db))"

definition advance_transfers :: "env \<Rightarrow> wdb \<Rightarrow> wdb \<times> nat" where
  "advance_transfers \<Gamma> db =
     (let sel = (\<lambda>t. t_status t = CREATED \<and> announced db t) in
      (db\<lparr>transfers := map (\<lambda>t. if sel t then t\<lparr>t_status := PROCESSING, t_updated_at := now \<Gamma>\<rparr> else t) (transfers db)\<rparr>,
       length (filter sel (transfers db))))"

section \<open>Preservation\<close>

text \<open>
  The order in which a transfer moves through its life: no operation takes it back. A
  settled transfer can still fail when a reorganisation takes its transaction away.
\<close>

primrec status_rank :: "transfer_status \<Rightarrow> nat" where
  "status_rank CREATED = 0"
| "status_rank PROCESSING = 1"
| "status_rank BROADCASTED = 2"
| "status_rank CONFIRMED = 3"
| "status_rank FAILED = 4"

definition transfers_le :: "wdb \<Rightarrow> wdb \<Rightarrow> bool" where
  "transfers_le db db' = (\<forall>i t. row_of t_id i (transfers db) = Some t \<longrightarrow>
     (\<exists>t'. row_of t_id i (transfers db') = Some t' \<and> immut t' = immut t \<and> status_rank (t_status t) \<le> status_rank (t_status t')))"

lemma transfers_le_refl [simp]: "transfers db' = transfers db \<Longrightarrow> transfers_le db db'"
  by (simp add: transfers_le_def)

lemma transfers_le_trans:
  assumes "transfers_le a b" "transfers_le b c" shows "transfers_le a c"
  unfolding transfers_le_def
proof (intro allI impI)
  fix i t assume "row_of t_id i (transfers a) = Some t"
  with assms(1) obtain t1 where t1: "row_of t_id i (transfers b) = Some t1" "immut t1 = immut t"
      "status_rank (t_status t) \<le> status_rank (t_status t1)"
    unfolding transfers_le_def by blast
  with assms(2) obtain t2 where "row_of t_id i (transfers c) = Some t2" "immut t2 = immut t1"
      "status_rank (t_status t1) \<le> status_rank (t_status t2)"
    unfolding transfers_le_def by blast
  with t1 show "\<exists>t'. row_of t_id i (transfers c) = Some t' \<and> immut t' = immut t \<and> status_rank (t_status t) \<le> status_rank (t_status t')"
    by (intro exI [of _ t2]) simp
qed

text \<open>The handlers of chain events only update rows.\<close>

definition transfers_upd :: "wdb \<Rightarrow> wdb \<Rightarrow> bool" where
  "transfers_upd db db' = (map t_id (transfers db') = map t_id (transfers db) \<and> transfers_le db db')"

lemma transfers_upd_refl [simp]: "transfers db' = transfers db \<Longrightarrow> transfers_upd db db'"
  by (simp add: transfers_upd_def)

lemma save_transfer_upd:
  assumes run: "save_transfer \<Gamma> t new db = Inr db'" and row: "row_of t_id (t_id t) (transfers db) = Some t"
    and le: "status_rank (t_status t) \<le> status_rank (t_status new)"
  shows "transfers_upd db db'"
proof (cases "new = t")
  case True
  with run show ?thesis by (simp add: save_transfer_def)
next
  case False
  with run obtain h fc where tr: "transfers db' = upd_of t_id (t_id t)
      (with_mutable (new\<lparr>t_tx_hash := h, failure_code := fc, t_updated_at := now \<Gamma>\<rparr>)) (transfers db)"
    by (auto simp: save_transfer_def bindr_eq_Inr)
  have wm: "t_id (with_mutable n r) = t_id r" "immut (with_mutable n r) = immut r" "t_status (with_mutable n r) = t_status n" for n r
    by (simp_all add: with_mutable_def immut_def)
  show ?thesis unfolding transfers_upd_def transfers_le_def tr using row le by (auto simp: row_of_upd wm map_key_upd)
qed

lemma transfers_upd_cong:
  "\<lbrakk>transfers_upd db db'; transfers db0 = transfers db\<rbrakk> \<Longrightarrow> transfers_upd db0 db'"
  by (simp add: transfers_upd_def transfers_le_def)

lemma open_cases: "\<lbrakk>t_status t \<noteq> CONFIRMED; t_status t \<noteq> FAILED\<rbrakk> \<Longrightarrow> is_open t"
  by (cases "t_status t") (simp_all add: is_open_def OPEN_def)

lemma mark_broadcasted_keeps:
  assumes ok: "ledger_ok db" "transfers_ok db" and run: "mark_broadcasted \<Gamma> p db = Inr (db', out)"
  shows "ledger_ok db' \<and> transfers_ok db' \<and> core_frame db db' \<and> transfers_upd db db'"
proof -
  from run obtain r where r: "load_for_update p db = Inr r" by (auto simp: mark_broadcasted_def bindr_eq_Inr)
  show ?thesis
  proof (cases "r = None \<or> t_status (the r) \<in> set TERMINAL")
    case True
    with run r have "db' = db" by (auto simp: mark_broadcasted_def split: option.splits)
    then show ?thesis using ok by simp
  next
    case False
    then obtain t where t: "r = Some t" "t_status t \<noteq> CONFIRMED" "t_status t \<noteq> FAILED" by (auto simp: TERMINAL_def)
    have row: "load_for_update p db = Inr (Some t)" using r t by simp
    note S = broadcast_spec [OF ok run row open_cases [OF t(2,3)]]
    from run row False t obtain new where "save_transfer \<Gamma> t new db = Inr db'" "t_status new = BROADCASTED"
      by (auto simp: mark_broadcasted_def bindr_eq_Inr)
    moreover have "status_rank (t_status t) \<le> 2" using t by (cases "t_status t") simp_all
    ultimately have "transfers_upd db db'" using save_transfer_upd [OF _ load_for_update_eq [OF row]] by simp
    with S show ?thesis by simp
  qed
qed

lemma settle_transfer_keeps:
  assumes ok: "ledger_ok db" "transfers_ok db" and run: "settle_transfer \<Gamma> p db = Inr (db', out)"
  shows "ledger_ok db' \<and> transfers_ok db' \<and> core_frame db db' \<and> transfers_upd db db'"
proof -
  from run obtain r where r: "load_for_update p db = Inr r" by (auto simp: settle_transfer_def bindr_eq_Inr)
  show ?thesis
  proof (cases "r = None \<or> t_status (the r) = CONFIRMED \<or> t_status (the r) = FAILED")
    case True
    with run r have "db' = db" by (auto simp: settle_transfer_def split: option.splits if_splits)
    then show ?thesis using ok by simp
  next
    case False
    then obtain t where t: "r = Some t" "t_status t \<noteq> CONFIRMED" "t_status t \<noteq> FAILED" by auto
    have row: "load_for_update p db = Inr (Some t)" using r t by simp
    note S = settle_spec [OF ok run row open_cases [OF t(2,3)]]
    from run row t obtain db1 db2 n new where rel: "release_hold \<Gamma> (from_user_id t) (t_asset t) (t_amount t) db = Inr db1"
      and post: "post_entries \<Gamma> (t_asset t) (settle_postings t) db1 = Inr (db2, n)"
      and save: "save_transfer \<Gamma> t new db2 = Inr db'" and new: "t_status new = CONFIRMED"
      by (auto simp: settle_transfer_def bindr_eq_Inr)
    note R = release_hold_spec [OF ok(1) rel]
    have "ledger_frame db db2"
      using R(2) post_all_ok [OF R(1) post [unfolded post_entries_def]] ledger_frame_trans by blast
    then have tr: "transfers db2 = transfers db" by (simp add: ledger_frame_sel)
    have "status_rank (t_status t) \<le> 3" using t by (cases "t_status t") simp_all
    then have "transfers_upd db2 db'" using new load_for_update_eq [OF row] tr by (intro save_transfer_upd [OF save]) simp_all
    then have "transfers_upd db db'" by (rule transfers_upd_cong) (simp add: tr)
    with S show ?thesis by simp
  qed
qed

lemma fail_transfer_keeps:
  assumes ok: "ledger_ok db" "transfers_ok db" and run: "fail_transfer \<Gamma> p db = Inr (db', out)"
  shows "ledger_ok db' \<and> transfers_ok db' \<and> core_frame db db' \<and> transfers_upd db db'"
proof -
  from run obtain r where r: "load_for_update p db = Inr r" by (auto simp: fail_transfer_def bindr_eq_Inr)
  show ?thesis
  proof (cases "r = None \<or> t_status (the r) = FAILED")
    case True
    with run r have "db' = db" by (auto simp: fail_transfer_def split: option.splits)
    then show ?thesis using ok by simp
  next
    case False
    then obtain t where t: "r = Some t" "t_status t \<noteq> FAILED" by auto
    have row: "load_for_update p db = Inr (Some t)" using r t by simp
    from run row t obtain db1 new where first: "(if t_status t = CONFIRMED
         then bindr (post_entries \<Gamma> (t_asset t) (reversal_postings t) db) (\<lambda>(db1, _). Inr db1)
         else release_hold \<Gamma> (from_user_id t) (t_asset t) (t_amount t) db) = Inr db1"
      and save: "save_transfer \<Gamma> t new db1 = Inr db'" and new: "t_status new = FAILED"
      by (auto simp: fail_transfer_def bindr_eq_Inr Let_def)
    have "ledger_frame db db1"
    proof (cases "t_status t = CONFIRMED")
      case True
      with first obtain n where "post_entries \<Gamma> (t_asset t) (reversal_postings t) db = Inr (db1, n)" by (auto simp: bindr_eq_Inr)
      then show ?thesis using post_all_ok [OF ok(1)] by (auto simp: post_entries_def)
    next
      case False
      with first show ?thesis using release_hold_spec(2) [OF ok(1)] by simp
    qed
    then have tr: "transfers db1 = transfers db" by (simp add: ledger_frame_sel)
    have "status_rank (t_status t) \<le> 4" by (cases "t_status t") simp_all
    then have "transfers_upd db1 db'" using new load_for_update_eq [OF row] tr by (intro save_transfer_upd [OF save]) simp_all
    then have le: "transfers_upd db db'" by (rule transfers_upd_cong) (simp add: tr)
    show ?thesis
    proof (cases "t_status t = CONFIRMED")
      case True
      from fail_settled_spec(2-4) [OF ok run row True] le show ?thesis by simp
    next
      case False
      from fail_open_spec(2-4) [OF ok run row open_cases [OF False t(2)]] le show ?thesis by simp
    qed
  qed
qed

lemma ledger_core_frame: "ledger_frame db db' \<Longrightarrow> core_frame db db'"
  by (simp add: ledger_frame_def core_frame_def)

lemma handle_event_keeps:
  assumes ok: "ledger_ok db" "transfers_ok db" and run: "handle_event \<Gamma> ev db = Inr (db', out)"
  shows "ledger_ok db' \<and> transfers_ok db' \<and> core_frame db db' \<and> transfers_upd db db'"
proof -
  consider "db' = db" | "credit_deposit \<Gamma> (e_payload ev) db = Inr (db', out)" | "reverse_deposit \<Gamma> (e_payload ev) db = Inr (db', out)"
    | "mark_broadcasted \<Gamma> (e_payload ev) db = Inr (db', out)" | "settle_transfer \<Gamma> (e_payload ev) db = Inr (db', out)"
    | "fail_transfer \<Gamma> (e_payload ev) db = Inr (db', out)"
    using run by (auto simp: handle_event_def split: if_splits)
  then show ?thesis
  proof cases
    case 1 then show ?thesis using ok by simp
  next
    case 2
    from credit_deposit_keeps [OF ok this] show ?thesis by (auto simp: ledger_core_frame ledger_frame_sel)
  next
    case 3
    from reverse_deposit_keeps [OF ok this] show ?thesis by (auto simp: ledger_core_frame ledger_frame_sel)
  next
    case 4 then show ?thesis by (rule mark_broadcasted_keeps [OF ok])
  next
    case 5 then show ?thesis by (rule settle_transfer_keeps [OF ok])
  next
    case 6 then show ?thesis by (rule fail_transfer_keeps [OF ok])
  qed
qed

lemma dispatch_cases:
  assumes "dispatch \<Gamma> ev db = Inr (db', out)"
  obtains (dup) u where "uuid_of_string (event_id ev) = Some u" "row_of pe_key (CONSUMER_NAME, u) (processed db) \<noteq> None"
      "db' = db" "out = ''duplicate''"
  | (new) u p where "uuid_of_string (event_id ev) = Some u" "row_of pe_key (CONSUMER_NAME, u) (processed db) = None"
      "pe_key p = (CONSUMER_NAME, u)"
      "handle_event (correlation_scope (Some (e_correlation_id ev)) \<Gamma>) ev (db\<lparr>processed := processed db @ [p]\<rparr>) = Inr (db', out)"
proof -
  from assms obtain u where u: "uuid_of_string (event_id ev) = Some u" by (auto simp: dispatch_def split: option.splits)
  with assms obtain ty where ty: "varchar 64 ''processed_events.event_type'' (event_type ev) = Inr ty"
    by (auto simp: dispatch_def bindr_eq_Inr)
  let ?p = "\<lparr>pe_consumer = CONSUMER_NAME, pe_event_id = u, pe_event_type = ty, processed_at = now \<Gamma>\<rparr>"
  have key: "pe_key ?p = (CONSUMER_NAME, u)" by (simp add: pe_key_def)
  show thesis
  proof (cases "row_of pe_key (CONSUMER_NAME, u) (processed db) = None")
    case True
    with assms u ty have "handle_event (correlation_scope (Some (e_correlation_id ev)) \<Gamma>) ev (db\<lparr>processed := processed db @ [?p]\<rparr>) = Inr (db', out)"
      by (simp add: dispatch_def)
    then show thesis using new [OF u True key] by blast
  next
    case False
    with assms u ty have "db' = db" "out = ''duplicate''" by (auto simp: dispatch_def)
    with u False show thesis by (rule dup)
  qed
qed

lemma processed_invisible:
  "ledger_ok (db\<lparr>processed := x\<rparr>) = ledger_ok db" "transfers_ok (db\<lparr>processed := x\<rparr>) = transfers_ok db"
  by (rule ledger_ok_cong, simp_all) (rule transfers_ok_cong, simp_all)

text \<open>What a successful dispatch keeps and what it records.\<close>

definition seen_events :: "wdb \<Rightarrow> uuid set" where
  "seen_events db = {u. row_of pe_key (CONSUMER_NAME, u) (processed db) \<noteq> None}"

lemma dispatch_keeps:
  assumes ok: "ledger_ok db" "transfers_ok db" and run: "dispatch \<Gamma> ev db = Inr (db', out)"
  shows "ledger_ok db'" and "transfers_ok db'" and "transfers_upd db db'" and "users db' = users db"
    and "user_seq db' = user_seq db" and "wallets db' = wallets db" and "idem_keys db' = idem_keys db" and "w_outbox db' = w_outbox db"
    and "uniq pe_key (processed db) \<Longrightarrow> uniq pe_key (processed db')"
proof -
  have "ledger_ok db' \<and> transfers_ok db' \<and> transfers_upd db db' \<and> users db' = users db \<and> user_seq db' = user_seq db \<and>
    wallets db' = wallets db \<and> idem_keys db' = idem_keys db \<and> w_outbox db' = w_outbox db \<and>
    (uniq pe_key (processed db) \<longrightarrow> uniq pe_key (processed db'))"
    using run
  proof (cases rule: dispatch_cases)
    case (dup u)
    then show ?thesis using ok by simp
  next
    case (new u p)
    let ?db = "db\<lparr>processed := processed db @ [p]\<rparr>"
    have ok': "ledger_ok ?db" "transfers_ok ?db" using ok by (simp_all add: processed_invisible)
    note H = handle_event_keeps [OF ok' new(4)]
    have "transfers_upd db db'" by (rule transfers_upd_cong [of ?db]) (use H in simp_all)
    moreover have "core_frame ?db db'" using H by blast
    note core_frame_sel [OF this]
    ultimately show ?thesis using H new(2,3) by (auto simp: uniq_snoc)
  qed
  then show "ledger_ok db'" "transfers_ok db'" "transfers_upd db db'" "users db' = users db" "user_seq db' = user_seq db"
    "wallets db' = wallets db" "idem_keys db' = idem_keys db" "w_outbox db' = w_outbox db"
    "uniq pe_key (processed db) \<Longrightarrow> uniq pe_key (processed db')"
    by blast+
qed

lemma dispatch_marks:
  assumes ok: "ledger_ok db" "transfers_ok db" and run: "dispatch \<Gamma> ev db = Inr (db', out)"
  shows "\<exists>u. uuid_of_string (event_id ev) = Some u \<and> seen_events db' = insert u (seen_events db)"
  using run
proof (cases rule: dispatch_cases)
  case (dup u)
  then show ?thesis by (intro exI [of _ u]) (auto simp: seen_events_def)
next
  case (new u p)
  let ?db = "db\<lparr>processed := processed db @ [p]\<rparr>"
  have ok': "ledger_ok ?db" "transfers_ok ?db" using ok by (simp_all add: processed_invisible)
  have "core_frame ?db db'" using handle_event_keeps [OF ok' new(4)] by blast
  then have "processed db' = processed db @ [p]" by (simp add: core_frame_sel)
  then show ?thesis using new by (intro exI [of _ u]) (auto simp: seen_events_def row_of_append split: option.splits)
qed

lemma dispatch_repeated:
  "\<lbrakk>uuid_of_string (event_id ev) = Some u; u \<in> seen_events db; length (event_type ev) \<le> 64\<rbrakk> \<Longrightarrow>
   dispatch \<Gamma> ev db = Inr (db, ''duplicate'')"
  by (simp add: dispatch_def seen_events_def)

interpretation wallet_dedup: dedup_consumer dispatch seen_events "\<lambda>db. ledger_ok db \<and> transfers_ok db"
  by unfold_locales (auto intro: dispatch_repeated dispatch_keeps(1,2) dispatch_marks)

section \<open>Progress of transfers\<close>

lemma advance_keeps:
  assumes ok: "transfers_ok db"
  shows "transfers_ok (fst (advance_transfers \<Gamma> db))" and "transfers_le db (fst (advance_transfers \<Gamma> db))"
proof -
  let ?f = "\<lambda>t. if t_status t = CREATED \<and> announced db t then t\<lparr>t_status := PROCESSING, t_updated_at := now \<Gamma>\<rparr> else t"
  let ?db = "fst (advance_transfers \<Gamma> db)"
  have db': "?db = db\<lparr>transfers := map ?f (transfers db)\<rparr>" by (simp add: advance_transfers_def Let_def)
  have f: "immut (?f t) = immut t" "is_open (?f t) = is_open t" "t_status t \<noteq> CREATED \<Longrightarrow> ?f t = t" for t
    by (simp_all add: immut_def is_open_def OPEN_def)
  note I = immut_sel [OF f(1)]
  have held: "held ?db k = held db k" for k
    unfolding held_def db' total_def
    by (simp add: filter_map comp_def f(2) I cong: filter_cong)
  have trail: "trail_ok ?db (?f t) = trail_ok db t" for t
  proof (cases "t_status t = CREATED")
    case True
    then have "is_open t" by (simp add: is_open_def OPEN_def)
    then show ?thesis unfolding trail_ok_def f(2) by (simp add: db' trail_def I)
  next
    case False
    then show ?thesis by (simp add: f(3) db' trail_ok_def trail_def)
  qed
  have uq: "uniq t_id (transfers ?db)" "uniq t_idempotency_key (transfers ?db)"
    using transfers_okD(1,2) [OF ok] by (simp_all add: uniq_def db' comp_def I)
  have same: "has_acct ?db = has_acct db" "acct_reserved ?db = acct_reserved db" "entries ?db = entries db"
    "transfer_net ?db = transfer_net db" "user_exists ?db = user_exists db"
    by (simp_all add: db' transfer_net_def user_exists_def fun_eq_iff)
  have rows: "0 < t_amount x \<and> from_user_id x \<noteq> to_user_id x \<and> length (t_asset x) \<le> 16 \<and>
      has_acct db (from_user_id x, t_asset x) \<and> trail_ok ?db x \<and> user_exists db (to_user_id x)" if "x \<in> set (transfers ?db)" for x
  proof -
    from that obtain t where t: "t \<in> set (transfers db)" "x = ?f t" by (auto simp: db')
    show ?thesis unfolding t(2) trail I using transfers_okD(3-7,11) [OF ok] t(1) by blast
  qed
  have refs: "\<exists>t\<in>set (transfers ?db). of_transfer t e" if e: "e \<in> set (entries db)" "reference_type e = TRANSFER_REF" for e
  proof -
    obtain t where t: "t \<in> set (transfers db)" "of_transfer t e" using transfers_okD(9) [OF ok e] by blast
    then have "?f t \<in> set (transfers ?db)" "of_transfer (?f t) e" by (auto simp only: db' I) simp
    then show ?thesis by blast
  qed
  show "transfers_ok ?db"
    unfolding transfers_ok_def same held using uq rows refs transfers_okD(8,10) [OF ok] by blast
  have row: "row_of t_id i (map ?f xs) = map_option ?f (row_of t_id i xs)" for i xs
    by (induction xs) (simp_all add: I(1))
  show "transfers_le db ?db"
    unfolding transfers_le_def db' by (auto simp: row f(1) simp del: if_split)
qed

end
