(* ===== verification/Idempotency.thy ===== *)
theory Idempotency
  imports WalletDb "HOL-Library.Char_ord" "HOL-Library.List_Lexorder"
begin

text \<open>
  \<open>wallet_service/services/idempotency.py\<close>: the request fingerprint and the claim and
  completion of an idempotency key. The SHA-256 digest is a parameter; the canonical JSON
  text it is applied to is modelled.
\<close>

section \<open>Canonical JSON\<close>

text \<open>
  \<open>json.dumps\<close> with sorted keys, compact separators and ASCII output, on flat objects. A
  character outside the printable ASCII range is written as its short escape or as a
  four-digit code.
\<close>

definition json_char :: "char \<Rightarrow> string" where
  "json_char c =
     (if c = CHR 0x22 then [CHR 0x5C, CHR 0x22]
      else if c = CHR 0x5C then [CHR 0x5C, CHR 0x5C]
      else if c = CHR 0x0A then [CHR 0x5C, CHR ''n'']
      else if c = CHR 0x0D then [CHR 0x5C, CHR ''r'']
      else if c = CHR 0x09 then [CHR 0x5C, CHR ''t'']
      else if c = CHR 0x0C then [CHR 0x5C, CHR ''f'']
      else if c = CHR 0x08 then [CHR 0x5C, CHR ''b'']
      else let n = of_char c :: nat in
        if 32 \<le> n \<and> n \<le> 126 then [c]
        else [CHR 0x5C, CHR ''u'', CHR ''0'', CHR ''0'', digit_char (n div 16), digit_char (n mod 16)])"

definition json_str :: "string \<Rightarrow> string" where
  "json_str s = [CHR 0x22] @ concat (map json_char s) @ [CHR 0x22]"

fun json_val :: "jval \<Rightarrow> string" where
  "json_val JNull = ''null''"
| "json_val (JBool b) = (if b then ''true'' else ''false'')"
| "json_val (JInt i) = py_str i"
| "json_val (JStr s) = json_str s"

definition canonical_json :: "payload \<Rightarrow> string" where
  "canonical_json p =
     ''{'' @ join_with '','' (map (\<lambda>(k, v). json_str k @ '':'' @ json_val v) (sort_key fst p)) @ ''}''"

definition fingerprint :: "(string \<Rightarrow> string) \<Rightarrow> payload \<Rightarrow> string" where
  "fingerprint sha256_hex p = sha256_hex (canonical_json p)"

section \<open>Keys\<close>

definition PLACEHOLDER_STATUS :: int where "PLACEHOLDER_STATUS = 0"

definition in_progress :: exn where
  "in_progress = app_exn IdempotencyInProgressError ''This idempotency key is being processed. Retry in a moment.'' []"

text \<open>\<open>claim\<close>: \<open>None\<close> means that the caller owns the key and must do the work.\<close>

definition claim :: "env \<Rightarrow> string \<Rightarrow> string \<Rightarrow> string \<Rightarrow> wdb \<Rightarrow> (wdb \<times> idempotency_key option) result" where
  "claim \<Gamma> scope key hash db =
     bindr (varchar 64 ''idempotency_keys.scope'' scope) (\<lambda>scope'.
     bindr (varchar 128 ''idempotency_keys.key'' key) (\<lambda>key'.
     bindr (varchar 64 ''idempotency_keys.request_hash'' hash) (\<lambda>hash'.
       if row_of idem_key (scope', key') (idem_keys db) = None
       then Inr (db\<lparr>idem_keys := idem_keys db @
              [\<lparr>i_scope = scope', i_key = key', request_hash = hash', response_status = PLACEHOLDER_STATUS,
                response_body = [], resource_id = None, i_created_at = now \<Gamma>\<rparr>]\<rparr>, None)
       else case row_of idem_key (scope, key) (idem_keys db) of
              None \<Rightarrow> Inl in_progress
            | Some existing \<Rightarrow>
                if request_hash existing \<noteq> hash
                then Inl (app_exn IdempotencyConflictError ''This idempotency key was already used with a different request body.'' [])
                else if response_status existing = PLACEHOLDER_STATUS then Inl in_progress
                else Inr (db, Some existing))))"

definition complete :: "string \<Rightarrow> string \<Rightarrow> int \<Rightarrow> payload \<Rightarrow> string option \<Rightarrow> wdb \<Rightarrow> wdb result" where
  "complete scope key status body resource db =
     bindr (int4 ''idempotency_keys.response_status'' status) (\<lambda>_.
     bindr (varchar_opt 64 ''idempotency_keys.resource_id'' resource) (\<lambda>resource'.
       Inr (db\<lparr>idem_keys := upd_of idem_key (scope, key)
              (\<lambda>r. r\<lparr>response_status := status, response_body := body, resource_id := resource'\<rparr>) (idem_keys db)\<rparr>)))"

section \<open>The canonical text determines the request\<close>

text \<open>A decoder of one JSON character, to show that the encoding is prefix free.\<close>

fun unjson_char :: "string \<Rightarrow> (char \<times> string) option" where
  "unjson_char (x # y # r) =
     (if x \<noteq> CHR 0x5C then Some (x, y # r)
      else if y = CHR ''u'' then
        (case r of _ # _ # h # l # r' \<Rightarrow>
           (case (char_digit h, char_digit l) of (Some a, Some b) \<Rightarrow> Some (char_of (16 * a + b), r') | _ \<Rightarrow> None)
         | _ \<Rightarrow> None)
      else Some (if y = CHR ''n'' then CHR 0x0A else if y = CHR ''r'' then CHR 0x0D else if y = CHR ''t'' then CHR 0x09
        else if y = CHR ''f'' then CHR 0x0C else if y = CHR ''b'' then CHR 0x08 else y, r))"
| "unjson_char [x] = Some (x, [])"
| "unjson_char [] = None"

lemma unjson_char_json_char: "r \<noteq> [] \<Longrightarrow> unjson_char (json_char c @ r) = Some (c, r)"
proof (cases "c \<in> {CHR 0x22, CHR 0x5C, CHR 0x0A, CHR 0x0D, CHR 0x09, CHR 0x0C, CHR 0x08}")
  case True
  then show ?thesis by (auto simp: json_char_def)
next
  case False
  assume r: "r \<noteq> []"
  let ?n = "of_char c :: nat"
  have n: "?n div 16 < 16" "?n mod 16 < 16" "16 * (?n div 16) + ?n mod 16 = ?n"
    using nat_of_char_less_256 [of c] by (simp_all add: div_less_iff_less_mult)
  show ?thesis
  proof (cases "32 \<le> ?n \<and> ?n \<le> 126")
    case True
    with False r show ?thesis by (cases r) (auto simp: json_char_def)
  next
    case False2: False
    have "char_of (16 * (?n div 16) + ?n mod 16) = c" unfolding n(3) by simp
    with False False2 n show ?thesis by (auto simp: json_char_def Let_def)
  qed
qed

lemma json_char_hd: "\<exists>x xs. json_char c = x # xs \<and> x \<noteq> CHR 0x22"
  by (simp add: json_char_def Let_def)

lemma json_str_prefix: "json_str a @ x = json_str b @ y \<longleftrightarrow> a = b \<and> x = y"
proof -
  let ?q = "CHR 0x22"
  have "concat (map json_char a) @ ?q # x = concat (map json_char b) @ ?q # y \<Longrightarrow> a = b \<and> x = y"
  proof (induction a arbitrary: b)
    case Nil
    show ?case
    proof (cases b)
      case Nil
      with Nil.prems show ?thesis by simp
    next
      case (Cons d b')
      obtain z zs where "json_char d = z # zs" "z \<noteq> ?q" using json_char_hd by blast
      with Nil.prems Cons show ?thesis by simp
    qed
  next
    case (Cons c a)
    show ?case
    proof (cases b)
      case Nil
      with Cons.prems json_char_hd [of c] show ?thesis by fastforce
    next
      case b: (Cons d b')
      let ?r = "concat (map json_char a) @ ?q # x" and ?r' = "concat (map json_char b') @ ?q # y"
      from Cons.prems b have "unjson_char (json_char c @ ?r) = unjson_char (json_char d @ ?r')" by simp
      then have "c = d" "?r = ?r'" by (simp_all add: unjson_char_json_char)
      with Cons.IH b show ?thesis by blast
    qed
  qed
  then show ?thesis by (auto simp: json_str_def)
qed

lemma py_str_chars: "c \<in> set (py_str i) \<Longrightarrow> c \<noteq> CHR '','' \<and> c \<noteq> CHR ''}''"
proof -
  have "c \<noteq> CHR '','' \<and> c \<noteq> CHR ''}''" if "c \<in> set (py_str_nat n)" for n
  proof -
    from that obtain d where "c = digit_char d" "d < 10"
      by (auto simp: py_str_nat_def dest: nat_digits_lt [rotated])
    then show ?thesis using digit_char_neq [of d "CHR '',''"] by auto
  qed
  then show "c \<in> set (py_str i) \<Longrightarrow> c \<noteq> CHR '','' \<and> c \<noteq> CHR ''}''" by (auto simp: py_str_def split: if_splits)
qed

lemma py_str_prefix:
  assumes "s \<in> {CHR '','', CHR ''}''}"
  shows "py_str i @ s # x = py_str j @ s # y \<longleftrightarrow> i = j \<and> x = y"
proof
  assume eq: "py_str i @ s # x = py_str j @ s # y"
  have "takeWhile (\<lambda>c. c \<noteq> s) (py_str k @ s # z) = py_str k" for k z
    using assms py_str_chars by (subst takeWhile_append2) auto
  then have "py_str i = py_str j" using eq by metis
  with eq show "i = j \<and> x = y" by (simp add: py_str_inj)
qed simp

text \<open>The fields of a transfer request that enter its fingerprint.\<close>

definition transfer_fields :: "int \<Rightarrow> int \<Rightarrow> string \<Rightarrow> string \<Rightarrow> int \<Rightarrow> payload" where
  "transfer_fields fu tu a network units =
     [(''from_user_id'', JInt fu), (''to_user_id'', JInt tu), (''asset'', JStr a), (''network'', JStr network),
      (''amount_units'', JStr (py_str units))]"

lemma canonical_transfer:
  "canonical_json (transfer_fields fu tu a network units) =
     ''{'' @ json_str ''amount_units'' @ '':'' @ json_str (py_str units) @ '','' @ json_str ''asset'' @ '':'' @ json_str a @
     '','' @ json_str ''from_user_id'' @ '':'' @ py_str fu @ '','' @ json_str ''network'' @ '':'' @ json_str network @
     '','' @ json_str ''to_user_id'' @ '':'' @ py_str tu @ ''}''"
  by (simp add: canonical_json_def transfer_fields_def less_char_def)

lemma canonical_transfer_inj:
  "canonical_json (transfer_fields fu tu a network units) = canonical_json (transfer_fields fu' tu' a' network' units')
   \<longleftrightarrow> fu = fu' \<and> tu = tu' \<and> a = a' \<and> network = network' \<and> units = units'"
  by (simp add: canonical_transfer json_str_prefix py_str_prefix py_str_inj) blast

text \<open>
  The fingerprint identifies a transfer request: two requests have the same
  fingerprint exactly when they name the same sender, recipient, asset, network and amount,
  provided the digest does not collide on their two canonical texts.
\<close>

lemma fingerprint_faithful:
  assumes "sha (canonical_json (transfer_fields fu tu a network units)) =
      sha (canonical_json (transfer_fields fu' tu' a' network' units')) \<Longrightarrow>
    canonical_json (transfer_fields fu tu a network units) = canonical_json (transfer_fields fu' tu' a' network' units')"
  shows "fingerprint sha (transfer_fields fu tu a network units) = fingerprint sha (transfer_fields fu' tu' a' network' units')
    \<longleftrightarrow> fu = fu' \<and> tu = tu' \<and> a = a' \<and> network = network' \<and> units = units'"
  using assms canonical_transfer_inj unfolding fingerprint_def by metis

section \<open>Claiming and completing\<close>

lemma claim_fresh:
  assumes "claim \<Gamma> scope key hash db = Inr (db', None)" "length scope \<le> 64" "length key \<le> 128" "length hash \<le> 64"
  shows "row_of idem_key (scope, key) (idem_keys db) = None" and "\<exists>r. db' = db\<lparr>idem_keys := idem_keys db @ [r]\<rparr> \<and>
     idem_key r = (scope, key) \<and> request_hash r = hash"
  using assms by (auto simp: claim_def idem_key_def split: option.splits if_splits)

lemma claim_again:
  assumes "row_of idem_key (scope, key) (idem_keys db) = Some r" and "response_status r \<noteq> PLACEHOLDER_STATUS"
    and "length scope \<le> 64" "length key \<le> 128" "length hash \<le> 64"
  shows "claim \<Gamma> scope key hash db = (if request_hash r = hash then Inr (db, Some r)
    else Inl (app_exn IdempotencyConflictError ''This idempotency key was already used with a different request body.'' []))"
  using assms by (simp add: claim_def)

lemma claim_cases:
  assumes "claim \<Gamma> scope key hash db = Inr (db', r)"
  obtains (replay) i where "r = Some i" "db' = db"
  | (owned) row where "r = None" "db' = db\<lparr>idem_keys := idem_keys db @ [row]\<rparr>" "row_of idem_key (idem_key row) (idem_keys db) = None"
proof -
  from assms obtain scope' key' hash' where
    c: "varchar 64 ''idempotency_keys.scope'' scope = Inr scope'" "varchar 128 ''idempotency_keys.key'' key = Inr key'"
      "varchar 64 ''idempotency_keys.request_hash'' hash = Inr hash'"
    unfolding claim_def bindr_eq_Inr by blast
  show thesis
  proof (cases "row_of idem_key (scope', key') (idem_keys db) = None")
    case True
    let ?row = "\<lparr>i_scope = scope', i_key = key', request_hash = hash', response_status = PLACEHOLDER_STATUS,
          response_body = [], resource_id = None, i_created_at = now \<Gamma>\<rparr>"
    have key: "idem_key ?row = (scope', key')" by (simp add: idem_key_def)
    have "row_of idem_key (idem_key ?row) (idem_keys db) = None" unfolding key by (rule True)
    moreover from assms c True have "r = None" "db' = db\<lparr>idem_keys := idem_keys db @ [?row]\<rparr>"
      by (simp_all add: claim_def)
    ultimately show thesis by (intro owned)
  next
    case False
    from assms c False obtain i where "row_of idem_key (scope, key) (idem_keys db) = Some i"
      by (auto simp: claim_def split: option.splits)
    with assms c False have "r = Some i" "db' = db" by (auto simp: claim_def split: if_splits)
    then show thesis by (rule replay)
  qed
qed

end
