(* ===== verification/Http.thy ===== *)
theory Http
  imports Events
begin

text \<open>
  \<open>mcw_common/http.py\<close>: the correlation middleware with the exception handlers around it,
  API key authentication and the readiness probe. The handlers for application and
  validation errors run inside the middleware; the handler for any other exception is the
  framework's outermost one, so it runs after the middleware has reset the context.
\<close>

section \<open>Validation and replies\<close>

text \<open>A request that violates the constraints of its schema is refused with every violation; a reply is a status and a body.\<close>

definition body_error :: "string \<Rightarrow> string \<Rightarrow> string \<Rightarrow> string list \<times> string \<times> string" where
  "body_error field msg ty = ([''body'', field], msg, ty)"

definition query_error :: "string \<Rightarrow> string \<Rightarrow> string \<Rightarrow> string list \<times> string \<times> string" where
  "query_error field msg ty = ([''query'', field], msg, ty)"

definition validate :: "(string list \<times> string \<times> string) list \<Rightarrow> unit result" where
  "validate errs = (if errs = [] then Inr () else Inl (RequestValidationError errs))"

record api_reply =
  r_status :: int
  r_replay :: bool
  r_body :: payload

definition plain_reply :: "int \<Rightarrow> payload \<Rightarrow> api_reply" where
  "plain_reply status body = \<lparr>r_status = status, r_replay = False, r_body = body\<rparr>"

text \<open>\<open>value or default\<close> on an optional text.\<close>

definition or_default :: "string option \<Rightarrow> string \<Rightarrow> string" where
  "or_default v d = (case v of None \<Rightarrow> d | Some s \<Rightarrow> if s = [] then d else s)"

definition jopt :: "string option \<Rightarrow> jval" where
  "jopt v = (case v of None \<Rightarrow> JNull | Some s \<Rightarrow> JStr s)"

definition jtime :: "int option \<Rightarrow> jval" where
  "jtime v = (case v of None \<Rightarrow> JNull | Some s \<Rightarrow> JInt s)"

fun all_results :: "('a \<Rightarrow> 'b result) \<Rightarrow> 'a list \<Rightarrow> 'b list result" where
  "all_results f [] = Inr []"
| "all_results f (x # xs) = bindr (f x) (\<lambda>y. bindr (all_results f xs) (\<lambda>ys. Inr (y # ys)))"

section \<open>Correlation and error responses\<close>

definition CORRELATION_HEADER :: string where "CORRELATION_HEADER = ''X-Correlation-ID''"

text \<open>\<open>headers.get(CORRELATION_HEADER) or headers.get("X-Request-ID")\<close>, or a new id.\<close>

definition request_correlation :: "env \<Rightarrow> string option \<Rightarrow> string option \<Rightarrow> string" where
  "request_correlation \<Gamma> correlation_header request_id_header =
     first_nonempty [correlation_header, request_id_header] (minted_cid \<Gamma>)"

datatype 'a reply = Answer 'a | Problem problem_doc

fun handled_inside :: "exn \<Rightarrow> bool" where
  "handled_inside (App k d es) = True"
| "handled_inside (RequestValidationError es) = True"
| "handled_inside _ = False"

text \<open>
  \<open>CorrelationMiddleware.dispatch\<close> around an endpoint: the reply and the correlation header
  of the response, if it has one.
\<close>

definition serve :: "(env \<Rightarrow> 'a result) \<Rightarrow> env \<Rightarrow> string option \<Rightarrow> string option \<Rightarrow> 'a reply \<times> string option" where
  "serve endpoint \<Gamma> correlation_header request_id_header =
     (let c = request_correlation \<Gamma> correlation_header request_id_header in
      case endpoint (\<Gamma>\<lparr>cid := Some c\<rparr>) of
        Inr x \<Rightarrow> (Answer x, Some c)
      | Inl e \<Rightarrow>
          if handled_inside e then (Problem (error_response (Some c) e), Some c)
          else (Problem (error_response (get_correlation_id \<Gamma>) e), None))"

section \<open>Authentication\<close>

text \<open>\<open>hmac.compare_digest\<close> on two strings: only ASCII text can be compared.\<close>

definition is_ascii :: "string \<Rightarrow> bool" where
  "is_ascii s = list_all (\<lambda>c. (of_char c :: nat) < 128) s"

definition compare_digest :: "string \<Rightarrow> string \<Rightarrow> bool result" where
  "compare_digest a b = (if is_ascii a \<and> is_ascii b then Inr (a = b)
     else Inl (TypeError ''comparing strings with non-ASCII characters is not supported''))"

fun any_key :: "string \<Rightarrow> string list \<Rightarrow> bool result" where
  "any_key presented [] = Inr False"
| "any_key presented (k # ks) =
     bindr (compare_digest presented k) (\<lambda>eq. if eq then Inr True else any_key presented ks)"

definition authenticate :: "string list \<Rightarrow> string \<Rightarrow> bool \<Rightarrow> string option \<Rightarrow> string option \<Rightarrow> string result" where
  "authenticate keys header enabled presented authorization =
     (if \<not> enabled then Inr ''auth-disabled'' else
      let valid_keys = filter (\<lambda>k. k \<noteq> []) keys;
          auth = (case authorization of None \<Rightarrow> [] | Some v \<Rightarrow> v);
          given = (case presented of Some v \<Rightarrow> if v = [] then None else Some v | None \<Rightarrow> None);
          cred = (case given of
                    Some v \<Rightarrow> v
                  | None \<Rightarrow> if take 7 (py_lower auth) = ''bearer '' then drop 7 auth else [])
      in bindr (if cred = [] then Inr False else any_key cred valid_keys) (\<lambda>ok.
           if ok then Inr ''authenticated''
           else Inl (app_exn UnauthorizedError (''A valid '' @ header @ '' header is required.'') [])))"

section \<open>Readiness\<close>

fun ready_results :: "(string \<times> bool result) list \<Rightarrow> (string \<times> string) list \<times> bool" where
  "ready_results [] = ([], True)"
| "ready_results ((name, check) # rest) =
     (let ok = (case check of Inl _ \<Rightarrow> False | Inr b \<Rightarrow> b) in
      case ready_results rest of (results, healthy) \<Rightarrow>
        ((name, if ok then ''up'' else ''down'') # results, ok \<and> healthy))"

definition ready :: "(string \<times> bool result) list \<Rightarrow> nat \<times> string \<times> (string \<times> string) list" where
  "ready checks = (case ready_results checks of (results, healthy) \<Rightarrow>
     (if healthy then 200 else 503, if healthy then ''ready'' else ''degraded'', results))"

section \<open>Properties\<close>

lemma any_key_eq: "any_key p ks = Inr b \<Longrightarrow> b = (p \<in> set ks)"
  by (induction ks) (auto simp: compare_digest_def bindr_eq_Inr split: if_splits)

lemma any_key_ascii: "is_ascii p \<Longrightarrow> list_all is_ascii ks \<Longrightarrow> any_key p ks = Inr (p \<in> set ks)"
  by (induction ks) (auto simp: compare_digest_def)

text \<open>
  Only a configured key authenticates: with authentication on, a request is let
  through exactly when the key header, or without one the bearer token, is a non-empty
  configured key; otherwise it is answered with 401. A credential that is not ASCII is
  never let through, but ends in an internal error instead of a 401.
\<close>

lemma authenticate_sound:
  assumes "list_all is_ascii keys"
  shows "authenticate keys header True (Some cred) authorization =
    (if cred = [] then authenticate keys header True None authorization
     else if \<not> is_ascii cred \<and> list_ex (\<lambda>k. k \<noteq> []) keys
     then Inl (TypeError ''comparing strings with non-ASCII characters is not supported'')
     else if cred \<in> set keys then Inr ''authenticated''
     else Inl (app_exn UnauthorizedError (''A valid '' @ header @ '' header is required.'') []))
   \<and> authenticate keys header True None (Some (''Bearer '' @ cred)) = authenticate keys header True (Some cred) None"
proof -
  let ?ks = "filter (\<lambda>k. k \<noteq> []) keys"
  have ks: "list_all is_ascii ?ks" using assms by (auto simp: list_all_iff)
  have bearer: "py_lower (''Bearer '' @ cred) = ''bearer '' @ py_lower cred"
  proof -
    have "py_lower ''Bearer '' = ''bearer ''" by code_simp
    then show ?thesis by (simp add: py_lower_def)
  qed
  have bad: "any_key cred ?ks = Inl (TypeError ''comparing strings with non-ASCII characters is not supported'')"
    if "\<not> is_ascii cred" "list_ex (\<lambda>k. k \<noteq> []) keys"
    using that by (cases ?ks) (auto simp: compare_digest_def list_ex_iff filter_empty_conv)
  have none: "\<not> is_ascii cred \<Longrightarrow> cred \<notin> set keys" using assms by (auto simp: list_all_iff)
  have empty: "\<not> list_ex (\<lambda>k. k \<noteq> []) keys \<Longrightarrow> ?ks = []" by (auto simp: list_ex_iff filter_empty_conv)
  have mem: "cred \<noteq> [] \<Longrightarrow> cred \<in> set ?ks \<longleftrightarrow> cred \<in> set keys" by auto
  have "authenticate keys header True (Some cred) authorization =
    (if cred = [] then authenticate keys header True None authorization
     else if \<not> is_ascii cred \<and> list_ex (\<lambda>k. k \<noteq> []) keys
     then Inl (TypeError ''comparing strings with non-ASCII characters is not supported'')
     else if cred \<in> set keys then Inr ''authenticated''
     else Inl (app_exn UnauthorizedError (''A valid '' @ header @ '' header is required.'') []))"
    using bad none empty any_key_ascii [OF _ ks, of cred] mem
    by (cases "cred = []"; cases "is_ascii cred") (auto simp: authenticate_def Let_def)
  moreover have "authenticate keys header True None (Some (''Bearer '' @ cred)) = authenticate keys header True (Some cred) None"
    using bearer by (simp add: authenticate_def Let_def py_lower_def)
  ultimately show ?thesis by blast
qed

text \<open>
  The header and the body of a response agree on the correlation id. It is the
  inbound one, or else the minted one, whenever the request succeeds or fails with an
  application or validation error. An unexpected exception is answered without any
  correlation id, although the text of that response says that the correlation id
  identifies the request.
\<close>

lemma correlation_of_response:
  assumes outside: "cid \<Gamma> = None" and served: "serve endpoint \<Gamma> h r = (reply, c)"
  shows "(\<forall>d. reply = Problem d \<longrightarrow> p_correlation_id d = c) \<and>
     (c = None \<or> c = Some (first_nonempty [h, r] (minted_cid \<Gamma>))) \<and>
     (c = None \<longleftrightarrow> (\<exists>e. endpoint (\<Gamma>\<lparr>cid := Some (first_nonempty [h, r] (minted_cid \<Gamma>))\<rparr>) = Inl e \<and> \<not> handled_inside e)) \<and>
     (c = None \<longrightarrow> (\<exists>d. reply = Problem d \<and> p_status d = 500 \<and>
        p_detail d = ''An unexpected error occurred. The correlation id identifies this request.''))"
proof -
  have unexpected: "p_status (error_response None e) = 500 \<and>
      p_detail (error_response None e) = ''An unexpected error occurred. The correlation id identifies this request.''"
    if "\<not> handled_inside e" for e
    using that by (cases e) (simp_all add: error_response_def problem_def)
  have corr: "p_correlation_id (error_response k e) = k" for k e
    by (cases e) (simp_all add: error_response_def problem_def)
  from served outside unexpected corr show ?thesis
    by (auto simp: serve_def request_correlation_def Let_def get_correlation_id_def split: sum.splits if_splits)
qed

end
