(* ===== verification/WalletApi.thy ===== *)
theory WalletApi
  imports WalletDispatch Idempotency Http
begin

text \<open>
  \<open>wallet_service/api/routes.py\<close> and \<open>schemas.py\<close>: request validation, the endpoints and
  their responses. Response models are payloads in the order of their fields, times as
  seconds. The e-mail validator and the blockchain-service client are parameters.
\<close>

definition TRANSFER_SCOPE :: string where "TRANSFER_SCOPE = ''transfers''"

record wallet_settings =
  default_network :: string
  default_asset :: string

section \<open>Schemas\<close>

primrec status_name :: "transfer_status \<Rightarrow> string" where
  "status_name CREATED = ''CREATED''"
| "status_name PROCESSING = ''PROCESSING''"
| "status_name BROADCASTED = ''BROADCASTED''"
| "status_name CONFIRMED = ''CONFIRMED''"
| "status_name FAILED = ''FAILED''"

primrec entry_name :: "entry_type \<Rightarrow> string" where
  "entry_name DEPOSIT = ''DEPOSIT''"
| "entry_name TRANSFER_DEBIT = ''TRANSFER_DEBIT''"
| "entry_name TRANSFER_CREDIT = ''TRANSFER_CREDIT''"
| "entry_name FEE = ''FEE''"
| "entry_name REVERSAL = ''REVERSAL''"

definition user_response :: "user \<Rightarrow> payload" where
  "user_response u = [(''id'', JInt (u_id u)), (''name'', JStr (u_name u)), (''email'', JStr (u_email u)),
     (''status'', JStr (u_status u)), (''created_at'', JInt (u_created_at u))]"

definition wallet_response :: "wallet \<Rightarrow> payload" where
  "wallet_response w = [(''id'', JStr (uuid_str (w_id w))), (''user_id'', JInt (w_user_id w)), (''network'', JStr (w_network w)),
     (''asset'', JStr (w_asset w)), (''address'', JStr (w_address w)), (''status'', JStr (w_status w)),
     (''created_at'', JInt (w_created_at w))]"

definition transfer_response :: "transfer \<Rightarrow> payload result" where
  "transfer_response t =
     bindr (get_asset (t_asset t)) (\<lambda>a.
       Inr [(''id'', JStr (uuid_str (t_id t))), (''idempotency_key'', JStr (t_idempotency_key t)),
            (''from_user_id'', JInt (from_user_id t)), (''to_user_id'', JInt (to_user_id t)),
            (''asset'', JStr (t_asset t)), (''network'', JStr (t_network t)),
            (''amount'', JStr (format_amount (t_amount t) (decimals a))), (''status'', JStr (status_name (t_status t))),
            (''tx_hash'', jopt (t_tx_hash t)), (''failure_code'', jopt (failure_code t)),
            (''failure_reason'', jopt (failure_reason t)), (''correlation_id'', jopt (t_correlation_id t)),
            (''created_at'', JInt (t_created_at t)), (''updated_at'', JInt (t_updated_at t)),
            (''settled_at'', jtime (settled_at t))])"

record transfer_request =
  q_from_user_id :: int
  q_to_user_id :: int
  q_asset :: string
  q_amount :: string
  q_idempotency_key :: string
  q_network :: "string option"

text \<open>\<open>AMOUNT_PATTERN\<close>: one to thirty digits, optionally a dot and one to eighteen digits.\<close>

definition amount_pattern :: "string \<Rightarrow> bool" where
  "amount_pattern s =
     (let w = takeWhile is_digit s; r = dropWhile is_digit s in
      1 \<le> length w \<and> length w \<le> 30 \<and>
      (r = [] \<or> (take 1 r = ''.'' \<and> 2 \<le> length r \<and> length r \<le> 19 \<and> list_all is_digit (drop 1 r))))"

definition key_char :: "char \<Rightarrow> bool" where
  "key_char c = (let n = of_char c :: nat in
     65 \<le> n \<and> n \<le> 90 \<or> 97 \<le> n \<and> n \<le> 122 \<or> is_digit c \<or> c \<in> set ''._:-'')"

text \<open>\<open>float(value) == 0\<close> for a text of the amount pattern: no digit but zeros.\<close>

definition is_zero_text :: "string \<Rightarrow> bool" where
  "is_zero_text s = list_all (\<lambda>c. c = CHR ''0'' \<or> c = CHR ''.'') s"

text \<open>The field constraints of \<open>CreateTransferRequest\<close>; every violation is reported.\<close>

definition transfer_request_errors :: "transfer_request \<Rightarrow> (string list \<times> string \<times> string) list" where
  "transfer_request_errors q =
     (if q_from_user_id q < 1 then [body_error ''from_user_id'' ''Input should be greater than or equal to 1'' ''greater_than_equal''] else []) @
     (if q_to_user_id q < 1 then [body_error ''to_user_id'' ''Input should be greater than or equal to 1'' ''greater_than_equal''] else []) @
     (if 16 < length (q_asset q) then [body_error ''asset'' ''String should have at most 16 characters'' ''string_too_long''] else []) @
     (if \<not> amount_pattern (q_amount q) then [body_error ''amount'' ''String should match pattern'' ''string_pattern_mismatch'']
      else if is_zero_text (q_amount q) then [body_error ''amount'' ''Value error, amount must be greater than zero'' ''value_error''] else []) @
     (if length (q_idempotency_key q) < 4 then [body_error ''idempotency_key'' ''String should have at least 4 characters'' ''string_too_short'']
      else if 128 < length (q_idempotency_key q) then [body_error ''idempotency_key'' ''String should have at most 128 characters'' ''string_too_long'']
      else if \<not> list_all key_char (q_idempotency_key q) then [body_error ''idempotency_key'' ''String should match pattern'' ''string_pattern_mismatch''] else [])"

section \<open>Users and wallets\<close>

definition resolve_asset :: "string \<Rightarrow> asset result" where
  "resolve_asset s =
     (case get_asset s of
        Inr a \<Rightarrow> Inr a
      | Inl _ \<Rightarrow> Inl (app_exn ValidationError (''Asset '' @ quoted s @ '' is not supported.'')
          [[(''field'', JStr ''asset''), (''message'', JStr ''unsupported asset'')]]))"

text \<open>\<open>valid_email\<close> is the validator behind \<open>EmailStr\<close>: the normalised address, or none.\<close>

definition post_user :: "(string \<Rightarrow> string option) \<Rightarrow> env \<Rightarrow> string \<Rightarrow> string \<Rightarrow> wdb \<Rightarrow> (wdb \<times> api_reply) result" where
  "post_user valid_email \<Gamma> name email db =
     bindr (validate
       ((if name = [] then [body_error ''name'' ''String should have at least 1 character'' ''string_too_short'']
         else if 128 < length name then [body_error ''name'' ''String should have at most 128 characters'' ''string_too_long''] else []) @
        (if valid_email email = None then [body_error ''email'' ''value is not a valid email address'' ''value_error''] else []))) (\<lambda>_.
     bindr (create_user \<Gamma> name (case valid_email email of Some e \<Rightarrow> e) db) (\<lambda>(db', u).
       Inr (db', plain_reply 201 (user_response u))))"

definition read_user :: "int \<Rightarrow> wdb \<Rightarrow> api_reply result" where
  "read_user i db = bindr (get_user i db) (\<lambda>u. Inr (plain_reply 200 (user_response u)))"

text \<open>
  The endpoint that creates a wallet runs two transactions around the call to
  blockchain-service: a lookup, which may already answer, and the insert.
\<close>

definition lookup_wallet :: "wallet_settings \<Rightarrow> int \<Rightarrow> string option \<Rightarrow> string option \<Rightarrow> wdb \<Rightarrow> (asset \<times> wallet option) result" where
  "lookup_wallet S uid network asset db =
     bindr (resolve_asset (or_default asset (default_asset S))) (\<lambda>a.
     bindr (get_user uid db) (\<lambda>_.
       Inr (a, get_wallet uid (or_default network (default_network S)) (symbol a) db)))"

definition post_wallet :: "wallet_settings \<Rightarrow> (string \<Rightarrow> string \<Rightarrow> string result) \<Rightarrow> env \<Rightarrow> int \<Rightarrow> string option \<Rightarrow> string option \<Rightarrow>
    wdb \<Rightarrow> wdb \<Rightarrow> (wdb \<times> api_reply) result" where
  "post_wallet S issue \<Gamma> uid network asset db db1 =
     bindr (lookup_wallet S uid network asset db) (\<lambda>(a, existing).
       case existing of
         Some w \<Rightarrow> Inr (db1, plain_reply 200 (wallet_response w))
       | None \<Rightarrow>
           bindr (issue (''user:'' @ py_str uid) (or_default network (default_network S))) (\<lambda>address.
           bindr (attach_wallet \<Gamma> uid (or_default network (default_network S)) (symbol a) address db1) (\<lambda>(db2, w, created).
             Inr (db2, plain_reply (if created then 201 else 200) (wallet_response w)))))"

definition read_wallet :: "wallet_settings \<Rightarrow> int \<Rightarrow> string option \<Rightarrow> string option \<Rightarrow> wdb \<Rightarrow> api_reply result" where
  "read_wallet S uid network asset db =
     bindr (lookup_wallet S uid network asset db) (\<lambda>(a, w).
       case w of
         None \<Rightarrow> Inl (app_exn NotFoundError (''User '' @ py_str uid @ '' has no '' @ symbol a @ '' wallet on '' @
                  or_default network (default_network S) @ ''.'') [])
       | Some w \<Rightarrow> Inr (plain_reply 200 (wallet_response w)))"

definition get_balance :: "wallet_settings \<Rightarrow> int \<Rightarrow> string option \<Rightarrow> wdb \<Rightarrow> api_reply result" where
  "get_balance S uid asset db =
     bindr (resolve_asset (or_default asset (default_asset S))) (\<lambda>a.
     bindr (get_user uid db) (\<lambda>_.
       let b = read_balance uid (symbol a) db;
           p = (case b of None \<Rightarrow> 0 | Some b \<Rightarrow> posted b); r = (case b of None \<Rightarrow> 0 | Some b \<Rightarrow> reserved b) in
       Inr (plain_reply 200
         [(''user_id'', JInt uid), (''asset'', JStr (symbol a)), (''posted'', JStr (format_amount p (decimals a))),
          (''reserved'', JStr (format_amount r (decimals a))), (''available'', JStr (format_amount (p - r) (decimals a))),
          (''decimals'', JInt (int (decimals a))), (''updated_at'', jtime (map_option b_updated_at b))])))"

section \<open>Transfers\<close>

definition amount_units :: "string \<Rightarrow> asset \<Rightarrow> int result" where
  "amount_units s a =
     (case parse_amount (AmtText s) (decimals a) False of
        Inl (AmountError msg) \<Rightarrow> Inl (app_exn ValidationError msg [[(''field'', JStr ''amount''), (''message'', JStr msg)]])
      | r \<Rightarrow> r)"

text \<open>
  \<open>post_transfer\<close>: claim, validation, hold, transfer row, outbox event and stored response in
  one transaction.
\<close>

definition post_transfer :: "wallet_settings \<Rightarrow> (string \<Rightarrow> string) \<Rightarrow> env \<Rightarrow> transfer_request \<Rightarrow> wdb \<Rightarrow> (wdb \<times> api_reply) result" where
  "post_transfer S sha \<Gamma> q db =
     bindr (validate (transfer_request_errors q)) (\<lambda>_.
     bindr (resolve_asset (q_asset q)) (\<lambda>a.
     bindr (amount_units (q_amount q) a) (\<lambda>units.
     let network = or_default (q_network q) (default_network S);
         hash = fingerprint sha (transfer_fields (q_from_user_id q) (q_to_user_id q) (symbol a) network units) in
     bindr (claim \<Gamma> TRANSFER_SCOPE (q_idempotency_key q) hash db) (\<lambda>(db1, replay).
       case replay of
         Some i \<Rightarrow> Inr (db1, \<lparr>r_status = response_status i, r_replay = True, r_body = response_body i\<rparr>)
       | None \<Rightarrow>
           bindr (create_transfer \<Gamma> (q_from_user_id q) (q_to_user_id q) (symbol a) units (q_idempotency_key q) network db1) (\<lambda>(db2, t).
           bindr (transfer_response t) (\<lambda>body.
           bindr (complete TRANSFER_SCOPE (q_idempotency_key q) 202 body (Some (uuid_str (t_id t))) db2) (\<lambda>db3.
             Inr (db3, plain_reply 202 body))))))))"

definition get_transfer :: "string \<Rightarrow> wdb \<Rightarrow> api_reply result" where
  "get_transfer i db =
     (case uuid_of_string i of
        None \<Rightarrow> Inl (app_exn ValidationError ''transfer_id must be a UUID.'' [])
      | Some u \<Rightarrow>
          (case row_of t_id u (transfers db) of
             None \<Rightarrow> Inl (app_exn NotFoundError (''Transfer '' @ i @ '' does not exist.'') [])
           | Some t \<Rightarrow> bindr (transfer_response t) (\<lambda>body. Inr (plain_reply 200 body))))"

section \<open>History and reconciliation\<close>

record history =
  h_user_id :: int
  h_asset :: string
  h_items :: "payload list"
  h_pending :: "payload list"
  h_next_cursor :: "int option"

definition entry_response :: "asset \<Rightarrow> ledger_entry \<Rightarrow> payload" where
  "entry_response a e = [(''id'', JInt (l_id e)), (''entry_id'', JStr (uuid_str (entry_id e))), (''asset'', JStr (l_asset e)),
     (''amount'', JStr (format_amount (l_amount e) (decimals a))), (''entry_type'', JStr (entry_name (l_entry_type e))),
     (''reference_type'', JStr (reference_type e)), (''reference_id'', JStr (reference_id e)),
     (''correlation_id'', jopt (l_correlation_id e)), (''created_at'', JInt (l_created_at e))]"

text \<open>One page of the ledger query: newest first, below the cursor.\<close>

definition history_page :: "int \<Rightarrow> string \<Rightarrow> nat \<Rightarrow> int option \<Rightarrow> wdb \<Rightarrow> ledger_entry list" where
  "history_page uid a limit cursor db =
     take limit (rev (sort_key l_id (filter (\<lambda>e. l_user_id e = uid \<and> l_asset e = a \<and>
       (case cursor of None \<Rightarrow> True | Some c \<Rightarrow> l_id e < c)) (entries db))))"

definition next_cursor :: "nat \<Rightarrow> ledger_entry list \<Rightarrow> int option" where
  "next_cursor limit es = (if length es = limit then Some (l_id (last es)) else None)"

definition pending_transfers :: "int \<Rightarrow> wdb \<Rightarrow> transfer list" where
  "pending_transfers uid db =
     take 50 (sort_key (\<lambda>t. - t_created_at t) (filter (\<lambda>t. t_status t \<in> set OPEN \<and>
       (from_user_id t = uid \<or> to_user_id t = uid)) (transfers db)))"

definition get_transactions :: "wallet_settings \<Rightarrow> int \<Rightarrow> string option \<Rightarrow> int \<Rightarrow> int option \<Rightarrow> wdb \<Rightarrow> history result" where
  "get_transactions S uid asset limit cursor db =
     bindr (validate (if limit < 1 then [query_error ''limit'' ''Input should be greater than or equal to 1'' ''greater_than_equal'']
        else if 200 < limit then [query_error ''limit'' ''Input should be less than or equal to 200'' ''less_than_equal''] else [])) (\<lambda>_.
     bindr (resolve_asset (or_default asset (default_asset S))) (\<lambda>a.
     bindr (get_user uid db) (\<lambda>_.
     bindr (case cursor of None \<Rightarrow> Inr 0 | Some c \<Rightarrow> int8 ''ledger_entries.id'' c) (\<lambda>_.
     let es = history_page uid (symbol a) (nat limit) cursor db in
     bindr (all_results transfer_response (pending_transfers uid db)) (\<lambda>pending.
       Inr \<lparr>h_user_id = uid, h_asset = symbol a, h_items = map (entry_response a) es, h_pending = pending,
            h_next_cursor = next_cursor (nat limit) es\<rparr>)))))"

record reconciliation_report =
  checked :: nat
  inconsistent :: nat
  rec_rows :: "recon_row list"

definition reconciliation :: "wdb \<Rightarrow> reconciliation_report" where
  "reconciliation db =
     (let rows = reconcile db in
      \<lparr>checked = length rows, inconsistent = length (filter (\<lambda>r. \<not> consistent r) rows), rec_rows = rows\<rparr>)"

section \<open>Amounts\<close>

lemma amount_pattern_text:
  assumes "amount_pattern s"
  obtains w f where "s = amount_text w f" "list_all is_digit w" "list_all is_digit f" "w \<noteq> []" "length w \<le> 30" "length f \<le> 18"
proof -
  let ?w = "takeWhile is_digit s" and ?r = "dropWhile is_digit s"
  have "1 \<le> length ?w" "length ?w \<le> 30" using assms by (simp_all add: amount_pattern_def Let_def)
  then have w: "list_all is_digit ?w" "?w \<noteq> []" "length ?w \<le> 30" using set_takeWhileD [of _ is_digit s]
    by (auto simp: list_all_iff simp del: takeWhile_eq_Nil_iff)
  show thesis
  proof (cases "?r = []")
    case True
    have "s = ?w @ ?r" by (simp only: takeWhile_dropWhile_id)
    then have "s = amount_text ?w []" unfolding True amount_text_def by (simp only: simp_thms if_True)
    then show thesis using w by (intro that [of ?w "[]"]) simp_all
  next
    case False
    with assms have r: "take 1 ?r = ''.''" "2 \<le> length ?r" "length ?r \<le> 19" "list_all is_digit (drop 1 ?r)"
      by (auto simp: amount_pattern_def Let_def)
    then have rr: "?r = CHR ''.'' # drop 1 ?r" by (cases ?r) simp_all
    have rl: "drop 1 ?r \<noteq> []" "length (drop 1 ?r) \<le> 18" using r(2,3) by auto
    have "s = amount_text ?w (drop 1 ?r)"
      unfolding amount_text_def using takeWhile_dropWhile_id [of is_digit s] rr rl(1) by (simp only: if_False)
    then show thesis using w r(4) rl by (intro that [of ?w "drop 1 ?r"])
  qed
qed

lemma text_val_bound: "list_all is_digit s \<Longrightarrow> text_val s < 10 ^ length s"
proof (induction s rule: rev_induct)
  case (snoc c s)
  then have "(of_char c :: nat) \<le> 57" by (simp add: is_digit_def Let_def)
  then have "dval c < 10" unfolding dval_def by linarith
  moreover have "text_val (s @ [c]) = 10 * text_val s + dval c" by (simp add: text_val_def digits_val_def)
  ultimately show ?case using snoc by simp
qed (simp add: text_val_def digits_val_def)

text \<open>
  Property C28. The API reads every accepted amount exactly: for a request that passes the
  schema, the amount is a text \<open>w.f\<close>, the units are its value times ten to the decimals of
  the asset, and a text with more precision than the asset has is answered as a validation
  error. The rounding of the parser beyond 80 digits is out of reach.
\<close>

theorem api_amount_exact:
  assumes "transfer_request_errors q = []" and "decimals a \<le> 1000"
  shows "\<exists>w f. q_amount q = amount_text w f \<and>
     (case amount_units (q_amount q) a of
        Inr n \<Rightarrow> 0 < n \<and> n * 10 ^ length f = int (text_val (w @ f)) * 10 ^ decimals a
      | Inl e \<Rightarrow> (\<nexists>n. 0 < n \<and> n * 10 ^ length f = int (text_val (w @ f)) * 10 ^ decimals a) \<and>
          p_status (error_response None e) = 422)"
proof -
  have "amount_pattern (q_amount q)" using assms(1) by (auto simp: transfer_request_errors_def split: if_splits)
  then obtain w f where q: "q_amount q = amount_text w f" and wf: "list_all is_digit w" "w \<noteq> []" "list_all is_digit f"
    and len: "length w \<le> 30" "length f \<le> 18"
    by (rule amount_pattern_text)
  have "text_val (w @ f) < 10 ^ length (w @ f)" using wf by (intro text_val_bound) simp
  also have "\<dots> \<le> 10 ^ 80" using len by (intro power_increasing) simp_all
  finally have v: "text_val (w @ f) < 10 ^ 80" .
  have fl: "length f \<le> 1000" using len by simp
  note exact = parse_amount_iff [OF wf v fl assms(2)]
  note parsed = parse_amount_text [OF wf v fl assms(2), of False]
  show ?thesis
  proof (cases "parse_amount (AmtText (q_amount q)) (decimals a) False")
    case (Inr n)
    then have "amount_units (q_amount q) a = Inr n" by (simp add: amount_units_def)
    with Inr exact [of n] q show ?thesis by (intro exI [of _ w] exI [of _ f]) simp
  next
    case (Inl e)
    then obtain m where e: "e = AmountError m" using parsed q by (auto simp: Let_def split: if_splits)
    with Inl have u: "amount_units (q_amount q) a =
        Inl (app_exn ValidationError m [[(''field'', JStr ''amount''), (''message'', JStr m)]])"
      by (simp add: amount_units_def)
    have no: "\<nexists>n. 0 < n \<and> n * 10 ^ length f = int (text_val (w @ f)) * 10 ^ decimals a" using exact Inl q by fastforce
    show ?thesis using q u no
      by (intro exI [of _ w] exI [of _ f]) (simp add: app_exn_def error_response_status)
  qed
qed

section \<open>Pages of the ledger\<close>

text \<open>A client that follows the cursor until there is none.\<close>

fun walk_pages :: "nat \<Rightarrow> int \<Rightarrow> string \<Rightarrow> nat \<Rightarrow> int option \<Rightarrow> wdb \<Rightarrow> ledger_entry list option" where
  "walk_pages 0 uid a limit cursor db = None"
| "walk_pages (Suc n) uid a limit cursor db =
     (let es = history_page uid a limit cursor db in
      case next_cursor limit es of
        None \<Rightarrow> Some es
      | Some c \<Rightarrow> map_option ((@) es) (walk_pages n uid a limit (Some c) db))"

lemma below_last:
  assumes "sorted_wrt (\<lambda>x y. key y < key x) ys" and "0 < k" and "k \<le> length ys"
  shows "filter (\<lambda>e. key e < (key (last (take k ys)) :: int)) ys = drop k ys"
proof -
  let ?t = "take k ys"
  have ne: "?t \<noteq> []" using assms by auto
  have split: "sorted_wrt (\<lambda>x y. key y < key x) (?t @ drop k ys)" using assms(1) by simp
  have l: "last ?t \<in> set ?t" using ne by simp
  have "key (last ?t) \<le> key e" if "e \<in> set ?t" for e
  proof -
    have "sorted_wrt (\<lambda>x y. key y < key x) (butlast ?t @ [last ?t])" using split ne by (simp add: sorted_wrt_append)
    moreover have "e \<in> set (butlast ?t) \<or> e = last ?t" using that ne by (metis append_butlast_last_id set_ConsD rotate1.simps(2) set_rotate1)
    ultimately show ?thesis by (auto simp: sorted_wrt_append intro: less_imp_le)
  qed
  then have "filter (\<lambda>e. key e < key (last ?t)) ?t = []" by (fastforce simp: filter_empty_conv)
  moreover have "filter (\<lambda>e. key e < key (last ?t)) (drop k ys) = drop k ys"
    using split [unfolded sorted_wrt_append] l by (auto intro!: filter_True)
  ultimately show ?thesis by (metis append_Nil append_take_drop_id filter_append)
qed

definition own_entries :: "int \<Rightarrow> string \<Rightarrow> wdb \<Rightarrow> ledger_entry list" where
  "own_entries uid a db = rev (filter (\<lambda>e. l_user_id e = uid \<and> l_asset e = a) (entries db))"

lemma history_page_eq:
  assumes "ledger_ok db"
  shows "history_page uid a limit cursor db =
    take limit (filter (\<lambda>e. case cursor of None \<Rightarrow> True | Some c \<Rightarrow> l_id e < c) (own_entries uid a db))"
proof -
  have "sorted_wrt (<) (map l_id (filter P (entries db)))" for P
    using ledger_okD(12) [OF assms] by (simp add: sorted_wrt_map sorted_wrt_filter)
  then have "sort_key l_id (filter P (entries db)) = filter P (entries db)" for P
    using strict_sorted_imp_sorted by (intro sort_key_id_if_sorted) blast
  then show ?thesis by (simp add: history_page_def own_entries_def rev_filter filter_filter conj_commute conj_left_commute)
qed

lemma own_entries_desc: "ledger_ok db \<Longrightarrow> sorted_wrt (\<lambda>x y. l_id y < l_id x) (own_entries uid a db)"
  using ledger_okD(12) [of db] by (auto simp: own_entries_def sorted_wrt_rev sorted_wrt_map intro: sorted_wrt_filter)

lemma walk_pages_from:
  assumes ok: "ledger_ok db" and limit: "0 < limit"
    and n: "length (filter (\<lambda>e. case cursor of None \<Rightarrow> True | Some c \<Rightarrow> l_id e < c) (own_entries uid a db)) < n"
  shows "walk_pages n uid a limit cursor db =
    Some (filter (\<lambda>e. case cursor of None \<Rightarrow> True | Some c \<Rightarrow> l_id e < c) (own_entries uid a db))"
  using n
proof (induction n arbitrary: cursor)
  case (Suc n)
  let ?ys = "filter (\<lambda>e. case cursor of None \<Rightarrow> True | Some c \<Rightarrow> l_id e < c) (own_entries uid a db)"
  have page: "history_page uid a limit cursor db = take limit ?ys" by (rule history_page_eq [OF ok])
  show ?case
  proof (cases "limit \<le> length ?ys")
    case False
    then show ?thesis using page by (simp add: next_cursor_def)
  next
    case True
    let ?c = "l_id (last (take limit ?ys))"
    have desc: "sorted_wrt (\<lambda>x y. l_id y < l_id x) ?ys" using own_entries_desc [OF ok] by (rule sorted_wrt_filter)
    have "take limit ?ys \<noteq> []" using True limit by auto
    then have "last (take limit ?ys) \<in> set ?ys" using in_set_takeD last_in_set by fast
    then have lt: "case cursor of None \<Rightarrow> True | Some c \<Rightarrow> ?c < c" by simp
    have "filter (\<lambda>e. l_id e < ?c) (own_entries uid a db) = filter (\<lambda>e. l_id e < ?c) ?ys"
      using lt by (auto simp: filter_filter split: option.splits intro!: filter_cong)
    also have "\<dots> = drop limit ?ys" by (rule below_last [OF desc limit True])
    finally have rest: "filter (\<lambda>e. case Some ?c of None \<Rightarrow> True | Some c \<Rightarrow> l_id e < c) (own_entries uid a db) = drop limit ?ys" by simp
    have "length (drop limit ?ys) < n" using Suc.prems limit True by simp
    then have "walk_pages n uid a limit (Some ?c) db = Some (drop limit ?ys)"
      using Suc.IH [of "Some ?c"] unfolding rest by blast
    moreover have "next_cursor limit (take limit ?ys) = Some ?c" using True by (simp add: next_cursor_def)
    ultimately show ?thesis unfolding walk_pages.simps page Let_def
      by (simp only: option.case option.map append_take_drop_id)
  qed
qed simp

text \<open>
  Property C27. The history is complete and free of repetitions: a client that follows
  \<open>next_cursor\<close> from the first page, with any page size, reaches the end and has read every
  ledger entry of the account exactly once, newest first.
\<close>

theorem history_complete:
  assumes "ledger_ok db" and "0 < limit" and "length (entries db) < n"
  shows "walk_pages n uid a limit None db = Some (rev (filter (\<lambda>e. l_user_id e = uid \<and> l_asset e = a) (entries db)))"
proof -
  have "length (own_entries uid a db) < n"
    using assms(3) le_less_trans [OF length_filter_le] by (simp add: own_entries_def)
  then show ?thesis using walk_pages_from [OF assms(1,2), of None uid a n] by (simp add: own_entries_def)
qed

theorem history_complete_witness:
  "walk_pages 5 1 ''USDT'' 1 None sample_settled =
     Some (rev (filter (\<lambda>e. l_user_id e = 1 \<and> l_asset e = ''USDT'') (entries sample_settled)))"
  by (rule history_complete) code_simp+

section \<open>Replays of a transfer request\<close>

definition sample_request :: transfer_request where
  "sample_request = \<lparr>q_from_user_id = 1, q_to_user_id = 2, q_asset = ''usdt'', q_amount = ''0.00025'',
     q_idempotency_key = ''key-9'', q_network = None\<rparr>"

definition sample_settings :: wallet_settings where
  "sample_settings = \<lparr>default_network = ''BSC'', default_asset = ''USDT''\<rparr>"

theorem api_amount_exact_witness:
  "\<exists>w f. q_amount sample_request = amount_text w f \<and>
     (case amount_units (q_amount sample_request) USDT of
        Inr n \<Rightarrow> 0 < n \<and> n * 10 ^ length f = int (text_val (w @ f)) * 10 ^ decimals USDT
      | Inl e \<Rightarrow> (\<nexists>n. 0 < n \<and> n * 10 ^ length f = int (text_val (w @ f)) * 10 ^ decimals USDT) \<and>
          p_status (error_response None e) = 422)"
proof (rule api_amount_exact)
  show "transfer_request_errors sample_request = []" by code_simp
qed simp

lemma claim_invisible: "ledger_ok (db\<lparr>idem_keys := x\<rparr>) = ledger_ok db" "transfers_ok (db\<lparr>idem_keys := x\<rparr>) = transfers_ok db"
  by (rule ledger_ok_cong, simp_all) (rule transfers_ok_cong, simp_all)

lemma valid_key:
  assumes "transfer_request_errors q = []"
  shows "length (q_idempotency_key q) \<le> 128" "length TRANSFER_SCOPE \<le> 64"
  using assms by (auto simp: transfer_request_errors_def TRANSFER_SCOPE_def split: if_splits)

text \<open>The fingerprint under which a request is claimed.\<close>

definition request_fingerprint :: "wallet_settings \<Rightarrow> (string \<Rightarrow> string) \<Rightarrow> transfer_request \<Rightarrow> asset \<Rightarrow> int \<Rightarrow> string" where
  "request_fingerprint S sha q a units =
     fingerprint sha (transfer_fields (q_from_user_id q) (q_to_user_id q) (symbol a) (or_default (q_network q) (default_network S)) units)"

lemma post_transfer_cases:
  assumes "post_transfer S sha \<Gamma> q db = Inr (db', rep)"
  obtains (replayed) a units i where "transfer_request_errors q = []" "resolve_asset (q_asset q) = Inr a" "amount_units (q_amount q) a = Inr units"
      "claim \<Gamma> TRANSFER_SCOPE (q_idempotency_key q) (request_fingerprint S sha q a units) db = Inr (db', Some i)"
      "rep = \<lparr>r_status = response_status i, r_replay = True, r_body = response_body i\<rparr>"
  | (created) a units db1 db2 t body where "transfer_request_errors q = []" "resolve_asset (q_asset q) = Inr a" "amount_units (q_amount q) a = Inr units"
      "claim \<Gamma> TRANSFER_SCOPE (q_idempotency_key q) (request_fingerprint S sha q a units) db = Inr (db1, None)"
      "create_transfer \<Gamma> (q_from_user_id q) (q_to_user_id q) (symbol a) units (q_idempotency_key q)
         (or_default (q_network q) (default_network S)) db1 = Inr (db2, t)"
      "transfer_response t = Inr body"
      "complete TRANSFER_SCOPE (q_idempotency_key q) 202 body (Some (uuid_str (t_id t))) db2 = Inr db'"
      "rep = plain_reply 202 body"
proof -
  from assms have v: "transfer_request_errors q = []" by (auto simp: post_transfer_def validate_def bindr_eq_Inr split: if_splits)
  from assms v obtain a units db1 r where a: "resolve_asset (q_asset q) = Inr a" and u: "amount_units (q_amount q) a = Inr units"
    and c: "claim \<Gamma> TRANSFER_SCOPE (q_idempotency_key q) (request_fingerprint S sha q a units) db = Inr (db1, r)"
    by (auto simp: post_transfer_def validate_def bindr_eq_Inr Let_def request_fingerprint_def)
  show thesis
  proof (cases r)
    case (Some i)
    with assms v a u c show thesis
      by (intro replayed [OF v a u, of i]) (auto simp: post_transfer_def validate_def Let_def request_fingerprint_def)
  next
    case None
    with assms v a u c obtain db2 t body where
      "create_transfer \<Gamma> (q_from_user_id q) (q_to_user_id q) (symbol a) units (q_idempotency_key q)
         (or_default (q_network q) (default_network S)) db1 = Inr (db2, t)"
      "transfer_response t = Inr body"
      "complete TRANSFER_SCOPE (q_idempotency_key q) 202 body (Some (uuid_str (t_id t))) db2 = Inr db'"
      "rep = plain_reply 202 body"
      by (auto simp: post_transfer_def validate_def Let_def request_fingerprint_def bindr_eq_Inr)
    with v a u c None show thesis by (intro created [OF v a u]) simp_all
  qed
qed

text \<open>What an accepted request leaves under its key.\<close>

lemma created_key:
  assumes ok: "ledger_ok db" "transfers_ok db" and run: "post_transfer S sha \<Gamma> q db = Inr (db', rep)" and new: "\<not> r_replay rep"
    and sha: "\<And>s. length (sha s) \<le> 64"
  obtains a units i where "transfer_request_errors q = []" "resolve_asset (q_asset q) = Inr a" "amount_units (q_amount q) a = Inr units"
    "row_of idem_key (TRANSFER_SCOPE, q_idempotency_key q) (idem_keys db') = Some i" "response_status i = 202"
    "response_body i = r_body rep" "request_hash i = request_fingerprint S sha q a units" "rep = plain_reply 202 (response_body i)"
  using run
proof (cases rule: post_transfer_cases)
  case (created a units db1 db2 t body)
  let ?k = "(TRANSFER_SCOPE, q_idempotency_key q)"
  have len: "length (request_fingerprint S sha q a units) \<le> 64" using sha by (simp add: request_fingerprint_def fingerprint_def)
  note C = claim_fresh [OF created(4) valid_key(2,1) [OF created(1)] len]
  from C(2) obtain r where r: "db1 = db\<lparr>idem_keys := idem_keys db @ [r]\<rparr>" "idem_key r = ?k"
    "request_hash r = request_fingerprint S sha q a units" by blast
  have "ledger_ok db1" "transfers_ok db1" using ok r by (simp_all add: claim_invisible)
  then have k2: "idem_keys db2 = idem_keys db @ [r]" using create_spec(12) [OF _ _ created(5)] r by simp
  from created(7) obtain res where db': "db' = db2\<lparr>idem_keys := upd_of idem_key ?k
      (\<lambda>r. r\<lparr>response_status := 202, response_body := body, resource_id := res\<rparr>) (idem_keys db2)\<rparr>"
    by (auto simp: complete_def bindr_eq_Inr)
  let ?i = "r\<lparr>response_status := 202, response_body := body, resource_id := res\<rparr>"
  have "row_of idem_key ?k (idem_keys db') = Some ?i"
    using C(1) r(2) by (simp add: db' k2 row_of_upd row_of_append idem_key_def)
  then show thesis
    using created(8) r(3) by (intro that [OF created(1-3), of ?i]) (simp_all add: plain_reply_def)
qed (use new in simp)

text \<open>A stored response is replayed.\<close>

lemma stored_replay:
  assumes i: "transfer_request_errors q = []" "resolve_asset (q_asset q) = Inr a" "amount_units (q_amount q) a = Inr units"
    "response_status i = 202" "request_hash i = request_fingerprint S sha q a units" "rep = plain_reply 202 (response_body i)"
    and row: "row_of idem_key (TRANSFER_SCOPE, q_idempotency_key q) (idem_keys db) = Some i" and sha: "\<And>s. length (sha s) \<le> 64"
  shows "post_transfer S sha \<Gamma> q db = Inr (db, rep\<lparr>r_replay := True\<rparr>)"
proof -
  have len: "length (request_fingerprint S sha q a units) \<le> 64" using sha by (simp add: request_fingerprint_def fingerprint_def)
  have "claim \<Gamma> TRANSFER_SCOPE (q_idempotency_key q) (request_fingerprint S sha q a units) db = Inr (db, Some i)"
    using claim_again [OF row _ valid_key(2,1) [OF i(1)] len, of \<Gamma>] i(4,5) by (simp add: PLACEHOLDER_STATUS_def)
  then show ?thesis
    using i by (simp add: post_transfer_def validate_def Let_def request_fingerprint_def plain_reply_def)
qed

text \<open>
  Property C18. A key cannot be reused for another request: a valid request under the key of an
  accepted one, with another sender, recipient, network or amount, is refused as an
  idempotency conflict (409), provided the digest tells the two requests apart.
\<close>

theorem key_reuse_refused:
  assumes ok: "ledger_ok db" "transfers_ok db" and run: "post_transfer S sha \<Gamma> q db = Inr (db1, rep)" and new: "r_replay rep = False"
    and sha: "\<And>s. length (sha s) \<le> 64"
    and kept: "row_of idem_key (TRANSFER_SCOPE, q_idempotency_key q) (idem_keys db2) =
      row_of idem_key (TRANSFER_SCOPE, q_idempotency_key q) (idem_keys db1)"
    and q': "transfer_request_errors q' = []" "q_idempotency_key q' = q_idempotency_key q"
      "resolve_asset (q_asset q) = Inr a" "amount_units (q_amount q) a = Inr units"
      "resolve_asset (q_asset q') = Inr a'" "amount_units (q_amount q') a' = Inr units'"
    and differ: "request_fingerprint S sha q' a' units' \<noteq> request_fingerprint S sha q a units"
  shows "post_transfer S sha \<Gamma>' q' db2 =
    Inl (app_exn IdempotencyConflictError ''This idempotency key was already used with a different request body.'' [])"
proof -
  from new have n: "\<not> r_replay rep" by simp
  obtain b units0 i where i: "transfer_request_errors q = []" "resolve_asset (q_asset q) = Inr b" "amount_units (q_amount q) b = Inr units0"
    "row_of idem_key (TRANSFER_SCOPE, q_idempotency_key q) (idem_keys db1) = Some i" "response_status i = 202"
    "response_body i = r_body rep" "request_hash i = request_fingerprint S sha q b units0" "rep = plain_reply 202 (response_body i)"
    by (rule created_key [OF ok run n sha])
  have "request_hash i = request_fingerprint S sha q a units" using i(2,3,7) q'(3,4) by simp
  moreover have len: "length (request_fingerprint S sha q' a' units') \<le> 64" using sha by (simp add: request_fingerprint_def fingerprint_def)
  ultimately have "claim \<Gamma>' TRANSFER_SCOPE (q_idempotency_key q') (request_fingerprint S sha q' a' units') db2 =
      Inl (app_exn IdempotencyConflictError ''This idempotency key was already used with a different request body.'' [])"
    using claim_again [OF _ _ valid_key(2,1) [OF q'(1)] len, of db2 i \<Gamma>'] kept i(4,5) q'(2) differ by (simp add: PLACEHOLDER_STATUS_def)
  then show ?thesis
    using q'(1,5,6) by (simp add: post_transfer_def validate_def Let_def request_fingerprint_def)
qed

definition sample_sha :: "string \<Rightarrow> string" where
  "sample_sha s = take 64 s"

definition sample_posted_transfer :: "wdb \<times> api_reply" where
  "sample_posted_transfer = result_of (post_transfer sample_settings sample_sha sample_env sample_request sample_wdb)"

definition sample_claimed :: wdb where
  "sample_claimed = sample_wdb\<lparr>idem_keys := [\<lparr>i_scope = ''transfers'', i_key = ''key-9'',
     request_hash = request_fingerprint sample_settings sample_sha sample_request USDT 250,
     response_status = 0, response_body = [], resource_id = None, i_created_at = 0\<rparr>]\<rparr>"

lemma sample_request_facts:
  "transfer_request_errors sample_request = []" "resolve_asset (q_asset sample_request) = Inr USDT"
  "amount_units (q_amount sample_request) USDT = Inr 250"
  "claim sample_env TRANSFER_SCOPE (q_idempotency_key sample_request)
     (request_fingerprint sample_settings sample_sha sample_request USDT 250) sample_wdb = Inr (sample_claimed, None)"
  by code_simp+

lemma sample_create_returns: "returns (create_transfer sample_env 1 2 ''USDT'' 250 ''key-9'' ''BSC'' sample_claimed)"
  by code_simp

lemma post_transfer_returns:
  assumes ok: "ledger_ok db1" "transfers_ok db1" and q: "transfer_request_errors q = []" "resolve_asset (q_asset q) = Inr a"
    "amount_units (q_amount q) a = Inr units"
    and c: "claim \<Gamma> TRANSFER_SCOPE (q_idempotency_key q) (request_fingerprint S sha q a units) db = Inr (db1, None)"
    and r: "returns (create_transfer \<Gamma> (q_from_user_id q) (q_to_user_id q) (symbol a) units (q_idempotency_key q)
         (or_default (q_network q) (default_network S)) db1)"
  shows "\<exists>db3 body. post_transfer S sha \<Gamma> q db = Inr (db3, plain_reply 202 body)"
proof -
  obtain db2 t where t: "create_transfer \<Gamma> (q_from_user_id q) (q_to_user_id q) (symbol a) units (q_idempotency_key q)
         (or_default (q_network q) (default_network S)) db1 = Inr (db2, t)"
    using returns_eq [OF r] by (metis surj_pair)
  from create_spec(15) [OF ok t] obtain b where "get_asset (symbol a) = Inr b" "t_asset t = symbol b" by auto
  then obtain body where "transfer_response t = Inr body" using get_asset_symbol by (auto simp: transfer_response_def)
  with q c t show ?thesis
    by (simp add: post_transfer_def validate_def Let_def request_fingerprint_def complete_def int4_def) blast
qed

lemma sample_request_sel:
  "q_from_user_id sample_request = 1" "q_to_user_id sample_request = 2" "q_idempotency_key sample_request = ''key-9''"
  "or_default (q_network sample_request) (default_network sample_settings) = ''BSC''"
  by (simp_all add: sample_request_def or_default_def sample_settings_def)

lemma sample_post_returns:
  "post_transfer sample_settings sample_sha sample_env sample_request sample_wdb =
     Inr (fst sample_posted_transfer, snd sample_posted_transfer)"
  "r_replay (snd sample_posted_transfer) = False"
proof -
  have "ledger_ok sample_claimed" "transfers_ok sample_claimed" by (simp_all add: sample_claimed_def claim_invisible)
  from post_transfer_returns [OF this sample_request_facts] sample_create_returns
  obtain db3 body where "post_transfer sample_settings sample_sha sample_env sample_request sample_wdb = Inr (db3, plain_reply 202 body)"
    by (auto simp: sample_request_sel)
  then show "post_transfer sample_settings sample_sha sample_env sample_request sample_wdb =
      Inr (fst sample_posted_transfer, snd sample_posted_transfer)" "r_replay (snd sample_posted_transfer) = False"
    by (simp_all add: sample_posted_transfer_def result_of_def plain_reply_def)
qed

lemma sample_sha_length: "length (sample_sha s) \<le> 64"
  by (simp add: sample_sha_def)

theorem key_reuse_refused_witness:
  "post_transfer sample_settings sample_sha sample_env (sample_request\<lparr>q_amount := ''1''\<rparr>) (fst sample_posted_transfer) =
     Inl (app_exn IdempotencyConflictError ''This idempotency key was already used with a different request body.'' [])"
proof (rule key_reuse_refused [OF sample_ledger_ok sample_transfers_ok sample_post_returns sample_sha_length refl])
  show "transfer_request_errors (sample_request\<lparr>q_amount := ''1''\<rparr>) = []" by code_simp
  show "q_idempotency_key (sample_request\<lparr>q_amount := ''1''\<rparr>) = q_idempotency_key sample_request" by simp
  show "resolve_asset (q_asset sample_request) = Inr USDT" "amount_units (q_amount sample_request) USDT = Inr 250" by code_simp+
  show "resolve_asset (q_asset (sample_request\<lparr>q_amount := ''1''\<rparr>)) = Inr USDT"
    "amount_units (q_amount (sample_request\<lparr>q_amount := ''1''\<rparr>)) USDT = Inr 1000000" by code_simp+
  show "request_fingerprint sample_settings sample_sha (sample_request\<lparr>q_amount := ''1''\<rparr>) USDT 1000000 \<noteq>
      request_fingerprint sample_settings sample_sha sample_request USDT 250" by code_simp
qed

end
