(* ===== verification/WalletService.thy ===== *)
theory WalletService
  imports WalletApi
begin

text \<open>
  The wallet service as a transition system: every transaction its endpoints, its consumer
  and its workers commit is a step. A transaction that raises is rolled back, which is no
  step. The invariant of the reachable states puts the components' invariants together.
\<close>

inductive wallet_step :: "(string \<Rightarrow> uuid) \<Rightarrow> wallet_settings \<Rightarrow> (string \<Rightarrow> string) \<Rightarrow> wdb \<Rightarrow> wdb \<Rightarrow> bool"
  for U S sha where
  user: "post_user valid_email \<Gamma> name email db = Inr (db', rep) \<Longrightarrow> wallet_step U S sha db db'"
| wallet: "post_wallet S issue \<Gamma> uid network asset db0 db = Inr (db', rep) \<Longrightarrow> wallet_step U S sha db db'"
| transfer: "\<lbrakk>uuid5 \<Gamma> = U; post_transfer S sha \<Gamma> q db = Inr (db', rep)\<rbrakk> \<Longrightarrow> wallet_step U S sha db db'"
| event: "dispatch \<Gamma> ev db = Inr (db', out) \<Longrightarrow> wallet_step U S sha db db'"
| dead: "record_dead_letter \<Gamma> item db = Inr (db', ()) \<Longrightarrow> wallet_step U S sha db db'"
| relay: "relay_run_once pub bs mb locked t (b :: bus) (w_outbox db) = (b', ob', n) \<Longrightarrow> wallet_step U S sha db (db\<lparr>w_outbox := ob'\<rparr>)"
| progress: "wallet_step U S sha db (fst (advance_transfers \<Gamma> db))"

abbreviation wallet_steps :: "(string \<Rightarrow> uuid) \<Rightarrow> wallet_settings \<Rightarrow> (string \<Rightarrow> string) \<Rightarrow> wdb \<Rightarrow> wdb \<Rightarrow> bool" where
  "wallet_steps U S sha \<equiv> (wallet_step U S sha)\<^sup>*\<^sup>*"

section \<open>The invariant\<close>

text \<open>Every transfer has its request event in the outbox.\<close>

definition request_id :: "(string \<Rightarrow> uuid) \<Rightarrow> transfer \<Rightarrow> uuid" where
  "request_id U t = U (event_name TRANSFER_REQUESTED (uuid_str (t_id t)))"

definition requests_queued :: "(string \<Rightarrow> uuid) \<Rightarrow> wdb \<Rightarrow> bool" where
  "requests_queued U db = (\<forall>t\<in>set (transfers db). request_id U t \<in> o_event_id ` set (o_rows (w_outbox db)))"

definition wallet_ok :: "(string \<Rightarrow> uuid) \<Rightarrow> wdb \<Rightarrow> bool" where
  "wallet_ok U db = (users_ok db \<and> ledger_ok db \<and> transfers_ok db \<and> outbox_ok (w_outbox db) \<and>
     uniq pe_key (processed db) \<and> uniq idem_key (idem_keys db) \<and> requests_queued U db)"

text \<open>What no step takes back: the progress of transfers, handled events, stored responses.\<close>

definition wallet_mono :: "wdb \<Rightarrow> wdb \<Rightarrow> bool" where
  "wallet_mono db db' = (transfers_le db db' \<and> seen_events db \<subseteq> seen_events db' \<and>
     (\<forall>k i. row_of idem_key k (idem_keys db) = Some i \<longrightarrow> response_status i \<noteq> PLACEHOLDER_STATUS \<longrightarrow>
        row_of idem_key k (idem_keys db') = Some i))"

lemma wallet_mono_same:
  "\<lbrakk>transfers_le db db'; processed db' = processed db; idem_keys db' = idem_keys db\<rbrakk> \<Longrightarrow> wallet_mono db db'"
  by (simp add: wallet_mono_def seen_events_def)

lemma wallet_mono_trans:
  assumes "wallet_mono a b" "wallet_mono b c" shows "wallet_mono a c"
  using assms transfers_le_trans [of a b c] unfolding wallet_mono_def by blast

lemma transfers_ok_grow:
  assumes tok: "transfers_ok db" and same: "transfers db' = transfers db" "entries db' = entries db" "acct_reserved db' = acct_reserved db"
    and grow: "\<And>k. has_acct db k \<Longrightarrow> has_acct db' k" "\<And>u. user_exists db u \<Longrightarrow> user_exists db' u"
  shows "transfers_ok db'"
proof -
  have eqs: "trail_ok db' = trail_ok db" "held db' = held db" "transfer_net db' = transfer_net db"
    by (simp_all add: fun_eq_iff trail_ok_def trail_def held_def transfer_net_def same)
  show ?thesis unfolding transfers_ok_def same eqs using tok [unfolded transfers_ok_def] grow by blast
qed

lemma requests_queued_ids:
  "\<lbrakk>requests_queued U db; map t_id (transfers db') = map t_id (transfers db);
    o_event_id ` set (o_rows (w_outbox db)) \<subseteq> o_event_id ` set (o_rows (w_outbox db'))\<rbrakk> \<Longrightarrow> requests_queued U db'"
proof -
  assume q: "requests_queued U db" and ids: "map t_id (transfers db') = map t_id (transfers db)"
    and ob: "o_event_id ` set (o_rows (w_outbox db)) \<subseteq> o_event_id ` set (o_rows (w_outbox db'))"
  have "\<exists>t\<in>set (transfers db). t_id t = t_id t'" if "t' \<in> set (transfers db')" for t'
    using that arg_cong [OF ids, of set] by (metis (no_types, lifting) image_iff list.set_map)
  then show ?thesis using q ob unfolding requests_queued_def request_id_def by (metis subsetD)
qed

section \<open>Every step keeps the invariant\<close>

lemma user_step:
  assumes ok: "wallet_ok U db" and run: "post_user ve \<Gamma> name email db = Inr (db', rep)"
  shows "wallet_ok U db' \<and> wallet_mono db db'"
proof -
  from run obtain e u where c: "create_user \<Gamma> name e db = Inr (db', u)"
    by (auto simp: post_user_def bindr_eq_Inr)
  from c obtain db': "db' = db\<lparr>users := users db @ [u], user_seq := user_seq db + 1\<rparr>" by (rule create_user_cases)
  have "users_ok db'" using create_user_ok [OF _ c] ok by (simp add: wallet_ok_def)
  moreover have "ledger_ok db'" using ok ledger_ok_add_user by (simp add: db' wallet_ok_def)
  moreover have "transfers_ok db'"
    by (rule transfers_ok_grow [of db]) (use ok user_exists_append [of db] in \<open>simp_all add: wallet_ok_def db' acct_reserved_def has_acct_def fun_eq_iff\<close>)
  moreover have "requests_queued U db'" using ok by (simp add: wallet_ok_def db' requests_queued_def)
  ultimately show ?thesis using ok by (simp add: wallet_ok_def wallet_mono_same db')
qed

lemma wallet_attach_step:
  assumes ok: "wallet_ok U db" and run: "attach_wallet \<Gamma> uid network a address db = Inr (db', w, c)"
  shows "wallet_ok U db' \<and> wallet_mono db db'"
proof -
  from run obtain db1 i where ins: "insert_wallet \<Gamma> uid network a address db = Inr (db1, i)"
    and ens: "ensure_balance \<Gamma> uid a db1 = Inr db'"
    by (auto simp: attach_wallet_def bindr_eq_Inr split: option.splits)
  obtain x y where db1: "db1 = db\<lparr>draws := x, wallets := y\<rparr>"
    using ins
  proof (cases rule: insert_wallet_cases)
    case dup
    then show ?thesis by (intro that [of "wallets db"]) simp
  next
    case new
    then show ?thesis by (intro that) simp
  qed
  have lok: "ledger_ok db1" using ok ledger_ok_cong [of db1 db] by (simp add: wallet_ok_def db1)
  note E = ensure_balance_spec [OF lok ens]
  note F = ledger_frame_sel [OF E(2)]
  have a1: "acct_reserved db1 = acct_reserved db" "has_acct db1 = has_acct db" by (simp_all add: db1 acct_reserved_def has_acct_def fun_eq_iff)
  have "users_ok db'" "ledger_ok db'" using attach_wallet_ok [OF _ _ run] ok by (simp_all add: wallet_ok_def)
  moreover have "transfers_ok db'"
  proof (rule transfers_ok_grow [of db])
    show "transfers_ok db" using ok by (simp add: wallet_ok_def)
    show "transfers db' = transfers db" "entries db' = entries db" "acct_reserved db' = acct_reserved db"
      using F(4) E(4,5) a1 by (simp_all add: db1)
    show "\<And>k. has_acct db k \<Longrightarrow> has_acct db' k" using E(9) a1 by simp
    show "\<And>u. user_exists db u \<Longrightarrow> user_exists db' u" using F(1) by (simp add: user_exists_def db1)
  qed
  moreover have "requests_queued U db'" using ok F(4,6) by (simp add: wallet_ok_def db1 requests_queued_def)
  ultimately show ?thesis using ok F by (simp add: wallet_ok_def wallet_mono_same db1)
qed

lemma wallet_step_post:
  assumes ok: "wallet_ok U db" and run: "post_wallet S issue \<Gamma> uid network asset db0 db = Inr (db', rep)"
  shows "wallet_ok U db' \<and> wallet_mono db db'"
proof -
  from run obtain a r where l: "lookup_wallet S uid network asset db0 = Inr (a, r)" by (auto simp: post_wallet_def bindr_eq_Inr)
  show ?thesis
  proof (cases r)
    case (Some w)
    with run l have "db' = db" by (simp add: post_wallet_def)
    with ok show ?thesis by (simp add: wallet_mono_same)
  next
    case None
    with run l obtain address w c where
      "attach_wallet \<Gamma> uid (or_default network (default_network S)) (symbol a) address db = Inr (db', w, c)"
      by (auto simp: post_wallet_def bindr_eq_Inr)
    with ok show ?thesis by (rule wallet_attach_step)
  qed
qed

lemma create_step:
  assumes ok: "wallet_ok U db" and U: "uuid5 \<Gamma> = U"
    and run: "create_transfer \<Gamma> fu tu s amount key network db = Inr (db', t)"
  shows "wallet_ok U db' \<and> wallet_mono db db'"
proof -
  have lok: "ledger_ok db" and tok: "transfers_ok db" using ok by (simp_all add: wallet_ok_def)
  note C = create_spec [OF lok tok run]
  from C(15) obtain a where enq: "enqueue_event (w_outbox db) (requested_event \<Gamma> a t) = Inr (w_outbox db')" by blast
  from C(8) obtain t' where t': "transfers db' = transfers db @ [t']" "t_id t' = t_id t" by blast
  have "uuid_str (t_id t) \<noteq> []" using length_uuid_str [of "t_id t"] by force
  then have id: "uuid_of_string (event_id (requested_event \<Gamma> a t)) = Some (request_id U t)"
    by (simp add: requested_event_def request_id_def U)
  have rows: "o_event_id ` set (o_rows (w_outbox db)) \<subseteq> o_event_id ` set (o_rows (w_outbox db')) \<and>
      request_id U t \<in> o_event_id ` set (o_rows (w_outbox db'))"
    using enq
  proof (cases rule: enqueue_event_cases)
    case (1 u)
    with id show ?thesis by (auto simp: row_of_None)
  next
    case (2 u r)
    with id show ?thesis by auto
  qed
  have "requests_queued U db'"
    using ok rows t' by (auto simp: wallet_ok_def requests_queued_def request_id_def)
  moreover have "transfers_le db db'"
    by (auto simp: transfers_le_def t'(1) row_of_append)
  moreover have "users_ok db'" using ok C(9-11) users_ok_cong [of db' db] by (simp add: wallet_ok_def)
  ultimately show ?thesis using ok C(1-3,12,13) by (simp add: wallet_ok_def wallet_mono_same)
qed

lemma claim_owned:
  assumes "claim \<Gamma> scope key hash db = Inr (db', None)" "length scope \<le> 64" "length key \<le> 128"
  shows "row_of idem_key (scope, key) (idem_keys db) = None \<and>
    (\<exists>r. db' = db\<lparr>idem_keys := idem_keys db @ [r]\<rparr> \<and> idem_key r = (scope, key))"
  using assms by (auto simp: claim_def bindr_eq_Inr idem_key_def split: option.splits if_splits)

lemma wallet_ok_keys:
  assumes "wallet_ok U db" "uniq idem_key x" shows "wallet_ok U (db\<lparr>idem_keys := x\<rparr>)"
proof -
  have "users_ok (db\<lparr>idem_keys := x\<rparr>) = users_ok db" by (rule users_ok_cong) simp_all
  then show ?thesis using assms by (simp add: wallet_ok_def claim_invisible requests_queued_def)
qed

lemma transfer_step:
  assumes ok: "wallet_ok U db" and U: "uuid5 \<Gamma> = U" and run: "post_transfer S sha \<Gamma> q db = Inr (db', rep)"
  shows "wallet_ok U db' \<and> wallet_mono db db'"
  using run
proof (cases rule: post_transfer_cases)
  case (replayed a units i)
  from replayed(4) have "db' = db" by (cases rule: claim_cases) simp_all
  with ok show ?thesis by (simp add: wallet_mono_same)
next
  case (created a units db1 db2 t body)
  let ?k = "(TRANSFER_SCOPE, q_idempotency_key q)"
  from claim_owned [OF created(4) valid_key(2,1) [OF created(1)]] obtain row where
    row: "db1 = db\<lparr>idem_keys := idem_keys db @ [row]\<rparr>" and key: "idem_key row = ?k" "row_of idem_key ?k (idem_keys db) = None"
    by blast
  have "uniq idem_key (idem_keys db @ [row])" using ok key by (simp add: wallet_ok_def uniq_snoc)
  with ok have ok1: "wallet_ok U db1" unfolding row by (rule wallet_ok_keys)
  note C = create_step [OF ok1 U created(5)]
  have lt: "ledger_ok db1" "transfers_ok db1" using ok1 by (simp_all add: wallet_ok_def)
  have k2: "idem_keys db2 = idem_keys db @ [row]" "processed db2 = processed db"
    using create_spec(12,13) [OF lt created(5)] row by simp_all
  from created(7) obtain res where db': "db' = db2\<lparr>idem_keys := upd_of idem_key ?k
      (\<lambda>r. r\<lparr>response_status := 202, response_body := body, resource_id := res\<rparr>) (idem_keys db2)\<rparr>"
    by (auto simp: complete_def bindr_eq_Inr)
  have "wallet_ok U db'"
    unfolding db' using C by (intro wallet_ok_keys) (auto simp: wallet_ok_def uniq_upd idem_key_def)
  moreover have "transfers_le db db'"
  proof -
    have "transfers_le db1 db2" using C by (simp add: wallet_mono_def)
    then show ?thesis using row by (simp add: transfers_le_def db')
  qed
  moreover have "row_of idem_key k (idem_keys db') = Some i" if "row_of idem_key k (idem_keys db) = Some i" for k i
  proof -
    have "k \<noteq> ?k" using that key by auto
    then show ?thesis using that by (simp add: db' k2 row_of_upd row_of_append idem_key_def)
  qed
  ultimately show ?thesis using k2 by (simp add: wallet_mono_def seen_events_def db')
qed

lemma event_step:
  assumes ok: "wallet_ok U db" and run: "dispatch \<Gamma> ev db = Inr (db', out)"
  shows "wallet_ok U db' \<and> wallet_mono db db'"
proof -
  have lt: "ledger_ok db" "transfers_ok db" using ok by (simp_all add: wallet_ok_def)
  note D = dispatch_keeps [OF lt run]
  have "users_ok db'" using ok D(4-6) users_ok_cong [of db' db] by (simp add: wallet_ok_def)
  moreover have "requests_queued U db'"
    by (rule requests_queued_ids [of U db]) (use ok D(3,8) in \<open>simp_all add: wallet_ok_def transfers_upd_def\<close>)
  moreover have "seen_events db \<subseteq> seen_events db'" using dispatch_marks [OF lt run] by auto
  ultimately show ?thesis using ok D by (simp add: wallet_ok_def wallet_mono_def transfers_upd_def)
qed

lemma dead_step:
  assumes ok: "wallet_ok U db" and run: "record_dead_letter \<Gamma> item db = Inr (db', ())"
  shows "wallet_ok U db' \<and> wallet_mono db db'"
proof -
  from run obtain x y where db': "db' = db\<lparr>dead_rows := x, draws := y\<rparr>"
    by (auto simp: record_dead_letter_def bindr_eq_Inr Let_def split: option.splits if_splits)
  have "users_ok db' = users_ok db" "ledger_ok db' = ledger_ok db" "transfers_ok db' = transfers_ok db"
    by (rule users_ok_cong ledger_ok_cong transfers_ok_cong; simp add: db')+
  then show ?thesis using ok by (simp add: wallet_ok_def wallet_mono_same requests_queued_def db')
qed

lemma relay_step:
  assumes ok: "wallet_ok U db" and run: "relay_run_once pub bs mb locked t b (w_outbox db) = (b', ob', n)"
  shows "wallet_ok U (db\<lparr>w_outbox := ob'\<rparr>) \<and> wallet_mono db (db\<lparr>w_outbox := ob'\<rparr>)"
proof -
  let ?db = "db\<lparr>w_outbox := ob'\<rparr>"
  have "map (\<lambda>r. fst (snd (row_core r))) (o_rows ob') = map (\<lambda>r. fst (snd (row_core r))) (o_rows (w_outbox db))"
    using relay_keeps_rows [OF run] by (metis (no_types, lifting) map_map comp_def list.map_cong0)
  then have "map o_event_id (o_rows ob') = map o_event_id (o_rows (w_outbox db))" by (simp add: row_core_def)
  then have "o_event_id ` set (o_rows ob') = o_event_id ` set (o_rows (w_outbox db))" by (metis list.set_map)
  moreover have "users_ok ?db = users_ok db" "ledger_ok ?db = ledger_ok db" "transfers_ok ?db = transfers_ok db"
    by (rule users_ok_cong ledger_ok_cong transfers_ok_cong; simp)+
  ultimately show ?thesis using ok relay_ok [OF run] by (simp add: wallet_ok_def wallet_mono_same requests_queued_def)
qed

lemma progress_step:
  assumes ok: "wallet_ok U db"
  shows "wallet_ok U (fst (advance_transfers \<Gamma> db)) \<and> wallet_mono db (fst (advance_transfers \<Gamma> db))"
proof -
  let ?db = "fst (advance_transfers \<Gamma> db)"
  have tok: "transfers_ok db" using ok by (simp add: wallet_ok_def)
  obtain x where db': "?db = db\<lparr>transfers := x\<rparr>" "map t_id x = map t_id (transfers db)"
    by (simp add: advance_transfers_def Let_def)
  have "users_ok ?db = users_ok db" "ledger_ok ?db = ledger_ok db"
    by (rule users_ok_cong ledger_ok_cong; simp add: db')+
  moreover have "requests_queued U ?db"
    by (rule requests_queued_ids [of U db]) (use ok db' in \<open>simp_all add: wallet_ok_def\<close>)
  ultimately show ?thesis
    using ok advance_keeps [OF tok, of \<Gamma>] by (simp add: wallet_ok_def wallet_mono_same db')
qed

lemma wallet_step_keeps:
  "\<lbrakk>wallet_step U S sha db db'; wallet_ok U db\<rbrakk> \<Longrightarrow> wallet_ok U db' \<and> wallet_mono db db'"
  by (induction rule: wallet_step.induct)
    ((rule user_step wallet_step_post transfer_step event_step dead_step relay_step progress_step; assumption)+)

lemma wallet_steps_keep:
  assumes "wallet_steps U S sha db db'" and "wallet_ok U db"
  shows "wallet_ok U db' \<and> wallet_mono db db'"
  using assms
proof (induction rule: rtranclp_induct)
  case base
  then show ?case by (simp add: wallet_mono_same)
next
  case (step y z)
  then show ?case using wallet_step_keeps wallet_mono_trans by blast
qed

lemma empty_wallet_ok: "wallet_ok U empty_wdb"
  by (simp add: wallet_ok_def empty_wdb_def users_ok_def ledger_ok_def transfers_ok_def requests_queued_def
      acct_reserved_def held_def transfer_net_def)

lemma reachable_ok: "wallet_steps U S sha empty_wdb db \<Longrightarrow> wallet_ok U db"
  using wallet_steps_keep empty_wallet_ok by blast

section \<open>Conservation\<close>

text \<open>The snapshots of an asset add up to its entries.\<close>

lemma sum_by_key:
  fixes amt :: "'e \<Rightarrow> int"
  assumes "uniq key bs" and "\<forall>e\<in>set es. ekey e \<in> key ` set bs"
  shows "sum_list (map (\<lambda>b. total (\<lambda>e. ekey e = key b) amt es) bs) = sum_list (map amt es)"
  using assms(2)
proof (induction es)
  case (Cons e es)
  then obtain b where b: "b \<in> set bs" "ekey e = key b" by auto
  have one: "sum_list (map (\<lambda>x. if ekey e = key x then amt e else 0) bs) = amt e"
    using assms(1) b
  proof (induction bs)
    case (Cons x bs)
    show ?case
    proof (cases "ekey e = key x")
      case True
      with Cons.prems have "map (\<lambda>x. if ekey e = key x then amt e else 0) bs = map (\<lambda>x. 0) bs"
        by (intro map_cong) (auto simp: image_iff)
      then have "sum_list (map (\<lambda>x. if ekey e = key x then amt e else 0) bs) = 0" by (simp only: sum_list_0)
      then show ?thesis using True by simp
    next
      case False
      with Cons show ?thesis by auto
    qed
  qed simp
  have "sum_list (map (\<lambda>b. total (\<lambda>e. ekey e = key b) amt (e # es)) bs) =
      sum_list (map (\<lambda>x. if ekey e = key x then amt e else 0) bs) + sum_list (map (\<lambda>b. total (\<lambda>e. ekey e = key b) amt es) bs)"
    by (simp add: sum_list_addf)
  with one Cons show ?case by simp
qed (simp add: sum_list_0)

definition posted_total :: "wdb \<Rightarrow> string \<Rightarrow> int" where
  "posted_total db a = total (\<lambda>b. b_asset b = a) posted (balances db)"

lemma posted_total_entries:
  assumes ok: "ledger_ok db"
  shows "posted_total db a = total (\<lambda>e. l_asset e = a) l_amount (entries db)"
proof -
  let ?bs = "filter (\<lambda>b. b_asset b = a) (balances db)" and ?es = "filter (\<lambda>e. l_asset e = a) (entries db)"
  let ?key = "\<lambda>e. (l_user_id e, l_asset e)"
  have u: "uniq bal_key ?bs" using ledger_okD(1) [OF ok] by (simp add: uniq_def distinct_map_filter)
  have k: "\<forall>e\<in>set ?es. ?key e \<in> bal_key ` set ?bs"
  proof
    fix e assume "e \<in> set ?es"
    then have e: "e \<in> set (entries db)" "l_asset e = a" by auto
    with ledger_okD(9) [OF ok] obtain b where "row_of bal_key (?key e) (balances db) = Some b" by blast
    from row_of_Some [OF this] e show "?key e \<in> bal_key ` set ?bs" by (auto simp: bal_key_def intro!: image_eqI [of _ _ b])
  qed
  have "posted b = total (\<lambda>e. ?key e = bal_key b) l_amount ?es" if "b \<in> set ?bs" for b
  proof -
    have "posted b = total (\<lambda>e. l_user_id e = b_user_id b \<and> l_asset e = b_asset b) l_amount (entries db)"
      using that ledger_okD(8) [OF ok] by (simp add: ledger_sum_def)
    also have "\<dots> = total (\<lambda>e. ?key e = bal_key b) l_amount ?es"
      using that by (auto simp: total_def bal_key_def filter_filter intro!: arg_cong [of _ _ sum_list] arg_cong [of _ _ "map l_amount"] filter_cong)
    finally show ?thesis .
  qed
  then have eq: "map posted ?bs = map (\<lambda>b. total (\<lambda>e. ?key e = bal_key b) l_amount ?es) ?bs" by (intro map_cong refl)
  have "posted_total db a = sum_list (map posted ?bs)" by (simp add: posted_total_def total_def)
  also have "\<dots> = sum_list (map l_amount ?es)" unfolding eq by (rule sum_by_key [OF u k])
  finally show ?thesis by (simp add: total_def)
qed

lemma total_split: "total P amt xs = total (\<lambda>x. Q x \<and> P x) amt xs + total (\<lambda>x. \<not> Q x \<and> P x) amt xs"
  by (induction xs) auto

text \<open>
  Property C4. The books balance in every state the service can reach: the reconciliation
  report has no inconsistent row; every account has a non-negative available balance and
  holds exactly the sum of its open transfers; and transfers create no money, so the posted
  balances of an asset add up to the entries that do not belong to transfers, the
  deposits and their reversals.
\<close>

theorem books_balance:
  assumes "wallet_steps U S sha empty_wdb db"
  shows "inconsistent (reconciliation db) = 0 \<and>
    (\<forall>k. 0 \<le> acct_reserved db k \<and> acct_reserved db k \<le> acct_posted db k \<and> acct_reserved db k = held db k) \<and>
    (\<forall>a. posted_total db a = total (\<lambda>e. reference_type e \<noteq> TRANSFER_REF \<and> l_asset e = a) l_amount (entries db))"
proof (intro conjI allI)
  from reachable_ok [OF assms] have lok: "ledger_ok db" and tok: "transfers_ok db" by (simp_all add: wallet_ok_def)
  show "inconsistent (reconciliation db) = 0"
    using reconcile_ok [OF lok] by (simp add: reconciliation_def Let_def filter_empty_conv)
  show "0 \<le> acct_reserved db k" "acct_reserved db k \<le> acct_posted db k" for k using acct_bounds [OF lok] by simp_all
  show "acct_reserved db k = held db k" for k using transfers_okD(8) [OF tok] .
  show "posted_total db a = total (\<lambda>e. reference_type e \<noteq> TRANSFER_REF \<and> l_asset e = a) l_amount (entries db)" for a
    using total_split [of "\<lambda>e. l_asset e = a" l_amount "entries db" "\<lambda>e. reference_type e = TRANSFER_REF"]
      transfers_okD(10) [OF tok, of a] posted_total_entries [OF lok, of a]
    by (simp add: transfer_net_def)
qed

text \<open>
  Property C8. No accepted transfer is forgotten: in every reachable state each transfer row
  has its request event in the outbox, under the id that its type and transfer id determine,
  because the row and the event commit in one transaction.
\<close>

theorem transfers_are_announced:
  assumes "wallet_steps U S sha empty_wdb db" and "t \<in> set (transfers db)"
  shows "\<exists>r\<in>set (o_rows (w_outbox db)). o_event_id r = U (event_name TRANSFER_REQUESTED (uuid_str (t_id t)))"
proof -
  have "request_id U t \<in> o_event_id ` set (o_rows (w_outbox db))"
    using reachable_ok [OF assms(1)] assms(2) by (simp add: wallet_ok_def requests_queued_def)
  then show ?thesis by (auto simp: request_id_def)
qed

text \<open>
  Property C7. A transfer never moves back: whatever the service does next, the transfer is
  still there with the same parties, amount, asset and addresses, and its status has stayed
  or advanced along \<open>CREATED, PROCESSING, BROADCASTED, CONFIRMED, FAILED\<close>; in particular a
  failed transfer stays failed.
\<close>

theorem transfer_never_moves_back:
  assumes "wallet_steps U S sha empty_wdb db" and "wallet_steps U S sha db db'"
    and "row_of t_id i (transfers db) = Some t"
  shows "\<exists>t'. row_of t_id i (transfers db') = Some t' \<and> immut t' = immut t \<and>
    status_rank (t_status t) \<le> status_rank (t_status t')"
proof -
  have "transfers_le db db'" using wallet_steps_keep [OF assms(2) reachable_ok [OF assms(1)]] by (simp add: wallet_mono_def)
  then show ?thesis using assms(3) by (simp add: transfers_le_def)
qed

text \<open>
  Property C5. A client may retry an accepted transfer request at any later time: whatever the
  service did in between, the same request is answered with the stored status and body,
  flagged as a replay, and changes nothing, so no second transfer is created.
\<close>

theorem retry_replays:
  assumes reach: "wallet_steps U S sha empty_wdb db" and U: "uuid5 \<Gamma> = U"
    and first: "post_transfer S sha \<Gamma> q db = Inr (db1, rep)" "r_replay rep = False"
    and later: "wallet_steps U S sha db1 db2" and sha: "\<And>s. length (sha s) \<le> 64"
  shows "post_transfer S sha \<Gamma>' q db2 = Inr (db2, rep\<lparr>r_replay := True\<rparr>)"
proof -
  from reachable_ok [OF reach] have ok: "wallet_ok U db" .
  then have lt: "ledger_ok db" "transfers_ok db" by (simp_all add: wallet_ok_def)
  have n: "\<not> r_replay rep" using first(2) by simp
  obtain a units i where i: "transfer_request_errors q = []" "resolve_asset (q_asset q) = Inr a" "amount_units (q_amount q) a = Inr units"
    "row_of idem_key (TRANSFER_SCOPE, q_idempotency_key q) (idem_keys db1) = Some i" "response_status i = 202"
    "response_body i = r_body rep" "request_hash i = request_fingerprint S sha q a units" "rep = plain_reply 202 (response_body i)"
    by (rule created_key [OF lt first(1) n sha])
  have "wallet_ok U db1" using transfer_step [OF ok U first(1)] by blast
  from wallet_steps_keep [OF later this] have "row_of idem_key (TRANSFER_SCOPE, q_idempotency_key q) (idem_keys db2) = Some i"
    using i(4,5) by (simp add: wallet_mono_def PLACEHOLDER_STATUS_def)
  then show ?thesis by (intro stored_replay [OF i(1-3,5,7,8) _ sha])
qed

text \<open>
  Property C6. An event takes effect once: after an event was dispatched successfully, and
  whatever the service did since, dispatching it again in whatever environment is reported
  as a duplicate and changes nothing.
\<close>

theorem event_takes_effect_once:
  assumes reach: "wallet_steps U S sha empty_wdb db" and first: "dispatch \<Gamma> ev db = Inr (db1, out)"
    and later: "wallet_steps U S sha db1 db2" and ty: "length (event_type ev) \<le> 64"
  shows "dispatch \<Gamma>' ev db2 = Inr (db2, ''duplicate'')"
proof -
  from reachable_ok [OF reach] have ok: "wallet_ok U db" .
  then have lt: "ledger_ok db \<and> transfers_ok db" by (simp add: wallet_ok_def)
  have "wallet_ok U db1" using event_step [OF ok first] by blast
  from wallet_steps_keep [OF later this] have m: "seen_events db1 \<subseteq> seen_events db2" by (simp add: wallet_mono_def)
  obtain u where "uuid_of_string (event_id ev) = Some u" "u \<in> seen_events db1" using wallet_dedup.marked [OF lt first] by auto
  with m ty show ?thesis by (intro wallet_dedup.repeated) auto
qed

section \<open>A short history\<close>

text \<open>Two users with wallets, a deposit of the first one, and its transfer to the second.\<close>

definition hist_user1 :: wdb where
  "hist_user1 = empty_wdb\<lparr>users := [sample_user 1 ''a''], user_seq := 1\<rparr>"

definition hist_users :: wdb where
  "hist_users = empty_wdb\<lparr>users := [sample_user 1 ''a'', sample_user 2 ''b''], user_seq := 2\<rparr>"

definition hist_wallet :: "int \<Rightarrow> string \<Rightarrow> wallet" where
  "hist_wallet i addr = \<lparr>w_id = of_int i, w_user_id = i, w_network = ''BSC'', w_asset = ''USDT'',
     w_address = addr, w_status = ''ACTIVE'', w_created_at = 0\<rparr>"

definition hist_wallets1 :: wdb where
  "hist_wallets1 = hist_users\<lparr>wallets := [hist_wallet 1 ''0xa''], balances := [sample_bal 1 0 0 0], draws := 1\<rparr>"

definition hist_wallets2 :: wdb where
  "hist_wallets2 = hist_users\<lparr>wallets := [hist_wallet 1 ''0xa'', hist_wallet 2 ''0xb''],
     balances := [sample_bal 1 0 0 0, sample_bal 2 0 0 0], draws := 2\<rparr>"

definition hist_event :: envelope where
  "hist_event = \<lparr>event_id = uuid_str 77, event_type = DEPOSIT_CONFIRMED, schema_version = 1, occurred_at = 0,
     producer = ''blockchain-service'', e_correlation_id = ''cid-0'', causation_id = None,
     e_payload = [(''network'', JStr ''BSC''), (''tx_hash'', JStr ''0x1''), (''log_index'', JInt 0), (''asset'', JStr ''USDT''),
       (''to_address'', JStr ''0xa''), (''amount_units'', JStr ''1000''), (''block_hash'', JStr ''0xb1'')]\<rparr>"

definition hist_deposited :: wdb where
  "hist_deposited = hist_wallets2\<lparr>balances := [sample_bal 1 1000 0 1, sample_bal 2 0 0 0],
     entries := [\<lparr>l_id = 1, entry_id = 3, l_user_id = 1, l_asset = ''USDT'', l_amount = 1000, l_entry_type = DEPOSIT,
       reference_type = ''DEPOSIT'', reference_id = ''BSC:0x1:0:0xb1'', l_correlation_id = Some ''cid-0'', l_created_at = 0\<rparr>],
     entry_seq := 1, draws := 3,
     processed := [\<lparr>pe_consumer = CONSUMER_NAME, pe_event_id = 77, pe_event_type = DEPOSIT_CONFIRMED, processed_at = 0\<rparr>]\<rparr>"

lemma hist_runs:
  "map_sum id fst (post_user Some sample_env ''a'' ''a@example.com'' empty_wdb) = Inr hist_user1"
  "map_sum id fst (post_user Some sample_env ''b'' ''b@example.com'' hist_user1) = Inr hist_users"
  by code_simp+

lemma hist_lookups:
  "lookup_wallet sample_settings 1 None None hist_users = Inr (USDT, None)"
  "lookup_wallet sample_settings 2 None None hist_wallets1 = Inr (USDT, None)"
  by code_simp+

lemma hist_attach:
  "attach_wallet sample_env 1 ''BSC'' ''USDT'' ''0xa'' hist_users = Inr (hist_wallets1, hist_wallet 1 ''0xa'', True)"
  "attach_wallet sample_env 2 ''BSC'' ''USDT'' ''0xb'' hist_wallets1 = Inr (hist_wallets2, hist_wallet 2 ''0xb'', True)"
  by code_simp+

lemma hist_post_wallets:
  "\<exists>rep. post_wallet sample_settings (\<lambda>owner n. Inr ''0xa'') sample_env 1 None None hist_users hist_users = Inr (hist_wallets1, rep)"
  "\<exists>rep. post_wallet sample_settings (\<lambda>owner n. Inr ''0xb'') sample_env 2 None None hist_wallets1 hist_wallets1 = Inr (hist_wallets2, rep)"
proof -
  have "or_default None (default_network sample_settings) = ''BSC''" by (simp add: or_default_def sample_settings_def)
  then show "\<exists>rep. post_wallet sample_settings (\<lambda>owner n. Inr ''0xa'') sample_env 1 None None hist_users hist_users = Inr (hist_wallets1, rep)"
    "\<exists>rep. post_wallet sample_settings (\<lambda>owner n. Inr ''0xb'') sample_env 2 None None hist_wallets1 hist_wallets1 = Inr (hist_wallets2, rep)"
    by (simp_all add: post_wallet_def hist_lookups hist_attach)
qed

definition hist_marked :: wdb where
  "hist_marked = hist_wallets2\<lparr>processed :=
     [\<lparr>pe_consumer = CONSUMER_NAME, pe_event_id = 77, pe_event_type = DEPOSIT_CONFIRMED, processed_at = 0\<rparr>]\<rparr>"

lemma hist_dispatch: "dispatch sample_env hist_event hist_wallets2 = Inr (hist_deposited, ''processed'')"
proof -
  let ?q = "\<lparr>p_user_id = 1, p_amount = 1000, p_entry_type = DEPOSIT, p_reference_type = DEPOSIT_REF, p_reference_id = ''BSC:0x1:0:0xb1''\<rparr>"
  have \<Gamma>: "correlation_scope (Some ''cid-0'') sample_env = sample_env" by (simp add: correlation_scope_def sample_env_def)
  have d: "deposit_of ''block_hash'' (e_payload hist_event) hist_marked (hist_wallet 1 ''0xa'') ''USDT'' 1000 ''BSC:0x1:0:0xb1''" by code_simp
  have q: "deposit_posting (hist_wallet 1 ''0xa'') 1000 DEPOSIT ''BSC:0x1:0:0xb1'' = ?q" by (simp add: deposit_posting_def hist_wallet_def)
  have run: "post_one sample_env ''USDT'' ?q (hist_marked, 0) = Inr (hist_deposited, 1)" by code_simp
  have "credit_deposit sample_env (e_payload hist_event) hist_marked = Inr (hist_deposited, ''processed'')"
    unfolding credit_deposit_eq [OF d] q run by simp
  then show ?thesis
    by (simp add: dispatch_def handle_event_def hist_event_def \<Gamma> event_type_defs hist_marked_def hist_wallets2_def hist_users_def
        empty_wdb_def sample_env_def [THEN arg_cong [of _ _ now]] Let_def)
qed

lemma fst_result: "map_sum id fst r = Inr db \<Longrightarrow> \<exists>rep. r = Inr (db, rep)"
  by (cases r) auto

abbreviation hist_steps :: "wdb \<Rightarrow> wdb \<Rightarrow> bool" where
  "hist_steps \<equiv> wallet_steps (uuid5 sample_env) sample_settings sample_sha"

lemma hist_reach: "hist_steps empty_wdb hist_wallets2" "hist_steps empty_wdb hist_deposited"
proof -
  let ?s = "wallet_step (uuid5 sample_env) sample_settings sample_sha"
  have "?s empty_wdb hist_user1" "?s hist_user1 hist_users"
    using fst_result [OF hist_runs(1)] fst_result [OF hist_runs(2)] wallet_step.user by blast+
  moreover have "?s hist_users hist_wallets1" "?s hist_wallets1 hist_wallets2"
    using hist_post_wallets wallet_step.wallet by blast+
  ultimately show w: "hist_steps empty_wdb hist_wallets2" by (auto intro: rtranclp.rtrancl_into_rtrancl)
  have "?s hist_wallets2 hist_deposited" using wallet_step.event [OF hist_dispatch] .
  with w show "hist_steps empty_wdb hist_deposited" by simp
qed

definition hist_claimed :: wdb where
  "hist_claimed = hist_deposited\<lparr>idem_keys := [\<lparr>i_scope = ''transfers'', i_key = ''key-9'',
     request_hash = request_fingerprint sample_settings sample_sha sample_request USDT 250,
     response_status = 0, response_body = [], resource_id = None, i_created_at = 0\<rparr>]\<rparr>"

lemma hist_claim:
  "claim sample_env TRANSFER_SCOPE (q_idempotency_key sample_request)
     (request_fingerprint sample_settings sample_sha sample_request USDT 250) hist_deposited = Inr (hist_claimed, None)"
  by code_simp

lemma hist_create: "returns (create_transfer sample_env 1 2 ''USDT'' 250 ''key-9'' ''BSC'' hist_claimed)"
  by code_simp

definition hist_transferred :: "wdb \<times> api_reply" where
  "hist_transferred = result_of (post_transfer sample_settings sample_sha sample_env sample_request hist_deposited)"

lemma hist_transfer:
  "post_transfer sample_settings sample_sha sample_env sample_request hist_deposited = Inr (fst hist_transferred, snd hist_transferred)"
  "r_replay (snd hist_transferred) = False"
proof -
  have "ledger_ok hist_claimed" "transfers_ok hist_claimed"
    using reachable_ok [OF hist_reach(2)] by (simp_all add: hist_claimed_def claim_invisible wallet_ok_def)
  from post_transfer_returns [OF this sample_request_facts(1-3) hist_claim] hist_create
  obtain db3 body where "post_transfer sample_settings sample_sha sample_env sample_request hist_deposited = Inr (db3, plain_reply 202 body)"
    by (auto simp: sample_request_sel)
  then show "post_transfer sample_settings sample_sha sample_env sample_request hist_deposited = Inr (fst hist_transferred, snd hist_transferred)"
    "r_replay (snd hist_transferred) = False"
    by (simp_all add: hist_transferred_def result_of_def plain_reply_def)
qed

lemma hist_reach_transfer: "hist_steps empty_wdb (fst hist_transferred)"
  using rtranclp.rtrancl_into_rtrancl [OF hist_reach(2) wallet_step.transfer [OF refl hist_transfer(1)]] .

lemma complete_transfers: "complete scope key status body resource db = Inr db' \<Longrightarrow> transfers db' = transfers db"
  by (auto simp: complete_def bindr_eq_Inr)

lemma hist_has_transfer: "\<exists>t. t \<in> set (transfers (fst hist_transferred)) \<and> row_of t_id (t_id t) (transfers (fst hist_transferred)) = Some t"
proof -
  have ok: "ledger_ok hist_claimed" "transfers_ok hist_claimed" "transfers_ok (fst hist_transferred)"
    using reachable_ok [OF hist_reach(2)] reachable_ok [OF hist_reach_transfer] by (simp_all add: hist_claimed_def claim_invisible wallet_ok_def)
  from hist_transfer(1) show ?thesis
  proof (cases rule: post_transfer_cases)
    case (replayed a units i)
    with hist_transfer(2) show ?thesis by simp
  next
    case (created a units db1 db2 t body)
    have "units = 250" "a = USDT" using created(2,3) sample_request_facts(2,3) by simp_all
    then have "db1 = hist_claimed" using created(4) hist_claim by simp
    with created(5) ok obtain t' where "t' \<in> set (transfers db2)" using create_spec(8) by fastforce
    moreover have "transfers (fst hist_transferred) = transfers db2" using complete_transfers [OF created(7)] .
    ultimately show ?thesis using row_of_unique transfers_okD(1) [OF ok(3)] by metis
  qed
qed

theorem books_balance_witness:
  "inconsistent (reconciliation (fst hist_transferred)) = 0 \<and>
    (\<forall>k. 0 \<le> acct_reserved (fst hist_transferred) k \<and> acct_reserved (fst hist_transferred) k \<le> acct_posted (fst hist_transferred) k \<and>
       acct_reserved (fst hist_transferred) k = held (fst hist_transferred) k) \<and>
    (\<forall>a. posted_total (fst hist_transferred) a =
       total (\<lambda>e. reference_type e \<noteq> TRANSFER_REF \<and> l_asset e = a) l_amount (entries (fst hist_transferred)))"
  by (rule books_balance [OF hist_reach_transfer])

theorem transfers_are_announced_witness:
  "\<exists>t. t \<in> set (transfers (fst hist_transferred)) \<and> (\<exists>r\<in>set (o_rows (w_outbox (fst hist_transferred))).
     o_event_id r = uuid5 sample_env (event_name TRANSFER_REQUESTED (uuid_str (t_id t))))"
  using transfers_are_announced [OF hist_reach_transfer] hist_has_transfer by blast

theorem transfer_never_moves_back_witness:
  "\<exists>t t'. row_of t_id (t_id t) (transfers (fst hist_transferred)) = Some t \<and>
     row_of t_id (t_id t) (transfers (fst (advance_transfers sample_env (fst hist_transferred)))) = Some t' \<and> immut t' = immut t \<and>
     status_rank (t_status t) \<le> status_rank (t_status t')"
proof -
  have "hist_steps (fst hist_transferred) (fst (advance_transfers sample_env (fst hist_transferred)))"
    using wallet_step.progress by (rule r_into_rtranclp)
  from transfer_never_moves_back [OF hist_reach_transfer this] hist_has_transfer show ?thesis by blast
qed

theorem retry_replays_witness:
  "post_transfer sample_settings sample_sha (sample_env\<lparr>now := 9\<rparr>) sample_request (fst (advance_transfers sample_env (fst hist_transferred))) =
     Inr (fst (advance_transfers sample_env (fst hist_transferred)), (snd hist_transferred)\<lparr>r_replay := True\<rparr>)"
proof -
  have "hist_steps (fst hist_transferred) (fst (advance_transfers sample_env (fst hist_transferred)))"
    using wallet_step.progress by (rule r_into_rtranclp)
  from retry_replays [OF hist_reach(2) refl hist_transfer this sample_sha_length] show ?thesis .
qed

theorem event_takes_effect_once_witness:
  "dispatch (sample_env\<lparr>now := 9\<rparr>) hist_event (fst hist_transferred) = Inr (fst hist_transferred, ''duplicate'')"
proof -
  have "hist_steps hist_deposited (fst hist_transferred)"
    using wallet_step.transfer [OF refl hist_transfer(1)] by (rule r_into_rtranclp)
  from event_takes_effect_once [OF hist_reach(1) hist_dispatch this] show ?thesis by (simp add: hist_event_def event_type_defs)
qed

end
