(* ===== verification/Retry.thy ===== *)
theory Retry
  imports Complex_Main Errors Events
begin

text \<open>
  \<open>mcw_common/retry.py\<close> and its client \<open>wallet_service/chain_client.py\<close>: bounded retries with
  exponential back-off, the circuit breaker, and the call that asks the blockchain service
  for an address. Durations are rational seconds; \<open>random.random()\<close> and the monotonic
  clock are parameters.
\<close>

record retry_policy =
  attempts :: int
  base_delay :: rat
  max_delay :: rat
  jitter :: rat

definition raw_delay :: "retry_policy \<Rightarrow> int \<Rightarrow> rat" where
  "raw_delay p attempt = min (max_delay p) (base_delay p * 2 ^ nat (max 0 (attempt - 1)))"

definition delay_for :: "retry_policy \<Rightarrow> rat \<Rightarrow> int \<Rightarrow> rat" where
  "delay_for p rnd attempt = raw_delay p attempt * (1 - jitter p + rnd * jitter p * 2)"

text \<open>
  \<open>retry_async\<close>: the operation is a state transformer that returns or raises; the result
  has the final state, the delays that were slept, and the value or the exception. No
  attempt at all ends in the failed assertion, \<open>Inl None\<close>.
\<close>

fun retry_loop :: "retry_policy \<Rightarrow> (int \<Rightarrow> rat) \<Rightarrow> ('e \<Rightarrow> bool) \<Rightarrow> ('s \<Rightarrow> 's \<times> ('e + 'a)) \<Rightarrow> int list \<Rightarrow> 'e option \<Rightarrow> 's \<Rightarrow>
    's \<times> rat list \<times> ('e option + 'a)" where
  "retry_loop p rnd retry_on fn [] prev s = (s, [], Inl prev)"
| "retry_loop p rnd retry_on fn (attempt # rest) prev s =
     (case fn s of
        (s', Inr v) \<Rightarrow> (s', [], Inr v)
      | (s', Inl e) \<Rightarrow>
          if \<not> retry_on e \<or> attempt = attempts p then (s', [], Inl (Some e))
          else case retry_loop p rnd retry_on fn rest (Some e) s' of
            (s'', delays, r) \<Rightarrow> (s'', delay_for p (rnd attempt) attempt # delays, r))"

definition retry_async :: "retry_policy \<Rightarrow> (int \<Rightarrow> rat) \<Rightarrow> ('e \<Rightarrow> bool) \<Rightarrow> ('s \<Rightarrow> 's \<times> ('e + 'a)) \<Rightarrow> 's \<Rightarrow>
    's \<times> rat list \<times> ('e option + 'a)" where
  "retry_async p rnd retry_on fn s = retry_loop p rnd retry_on fn [1..attempts p] None s"

section \<open>The circuit breaker\<close>

record breaker =
  failure_threshold :: int
  reset_timeout :: rat
  br_name :: string
  br_failures :: int
  opened_at :: "rat option"

text \<open>The property \<open>is_open\<close> half-opens the circuit as a side effect once the cooldown is over.\<close>

definition br_is_open :: "rat \<Rightarrow> breaker \<Rightarrow> breaker \<times> bool" where
  "br_is_open t b = (case opened_at b of
     None \<Rightarrow> (b, False)
   | Some t0 \<Rightarrow> if t - t0 \<ge> reset_timeout b
       then (b\<lparr>opened_at := None, br_failures := failure_threshold b - 1\<rparr>, False) else (b, True))"

definition record_success :: "breaker \<Rightarrow> breaker" where
  "record_success b = b\<lparr>br_failures := 0, opened_at := None\<rparr>"

definition record_failure :: "rat \<Rightarrow> breaker \<Rightarrow> breaker" where
  "record_failure t b = (let b' = b\<lparr>br_failures := br_failures b + 1\<rparr> in
     if br_failures b' \<ge> failure_threshold b' \<and> opened_at b' = None then b'\<lparr>opened_at := Some t\<rparr> else b')"

definition br_guard :: "rat \<Rightarrow> breaker \<Rightarrow> breaker \<times> string option" where
  "br_guard t b = (case br_is_open t b of (b', open_now) \<Rightarrow>
     (b', if open_now then Some (''circuit '' @ [CHR 0x27] @ br_name b @ [CHR 0x27] @ '' is open'') else None))"

section \<open>The blockchain-service client\<close>

text \<open>What a request to the other service can end in, and what the client makes of it.\<close>

datatype http_outcome =
    Response int "payload option"
  | TransportFailure string
  | OtherHttpFailure string

datatype call_error =
    TransportError string
  | HttpError string
  | RetryableError string
  | PermanentError string
  | JsonError

definition client_headers :: "string \<Rightarrow> env \<Rightarrow> (string \<times> string) list" where
  "client_headers internal_key \<Gamma> = (''X-Internal-Key'', internal_key) #
     (case get_correlation_id \<Gamma> of None \<Rightarrow> [] | Some c \<Rightarrow> if c = [] then [] else [(''X-Correlation-ID'', c)])"

definition read_response :: "http_outcome \<Rightarrow> call_error + payload" where
  "read_response resp =
     (case resp of
        TransportFailure m \<Rightarrow> Inl (TransportError m)
      | OtherHttpFailure m \<Rightarrow> Inl (HttpError m)
      | Response status body \<Rightarrow>
          if 500 \<le> status then Inl (RetryableError (''blockchain-service returned '' @ py_str status))
          else if 400 \<le> status then Inl (PermanentError (''blockchain-service rejected the request: '' @ py_str status))
          else case body of None \<Rightarrow> Inl JsonError | Some b \<Rightarrow> Inr b)"

definition retryable :: "call_error \<Rightarrow> bool" where
  "retryable e = (case e of TransportError _ \<Rightarrow> True | RetryableError _ \<Rightarrow> True | _ \<Rightarrow> False)"

definition address_policy :: retry_policy where
  "address_policy = \<lparr>attempts = 3, base_delay = 1/5, max_delay = 3/2, jitter = 1/4\<rparr>"

text \<open>
  \<open>create_address\<close>: the transport is a parameter, a server whose state the request may
  change even when the response is lost.
\<close>

definition create_address :: "('s \<Rightarrow> (string \<times> string) list \<Rightarrow> payload \<Rightarrow> 's \<times> http_outcome) \<Rightarrow> string \<Rightarrow> (int \<Rightarrow> rat) \<Rightarrow> env \<Rightarrow>
    string \<Rightarrow> string \<Rightarrow> 's \<Rightarrow> 's \<times> payload result" where
  "create_address post internal_key rnd \<Gamma> owner_ref network s =
     (let body = [(''owner_ref'', JStr owner_ref), (''network'', JStr network)];
          call = (\<lambda>s. case post s (client_headers internal_key \<Gamma>) body of (s', resp) \<Rightarrow> (s', read_response resp)) in
      case retry_async address_policy rnd retryable call s of
        (s', _, Inr b) \<Rightarrow> (s', Inr b)
      | (s', _, Inl None) \<Rightarrow> (s', Inl AssertionError)
      | (s', _, Inl (Some JsonError)) \<Rightarrow> (s', Inl (ValueError ''Expecting value''))
      | (s', _, Inl (Some _)) \<Rightarrow> (s', Inl (app_exn UpstreamUnavailableError
          ''blockchain-service could not issue an address. No wallet was created; retry the request.'' [])))"

definition ping :: "('s \<Rightarrow> http_outcome) \<Rightarrow> 's \<Rightarrow> bool" where
  "ping get s = (case get s of Response status _ \<Rightarrow> status = 200 | _ \<Rightarrow> False)"

section \<open>Retries are bounded\<close>

text \<open>The state before the \<open>n\<close>-th further call, and what that call answers.\<close>

definition state_after :: "('s \<Rightarrow> 's \<times> 'r) \<Rightarrow> nat \<Rightarrow> 's \<Rightarrow> 's" where
  "state_after fn n s = ((fst \<circ> fn) ^^ n) s"

definition answer :: "('s \<Rightarrow> 's \<times> 'r) \<Rightarrow> nat \<Rightarrow> 's \<Rightarrow> 'r" where
  "answer fn n s = snd (fn (state_after fn n s))"

lemma state_after_0 [simp]: "state_after fn 0 s = s"
  by (simp add: state_after_def)

lemma state_after_Suc: "state_after fn (Suc n) s = state_after fn n (fst (fn s))"
  by (simp add: state_after_def funpow_swap1)

lemma answer_Suc: "answer fn (Suc n) s = answer fn n (fst (fn s))"
  by (simp add: answer_def state_after_Suc)

lemma answer_0: "answer fn 0 s = snd (fn s)"
  by (simp add: answer_def)

definition retried :: "('e \<Rightarrow> bool) \<Rightarrow> 'e + 'a \<Rightarrow> bool" where
  "retried retry_on r = (case r of Inl e \<Rightarrow> retry_on e | Inr _ \<Rightarrow> False)"

lemma upto_last: "[i..n] = a # as \<Longrightarrow> a = i \<and> as = [i + 1..n] \<and> i \<le> n"
  by (metis list.distinct(1) list.inject upto_rec1 upto_empty linorder_not_less)

lemma retry_loop_spec:
  assumes "i \<le> attempts p" and "retry_loop p rnd retry_on fn [i..attempts p] prev s = (s', delays, r)"
  shows "\<exists>n. int n \<le> attempts p - i \<and> s' = state_after fn (Suc n) s \<and>
    delays = map (\<lambda>k. delay_for p (rnd k) k) [i..i + int n - 1] \<and>
    r = (case answer fn n s of Inl e \<Rightarrow> Inl (Some e) | Inr v \<Rightarrow> Inr v) \<and>
    (\<forall>k<n. retried retry_on (answer fn k s)) \<and> (retried retry_on (answer fn n s) \<longrightarrow> int n = attempts p - i)"
  using assms
proof (induction "nat (attempts p - i)" arbitrary: i prev s s' delays r)
  case 0
  then have i: "i = attempts p" by simp
  obtain s1 a where fn: "fn s = (s1, a)" by fastforce
  from 0 i fn show ?case
    by (intro exI [of _ 0]) (cases a, auto simp: state_after_Suc answer_0)
next
  case (Suc m)
  then have lt: "i < attempts p" and m: "m = nat (attempts p - (i + 1))" by simp_all
  obtain s1 a where fn: "fn s = (s1, a)" by fastforce
  have l: "[i..attempts p] = i # [i + 1..attempts p]" using lt by (simp add: upto_rec1)
  show ?case
  proof (cases "retried retry_on a")
    case False
    with Suc.prems(2) fn lt l show ?thesis
      by (intro exI [of _ 0]) (cases a, auto simp: state_after_Suc answer_0 retried_def)
  next
    case True
    then obtain e where a: "a = Inl e" "retry_on e" by (auto simp: retried_def split: sum.splits)
    obtain d where rec: "retry_loop p rnd retry_on fn [i + 1..attempts p] (Some e) s1 = (s', d, r)"
      and d: "delays = delay_for p (rnd i) i # d"
      using Suc.prems(2) fn lt a unfolding l by (auto split: prod.splits)
    have le: "i + 1 \<le> attempts p" using lt by simp
    from Suc.hyps(1) [OF m le rec] obtain n where n: "int n \<le> attempts p - (i + 1)" "s' = state_after fn (Suc n) s1"
      "d = map (\<lambda>k. delay_for p (rnd k) k) [i + 1..i + 1 + int n - 1]"
      "r = (case answer fn n s1 of Inl e \<Rightarrow> Inl (Some e) | Inr v \<Rightarrow> Inr v)"
      "\<forall>k<n. retried retry_on (answer fn k s1)" "retried retry_on (answer fn n s1) \<longrightarrow> int n = attempts p - (i + 1)"
      by blast
    have "\<forall>k<Suc n. retried retry_on (answer fn k s)"
      using n(5) True fn by (auto simp: less_Suc_eq_0_disj answer_0 answer_Suc)
    then show ?thesis using n d fn
      by (intro exI [of _ "Suc n"]) (auto simp: state_after_Suc answer_Suc upto_rec1)
  qed
qed

text \<open>
  Property C40. Retries are bounded and stop early: \<open>retry_async\<close> makes at least one and at most
  \<open>attempts\<close> calls; all but the last ended in a retryable error, the last one is a success, a
  permanent error, or the last attempt the policy allows; its answer is the result; and one
  delay was slept between any two calls.
\<close>

theorem retry_bounded:
  assumes "1 \<le> attempts p" and "retry_async p rnd retry_on fn s = (s', delays, r)"
  shows "\<exists>n. 0 < n \<and> int n \<le> attempts p \<and> s' = state_after fn n s \<and>
    delays = map (\<lambda>k. delay_for p (rnd k) k) [1..int n - 1] \<and>
    r = (case answer fn (n - 1) s of Inl e \<Rightarrow> Inl (Some e) | Inr v \<Rightarrow> Inr v) \<and>
    (\<forall>k<n - 1. retried retry_on (answer fn k s)) \<and> (retried retry_on (answer fn (n - 1) s) \<longrightarrow> int n = attempts p)"
proof -
  from retry_loop_spec [OF assms(1) assms(2) [unfolded retry_async_def]] obtain n where
    n: "int n \<le> attempts p - 1" "s' = state_after fn (Suc n) s" "delays = map (\<lambda>k. delay_for p (rnd k) k) [1..1 + int n - 1]"
      "r = (case answer fn n s of Inl e \<Rightarrow> Inl (Some e) | Inr v \<Rightarrow> Inr v)"
      "\<forall>k<n. retried retry_on (answer fn k s)" "retried retry_on (answer fn n s) \<longrightarrow> int n = attempts p - 1" by blast
  then show ?thesis by (intro exI [of _ "Suc n"]) auto
qed

theorem retry_bounded_witness:
  "\<exists>n. 0 < n \<and> int n \<le> attempts address_policy \<and>
    (2::nat, [delay_for address_policy 0 1], Inr ''ok'' :: string option + string) =
      (state_after (\<lambda>k::nat. (Suc k, if k = 0 then Inl ''down'' else Inr ''ok'')) n 0,
       map (\<lambda>k. delay_for address_policy 0 k) [1..int n - 1],
       case answer (\<lambda>k::nat. (Suc k, if k = 0 then Inl ''down'' else Inr ''ok'')) (n - 1) 0 of
         Inl e \<Rightarrow> Inl (Some e) | Inr v \<Rightarrow> Inr v)"
proof -
  have "retry_async address_policy (\<lambda>_. 0) (\<lambda>_. True) (\<lambda>k::nat. (Suc k, if k = 0 then Inl ''down'' else Inr ''ok'')) 0 =
      (2, [delay_for address_policy 0 1], Inr ''ok'')"
    by (simp add: retry_async_def address_policy_def upto_rec1)
  from retry_bounded [OF _ this] show ?thesis by (auto simp: address_policy_def)
qed

text \<open>With a random number from the unit interval every delay is positive and within the jitter of the capped back-off.\<close>

lemma delay_bounds:
  assumes "0 \<le> rnd" "rnd \<le> 1" "0 \<le> jitter p" "jitter p \<le> 1" "0 \<le> base_delay p" "0 \<le> max_delay p"
  shows "0 \<le> delay_for p rnd attempt \<and> delay_for p rnd attempt \<le> max_delay p * (1 + jitter p)"
proof -
  let ?f = "1 - jitter p + rnd * jitter p * 2"
  have raw: "0 \<le> raw_delay p attempt" "raw_delay p attempt \<le> max_delay p" using assms by (simp_all add: raw_delay_def)
  have "rnd * jitter p \<le> jitter p" "0 \<le> rnd * jitter p" using assms by (simp_all add: mult_left_le_one_le)
  then have "0 \<le> ?f" "?f \<le> 1 + jitter p" using assms by linarith+
  then show ?thesis using raw assms mult_mono [OF raw(2) \<open>?f \<le> 1 + jitter p\<close>] by (simp add: delay_for_def)
qed

section \<open>The circuit breaker fails fast\<close>

definition breaker_closed :: "breaker \<Rightarrow> bool" where
  "breaker_closed b = (0 < failure_threshold b \<and> 0 < reset_timeout b \<and> opened_at b = None \<and>
     0 \<le> br_failures b \<and> br_failures b < failure_threshold b)"

lemma failures_open:
  assumes "breaker_closed b" and "br_failures b + int (length ts) < failure_threshold b"
  shows "fold record_failure ts b = b\<lparr>br_failures := br_failures b + int (length ts)\<rparr>"
  using assms
proof (induction ts arbitrary: b)
  case (Cons t ts)
  then have "record_failure t b = b\<lparr>br_failures := br_failures b + 1\<rparr>"
    by (auto simp: record_failure_def Let_def breaker_closed_def)
  moreover have "breaker_closed (b\<lparr>br_failures := br_failures b + 1\<rparr>)" using Cons.prems by (simp add: breaker_closed_def)
  ultimately show ?case using Cons.IH [of "b\<lparr>br_failures := br_failures b + 1\<rparr>"] Cons.prems by (simp add: algebra_simps)
qed simp

text \<open>
  The circuit opens with exactly the failure that reaches the threshold: before
  it every call passes; after it every call fails fast until the cooldown has elapsed; then
  a call passes again, and a single further failure reopens the circuit at once while a
  success closes it for good.
\<close>

lemma circuit_breaker_cycle:
  assumes b: "breaker_closed b" "br_failures b = 0" and ts: "int (length ts) = failure_threshold b - 1"
  shows "snd (br_guard u (fold record_failure ts b)) = None \<and>
    (\<forall>t'. snd (br_guard t' (record_failure t (fold record_failure ts b))) = None \<longleftrightarrow> reset_timeout b \<le> t' - t) \<and>
    (\<forall>t'. reset_timeout b \<le> t' - t \<longrightarrow>
      (let half = fst (br_guard t' (record_failure t (fold record_failure ts b))) in
       (\<forall>t2. snd (br_guard t2 half) = None) \<and>
       (\<forall>t2. opened_at (record_failure t2 half) = Some t2) \<and> breaker_closed (record_success half)))"
proof -
  have f: "fold record_failure ts b = b\<lparr>br_failures := failure_threshold b - 1\<rparr>"
    using failures_open [OF b(1), of ts] b(2) ts by simp
  have o: "opened_at b = None" and th: "0 < failure_threshold b" and rt: "0 < reset_timeout b"
    using b by (simp_all add: breaker_closed_def)
  have r: "record_failure t (fold record_failure ts b) = b\<lparr>br_failures := failure_threshold b, opened_at := Some t\<rparr>"
    unfolding f using o by (simp add: record_failure_def Let_def)
  show ?thesis unfolding r unfolding f using o th rt
    by (auto simp: br_guard_def br_is_open_def record_failure_def record_success_def breaker_closed_def Let_def)
qed

section \<open>Asking for an address\<close>

text \<open>
  The call succeeds when one of the first attempts does and the earlier ones failed in a
  way that can be retried; a server that is down for all of them is reported as an upstream
  failure, which the API answers with 503.
\<close>

lemma create_address_steps:
  "create_address post key rnd \<Gamma> owner_ref network s =
     (let call = (\<lambda>s. case post s (client_headers key \<Gamma>) [(''owner_ref'', JStr owner_ref), (''network'', JStr network)] of
          (s', resp) \<Rightarrow> (s', read_response resp));
          down = app_exn UpstreamUnavailableError ''blockchain-service could not issue an address. No wallet was created; retry the request.'' [];
          stop = (\<lambda>r. case r of (s', Inr b) \<Rightarrow> (s', Inr b) | (s', Inl JsonError) \<Rightarrow> (s', Inl (ValueError ''Expecting value''))
             | (s', Inl _) \<Rightarrow> (s', Inl down));
          on = (\<lambda>r. retried retryable (snd r)) in
      if on (call s) then let s1 = fst (call s) in if on (call s1) then stop (call (fst (call s1))) else stop (call s1)
      else stop (call s))"
proof -
  let ?call = "\<lambda>s. case post s (client_headers key \<Gamma>) [(''owner_ref'', JStr owner_ref), (''network'', JStr network)] of
          (s', resp) \<Rightarrow> (s', read_response resp)"
  obtain s1 r1 where 1: "?call s = (s1, r1)" by fastforce
  obtain s2 r2 where 2: "?call s1 = (s2, r2)" by fastforce
  obtain s3 r3 where 3: "?call s2 = (s3, r3)" by fastforce
  have up: "[1..(3::int)] = [1, 2, 3]" by (simp add: upto_rec1)
  have pol: "attempts address_policy = 3" by (simp add: address_policy_def)
  note s = create_address_def Let_def retry_async_def retry_loop.simps up pol 1 2 3 retried_def
  show ?thesis
    by (cases r1; cases r2; cases r3) (auto simp: s retryable_def split: call_error.split call_error.splits)
qed

end
