(* ===== verification/RedisBus.thy ===== *)
theory RedisBus
  imports Bus
begin

text \<open>
  \<open>RedisStreamsBus\<close> of \<open>mcw_common/bus.py\<close> and the wire form of \<open>mcw_common/events.py\<close>. The
  Redis client is a parameter: a record of the commands the bus issues, on the state \<open>'r\<close> of
  the server, each with the message of the exception when it raises. The JSON form of an
  envelope is the schema library's, a parameter too.
\<close>

type_synonym fields = "(string \<times> string) list"

record 'r redis =
  xadd :: "'r \<Rightarrow> string \<Rightarrow> fields \<Rightarrow> nat \<Rightarrow> 'r \<times> string option"
  xgroup_create :: "'r \<Rightarrow> string \<Rightarrow> string \<Rightarrow> 'r \<times> string option"
  xreadgroup :: "int \<Rightarrow> 'r \<Rightarrow> string \<Rightarrow> string \<Rightarrow> string list \<Rightarrow> nat \<Rightarrow> int option \<Rightarrow>
    'r \<times> (string + (string \<times> (string \<times> fields) list) list)"
  xpending_range :: "int \<Rightarrow> 'r \<Rightarrow> string \<Rightarrow> string \<Rightarrow> nat \<Rightarrow> int \<Rightarrow> string + (string \<times> nat) list"
  xclaim :: "int \<Rightarrow> 'r \<Rightarrow> string \<Rightarrow> string \<Rightarrow> string \<Rightarrow> int \<Rightarrow> string list \<Rightarrow> 'r \<times> (string + (string \<times> fields option) list)"
  xack :: "'r \<Rightarrow> string \<Rightarrow> string \<Rightarrow> string \<Rightarrow> 'r \<times> string option"
  clock_text :: "'r \<Rightarrow> string"

record codec =
  dump_json :: "envelope \<Rightarrow> string"
  validate_json :: "string \<Rightarrow> envelope option"

section \<open>The wire form\<close>

definition to_wire :: "codec \<Rightarrow> envelope \<Rightarrow> fields" where
  "to_wire K ev = [(''body'', dump_json K ev)]"

definition from_wire :: "codec \<Rightarrow> fields \<Rightarrow> string + envelope" where
  "from_wire K fs =
     (case map_of fs ''body'' of
        None \<Rightarrow> Inl ''ValidationError''
      | Some body \<Rightarrow> (case validate_json K body of None \<Rightarrow> Inl ''ValidationError'' | Some ev \<Rightarrow> Inr ev))"

section \<open>The operations\<close>

definition redis_publish :: "'r redis \<Rightarrow> codec \<Rightarrow> nat \<Rightarrow> 'r \<Rightarrow> envelope \<Rightarrow> 'r \<times> string option" where
  "redis_publish R K max_len r ev = xadd R r (stream_for (event_type ev)) (to_wire K ev) max_len"

fun redis_ensure_group :: "'r redis \<Rightarrow> 'r \<Rightarrow> string list \<Rightarrow> string \<Rightarrow> 'r \<times> string option" where
  "redis_ensure_group R r [] g = (r, None)"
| "redis_ensure_group R r (ty # tys) g =
     (case xgroup_create R r (stream_for ty) g of
        (r1, Some e) \<Rightarrow> if py_in ''BUSYGROUP'' e then redis_ensure_group R r1 tys g else (r1, Some e)
      | (r1, None) \<Rightarrow> redis_ensure_group R r1 tys g)"

fun delivered_of :: "codec \<Rightarrow> string \<Rightarrow> (string \<times> fields) list \<Rightarrow> string + delivered_event list" where
  "delivered_of K s [] = Inr []"
| "delivered_of K s ((m, fs) # rest) =
     bindr (from_wire K fs) (\<lambda>ev. bindr (delivered_of K s rest) (\<lambda>ds.
       Inr (\<lparr>d_stream = s, d_message_id = m, d_envelope = ev, d_delivery_count = 1\<rparr> # ds)))"

fun delivered_in :: "codec \<Rightarrow> (string \<times> (string \<times> fields) list) list \<Rightarrow> string + delivered_event list" where
  "delivered_in K [] = Inr []"
| "delivered_in K ((s, messages) # rest) =
     bindr (delivered_of K s messages) (\<lambda>ds. bindr (delivered_in K rest) (\<lambda>es. Inr (ds @ es)))"

text \<open>The streams are the keys of a dictionary: every stream once, in the order of its first occurrence.\<close>

definition redis_read_new :: "'r redis \<Rightarrow> codec \<Rightarrow> int \<Rightarrow> 'r \<Rightarrow> string list \<Rightarrow> string \<Rightarrow> string \<Rightarrow> nat \<Rightarrow> int \<Rightarrow> 'r \<times> (string + delivered_event list)" where
  "redis_read_new R K t r tys g consumer cnt block_ms =
     (if tys = [] then (r, Inr [])
      else case xreadgroup R t r g consumer (rev (remdups (rev (map stream_for tys)))) cnt (if 0 < block_ms then Some block_ms else None) of
        (r1, Inl e) \<Rightarrow> (r1, Inl e)
      | (r1, Inr response) \<Rightarrow> (r1, delivered_in K response))"

text \<open>The loop over the claimed messages: an entry whose message was trimmed away is acknowledged and dropped.\<close>

fun claimed_loop :: "'r redis \<Rightarrow> codec \<Rightarrow> string \<Rightarrow> string \<Rightarrow> (string \<times> nat) list \<Rightarrow> (string \<times> fields option) list \<Rightarrow> 'r \<Rightarrow>
    'r \<times> (string + delivered_event list)" where
  "claimed_loop R K s g counts [] r = (r, Inr [])"
| "claimed_loop R K s g counts ((m, fs) # rest) r =
     (if fs = None \<or> fs = Some []
      then case xack R r s g m of (r1, Some e) \<Rightarrow> (r1, Inl e) | (r1, None) \<Rightarrow> claimed_loop R K s g counts rest r1
      else case from_wire K (the fs) of
        Inl e \<Rightarrow> (r, Inl e)
      | Inr ev \<Rightarrow>
          (case claimed_loop R K s g counts rest r of
             (r1, Inl e) \<Rightarrow> (r1, Inl e)
           | (r1, Inr ds) \<Rightarrow> (r1, Inr (\<lparr>d_stream = s, d_message_id = m, d_envelope = ev,
               d_delivery_count = (case map_of counts m of Some n \<Rightarrow> n | None \<Rightarrow> 1)\<rparr> # ds))))"

definition redis_claim_type :: "'r redis \<Rightarrow> codec \<Rightarrow> int \<Rightarrow> string \<Rightarrow> string \<Rightarrow> int \<Rightarrow> nat \<Rightarrow> string \<Rightarrow> 'r \<Rightarrow> 'r \<times> (string + delivered_event list)" where
  "redis_claim_type R K t g consumer min_idle cnt ty r =
     (let s = stream_for ty in
      case xpending_range R t r s g cnt min_idle of
        Inl e \<Rightarrow> (r, Inl e)
      | Inr counts \<Rightarrow>
          if counts = [] then (r, Inr [])
          else case xclaim R t r s g consumer min_idle (map fst counts) of
            (r1, Inl e) \<Rightarrow> (r1, Inl e)
          | (r1, Inr claimed) \<Rightarrow> claimed_loop R K s g counts claimed r1)"

fun redis_claim_stale :: "'r redis \<Rightarrow> codec \<Rightarrow> int \<Rightarrow> 'r \<Rightarrow> string list \<Rightarrow> string \<Rightarrow> string \<Rightarrow> int \<Rightarrow> nat \<Rightarrow>
    'r \<times> (string + delivered_event list \<times> delivered_event list)" where
  "redis_claim_stale R K t r [] g consumer min_idle cnt = (r, Inr ([], []))"
| "redis_claim_stale R K t r (ty # tys) g consumer min_idle cnt =
     (case redis_claim_type R K t g consumer min_idle cnt ty r of
        (r1, Inl e) \<Rightarrow> (r1, Inl e)
      | (r1, Inr ds) \<Rightarrow>
          (case redis_claim_stale R K t r1 tys g consumer min_idle cnt of
             (r2, Inl e) \<Rightarrow> (r2, Inl e)
           | (r2, Inr (retryable, exhausted)) \<Rightarrow> (r2, Inr (ds @ retryable, exhausted))))"

definition redis_dead_letter :: "'r redis \<Rightarrow> codec \<Rightarrow> string \<Rightarrow> nat \<Rightarrow> 'r \<Rightarrow> string \<Rightarrow> dead_letter_item \<Rightarrow> 'r \<times> string option" where
  "redis_dead_letter R K dlq_stream max_len r g item =
     xadd R r (dlq_stream @ '':'' @ g)
       [(''body'', dump_json K (dl_envelope item)), (''error'', take 2000 (dl_error item)),
        (''delivery_count'', py_str (int (dl_delivery_count item))), (''dead_lettered_at'', clock_text R r)] max_len"

definition RedisStreamsBus :: "'r redis \<Rightarrow> codec \<Rightarrow> string \<Rightarrow> nat \<Rightarrow> 'r event_bus" where
  "RedisStreamsBus R K dlq_stream max_len =
     \<lparr>eb_publish = redis_publish R K max_len, eb_ensure_group = redis_ensure_group R,
      eb_read_new = redis_read_new R K, eb_claim_stale = redis_claim_stale R K,
      eb_ack = (\<lambda>r s g m. xack R r s g m), eb_dead_letter = redis_dead_letter R K dlq_stream max_len\<rparr>"

section \<open>What claiming and reading hand out\<close>

lemma wire_round_trip: "validate_json K (dump_json K ev) = Some ev \<Longrightarrow> from_wire K (to_wire K ev) = Inr ev"
  by (simp add: from_wire_def to_wire_def)

lemma delivered_of_fresh:
  "delivered_of K s ms = Inr ds \<Longrightarrow>
     map (\<lambda>d. (d_stream d, d_message_id d)) ds = map (\<lambda>(m, fs). (s, m)) ms \<and> (\<forall>d\<in>set ds. d_delivery_count d = 1)"
  by (induction K s ms arbitrary: ds rule: delivered_of.induct) (auto simp: bindr_eq_Inr)

text \<open>A message that was never reclaimed is handed out with count one, whatever was delivered before.\<close>

lemma read_new_counts:
  assumes "redis_read_new R K t r tys g consumer cnt block = (r', Inr ds)"
  shows "\<forall>d\<in>set ds. d_delivery_count d = 1"
proof -
  have "delivered_in K response = Inr es \<Longrightarrow> \<forall>d\<in>set es. d_delivery_count d = 1" for response es
    by (induction K response arbitrary: es rule: delivered_in.induct) (auto simp: bindr_eq_Inr dest!: delivered_of_fresh)
  with assms show ?thesis by (auto simp: redis_read_new_def split: if_splits prod.splits sum.splits)
qed

lemma claimed_loop_counts:
  "\<lbrakk>claimed_loop R K s g counts claimed r = (r', Inr ds); set (map fst claimed) \<subseteq> set (map fst counts)\<rbrakk> \<Longrightarrow>
     \<forall>d\<in>set ds. d_stream d = s \<and> map_of counts (d_message_id d) = Some (d_delivery_count d)"
proof (induction R K s g counts claimed r arbitrary: r' ds rule: claimed_loop.induct)
  case (2 R K s g counts m fs rest r)
  have "m \<in> set (map fst counts)" using 2(4) by auto
  then obtain n where "map_of counts m = Some n" by (cases "map_of counts m") (auto simp: map_of_eq_None_iff)
  with 2 show ?case by (auto split: if_splits prod.splits sum.splits option.splits)
qed simp

text \<open>
  A reclaimed message is handed out with the count that the server reported before the claim,
  and no message is ever reported as exhausted.
\<close>

lemma claim_type_counts:
  assumes "redis_claim_type R K t g consumer min_idle cnt ty r = (r', Inr ds)"
    and claims: "\<And>ms r1 claimed. xclaim R t r (stream_for ty) g consumer min_idle ms = (r1, Inr claimed) \<Longrightarrow> set (map fst claimed) \<subseteq> set ms"
    and d: "d \<in> set ds"
  shows "\<exists>counts. xpending_range R t r (stream_for ty) g cnt min_idle = Inr counts \<and>
    map_of counts (d_message_id d) = Some (d_delivery_count d) \<and> d_stream d = stream_for ty"
proof -
  obtain counts r1 claimed where p: "xpending_range R t r (stream_for ty) g cnt min_idle = Inr counts"
    "xclaim R t r (stream_for ty) g consumer min_idle (map fst counts) = (r1, Inr claimed)"
    "claimed_loop R K (stream_for ty) g counts claimed r1 = (r', Inr ds)"
    using assms(1) d by (auto simp: redis_claim_type_def Let_def split: sum.splits if_splits prod.splits)
  have "set (map fst claimed) \<subseteq> set (map fst counts)" using claims [OF p(2)] by simp
  from claimed_loop_counts [OF p(3) this] p(1) d show ?thesis by auto
qed

lemma claim_stale_exhausted: "redis_claim_stale R K t r tys g consumer min_idle cnt = (r', Inr (ds, exhausted)) \<Longrightarrow> exhausted = []"
  by (induction R K t r tys g consumer min_idle cnt arbitrary: r' ds exhausted rule: redis_claim_stale.induct) (auto split: prod.splits sum.splits)

section \<open>A message that cannot be read\<close>

text \<open>Whether a claimed entry carries fields that are no envelope.\<close>

definition undecodable :: "codec \<Rightarrow> string \<times> fields option \<Rightarrow> bool" where
  "undecodable K e = (case snd e of None \<Rightarrow> False | Some fs \<Rightarrow> fs \<noteq> [] \<and> (\<exists>x. from_wire K fs = Inl x))"

lemma claimed_loop_raises:
  "\<exists>e\<in>set claimed. undecodable K e \<Longrightarrow> \<exists>r' x. claimed_loop R K s g counts claimed r = (r', Inl x)"
proof (induction R K s g counts claimed r rule: claimed_loop.induct)
  case (2 R K s g counts m fs rest r)
  show ?case
  proof (cases "undecodable K (m, fs)")
    case True
    then show ?thesis by (auto simp: undecodable_def split: option.splits)
  next
    case False
    then have rest: "\<exists>e\<in>set rest. undecodable K e" using 2(3) by auto
    show ?thesis
    proof (cases "fs = None \<or> fs = Some []")
      case True
      obtain r1 m1 where "xack R r s g m = (r1, m1)" by fastforce
      then show ?thesis using True 2(1) rest by (cases m1) auto
    next
      case f: False
      then obtain ev where ev: "from_wire K (the fs) = Inr ev" using False by (cases "from_wire K (the fs)") (auto simp: undecodable_def)
      from 2(2) [OF f ev rest] f ev show ?thesis by auto
    qed
  qed
qed simp

text \<open>
  A message in a stream that is no envelope stops the consumer: whenever such
  a message is among the idle messages that a round claims from the first stream, the round
  raises, and none of the messages it claimed or would have read is handed to the handler,
  however many of them are well formed.
\<close>

lemma unreadable_message_blocks:
  assumes "c_event_types c = ty # tys"
    and "xpending_range R t r (stream_for ty) (c_group c) (c_batch c) (c_claim_idle_ms c) = Inr counts" and "counts \<noteq> []"
    and "xclaim R t r (stream_for ty) (c_group c) (c_name c) (c_claim_idle_ms c) (map fst counts) = (after, Inr claimed)"
    and "e \<in> set claimed" and "undecodable K e"
  shows "\<exists>r' x. consumer_run_once (RedisStreamsBus R K dlq_stream max_len) c dispatch on_dl t block True r s = (True, r', s, Inl x)"
proof -
  obtain r' x where "claimed_loop R K (stream_for ty) (c_group c) counts claimed after = (r', Inl x)"
    using claimed_loop_raises [of claimed K R "stream_for ty" "c_group c" counts after] assms(5,6) by auto
  then show ?thesis using assms(1-4) by (auto simp: consumer_run_once_def RedisStreamsBus_def start_def redis_claim_type_def)
qed

end
