(* ===== verification/Logging.thy ===== *)
theory Logging
  imports Events
begin

text \<open>
  \<open>mcw_common/logging.py\<close>: the redaction of log events. \<open>scrub\<close> is the substitution of the
  pattern for 32-byte hexadecimal words, with the word boundaries of the regular expression
  decided by the character before the position; \<open>redact\<close> is the recursion over a payload.
\<close>

section \<open>Patterns\<close>

text \<open>The alternatives of \<open>_SENSITIVE_KEY_RE\<close>; the optional separator is written out.\<close>

definition SENSITIVE_WORDS :: "string list" where
  "SENSITIVE_WORDS = [''privatekey'', ''private_key'', ''private-key'', ''privkey'', ''priv_key'', ''priv-key'', ''secret'', ''password'',
     ''passwd'', ''mnemonic'', ''seed'', ''apikey'', ''api_key'', ''api-key'', ''authorization'', ''token'', ''credential'', ''keystore'']"

definition sensitive_key :: "string \<Rightarrow> bool" where
  "sensitive_key key = list_ex (\<lambda>w. py_in w (py_lower key)) SENSITIVE_WORDS"

definition REDACTED :: string where "REDACTED = ''***REDACTED***''"

definition HASH_FIELDS :: "string list" where
  "HASH_FIELDS = [''tx_hash'', ''block_hash'', ''parent_hash'', ''hash'', ''request_hash'', ''payload_hash'']"

text \<open>A word character of the pattern, for the code points below 256, and a hexadecimal digit.\<close>

definition word_char :: "char \<Rightarrow> bool" where
  "word_char c = (let n = of_char c :: nat in
     (48 \<le> n \<and> n \<le> 57) \<or> (65 \<le> n \<and> n \<le> 90) \<or> n = 95 \<or> (97 \<le> n \<and> n \<le> 122) \<or> n \<in> {170, 178, 179, 181, 185, 186, 188, 189, 190} \<or>
     (192 \<le> n \<and> n \<noteq> 215 \<and> n \<noteq> 247))"

definition hex_char :: "char \<Rightarrow> bool" where
  "hex_char c = (case char_digit c of Some d \<Rightarrow> d < 16 | None \<Rightarrow> False)"

text \<open>Sixty-four hexadecimal digits and a word boundary: what is left after them.\<close>

definition hex64 :: "string \<Rightarrow> string option" where
  "hex64 s = (if length (take 64 s) = 64 \<and> list_all hex_char (take 64 s) \<and> (drop 64 s = [] \<or> \<not> word_char (hd (drop 64 s)))
     then Some (drop 64 s) else None)"

definition secret_at :: "string \<Rightarrow> string option" where
  "secret_at s = (case (if take 2 s = ''0x'' then hex64 (drop 2 s) else None) of Some rest \<Rightarrow> Some rest | None \<Rightarrow> hex64 s)"

lemma hex64_length: "hex64 s = Some rest \<Longrightarrow> length rest < length s"
  by (auto simp: hex64_def split: if_splits)

lemma secret_at_length: "secret_at s = Some rest \<Longrightarrow> length rest < length s"
  by (auto simp: secret_at_def split: if_splits option.splits dest!: hex64_length)

section \<open>Substitution and redaction\<close>

text \<open>\<open>_HEX32_RE.sub\<close>; the flag says whether the character before the position is a word character.\<close>

function scrub :: "bool \<Rightarrow> string \<Rightarrow> string" where
  "scrub prev [] = []"
| "scrub prev (c # cs) =
     (case (if prev \<noteq> word_char c then secret_at (c # cs) else None) of
        Some rest \<Rightarrow> REDACTED @ scrub True rest
      | None \<Rightarrow> c # scrub (word_char c) cs)"
  by pat_completeness auto
termination
  by (relation "measure (\<lambda>(prev, s). length s)") (auto split: if_splits dest: secret_at_length)

text \<open>The payload of a log event: texts, dictionaries, sequences, and values that are not texts.\<close>

datatype pyobj = PStr string | PDict "(string \<times> pyobj) list" | PList "pyobj list" | PTuple "pyobj list" | POther int

definition scrub_value :: "pyobj \<Rightarrow> pyobj" where
  "scrub_value v = (case v of PStr s \<Rightarrow> PStr (scrub False s) | _ \<Rightarrow> v)"

definition by_key :: "string option \<Rightarrow> bool" where
  "by_key key = (case key of None \<Rightarrow> False | Some k \<Rightarrow> sensitive_key k)"

definition hash_field :: "string option \<Rightarrow> bool" where
  "hash_field key = (case key of None \<Rightarrow> False | Some k \<Rightarrow> k \<in> set HASH_FIELDS)"

fun redact :: "string option \<Rightarrow> pyobj \<Rightarrow> pyobj" where
  "redact key (PDict kvs) = (if by_key key then PStr REDACTED else PDict (map (\<lambda>(k, v). (k, redact (Some k) v)) kvs))"
| "redact key (PList vs) = (if by_key key then PStr REDACTED else PList (map (redact None) vs))"
| "redact key (PTuple vs) = (if by_key key then PStr REDACTED else PTuple (map (redact None) vs))"
| "redact key v = (if by_key key then PStr REDACTED else if hash_field key then v else scrub_value v)"

definition redaction_processor :: "(string \<times> pyobj) list \<Rightarrow> (string \<times> pyobj) list" where
  "redaction_processor event_dict = map (\<lambda>(k, v). (k, redact (Some k) v)) event_dict"

definition correlation_processor :: "env \<Rightarrow> (string \<times> pyobj) list \<Rightarrow> (string \<times> pyobj) list" where
  "correlation_processor \<Gamma> event_dict =
     (case cid \<Gamma> of
        None \<Rightarrow> event_dict
      | Some c \<Rightarrow> if c \<noteq> [] \<and> map_of event_dict ''correlation_id'' = None then event_dict @ [(''correlation_id'', PStr c)] else event_dict)"

section \<open>No word of the pattern is left\<close>

text \<open>Whether the pattern occurs in a text, and in a payload at a place that is not a hash field.\<close>

fun leaks :: "bool \<Rightarrow> string \<Rightarrow> bool" where
  "leaks prev [] = False"
| "leaks prev (c # cs) = ((prev \<noteq> word_char c \<and> secret_at (c # cs) \<noteq> None) \<or> leaks (word_char c) cs)"

fun clean :: "string option \<Rightarrow> pyobj \<Rightarrow> bool" where
  "clean key (PStr s) = ((by_key key \<longrightarrow> s = REDACTED) \<and> (hash_field key \<or> \<not> leaks False s))"
| "clean key (PDict kvs) = (\<not> by_key key \<and> list_all (\<lambda>(k, v). clean (Some k) v) kvs)"
| "clean key (PList vs) = (\<not> by_key key \<and> list_all (clean None) vs)"
| "clean key (PTuple vs) = (\<not> by_key key \<and> list_all (clean None) vs)"
| "clean key (POther n) = (\<not> by_key key)"

lemma hex_word: "hex_char c \<Longrightarrow> word_char c"
  by (auto simp: hex_char_def char_digit_def word_char_def Let_def split: if_splits)

text \<open>The pattern matches a position after a non-word character exactly when the whole word there has its form.\<close>

definition key_word :: "string \<Rightarrow> bool" where
  "key_word w = ((length w = 64 \<and> list_all hex_char w) \<or> (take 2 w = ''0x'' \<and> length w = 66 \<and> list_all hex_char (drop 2 w)))"

lemma hex64_word: "hex64 s = (if length (takeWhile word_char s) = 64 \<and> list_all hex_char (takeWhile word_char s) then Some (dropWhile word_char s) else None)"
proof -
  have fwd: "takeWhile word_char s = take 64 s \<and> dropWhile word_char s = drop 64 s" if "hex64 s \<noteq> None"
  proof -
    have all: "\<forall>c\<in>set (take 64 s). word_char c" using that hex_word by (auto simp: hex64_def list_all_iff split: if_splits)
    have stop: "takeWhile word_char (drop 64 s) = []" using that by (cases "drop 64 s") (auto simp: hex64_def split: if_splits)
    have "takeWhile word_char (take 64 s @ drop 64 s) = take 64 s" using all stop by (subst takeWhile_append2) auto
    then have t: "takeWhile word_char s = take 64 s" by simp
    then have "take 64 s @ dropWhile word_char s = take 64 s @ drop 64 s" by (metis append_take_drop_id takeWhile_dropWhile_id)
    then have "dropWhile word_char s = drop 64 s" by (rule same_append_eq [THEN iffD1])
    with t show ?thesis by simp
  qed
  have bwd: "hex64 s = Some (dropWhile word_char s)" if l: "length (takeWhile word_char s) = 64" and h: "list_all hex_char (takeWhile word_char s)"
  proof -
    have "take 64 s = takeWhile word_char s" "drop 64 s = dropWhile word_char s"
      using l takeWhile_dropWhile_id [of word_char s] by (metis append_eq_conv_conj)+
    then show ?thesis using l h hd_dropWhile [of word_char s] by (auto simp: hex64_def)
  qed
  show ?thesis
  proof (cases "hex64 s")
    case None
    then show ?thesis using bwd by auto
  next
    case (Some r)
    then have "takeWhile word_char s = take 64 s" "dropWhile word_char s = drop 64 s" using fwd by auto
    then show ?thesis using Some by (auto simp: hex64_def split: if_splits)
  qed
qed

lemma secret_at_word: "secret_at s = (if key_word (takeWhile word_char s) then Some (dropWhile word_char s) else None)"
proof (cases "take 2 s = ''0x''")
  case True
  then obtain t where s: "s = CHR ''0'' # CHR ''x'' # t" by (cases s; cases "tl s") auto
  have w: "word_char CHR ''0''" "word_char CHR ''x''" "\<not> hex_char CHR ''x''" by code_simp+
  show ?thesis by (simp add: s secret_at_def key_word_def hex64_word w)
next
  case False
  have "take 2 (takeWhile word_char s) \<noteq> ''0x''"
  proof
    assume "take 2 (takeWhile word_char s) = ''0x''"
    then have "take 2 s = ''0x''" by (cases s; cases "tl s") (auto split: if_splits)
    with False show False by simp
  qed
  with False show ?thesis by (simp add: secret_at_def key_word_def hex64_word)
qed

lemma secret_nonword: "\<not> word_char c \<Longrightarrow> secret_at (c # cs) = None"
  by (simp add: secret_at_word key_word_def)

lemma scrub_run: "takeWhile word_char (scrub True cs) = takeWhile word_char cs"
  by (induction cs) (auto simp: secret_nonword)

lemma leaks_redacted: "leaks False (REDACTED @ t) = leaks False t"
proof -
  have w: "\<not> word_char CHR ''*''" "word_char CHR ''R''" "word_char CHR ''E''" "word_char CHR ''D''" "word_char CHR ''A''" "word_char CHR ''C''" "word_char CHR ''T''"
    by code_simp+
  show ?thesis by (simp add: REDACTED_def w secret_at_word key_word_def)
qed

lemma leaks_nonword: "t = [] \<or> \<not> word_char (hd t) \<Longrightarrow> leaks False t \<Longrightarrow> leaks True t"
  by (cases t) auto

lemma scrub_leaves_none: "\<not> leaks prev (scrub prev s)"
proof (induction prev s rule: scrub.induct)
  case (2 prev c cs)
  show ?case
  proof (cases "if prev \<noteq> word_char c then secret_at (c # cs) else None")
    case None
    have rest: "\<not> leaks (word_char c) (scrub (word_char c) cs)" using 2(1) [OF None] .
    have step: "scrub prev (c # cs) = c # scrub (word_char c) cs" using None by simp
    have "prev \<noteq> word_char c \<Longrightarrow> secret_at (c # scrub (word_char c) cs) = None"
      using None by (cases "word_char c") (auto simp: secret_at_word secret_nonword scrub_run split: if_splits)
    with rest show ?thesis unfolding step by (cases "prev = word_char c") simp_all
  next
    case (Some rest)
    then have r: "secret_at (c # cs) = Some rest" "prev \<noteq> word_char c" by (auto split: if_splits)
    then have "word_char c" using secret_nonword [of c cs] by auto
    with r have p: "prev = False" by simp
    have ih: "\<not> leaks True (scrub True rest)" using 2(2) [OF Some] .
    have "rest = [] \<or> \<not> word_char (hd rest)" using r(1) hd_dropWhile [of word_char "c # cs"] by (auto simp: secret_at_word split: if_splits)
    then have "scrub True rest = [] \<or> \<not> word_char (hd (scrub True rest))" by (cases rest) (auto simp: secret_nonword)
    then show ?thesis using Some ih leaks_nonword p by (auto simp: leaks_redacted)
  qed
qed simp


text \<open>A text without such a word is logged as it is, so hashes glued to a letter and ordinary texts stay readable.\<close>

lemma scrub_id: "\<not> leaks prev s \<Longrightarrow> scrub prev s = s"
  by (induction s arbitrary: prev) (auto split: option.splits)

end
