(* ===== verification/ChainDb.thy ===== *)
theory ChainDb
  imports Outbox Assets Money
begin

text \<open>
  The schema of the blockchain service (\<open>blockchain_service/models.py\<close> and the initial
  migration): a record per table row and the database as a record of tables. The tables of
  the simulated node are in the theory of the mock chain.
\<close>

datatype deposit_status = DepDetected | DepConfirmed | DepReorged

datatype tx_status = TxCreated | TxPending | TxBroadcasted | TxConfirmed | TxFailed | TxReorged

primrec deposit_status_name :: "deposit_status \<Rightarrow> string" where
  "deposit_status_name DepDetected = ''DETECTED''"
| "deposit_status_name DepConfirmed = ''CONFIRMED''"
| "deposit_status_name DepReorged = ''REORGED''"

primrec tx_status_name :: "tx_status \<Rightarrow> string" where
  "tx_status_name TxCreated = ''CREATED''"
| "tx_status_name TxPending = ''PENDING''"
| "tx_status_name TxBroadcasted = ''BROADCASTED''"
| "tx_status_name TxConfirmed = ''CONFIRMED''"
| "tx_status_name TxFailed = ''FAILED''"
| "tx_status_name TxReorged = ''REORGED''"

record address_row =
  ad_id :: uuid
  ad_owner_ref :: string
  ad_network :: string
  ad_address :: string
  ad_derivation :: string
  ad_status :: string
  ad_created_at :: int

record key_material =
  km_address :: string
  km_encrypted_private_key :: string
  km_key_version :: int
  km_created_at :: int

record deposit =
  d_id :: uuid
  d_network :: string
  d_asset :: string
  d_tx_hash :: string
  d_log_index :: int
  d_to_address :: string
  d_from_address :: "string option"
  d_amount :: int
  d_block_number :: int
  d_block_hash :: string
  d_confirmations :: int
  d_status :: deposit_status
  d_first_seen_at :: int
  d_confirmed_at :: "int option"
  d_reorged_at :: "int option"

record outgoing =
  og_id :: uuid
  og_transfer_id :: uuid
  og_network :: string
  og_asset :: string
  og_from_address :: string
  og_to_address :: string
  og_amount :: int
  og_tx_hash :: "string option"
  og_nonce :: "int option"
  og_status :: tx_status
  og_block_number :: "int option"
  og_block_hash :: "string option"
  og_confirmations :: int
  og_failure_reason :: "string option"
  og_attempts :: int
  og_next_attempt_at :: "int option"
  og_broadcast_at :: "int option"
  og_correlation_id :: "string option"
  og_created_at :: int
  og_updated_at :: int

record scan_state =
  sc_network :: string
  last_scanned_block :: int
  last_scanned_hash :: "string option"
  sc_updated_at :: int

record chain_processed =
  cp_consumer :: string
  cp_event_id :: uuid
  cp_event_type :: string
  cp_processed_at :: int

record chain_dead_letter =
  cd_id :: uuid
  cd_consumer :: string
  cd_event_id :: uuid
  cd_event_type :: string
  cd_envelope :: envelope
  cd_delivery_count :: int
  cd_error :: string
  cd_created_at :: int

text \<open>\<open>c_draws\<close> counts the random UUIDs that the service has drawn.\<close>

record cdb =
  addresses :: "address_row list"
  keys :: "key_material list"
  deposits :: "deposit list"
  outgoings :: "outgoing list"
  scans :: "scan_state list"
  c_outbox :: outbox
  c_processed :: "chain_processed list"
  c_dead_rows :: "chain_dead_letter list"
  c_draws :: nat

definition empty_cdb :: cdb where
  "empty_cdb = \<lparr>addresses = [], keys = [], deposits = [], outgoings = [], scans = [], c_outbox = empty_outbox,
     c_processed = [], c_dead_rows = [], c_draws = 0\<rparr>"

section \<open>Keys of the unique constraints\<close>

text \<open>\<open>uq_deposit_chain_identity\<close>\<close>

definition deposit_key :: "deposit \<Rightarrow> string \<times> string \<times> int" where
  "deposit_key d = (d_network d, d_tx_hash d, d_log_index d)"

definition cp_key :: "chain_processed \<Rightarrow> string \<times> uuid" where
  "cp_key p = (cp_consumer p, cp_event_id p)"

section \<open>Row constraints\<close>

text \<open>The column types of a deposit in the order of the insert, then its check.\<close>

definition check_deposit :: "deposit \<Rightarrow> deposit result" where
  "check_deposit d =
     bindr (varchar 32 ''deposits.network'' (d_network d)) (\<lambda>network.
     bindr (varchar 16 ''deposits.asset'' (d_asset d)) (\<lambda>asset.
     bindr (varchar 80 ''deposits.tx_hash'' (d_tx_hash d)) (\<lambda>tx_hash.
     bindr (int4 ''deposits.log_index'' (d_log_index d)) (\<lambda>_.
     bindr (varchar 64 ''deposits.to_address'' (d_to_address d)) (\<lambda>to_address.
     bindr (varchar_opt 64 ''deposits.from_address'' (d_from_address d)) (\<lambda>from_address.
     bindr (numeric78 ''deposits.amount'' (d_amount d)) (\<lambda>_.
     bindr (int8 ''deposits.block_number'' (d_block_number d)) (\<lambda>_.
     bindr (varchar 80 ''deposits.block_hash'' (d_block_hash d)) (\<lambda>block_hash.
     bindr (int4 ''deposits.confirmations'' (d_confirmations d)) (\<lambda>_.
       if d_amount d \<le> 0 then Inl (IntegrityError ''ck_deposit_amount_positive'')
       else Inr (d\<lparr>d_network := network, d_asset := asset, d_tx_hash := tx_hash, d_to_address := to_address,
          d_from_address := from_address, d_block_hash := block_hash\<rparr>)))))))))))"

text \<open>The column types of an outgoing transaction that are not fixed by the code, then its check.\<close>

definition check_outgoing :: "outgoing \<Rightarrow> outgoing result" where
  "check_outgoing r =
     bindr (varchar 32 ''outgoing_transactions.network'' (og_network r)) (\<lambda>network.
     bindr (varchar 16 ''outgoing_transactions.asset'' (og_asset r)) (\<lambda>asset.
     bindr (varchar 64 ''outgoing_transactions.from_address'' (og_from_address r)) (\<lambda>from_address.
     bindr (varchar 64 ''outgoing_transactions.to_address'' (og_to_address r)) (\<lambda>to_address.
     bindr (numeric78 ''outgoing_transactions.amount'' (og_amount r)) (\<lambda>_.
     bindr (varchar_opt 80 ''outgoing_transactions.tx_hash'' (og_tx_hash r)) (\<lambda>tx_hash.
     bindr (varchar_opt 80 ''outgoing_transactions.block_hash'' (og_block_hash r)) (\<lambda>block_hash.
     bindr (int4 ''outgoing_transactions.confirmations'' (og_confirmations r)) (\<lambda>_.
     bindr (int4 ''outgoing_transactions.attempts'' (og_attempts r)) (\<lambda>_.
     bindr (varchar_opt 64 ''outgoing_transactions.correlation_id'' (og_correlation_id r)) (\<lambda>correlation_id.
       if og_amount r \<le> 0 then Inl (IntegrityError ''ck_outgoing_amount_positive'')
       else Inr (r\<lparr>og_network := network, og_asset := asset, og_from_address := from_address, og_to_address := to_address,
          og_tx_hash := tx_hash, og_block_hash := block_hash, og_correlation_id := correlation_id\<rparr>)))))))))))"

lemma check_depositE:
  assumes "check_deposit d = Inr d'"
  obtains network asset tx_hash to_address from_address block_hash where
    "varchar 32 ''deposits.network'' (d_network d) = Inr network" "varchar 16 ''deposits.asset'' (d_asset d) = Inr asset"
    "varchar 80 ''deposits.tx_hash'' (d_tx_hash d) = Inr tx_hash" "varchar 64 ''deposits.to_address'' (d_to_address d) = Inr to_address"
    "varchar_opt 64 ''deposits.from_address'' (d_from_address d) = Inr from_address"
    "varchar 80 ''deposits.block_hash'' (d_block_hash d) = Inr block_hash"
    "0 < d_amount d" "d_amount d < 10 ^ 78"
    "d' = d\<lparr>d_network := network, d_asset := asset, d_tx_hash := tx_hash, d_to_address := to_address,
       d_from_address := from_address, d_block_hash := block_hash\<rparr>"
  using assms unfolding check_deposit_def bindr_eq_Inr
  by - (elim exE conjE, rule that, assumption+, simp_all add: numeric78_eq split: if_splits del: power_numeral)

lemma check_deposit_keeps:
  assumes "check_deposit d = Inr d'"
  shows "d_id d' = d_id d" "d_amount d' = d_amount d" "d_status d' = d_status d" "d_block_number d' = d_block_number d"
    "0 < d_amount d" "d_amount d < 10 ^ 78" "d_log_index d' = d_log_index d" "d_confirmations d' = d_confirmations d"
    "length (d_tx_hash d) \<le> 80 \<Longrightarrow> d_tx_hash d' = d_tx_hash d" "length (d_network d) \<le> 32 \<Longrightarrow> d_network d' = d_network d"
  by (rule check_depositE [OF assms], simp)+

lemma check_outgoingE:
  assumes "check_outgoing r = Inr r'"
  obtains network asset from_address to_address tx_hash block_hash correlation_id where
    "varchar 32 ''outgoing_transactions.network'' (og_network r) = Inr network"
    "varchar 16 ''outgoing_transactions.asset'' (og_asset r) = Inr asset"
    "varchar 64 ''outgoing_transactions.from_address'' (og_from_address r) = Inr from_address"
    "varchar 64 ''outgoing_transactions.to_address'' (og_to_address r) = Inr to_address"
    "varchar_opt 80 ''outgoing_transactions.tx_hash'' (og_tx_hash r) = Inr tx_hash"
    "varchar_opt 80 ''outgoing_transactions.block_hash'' (og_block_hash r) = Inr block_hash"
    "varchar_opt 64 ''outgoing_transactions.correlation_id'' (og_correlation_id r) = Inr correlation_id"
    "0 < og_amount r" "og_amount r < 10 ^ 78"
    "r' = r\<lparr>og_network := network, og_asset := asset, og_from_address := from_address, og_to_address := to_address,
          og_tx_hash := tx_hash, og_block_hash := block_hash, og_correlation_id := correlation_id\<rparr>"
  using assms unfolding check_outgoing_def bindr_eq_Inr
  by - (elim exE conjE, rule that, assumption+, simp_all add: numeric78_eq split: if_splits del: power_numeral)

lemma check_outgoing_keeps:
  assumes "check_outgoing r = Inr r'"
  shows "og_id r' = og_id r" "og_transfer_id r' = og_transfer_id r" "og_amount r' = og_amount r" "og_status r' = og_status r"
    "og_attempts r' = og_attempts r" "og_nonce r' = og_nonce r" "0 < og_amount r" "og_amount r < 10 ^ 78"
    "og_confirmations r' = og_confirmations r" "og_next_attempt_at r' = og_next_attempt_at r"
  by (rule check_outgoingE [OF assms], simp)+

end
