(* ===== verification/Custody.thy ===== *)
theory Custody
  imports ChainDb
begin

text \<open>
  \<open>blockchain_service/services/addresses.py\<close>, \<open>chain/keys.py\<close> and the two signer callbacks of
  \<open>context.py\<close>: issuing custody addresses, encrypting their keys at rest, resolving a key and
  allocating a nonce. The authenticated cipher and the key generator are parameters.
\<close>

section \<open>Keys\<close>

text \<open>A cipher of the library: encryption, and decryption that fails on an invalid token.\<close>

record cipher =
  f_encrypt :: "string \<Rightarrow> string"
  f_decrypt :: "string \<Rightarrow> string option"

record keystore =
  ks_cipher :: cipher
  ks_key_version :: int

record generated_key =
  gk_address :: string
  gk_private_key :: string

definition Keystore :: "(string \<Rightarrow> cipher option) \<Rightarrow> string \<Rightarrow> int \<Rightarrow> keystore result" where
  "Keystore fernet encryption_key version =
     (if encryption_key = [] then Inl (ValueError ''KEYSTORE_ENCRYPTION_KEY is required.'')
      else case fernet encryption_key of
        None \<Rightarrow> Inl (ValueError ''KEYSTORE_ENCRYPTION_KEY is not a valid Fernet key'')
      | Some f \<Rightarrow> Inr \<lparr>ks_cipher = f, ks_key_version = version\<rparr>)"

definition ks_encrypt :: "keystore \<Rightarrow> string \<Rightarrow> string" where
  "ks_encrypt ks private_key = f_encrypt (ks_cipher ks) private_key"

definition ks_decrypt :: "keystore \<Rightarrow> string \<Rightarrow> string result" where
  "ks_decrypt ks blob = (case f_decrypt (ks_cipher ks) blob of
     None \<Rightarrow> Inl (ValueError ''stored key material could not be decrypted'') | Some k \<Rightarrow> Inr k)"

section \<open>Addresses\<close>

text \<open>\<open>find_by_owner\<close>\<close>

definition find_by_owner :: "string \<Rightarrow> cdb \<Rightarrow> address_row option" where
  "find_by_owner owner_ref db = row_of ad_owner_ref owner_ref (addresses db)"

definition active_addresses :: "cdb \<Rightarrow> string list" where
  "active_addresses db = map ad_address (filter (\<lambda>a. ad_status a = ''ACTIVE'') (addresses db))"

text \<open>The insert of an address row, then of its key row when the transaction commits.\<close>

definition insert_address :: "address_row \<Rightarrow> cdb \<Rightarrow> cdb result" where
  "insert_address a db =
     bindr (varchar 128 ''addresses.owner_ref'' (ad_owner_ref a)) (\<lambda>owner_ref.
     bindr (varchar 32 ''addresses.network'' (ad_network a)) (\<lambda>network.
     bindr (varchar 64 ''addresses.address'' (ad_address a)) (\<lambda>address.
       if row_of ad_id (ad_id a) (addresses db) \<noteq> None then Inl (IntegrityError ''addresses_pkey'')
       else if row_of ad_owner_ref owner_ref (addresses db) \<noteq> None then Inl (IntegrityError ''addresses_owner_ref_key'')
       else if row_of ad_address address (addresses db) \<noteq> None then Inl (IntegrityError ''addresses_address_key'')
       else Inr (db\<lparr>addresses := addresses db @ [a\<lparr>ad_owner_ref := owner_ref, ad_network := network, ad_address := address\<rparr>]\<rparr>))))"

definition insert_key :: "key_material \<Rightarrow> cdb \<Rightarrow> cdb result" where
  "insert_key k db =
     bindr (varchar 64 ''key_material.address'' (km_address k)) (\<lambda>address.
     bindr (int4 ''key_material.key_version'' (km_key_version k)) (\<lambda>_.
       if row_of km_address address (keys db) \<noteq> None then Inl (IntegrityError ''key_material_pkey'')
       else if row_of ad_address address (addresses db) = None then Inl (IntegrityError ''key_material_address_fkey'')
       else Inr (db\<lparr>keys := keys db @ [k\<lparr>km_address := address\<rparr>]\<rparr>)))"

definition get_or_create_address :: "keystore \<Rightarrow> (nat \<Rightarrow> generated_key) \<Rightarrow> env \<Rightarrow> string \<Rightarrow> string \<Rightarrow> cdb \<Rightarrow>
    (cdb \<times> address_row \<times> bool) result" where
  "get_or_create_address ks accounts \<Gamma> owner_ref network db =
     (case row_of ad_owner_ref owner_ref (addresses db) of
        Some a \<Rightarrow> Inr (db, a, False)
      | None \<Rightarrow>
          let g = accounts (c_draws db);
              a = \<lparr>ad_id = uuid4 \<Gamma> (c_draws db), ad_owner_ref = owner_ref, ad_network = network, ad_address = gk_address g,
                   ad_derivation = ''random-keypair'', ad_status = ''ACTIVE'', ad_created_at = now \<Gamma>\<rparr> in
          bindr (insert_address a (db\<lparr>c_draws := Suc (c_draws db)\<rparr>)) (\<lambda>db1.
          bindr (insert_key \<lparr>km_address = gk_address g, km_encrypted_private_key = ks_encrypt ks (gk_private_key g),
                   km_key_version = ks_key_version ks, km_created_at = now \<Gamma>\<rparr> db1) (\<lambda>db2.
            Inr (db2, a, True))))"

section \<open>The signer's callbacks\<close>

definition key_resolver :: "keystore \<Rightarrow> cdb \<Rightarrow> string \<Rightarrow> string result" where
  "key_resolver ks db address =
     (case row_of km_address address (keys db) of
        None \<Rightarrow> Inl (LookupError (''no key material for '' @ address))
      | Some k \<Rightarrow> ks_decrypt ks (km_encrypted_private_key k))"

text \<open>
  \<open>nonce_allocator\<close>: the nonce stored for the transfer, else one more than the highest nonce
  stored for the sender, else zero.
\<close>

definition nonce_allocator :: "cdb \<Rightarrow> string \<Rightarrow> uuid \<Rightarrow> int" where
  "nonce_allocator db address transfer_id =
     (case row_of og_transfer_id transfer_id (filter (\<lambda>r. og_nonce r \<noteq> None) (outgoings db)) of
        Some r \<Rightarrow> the (og_nonce r)
      | None \<Rightarrow>
          let ns = map (the \<circ> og_nonce) (filter (\<lambda>r. og_from_address r = address \<and> og_nonce r \<noteq> None) (outgoings db)) in
          if ns = [] then 0 else foldr max (tl ns) (hd ns) + 1)"

section \<open>Issuing is idempotent and keys can be recovered\<close>

lemma insert_address_spec:
  assumes "insert_address a db = Inr db'" and "length (ad_owner_ref a) \<le> 128" "length (ad_address a) \<le> 64"
  shows "\<exists>network. db' = db\<lparr>addresses := addresses db @ [a\<lparr>ad_network := network\<rparr>]\<rparr> \<and> row_of ad_id (ad_id a) (addresses db) = None \<and>
    row_of ad_owner_ref (ad_owner_ref a) (addresses db) = None \<and> row_of ad_address (ad_address a) (addresses db) = None"
  using assms by (auto simp: insert_address_def bindr_eq_Inr split: if_splits)

lemma insert_key_spec:
  assumes "insert_key k db = Inr db'" and "length (km_address k) \<le> 64"
  shows "db' = db\<lparr>keys := keys db @ [k]\<rparr> \<and> row_of km_address (km_address k) (keys db) = None"
  using assms by (auto simp: insert_key_def bindr_eq_Inr split: if_splits)

text \<open>The rows that a new address adds.\<close>

definition issued :: "keystore \<Rightarrow> generated_key \<Rightarrow> env \<Rightarrow> string \<Rightarrow> cdb \<Rightarrow> cdb \<Rightarrow> bool" where
  "issued ks g \<Gamma> owner_ref db db' = (\<exists>r k. ad_owner_ref r = owner_ref \<and> ad_address r = gk_address g \<and> ad_status r = ''ACTIVE'' \<and>
     ad_id r = uuid4 \<Gamma> (c_draws db) \<and> km_address k = gk_address g \<and> km_encrypted_private_key k = ks_encrypt ks (gk_private_key g) \<and>
     row_of ad_id (ad_id r) (addresses db) = None \<and> row_of ad_owner_ref owner_ref (addresses db) = None \<and>
     row_of ad_address (gk_address g) (addresses db) = None \<and> row_of km_address (gk_address g) (keys db) = None \<and>
     db' = db\<lparr>addresses := addresses db @ [r], keys := keys db @ [k], c_draws := Suc (c_draws db)\<rparr>)"

lemma get_or_create_cases:
  assumes run: "get_or_create_address ks accounts \<Gamma> owner_ref network db = Inr (db', a, created)"
    and len: "length owner_ref \<le> 128" "length (gk_address (accounts (c_draws db))) \<le> 64"
  obtains "row_of ad_owner_ref owner_ref (addresses db) = Some a" "db' = db" "\<not> created"
  | "created" "ad_address a = gk_address (accounts (c_draws db))" "ad_owner_ref a = owner_ref" "ad_status a = ''ACTIVE''"
      "issued ks (accounts (c_draws db)) \<Gamma> owner_ref db db'"
proof (cases "row_of ad_owner_ref owner_ref (addresses db)")
  case (Some a')
  show thesis by (rule that(1)) (use run Some in \<open>simp_all add: get_or_create_address_def\<close>)
next
  case None
  let ?g = "accounts (c_draws db)"
  let ?a = "\<lparr>ad_id = uuid4 \<Gamma> (c_draws db), ad_owner_ref = owner_ref, ad_network = network, ad_address = gk_address ?g,
     ad_derivation = ''random-keypair'', ad_status = ''ACTIVE'', ad_created_at = now \<Gamma>\<rparr>"
  let ?k = "\<lparr>km_address = gk_address ?g, km_encrypted_private_key = ks_encrypt ks (gk_private_key ?g),
     km_key_version = ks_key_version ks, km_created_at = now \<Gamma>\<rparr>"
  obtain db1 where 1: "insert_address ?a (db\<lparr>c_draws := Suc (c_draws db)\<rparr>) = Inr db1" and 2: "insert_key ?k db1 = Inr db'"
    and a: "a = ?a" "created"
    using run None unfolding get_or_create_address_def Let_def option.case bindr_eq_Inr
    by (auto simp only: option.case bindr_eq_Inr sum.inject prod.inject)
  from insert_address_spec [OF 1] len obtain nw where
    S: "db1 = db\<lparr>c_draws := Suc (c_draws db), addresses := addresses db @ [?a\<lparr>ad_network := nw\<rparr>]\<rparr>"
      "row_of ad_id (ad_id ?a) (addresses db) = None" "row_of ad_address (gk_address ?g) (addresses db) = None" by auto
  from insert_key_spec [OF 2] len have K: "db' = db1\<lparr>keys := keys db1 @ [?k]\<rparr>" "row_of km_address (gk_address ?g) (keys db1) = None" by simp_all
  have "issued ks ?g \<Gamma> owner_ref db db'"
    unfolding issued_def by (intro exI [of _ "?a\<lparr>ad_network := nw\<rparr>"] exI [of _ ?k]) (use S K None in simp)
  then show thesis by (intro that(2)) (simp_all add: a)
qed

lemma issued_lookup:
  assumes "issued ks g \<Gamma> owner_ref db db'"
  shows "\<exists>r. row_of ad_owner_ref owner_ref (addresses db') = Some r \<and> ad_address r = gk_address g \<and>
      (\<exists>k. row_of km_address (gk_address g) (keys db') = Some k \<and> km_encrypted_private_key k = ks_encrypt ks (gk_private_key g)) \<and>
      gk_address g \<in> set (active_addresses db')"
proof -
  from assms obtain r k where "ad_owner_ref r = owner_ref" "ad_address r = gk_address g" "ad_status r = ''ACTIVE''" "km_address k = gk_address g"
    "km_encrypted_private_key k = ks_encrypt ks (gk_private_key g)" "row_of ad_owner_ref owner_ref (addresses db) = None"
    "row_of km_address (gk_address g) (keys db) = None" "addresses db' = addresses db @ [r]" "keys db' = keys db @ [k]"
    unfolding issued_def by auto
  then show ?thesis by (simp add: row_of_append active_addresses_def)
qed

text \<open>
  Property C35. An address is issued once and its key can be recovered: the first request of an
  owner creates an active address under which the signer finds the private key of that
  address again, provided the cipher decrypts what it encrypted; and any later request of
  the same owner, in whatever environment and for whatever network, returns that address
  and changes nothing, as long as its row is still there.
\<close>

theorem custody_round_trip:
  assumes run: "get_or_create_address ks accounts \<Gamma> owner_ref network db = Inr (db', a, True)"
    and len: "length owner_ref \<le> 128" "length (gk_address (accounts (c_draws db))) \<le> 64"
    and cipher: "\<And>m. f_decrypt (ks_cipher ks) (f_encrypt (ks_cipher ks) m) = Some m"
    and kept: "row_of ad_owner_ref owner_ref (addresses db2) = row_of ad_owner_ref owner_ref (addresses db')"
  shows "key_resolver ks db' (ad_address a) = Inr (gk_private_key (accounts (c_draws db))) \<and> ad_address a \<in> set (active_addresses db') \<and>
    (\<exists>a'. get_or_create_address ks accounts' \<Gamma>' owner_ref network' db2 = Inr (db2, a', False) \<and> ad_address a' = ad_address a)"
  using run len
proof (cases rule: get_or_create_cases)
  case 2
  let ?g = "accounts (c_draws db)"
  obtain r k where L: "row_of ad_owner_ref owner_ref (addresses db') = Some r" "ad_address r = gk_address ?g"
    "row_of km_address (gk_address ?g) (keys db') = Some k" "km_encrypted_private_key k = ks_encrypt ks (gk_private_key ?g)"
    "gk_address ?g \<in> set (active_addresses db')"
    using issued_lookup [OF 2(5)] by blast
  have "key_resolver ks db' (ad_address a) = Inr (gk_private_key ?g)"
    using L 2(2) cipher by (simp add: key_resolver_def ks_decrypt_def ks_encrypt_def)
  moreover have "get_or_create_address ks accounts' \<Gamma>' owner_ref network' db2 = Inr (db2, r, False)"
    using kept L(1) by (simp add: get_or_create_address_def)
  ultimately show ?thesis using L 2(2) by auto
qed simp

definition sample_keystore :: keystore where
  "sample_keystore = \<lparr>ks_cipher = \<lparr>f_encrypt = rev, f_decrypt = (\<lambda>s. Some (rev s))\<rparr>, ks_key_version = 1\<rparr>"

definition sample_accounts :: "nat \<Rightarrow> generated_key" where
  "sample_accounts n = \<lparr>gk_address = ''0x'' @ py_str_nat n, gk_private_key = ''key-'' @ py_str_nat n\<rparr>"

definition sample_cdb :: cdb where
  "sample_cdb = (case get_or_create_address sample_keystore sample_accounts sample_env ''user:1'' ''BSC'' empty_cdb of
     Inr (db, _) \<Rightarrow> db | Inl _ \<Rightarrow> empty_cdb)"

theorem custody_round_trip_witness:
  "key_resolver sample_keystore sample_cdb ''0x0'' = Inr ''key-0'' \<and> ''0x0'' \<in> set (active_addresses sample_cdb) \<and>
   (\<exists>a'. get_or_create_address sample_keystore sample_accounts sample_env ''user:1'' ''ETH'' sample_cdb = Inr (sample_cdb, a', False) \<and>
      ad_address a' = ''0x0'')"
proof -
  let ?a = "\<lparr>ad_id = 1, ad_owner_ref = ''user:1'', ad_network = ''BSC'', ad_address = ''0x0'',
     ad_derivation = ''random-keypair'', ad_status = ''ACTIVE'', ad_created_at = 0\<rparr>"
  have run: "get_or_create_address sample_keystore sample_accounts sample_env ''user:1'' ''BSC'' empty_cdb = Inr (sample_cdb, ?a, True)"
    by code_simp
  have acc: "accounts0 = sample_accounts (c_draws empty_cdb) \<Longrightarrow> accounts0 = \<lparr>gk_address = ''0x0'', gk_private_key = ''key-0''\<rparr>" for accounts0
    by (simp only:) code_simp
  from custody_round_trip [OF run _ _ _ refl, of sample_accounts sample_env "''ETH''"] acc [OF refl] show ?thesis
    by (simp add: sample_keystore_def)
qed

end
