(* ===== verification/Chain.thy ===== *)
theory Chain
  imports Events
begin

text \<open>
  \<open>blockchain_service/chain/base.py\<close>: the port through which the service talks to a chain.
  An adapter is a record of operations on the state \<open>'c\<close> of the node. A read may raise; a
  submission may raise after it changed the node, so it returns the next state in any case.
\<close>

record transfer_log =
  lg_network :: string
  lg_asset :: string
  lg_tx_hash :: string
  lg_log_index :: int
  lg_block_number :: int
  lg_block_hash :: string
  lg_from_address :: string
  lg_to_address :: string
  lg_amount :: int

definition log_identity :: "transfer_log \<Rightarrow> string" where
  "log_identity e = lg_network e @ '':'' @ lg_tx_hash e @ '':'' @ py_str (lg_log_index e)"

record tx_receipt =
  rc_tx_hash :: string
  rc_block_number :: int
  rc_block_hash :: string
  rc_status :: int

record 'c chain_adapter =
  port_network :: string
  port_asset :: string
  block_number_at :: "'c \<Rightarrow> int result"
  block_hash_at :: "'c \<Rightarrow> int \<Rightarrow> string option result"
  transfer_logs_at :: "'c \<Rightarrow> int \<Rightarrow> int \<Rightarrow> string list \<Rightarrow> transfer_log list result"
  receipt_at :: "'c \<Rightarrow> string \<Rightarrow> tx_receipt option result"
  submit :: "'c \<Rightarrow> string \<Rightarrow> string \<Rightarrow> int \<Rightarrow> string \<Rightarrow> 'c \<times> string result"
  token_balance_at :: "'c \<Rightarrow> string \<Rightarrow> int result"

section \<open>What the service relies on\<close>

text \<open>
  The documented contract of the port. \<open>submitted c h\<close> is the transfer that the node knows
  under a hash. The same reference always gives the same hash, a submission never replaces
  a transfer that the node knows, and the node never forgets one.
  A receipt with status 1 is the receipt of a transfer whose log, with the same block, is
  among the logs of that block.
\<close>

locale chain_port =
  fixes A :: "'c chain_adapter" and ok :: "'c \<Rightarrow> bool" and advance :: "'c \<Rightarrow> 'c \<Rightarrow> bool"
    and submitted :: "'c \<Rightarrow> string \<Rightarrow> (string \<times> string \<times> int) option"
  assumes submit_hash: "\<lbrakk>ok c; ok c'; submit A c f t n ref = (c1, Inr h); submit A c' f' t' n' ref = (c2, Inr h')\<rbrakk> \<Longrightarrow> h' = h"
    and submit_new: "\<lbrakk>ok c; submit A c f t n ref = (c1, Inr h); submitted c h = None; length f \<le> 64; length t \<le> 64\<rbrakk> \<Longrightarrow>
      submitted c1 = (submitted c)(h \<mapsto> (f, t, n))"
    and submit_again: "\<lbrakk>ok c; submit A c f t n ref = (c1, Inr h); submitted c h = Some x\<rbrakk> \<Longrightarrow> submitted c1 = submitted c"
    and submit_keeps: "\<lbrakk>ok c; submit A c f t n ref = (c1, res); submitted c h = Some x\<rbrakk> \<Longrightarrow> submitted c1 h = Some x"
    and submit_ok: "\<lbrakk>ok c; submit A c f t n ref = (c1, res)\<rbrakk> \<Longrightarrow> ok c1"
    and advance_ok: "\<lbrakk>ok c; advance c c'\<rbrakk> \<Longrightarrow> ok c'"
    and advance_keeps: "\<lbrakk>ok c; advance c c'; submitted c h = Some x\<rbrakk> \<Longrightarrow> submitted c' h = Some x"
    and receipt_log: "\<lbrakk>ok c; receipt_at A c h = Inr (Some r); rc_status r = 1; submitted c h = Some (f, t, n);
        transfer_logs_at A c (rc_block_number r) (rc_block_number r) [t] = Inr logs\<rbrakk> \<Longrightarrow>
      \<exists>e\<in>set logs. lg_tx_hash e = h \<and> lg_block_hash e = rc_block_hash r \<and> lg_block_number e = rc_block_number r \<and>
        lg_from_address e = f \<and> lg_to_address e = t \<and> lg_amount e = n"

text \<open>
  A life of the node as the service sees it: submissions of its own, with their arguments,
  and anything else the node does in between.
\<close>

inductive node_run :: "'c chain_adapter \<Rightarrow> ('c \<Rightarrow> 'c \<Rightarrow> bool) \<Rightarrow> 'c \<Rightarrow> (string \<times> string \<times> int \<times> string) list \<Rightarrow> 'c \<Rightarrow> bool"
  for A :: "'c chain_adapter" and advance :: "'c \<Rightarrow> 'c \<Rightarrow> bool" where
  start: "node_run A advance c [] c"
| sent: "\<lbrakk>node_run A advance c0 l c; submit A c f t n ref = (c', r)\<rbrakk> \<Longrightarrow> node_run A advance c0 (l @ [(f, t, n, ref)]) c'"
| moved: "\<lbrakk>node_run A advance c0 l c; advance c c'\<rbrakk> \<Longrightarrow> node_run A advance c0 l c'"

context chain_port
begin

lemma run_ok: "\<lbrakk>node_run A advance c0 l c; ok c0\<rbrakk> \<Longrightarrow> ok c"
  by (induction rule: node_run.induct) (auto intro: submit_ok advance_ok)

lemma run_known: "\<lbrakk>node_run A advance c0 l c; ok c0; submitted c0 h = Some x\<rbrakk> \<Longrightarrow> submitted c h = Some x"
  by (induction rule: node_run.induct) (auto intro: submit_keeps advance_keeps run_ok)

text \<open>
  However often a transfer is submitted under one reference, and whatever the node does in
  between, it stays the transfer that the first accepted submission carried.
\<close>

lemma resubmission_changes_nothing:
  assumes "ok c" and "submit A c f t n ref = (c1, Inr h)" and "submitted c h = None" and "length f \<le> 64" "length t \<le> 64"
    and "node_run A advance c1 l c2" and "submit A c2 f' t' n' ref = (c3, Inr h')"
  shows "h' = h \<and> submitted c3 = submitted c2 \<and> submitted c3 h = Some (f, t, n)"
proof -
  have ok1: "ok c1" and ok2: "ok c2" using submit_ok [OF assms(1,2)] run_ok [OF assms(6)] by auto
  have h: "h' = h" using submit_hash [OF assms(1) ok2 assms(2,7)] .
  have "submitted c1 h = Some (f, t, n)" using submit_new [OF assms(1-5)] by simp
  then have k: "submitted c2 h = Some (f, t, n)" by (rule run_known [OF assms(6) ok1])
  then show ?thesis using submit_again [OF ok2 assms(7)] h by auto
qed

end

end
