(* ===== verification/ChainDeposits.thy ===== *)
theory ChainDeposits
  imports Custody Chain
begin

text \<open>
  \<open>blockchain_service/services/deposits.py\<close>: the deposit scanner and the confirmation
  watcher. Every request to the chain reads the node at its own moment, so the chain is
  a timeline \<open>C\<close>: the \<open>k\<close>-th request of a run sees \<open>C k\<close>. A run opens several database
  sessions; where the source reads in one session and writes in a later one, the two
  database states are separate arguments.
\<close>

record chain_settings =
  cs_network :: string
  confirmations_required :: int
  finality_depth :: int
  scan_batch_blocks :: int
  reorg_safety_blocks :: int
  broadcast_max_attempts :: int
  pending_timeout_seconds :: int
  chain_backend :: string

definition CHAIN_PRODUCER :: string where "CHAIN_PRODUCER = ''blockchain-service''"

definition deposit_payload :: "deposit \<Rightarrow> int option \<Rightarrow> payload result" where
  "deposit_payload d confirmations =
     bindr (get_asset (d_asset d)) (\<lambda>a.
       Inr [(''deposit_id'', JStr (uuid_str (d_id d))), (''network'', JStr (d_network d)), (''asset'', JStr (d_asset d)),
            (''tx_hash'', JStr (d_tx_hash d)), (''log_index'', JInt (d_log_index d)),
            (''from_address'', (case d_from_address d of None \<Rightarrow> JNull | Some s \<Rightarrow> JStr s)), (''to_address'', JStr (d_to_address d)),
            (''amount'', JStr (format_amount (d_amount d) (decimals a))), (''amount_units'', JStr (py_str (d_amount d))),
            (''decimals'', JInt (int (decimals a))), (''block_number'', JInt (d_block_number d)), (''block_hash'', JStr (d_block_hash d)),
            (''confirmations'', JInt (case confirmations of None \<Rightarrow> d_confirmations d | Some n \<Rightarrow> n))])"

text \<open>\<open>f"dep-{tx_hash[2:14]}"\<close>\<close>

definition deposit_cid :: "string \<Rightarrow> string" where
  "deposit_cid tx_hash = ''dep-'' @ take 12 (drop 2 tx_hash)"

text \<open>\<open>f"{network}:{tx_hash}:{log_index}:{block_hash}"\<close>\<close>

definition deposit_event_key :: "deposit \<Rightarrow> string \<Rightarrow> string" where
  "deposit_event_key d block_hash = d_network d @ '':'' @ d_tx_hash d @ '':'' @ py_str (d_log_index d) @ '':'' @ block_hash"

text \<open>An event of this service, enqueued in the current transaction.\<close>

definition emit :: "env \<Rightarrow> string \<Rightarrow> payload \<Rightarrow> string \<Rightarrow> string option \<Rightarrow> cdb \<Rightarrow> cdb result" where
  "emit \<Gamma> ty p dedupe_key correlation db =
     bindr (enqueue_event (c_outbox db) (new_event \<Gamma> ty p CHAIN_PRODUCER (Some dedupe_key) correlation None)) (\<lambda>ob.
       Inr (db\<lparr>c_outbox := ob\<rparr>))"

section \<open>The scanner\<close>

definition new_deposit :: "env \<Rightarrow> uuid \<Rightarrow> transfer_log \<Rightarrow> deposit" where
  "new_deposit \<Gamma> i e = \<lparr>d_id = i, d_network = lg_network e, d_asset = lg_asset e, d_tx_hash = lg_tx_hash e, d_log_index = lg_log_index e,
     d_to_address = lg_to_address e, d_from_address = Some (lg_from_address e), d_amount = lg_amount e,
     d_block_number = lg_block_number e, d_block_hash = lg_block_hash e, d_confirmations = 0, d_status = DepDetected,
     d_first_seen_at = now \<Gamma>, d_confirmed_at = None, d_reorged_at = None\<rparr>"

definition revive :: "deposit \<Rightarrow> deposit \<Rightarrow> deposit" where
  "revive n d = d\<lparr>d_block_number := d_block_number n, d_block_hash := d_block_hash n, d_status := DepDetected, d_confirmations := 0,
     d_confirmed_at := None, d_reorged_at := None\<rparr>"

text \<open>
  The statement of \<open>_upsert_deposit\<close>: insert, or revive the row with the same chain identity if
  a reorganisation had removed it; the row that it returns, if any. The proposed row is
  checked before the conflict is looked up.
\<close>

definition upsert_row :: "env \<Rightarrow> transfer_log \<Rightarrow> cdb \<Rightarrow> (cdb \<times> deposit option) result" where
  "upsert_row \<Gamma> e db =
     bindr (check_deposit (new_deposit \<Gamma> (uuid4 \<Gamma> (c_draws db)) e)) (\<lambda>n.
       let db1 = db\<lparr>c_draws := Suc (c_draws db)\<rparr> in
       case row_of deposit_key (deposit_key n) (deposits db) of
         None \<Rightarrow>
           if row_of d_id (d_id n) (deposits db) \<noteq> None then Inl (IntegrityError ''deposits_pkey'')
           else Inr (db1\<lparr>deposits := deposits db @ [n]\<rparr>, Some n)
       | Some d \<Rightarrow>
           if d_status d = DepReorged
           then Inr (db1\<lparr>deposits := upd_of deposit_key (deposit_key n) (revive n) (deposits db)\<rparr>, Some (revive n d))
           else Inr (db1, None))"

definition upsert_deposit :: "env \<Rightarrow> transfer_log \<Rightarrow> cdb \<Rightarrow> (cdb \<times> bool) result" where
  "upsert_deposit \<Gamma> e db =
     bindr (upsert_row \<Gamma> e db) (\<lambda>(db1, got).
       case got of
         None \<Rightarrow> Inr (db1, False)
       | Some d \<Rightarrow>
           let corr = deposit_cid (lg_tx_hash e) in
           bindr (deposit_payload d (Some 0)) (\<lambda>p.
           bindr (emit (correlation_scope (Some corr) \<Gamma>) DEPOSIT_DETECTED p (log_identity e @ '':'' @ lg_block_hash e) (Some corr) db1) (\<lambda>db2.
             Inr (db2, True))))"

fun upsert_all :: "env \<Rightarrow> transfer_log list \<Rightarrow> cdb \<Rightarrow> (cdb \<times> int) result" where
  "upsert_all \<Gamma> [] db = Inr (db, 0)"
| "upsert_all \<Gamma> (e # es) db =
     bindr (upsert_deposit \<Gamma> e db) (\<lambda>(db1, hit).
     bindr (upsert_all \<Gamma> es db1) (\<lambda>(db2, n). Inr (db2, n + (if hit then 1 else 0))))"

text \<open>The cursor upsert; the column \<open>updated_at\<close> is set by the insert only.\<close>

definition set_cursor :: "env \<Rightarrow> string \<Rightarrow> int \<Rightarrow> string option \<Rightarrow> cdb \<Rightarrow> cdb result" where
  "set_cursor \<Gamma> network block hash db =
     bindr (varchar 32 ''scan_state.network'' network) (\<lambda>network.
     bindr (int8 ''scan_state.last_scanned_block'' block) (\<lambda>block.
     bindr (varchar_opt 80 ''scan_state.last_scanned_hash'' hash) (\<lambda>hash.
       Inr (db\<lparr>scans := (if row_of sc_network network (scans db) = None
          then scans db @ [\<lparr>sc_network = network, last_scanned_block = block, last_scanned_hash = hash, sc_updated_at = now \<Gamma>\<rparr>]
          else upd_of sc_network network (\<lambda>s. s\<lparr>last_scanned_block := block, last_scanned_hash := hash\<rparr>) (scans db))\<rparr>))))"

text \<open>The block range of a run: the cursor, rewound when the block it stopped at has another hash now.\<close>

definition cursor_of :: "chain_settings \<Rightarrow> cdb \<Rightarrow> int \<times> string option" where
  "cursor_of S db = (case row_of sc_network (cs_network S) (scans db) of
     None \<Rightarrow> (0, None) | Some s \<Rightarrow> (last_scanned_block s, last_scanned_hash s))"

definition rewind :: "chain_settings \<Rightarrow> 'c chain_adapter \<Rightarrow> 'c \<Rightarrow> int \<times> string option \<Rightarrow> int result" where
  "rewind S A c cur = (case cur of (block, hash) \<Rightarrow>
     if hash = None \<or> hash = Some [] then Inr block
     else bindr (block_hash_at A c block) (\<lambda>current.
       Inr (if current \<noteq> hash then max 0 (block - reorg_safety_blocks S) else block)))"

definition external :: "string list \<Rightarrow> transfer_log list \<Rightarrow> transfer_log list" where
  "external watched logs = filter (\<lambda>e. py_lower (lg_from_address e) \<notin> set (map py_lower watched)) logs"

record scan_report =
  scanned :: int
  detected :: int
  internal_skipped :: int
  scan_head :: int

definition scanner_run_once :: "chain_settings \<Rightarrow> 'c chain_adapter \<Rightarrow> (nat \<Rightarrow> 'c) \<Rightarrow> env \<Rightarrow> cdb \<Rightarrow> cdb \<Rightarrow> cdb \<Rightarrow> (cdb \<times> scan_report) result" where
  "scanner_run_once S A C \<Gamma> db0 db1 db =
     bindr (block_number_at A (C 0)) (\<lambda>head.
       if head \<le> 0 then Inr (db, \<lparr>scanned = 0, detected = 0, internal_skipped = 0, scan_head = head\<rparr>)
       else bindr (rewind S A (C 1) (cursor_of S db0)) (\<lambda>cursor.
         let from_block = cursor + 1; to_block = min head (from_block + scan_batch_blocks S - 1) in
         if to_block < from_block then Inr (db, \<lparr>scanned = 0, detected = 0, internal_skipped = 0, scan_head = head\<rparr>)
         else
           let watched = active_addresses db1 in
           bindr (if watched = [] then Inr [] else transfer_logs_at A (C 2) from_block to_block watched) (\<lambda>logs.
           bindr (block_hash_at A (C 3) to_block) (\<lambda>tip.
           bindr (upsert_all \<Gamma> (external watched logs) db) (\<lambda>(db2, n).
           bindr (set_cursor \<Gamma> (cs_network S) to_block tip db2) (\<lambda>db3.
             Inr (db3, \<lparr>scanned = to_block - from_block + 1, detected = n,
                    internal_skipped = int (length logs) - int (length (external watched logs)), scan_head = head\<rparr>)))))))"

section \<open>The confirmation watcher\<close>

definition watchlist :: "chain_settings \<Rightarrow> int \<Rightarrow> cdb \<Rightarrow> uuid list" where
  "watchlist S head db = map d_id (sort_key d_block_number
     (filter (\<lambda>d. (d_status d = DepDetected \<or> d_status d = DepConfirmed) \<and> head - finality_depth S < d_block_number d) (deposits db)))"

text \<open>
  Where the chain has the deposit now: the stored block, or another block that still carries
  the very same log.
\<close>

definition locate :: "'c chain_adapter \<Rightarrow> 'c \<Rightarrow> 'c \<Rightarrow> deposit \<Rightarrow> (int \<times> string) option result" where
  "locate A c1 c2 d =
     bindr (receipt_at A c1 (d_tx_hash d)) (\<lambda>receipt.
       case receipt of
         None \<Rightarrow> Inr None
       | Some r \<Rightarrow>
           if rc_block_hash r = d_block_hash d then Inr (Some (rc_block_number r, rc_block_hash r))
           else bindr (transfer_logs_at A c2 (rc_block_number r) (rc_block_number r) [d_to_address d]) (\<lambda>entries.
             Inr (map_option (\<lambda>e. (lg_block_number e, lg_block_hash e))
               (find (\<lambda>e. lg_tx_hash e = d_tx_hash d \<and> lg_log_index e = d_log_index d) entries))))"

text \<open>Changed columns are written, and checked, when the transaction commits.\<close>

definition save_deposit :: "deposit \<Rightarrow> cdb \<Rightarrow> cdb result" where
  "save_deposit d db = bindr (check_deposit d) (\<lambda>d'. Inr (db\<lparr>deposits := upd_of d_id (d_id d) (\<lambda>_. d') (deposits db)\<rparr>))"

definition mark_deposit_reorged :: "env \<Rightarrow> deposit \<Rightarrow> string \<Rightarrow> cdb \<Rightarrow> (cdb \<times> string) result" where
  "mark_deposit_reorged \<Gamma> d corr db =
     (let d1 = d\<lparr>d_status := DepReorged, d_reorged_at := Some (now \<Gamma>)\<rparr> in
      bindr (deposit_payload d1 None) (\<lambda>p.
      bindr (emit \<Gamma> DEPOSIT_REORGED
               (p @ [(''was_confirmed'', JBool (d_status d = DepConfirmed)), (''orphaned_block_hash'', JStr (d_block_hash d))])
               (deposit_event_key d1 (d_block_hash d) @ '':reorg'') (Some corr) db) (\<lambda>db1.
      bindr (save_deposit d1 db1) (\<lambda>db2. Inr (db2, ''reorged'')))))"

definition reverify_apply :: "env \<Rightarrow> int \<Rightarrow> int \<Rightarrow> (int \<times> string) option \<Rightarrow> deposit \<Rightarrow> cdb \<Rightarrow> (cdb \<times> string) result" where
  "reverify_apply \<Gamma> head required found d db =
     (let corr = deposit_cid (d_tx_hash d); \<Gamma>' = correlation_scope (Some corr) \<Gamma> in
      case found of
        None \<Rightarrow> mark_deposit_reorged \<Gamma>' d corr db
      | Some (block, hash) \<Rightarrow>
          let d1 = d\<lparr>d_block_number := block, d_block_hash := hash, d_confirmations := max 0 (head - block + 1)\<rparr> in
          if d_status d1 = DepDetected \<and> required \<le> d_confirmations d1
          then let d2 = d1\<lparr>d_status := DepConfirmed, d_confirmed_at := Some (now \<Gamma>)\<rparr> in
               bindr (deposit_payload d2 None) (\<lambda>p.
               bindr (emit \<Gamma>' DEPOSIT_CONFIRMED p (deposit_event_key d2 (d_block_hash d2)) (Some corr) db) (\<lambda>db1.
               bindr (save_deposit d2 db1) (\<lambda>db2. Inr (db2, ''confirmed''))))
          else bindr (save_deposit d1 db) (\<lambda>db1. Inr (db1, ''checked'')))"

definition reverify :: "chain_settings \<Rightarrow> 'c chain_adapter \<Rightarrow> 'c \<Rightarrow> 'c \<Rightarrow> env \<Rightarrow> int \<Rightarrow> uuid \<Rightarrow> cdb \<Rightarrow> cdb \<Rightarrow> (cdb \<times> string) result" where
  "reverify S A c1 c2 \<Gamma> head i db0 db =
     (case row_of d_id i (deposits db0) of
        None \<Rightarrow> Inr (db, ''gone'')
      | Some d0 \<Rightarrow>
          bindr (locate A c1 c2 d0) (\<lambda>found.
            case row_of d_id i (deposits db) of
              None \<Rightarrow> Inr (db, ''gone'')
            | Some d \<Rightarrow> reverify_apply \<Gamma> head (confirmations_required S) found d db))"

record watch_report =
  w_confirmed :: nat
  w_failed :: nat
  w_checked :: nat
  w_rpc :: bool

text \<open>
  One transaction per deposit: an exception ends the run, and what was committed stays. The
  \<open>k\<close>-th deposit makes the requests \<open>2k + 1\<close> and \<open>2k + 2\<close>.
\<close>

fun reverify_all :: "chain_settings \<Rightarrow> 'c chain_adapter \<Rightarrow> (nat \<Rightarrow> 'c) \<Rightarrow> env \<Rightarrow> int \<Rightarrow> nat \<Rightarrow> uuid list \<Rightarrow> watch_report \<Rightarrow> cdb \<Rightarrow> cdb \<times> watch_report result" where
  "reverify_all S A C \<Gamma> head k [] rep db = (db, Inr rep)"
| "reverify_all S A C \<Gamma> head k (i # is) rep db =
     (case reverify S A (C (2 * k + 1)) (C (2 * k + 2)) \<Gamma> head i db db of
        Inl e \<Rightarrow> (db, Inl e)
      | Inr (db1, outcome) \<Rightarrow> reverify_all S A C \<Gamma> head (Suc k) is
          (rep\<lparr>w_checked := Suc (w_checked rep), w_confirmed := w_confirmed rep + (if outcome = ''confirmed'' then 1 else 0),
             w_failed := w_failed rep + (if outcome = ''reorged'' then 1 else 0)\<rparr>) db1)"

definition deposit_watcher_run_once :: "chain_settings \<Rightarrow> 'c chain_adapter \<Rightarrow> (nat \<Rightarrow> 'c) \<Rightarrow> env \<Rightarrow> cdb \<Rightarrow> cdb \<times> watch_report result" where
  "deposit_watcher_run_once S A C \<Gamma> db =
     (case block_number_at A (C 0) of
        Inl (RpcUnavailableError m) \<Rightarrow> (db, Inr \<lparr>w_confirmed = 0, w_failed = 0, w_checked = 0, w_rpc = False\<rparr>)
      | Inl e \<Rightarrow> (db, Inl e)
      | Inr head \<Rightarrow>
          if head \<le> 0 then (db, Inr \<lparr>w_confirmed = 0, w_failed = 0, w_checked = 0, w_rpc = True\<rparr>)
          else reverify_all S A C \<Gamma> head 0 (watchlist S head db) \<lparr>w_confirmed = 0, w_failed = 0, w_checked = 0, w_rpc = True\<rparr> db)"

end
