(* ===== verification/Outgoing.thy ===== *)
theory Outgoing
  imports ChainDeposits
begin

text \<open>
  \<open>blockchain_service/services/transactions.py\<close>: outgoing transactions from the request to the
  confirmation. The consumer records the intent, the broadcaster claims rows under a lease
  and submits them, the watcher follows the receipts. Database states of different sessions
  are separate arguments, as in the theory of deposits. The text of an exception that is
  not of the chain port is a parameter.
\<close>

definition jhash :: "string option \<Rightarrow> jval" where
  "jhash v = (case v of None \<Rightarrow> JNull | Some s \<Rightarrow> JStr s)"

definition failure_payload :: "outgoing \<Rightarrow> string \<Rightarrow> string \<Rightarrow> payload result" where
  "failure_payload r reason code =
     bindr (get_asset (og_asset r)) (\<lambda>a.
       Inr [(''transfer_id'', JStr (uuid_str (og_transfer_id r))), (''tx_hash'', jhash (og_tx_hash r)), (''network'', JStr (og_network r)),
            (''asset'', JStr (og_asset r)), (''amount'', JStr (format_amount (og_amount r) (decimals a))),
            (''amount_units'', JStr (py_str (og_amount r))), (''reason'', JStr reason), (''code'', JStr code),
            (''attempts'', JInt (og_attempts r)), (''was_confirmed'', JBool (og_status r = TxConfirmed))])"

text \<open>A changed row, written when its transaction commits.\<close>

definition save_outgoing :: "env \<Rightarrow> outgoing \<Rightarrow> cdb \<Rightarrow> cdb result" where
  "save_outgoing \<Gamma> r db =
     bindr (check_outgoing (r\<lparr>og_updated_at := now \<Gamma>\<rparr>)) (\<lambda>r'.
     bindr (case og_block_number r of None \<Rightarrow> Inr 0 | Some n \<Rightarrow> int8 ''outgoing_transactions.block_number'' n) (\<lambda>_.
       if og_tx_hash r' \<noteq> None \<and> list_ex (\<lambda>x. og_tx_hash x = og_tx_hash r' \<and> og_id x \<noteq> og_id r) (outgoings db)
       then Inl (IntegrityError ''outgoing_transactions_tx_hash_key'')
       else Inr (db\<lparr>outgoings := upd_of og_id (og_id r) (\<lambda>_. r') (outgoings db)\<rparr>)))"

text \<open>The failure of a row: its new status and reason, and the event, in one transaction.\<close>

definition fail_outgoing :: "env \<Rightarrow> outgoing \<Rightarrow> string \<Rightarrow> string \<Rightarrow> string option \<Rightarrow> cdb \<Rightarrow> cdb result" where
  "fail_outgoing \<Gamma> r reason code correlation db =
     (let r1 = r\<lparr>og_status := TxFailed, og_failure_reason := Some reason\<rparr> in
      bindr (failure_payload r1 reason code) (\<lambda>p.
      bindr (emit \<Gamma> TX_FAILED p (uuid_str (og_transfer_id r) @ '':'' @ code) correlation db) (\<lambda>db1.
        save_outgoing \<Gamma> r1 db1)))"

section \<open>Accepting a request\<close>

text \<open>A value for a text column that must not be null.\<close>

definition text_column :: "nat \<Rightarrow> string \<Rightarrow> jval \<Rightarrow> string result" where
  "text_column n col v = (case jtext v of None \<Rightarrow> Inl (IntegrityError col) | Some s \<Rightarrow> varchar n col s)"

definition get_default :: "payload \<Rightarrow> string \<Rightarrow> string \<Rightarrow> jval" where
  "get_default p k d = (case jget p k of None \<Rightarrow> JStr d | Some v \<Rightarrow> v)"

definition insert_outgoing :: "env \<Rightarrow> uuid \<Rightarrow> string \<Rightarrow> string \<Rightarrow> string \<Rightarrow> string \<Rightarrow> int \<Rightarrow> string option \<Rightarrow> cdb \<Rightarrow> (cdb \<times> outgoing option) result" where
  "insert_outgoing \<Gamma> transfer_id network asset f t n corr db =
     bindr (check_outgoing \<lparr>og_id = uuid4 \<Gamma> (c_draws db), og_transfer_id = transfer_id, og_network = network, og_asset = asset,
         og_from_address = f, og_to_address = t, og_amount = n, og_tx_hash = None, og_nonce = None, og_status = TxCreated,
         og_block_number = None, og_block_hash = None, og_confirmations = 0, og_failure_reason = None, og_attempts = 0,
         og_next_attempt_at = None, og_broadcast_at = None, og_correlation_id = corr, og_created_at = now \<Gamma>, og_updated_at = now \<Gamma>\<rparr>) (\<lambda>r.
       let db1 = db\<lparr>c_draws := Suc (c_draws db)\<rparr> in
       if row_of og_transfer_id transfer_id (outgoings db) \<noteq> None then Inr (db1, None)
       else if row_of og_id (og_id r) (outgoings db) \<noteq> None then Inl (IntegrityError ''outgoing_transactions_pkey'')
       else Inr (db1\<lparr>outgoings := outgoings db @ [r]\<rparr>, Some r))"

definition accept_transfer_request :: "env \<Rightarrow> payload \<Rightarrow> string \<Rightarrow> cdb \<Rightarrow> (cdb \<times> string) result" where
  "accept_transfer_request \<Gamma> p correlation_id db =
     bindr (jreq p ''transfer_id'') (\<lambda>v.
     bindr (juuid v) (\<lambda>transfer_id.
     bindr (jreq p ''from_address'') (\<lambda>from_v.
     bindr (jreq p ''to_address'') (\<lambda>to_v.
     bindr (jreq p ''amount_units'') (\<lambda>amount_v.
     bindr (jint amount_v) (\<lambda>amount.
     bindr (text_column 32 ''outgoing_transactions.network'' (get_default p ''network'' ''BSC'')) (\<lambda>network.
     bindr (text_column 16 ''outgoing_transactions.asset'' (get_default p ''asset'' ''USDT'')) (\<lambda>asset.
     bindr (text_column 64 ''outgoing_transactions.from_address'' from_v) (\<lambda>from_address.
     bindr (text_column 64 ''outgoing_transactions.to_address'' to_v) (\<lambda>to_address.
     bindr (insert_outgoing \<Gamma> transfer_id network asset from_address to_address amount (Some correlation_id) db) (\<lambda>(db1, inserted).
       case inserted of
         None \<Rightarrow> Inr (db1, ''duplicate'')
       | Some r \<Rightarrow>
           if (case jtext from_v of None \<Rightarrow> None | Some s \<Rightarrow> row_of ad_address s (addresses db)) = None
           then bindr (fail_outgoing \<Gamma> r ''unknown sending address'' ''UNKNOWN_SENDING_ADDRESS'' (Some correlation_id) db1) (\<lambda>db2.
             Inr (db2, ''processed''))
           else Inr (db1, ''processed''))))))))))))"

section \<open>Broadcasting\<close>

definition lease_seconds :: "int \<Rightarrow> int" where
  "lease_seconds n = min 60 (2 ^ nat (min n 6))"

definition claimable :: "int \<Rightarrow> uuid list \<Rightarrow> outgoing \<Rightarrow> bool" where
  "claimable t locked r = ((og_status r = TxCreated \<or> og_status r = TxPending) \<and>
     (case og_next_attempt_at r of None \<Rightarrow> True | Some n \<Rightarrow> n \<le> t) \<and> og_id r \<notin> set locked)"

definition take_lease :: "int \<Rightarrow> int \<Rightarrow> outgoing \<Rightarrow> outgoing" where
  "take_lease t lease r = r\<lparr>og_attempts := og_attempts r + 1, og_status := TxPending, og_next_attempt_at := Some (t + lease)\<rparr>"

text \<open>\<open>_CLAIM_SQL\<close>: the claimed rows as the statement returns them; rows locked elsewhere are skipped.\<close>

definition claim_outgoing :: "env \<Rightarrow> nat \<Rightarrow> int \<Rightarrow> uuid list \<Rightarrow> cdb \<Rightarrow> (cdb \<times> outgoing list) result" where
  "claim_outgoing \<Gamma> limit lease locked db =
     (let picked = take limit (sort_key og_created_at (filter (claimable (now \<Gamma>) locked) (outgoings db)));
          ids = map og_id picked in
      if list_ex (\<lambda>r. 2 ^ 31 \<le> og_attempts r + 1) picked then Inl (DataError ''outgoing_transactions.attempts'')
      else Inr (db\<lparr>outgoings := map (\<lambda>r. if og_id r \<in> set ids then take_lease (now \<Gamma>) lease r else r) (outgoings db)\<rparr>,
                map (take_lease (now \<Gamma>) lease) picked))"

definition exn_text :: "(exn \<Rightarrow> string) \<Rightarrow> exn \<Rightarrow> string" where
  "exn_text describe e = (case e of RpcUnavailableError m \<Rightarrow> m | TransactionRejectedError m \<Rightarrow> m | _ \<Rightarrow> describe e)"

definition record_broadcast_failure :: "env \<Rightarrow> outgoing \<Rightarrow> string \<Rightarrow> string \<Rightarrow> cdb \<Rightarrow> (cdb \<times> string) result" where
  "record_broadcast_failure \<Gamma> row reason code db =
     (case row_of og_id (og_id row) (outgoings db) of
        None \<Rightarrow> Inr (db, ''skipped'')
      | Some r \<Rightarrow>
          if og_status r = TxConfirmed then Inr (db, ''skipped'')
          else bindr (fail_outgoing \<Gamma> (r\<lparr>og_next_attempt_at := None\<rparr>) (take 500 reason) code (og_correlation_id r) db) (\<lambda>db1.
            Inr (db1, ''failed'')))"

definition schedule_retry :: "env \<Rightarrow> outgoing \<Rightarrow> string \<Rightarrow> cdb \<Rightarrow> cdb" where
  "schedule_retry \<Gamma> row reason db = db\<lparr>outgoings := upd_of og_id (og_id row) (\<lambda>r. r\<lparr>og_status := TxPending,
     og_failure_reason := Some (take 500 reason), og_next_attempt_at := Some (now \<Gamma> + lease_seconds (og_attempts row)),
     og_updated_at := now \<Gamma>\<rparr>) (outgoings db)\<rparr>"

definition broadcasted_payload :: "outgoing \<Rightarrow> string \<Rightarrow> payload result" where
  "broadcasted_payload r tx_hash =
     bindr (get_asset (og_asset r)) (\<lambda>a.
       Inr [(''transfer_id'', JStr (uuid_str (og_transfer_id r))), (''tx_hash'', JStr tx_hash), (''network'', JStr (og_network r)),
            (''asset'', JStr (og_asset r)), (''amount'', JStr (format_amount (og_amount r) (decimals a))),
            (''amount_units'', JStr (py_str (og_amount r))), (''from_address'', JStr (og_from_address r)),
            (''to_address'', JStr (og_to_address r)), (''attempts'', JInt (og_attempts r))])"

definition record_broadcast :: "env \<Rightarrow> outgoing \<Rightarrow> string \<Rightarrow> cdb \<Rightarrow> (cdb \<times> string) result" where
  "record_broadcast \<Gamma> row tx_hash db =
     (case row_of og_id (og_id row) (outgoings db) of
        None \<Rightarrow> Inr (db, ''skipped'')
      | Some r \<Rightarrow>
          if og_status r = TxConfirmed \<or> og_status r = TxFailed then Inr (db, ''skipped'')
          else
            let r1 = r\<lparr>og_tx_hash := Some tx_hash, og_status := TxBroadcasted, og_broadcast_at := Some (now \<Gamma>),
                   og_failure_reason := None, og_next_attempt_at := None\<rparr> in
            bindr (broadcasted_payload r1 tx_hash) (\<lambda>p.
            bindr (emit \<Gamma> TX_BROADCASTED p (uuid_str (og_transfer_id r) @ '':'' @ tx_hash @ '':broadcast'') (og_correlation_id row) db) (\<lambda>db1.
            bindr (save_outgoing \<Gamma> r1 db1) (\<lambda>db2. Inr (db2, ''broadcast'')))))"

text \<open>\<open>_broadcast_one\<close>: the submission, then one transaction that depends on how it ended.\<close>

definition broadcast_outcome :: "chain_settings \<Rightarrow> (exn \<Rightarrow> string) \<Rightarrow> env \<Rightarrow> outgoing \<Rightarrow> string result \<Rightarrow> cdb \<Rightarrow> (cdb \<times> string) result" where
  "broadcast_outcome S describe \<Gamma> row sent db =
     (let \<Gamma>' = correlation_scope (og_correlation_id row) \<Gamma> in
      case sent of
        Inr tx_hash \<Rightarrow> record_broadcast \<Gamma>' row tx_hash db
      | Inl (TransactionRejectedError m) \<Rightarrow> record_broadcast_failure \<Gamma>' row m ''REJECTED_BY_NODE'' db
      | Inl e \<Rightarrow>
          if og_attempts row < broadcast_max_attempts S then Inr (schedule_retry \<Gamma>' row (exn_text describe e) db, ''retry'')
          else record_broadcast_failure \<Gamma>' row (exn_text describe e)
                 (case e of RpcUnavailableError _ \<Rightarrow> ''RPC_UNAVAILABLE'' | _ \<Rightarrow> ''BROADCAST_FAILED'') db)"

definition broadcast_one :: "chain_settings \<Rightarrow> 'c chain_adapter \<Rightarrow> (exn \<Rightarrow> string) \<Rightarrow> env \<Rightarrow> outgoing \<Rightarrow> 'c \<Rightarrow> cdb \<Rightarrow> 'c \<times> (cdb \<times> string) result" where
  "broadcast_one S A describe \<Gamma> row c db =
     (case submit A c (og_from_address row) (og_to_address row) (og_amount row) (uuid_str (og_transfer_id row)) of
        (c1, sent) \<Rightarrow> (c1, broadcast_outcome S describe \<Gamma> row sent db))"

fun broadcast_all :: "chain_settings \<Rightarrow> 'c chain_adapter \<Rightarrow> (exn \<Rightarrow> string) \<Rightarrow> env \<Rightarrow> outgoing list \<Rightarrow> 'c \<Rightarrow> cdb \<Rightarrow> nat \<times> nat \<Rightarrow>
    'c \<times> cdb \<times> (nat \<times> nat) result" where
  "broadcast_all S A describe \<Gamma> [] c db counts = (c, db, Inr counts)"
| "broadcast_all S A describe \<Gamma> (row # rows) c db counts =
     (case broadcast_one S A describe \<Gamma> row c db of
        (c1, Inl e) \<Rightarrow> (c1, db, Inl e)
      | (c1, Inr (db1, outcome)) \<Rightarrow> broadcast_all S A describe \<Gamma> rows c1 db1
          (fst counts + (if outcome = ''broadcast'' then 1 else 0), snd counts + (if outcome = ''failed'' then 1 else 0)))"

definition broadcaster_run_once :: "chain_settings \<Rightarrow> 'c chain_adapter \<Rightarrow> (exn \<Rightarrow> string) \<Rightarrow> env \<Rightarrow> nat \<Rightarrow> uuid list \<Rightarrow> 'c \<Rightarrow> cdb \<Rightarrow>
    'c \<times> cdb \<times> (nat \<times> nat) result" where
  "broadcaster_run_once S A describe \<Gamma> limit locked c db =
     (case claim_outgoing \<Gamma> limit (lease_seconds 1) locked db of
        Inl e \<Rightarrow> (c, db, Inl e)
      | Inr (db1, claimed) \<Rightarrow>
          if claimed = [] then (c, db1, Inr (0, 0)) else broadcast_all S A describe \<Gamma> claimed c db1 (0, 0))"

section \<open>Watching\<close>

definition outgoing_candidates :: "chain_settings \<Rightarrow> int \<Rightarrow> cdb \<Rightarrow> uuid list" where
  "outgoing_candidates S head db = map og_id (filter (\<lambda>r. (og_status r = TxBroadcasted \<or> og_status r = TxConfirmed) \<and>
     (case og_block_number r of None \<Rightarrow> True | Some n \<Rightarrow> head - finality_depth S < n)) (outgoings db))"

definition mark_outgoing_reorged :: "env \<Rightarrow> outgoing \<Rightarrow> cdb \<Rightarrow> (cdb \<times> string) result" where
  "mark_outgoing_reorged \<Gamma> r db =
     (let reason = ''transaction disappeared from the chain (reorg)'' in
      bindr (failure_payload r reason ''CHAIN_REORG'') (\<lambda>p.
      bindr (emit \<Gamma> TX_FAILED (map (\<lambda>(k, v). (k, if k = ''was_confirmed'' then JBool True else v)) p)
               (uuid_str (og_transfer_id r) @ '':CHAIN_REORG:'' @ (case og_block_hash r of None \<Rightarrow> ''None'' | Some h \<Rightarrow> h)) (og_correlation_id r) db) (\<lambda>db1.
      bindr (save_outgoing \<Gamma> (r\<lparr>og_status := TxReorged, og_failure_reason := Some reason\<rparr>) db1) (\<lambda>db2. Inr (db2, ''reorged'')))))"

text \<open>\<open>_handle_stuck\<close>; the age in whole seconds.\<close>

definition handle_stuck :: "chain_settings \<Rightarrow> env \<Rightarrow> outgoing \<Rightarrow> int option \<Rightarrow> int \<Rightarrow> cdb \<Rightarrow> (cdb \<times> string) result" where
  "handle_stuck S \<Gamma> r broadcast_at att db =
     (case broadcast_at of
        None \<Rightarrow> Inr (db, ''checked'')
      | Some b \<Rightarrow>
          let age = now \<Gamma> - b in
          if age < pending_timeout_seconds S then Inr (db, ''checked'')
          else if att < broadcast_max_attempts S
          then bindr (save_outgoing \<Gamma> (r\<lparr>og_status := TxPending, og_next_attempt_at := Some (now \<Gamma>)\<rparr>) db) (\<lambda>db1. Inr (db1, ''requeued''))
          else bindr (fail_outgoing \<Gamma> r (''still pending after '' @ py_str age @ ''s and '' @ py_str att @ '' attempts'') ''STUCK_PENDING''
                        (og_correlation_id r) db) (\<lambda>db1. Inr (db1, ''failed'')))"

definition confirmed_payload :: "outgoing \<Rightarrow> string \<Rightarrow> tx_receipt \<Rightarrow> payload result" where
  "confirmed_payload r tx_hash rc =
     bindr (get_asset (og_asset r)) (\<lambda>a.
       Inr [(''transfer_id'', JStr (uuid_str (og_transfer_id r))), (''tx_hash'', JStr tx_hash), (''network'', JStr (og_network r)),
            (''asset'', JStr (og_asset r)), (''amount'', JStr (format_amount (og_amount r) (decimals a))),
            (''amount_units'', JStr (py_str (og_amount r))), (''from_address'', JStr (og_from_address r)),
            (''to_address'', JStr (og_to_address r)), (''block_number'', JInt (rc_block_number rc)), (''block_hash'', JStr (rc_block_hash rc)),
            (''confirmations'', JInt (og_confirmations r))])"

text \<open>The transaction of \<open>_check_one\<close>: \<open>r0\<close> is the row as read before the request, \<open>r\<close> the locked row.\<close>

definition check_apply :: "chain_settings \<Rightarrow> env \<Rightarrow> int \<Rightarrow> string \<Rightarrow> tx_receipt option \<Rightarrow> outgoing \<Rightarrow> outgoing \<Rightarrow> cdb \<Rightarrow> (cdb \<times> string) result" where
  "check_apply S \<Gamma> head tx_hash receipt r0 r db =
     (let \<Gamma>' = correlation_scope (og_correlation_id r) \<Gamma> in
      case receipt of
        None \<Rightarrow>
          if og_status r0 = TxConfirmed then mark_outgoing_reorged \<Gamma>' r db
          else handle_stuck S \<Gamma>' r (og_broadcast_at r0) (og_attempts r0) db
      | Some rc \<Rightarrow>
          let r1 = r\<lparr>og_block_number := Some (rc_block_number rc), og_block_hash := Some (rc_block_hash rc),
                 og_confirmations := max 0 (head - rc_block_number rc + 1)\<rparr> in
          if rc_status rc = 0 then
            if og_status r1 = TxFailed then bindr (save_outgoing \<Gamma>' r1 db) (\<lambda>db1. Inr (db1, ''skipped''))
            else bindr (fail_outgoing \<Gamma>' r1 ''transaction reverted on chain'' ''REVERTED_ON_CHAIN'' (og_correlation_id r1) db) (\<lambda>db1. Inr (db1, ''failed''))
          else if og_status r1 = TxBroadcasted \<and> confirmations_required S \<le> og_confirmations r1 then
            let r2 = r1\<lparr>og_status := TxConfirmed\<rparr> in
            bindr (confirmed_payload r2 tx_hash rc) (\<lambda>p.
            bindr (emit \<Gamma>' TX_CONFIRMED p (uuid_str (og_transfer_id r2) @ '':'' @ tx_hash @ '':confirmed'') (og_correlation_id r2) db) (\<lambda>db1.
            bindr (save_outgoing \<Gamma>' r2 db1) (\<lambda>db2. Inr (db2, ''confirmed''))))
          else bindr (save_outgoing \<Gamma>' r1 db) (\<lambda>db1. Inr (db1, ''checked'')))"

definition check_one :: "chain_settings \<Rightarrow> 'c chain_adapter \<Rightarrow> 'c \<Rightarrow> env \<Rightarrow> int \<Rightarrow> uuid \<Rightarrow> cdb \<Rightarrow> cdb \<Rightarrow> (cdb \<times> string) result" where
  "check_one S A c \<Gamma> head i db0 db =
     (case row_of og_id i (outgoings db0) of
        None \<Rightarrow> Inr (db, ''skipped'')
      | Some r0 \<Rightarrow>
          case og_tx_hash r0 of
            None \<Rightarrow> Inr (db, ''skipped'')
          | Some tx_hash \<Rightarrow>
              if tx_hash = [] then Inr (db, ''skipped'')
              else bindr (receipt_at A c tx_hash) (\<lambda>receipt.
                case row_of og_id i (outgoings db) of
                  None \<Rightarrow> Inr (db, ''skipped'')
                | Some r \<Rightarrow> check_apply S \<Gamma> head tx_hash receipt r0 r db))"

fun check_all :: "chain_settings \<Rightarrow> 'c chain_adapter \<Rightarrow> (nat \<Rightarrow> 'c) \<Rightarrow> env \<Rightarrow> int \<Rightarrow> nat \<Rightarrow> uuid list \<Rightarrow> watch_report \<Rightarrow> cdb \<Rightarrow> cdb \<times> watch_report result" where
  "check_all S A C \<Gamma> head k [] rep db = (db, Inr rep)"
| "check_all S A C \<Gamma> head k (i # is) rep db =
     (case check_one S A (C k) \<Gamma> head i db db of
        Inl e \<Rightarrow> (db, Inl e)
      | Inr (db1, outcome) \<Rightarrow> check_all S A C \<Gamma> head (Suc k) is
          (rep\<lparr>w_checked := Suc (w_checked rep), w_confirmed := w_confirmed rep + (if outcome = ''confirmed'' then 1 else 0),
             w_failed := w_failed rep + (if outcome = ''failed'' \<or> outcome = ''reorged'' then 1 else 0)\<rparr>) db1)"

definition outgoing_watcher_run_once :: "chain_settings \<Rightarrow> 'c chain_adapter \<Rightarrow> (nat \<Rightarrow> 'c) \<Rightarrow> env \<Rightarrow> cdb \<Rightarrow> cdb \<times> watch_report result" where
  "outgoing_watcher_run_once S A C \<Gamma> db =
     (case block_number_at A (C 0) of
        Inl (RpcUnavailableError m) \<Rightarrow> (db, Inr \<lparr>w_confirmed = 0, w_failed = 0, w_checked = 0, w_rpc = False\<rparr>)
      | Inl e \<Rightarrow> (db, Inl e)
      | Inr head \<Rightarrow> check_all S A C \<Gamma> head 1 (outgoing_candidates S head db) \<lparr>w_confirmed = 0, w_failed = 0, w_checked = 0, w_rpc = True\<rparr> db)"

end
