(* ===== verification/MockChain.thy ===== *)
theory MockChain
  imports Chain "HOL-Library.Char_ord" "HOL-Library.List_Lexorder"
begin

text \<open>
  \<open>blockchain_service/chain/mock.py\<close>: the simulated node with its blocks, mempool, token
  balances and fault switches. Every operation is one transaction on the node's tables.
  The digest (SHA-256 in hexadecimal) is a parameter.
\<close>

datatype mock_status = MockPending | MockMined | MockFailed | MockDropped

record mock_block =
  mb_hash :: string
  mb_number :: int
  mb_parent_hash :: string
  mb_canonical :: bool
  mb_mined_at :: int

record mock_tx =
  mx_hash :: string
  mx_from :: string
  mx_to :: string
  mx_amount :: int
  mx_asset :: string
  mx_status :: mock_status
  mx_block_number :: "int option"
  mx_block_hash :: "string option"
  mx_log_index :: "int option"
  mx_is_mint :: bool
  mx_fail_on_mine :: bool
  mx_created_at :: int

record mock_balance =
  bl_address :: string
  bl_amount :: int

record mock_faults =
  rpc_available :: bool
  halt_mining :: bool
  fail_next_transfers :: int

text \<open>The node: its tables, its two constructor arguments and the random UUIDs drawn.\<close>

record mock_chain =
  m_network :: string
  m_asset :: string
  blocks :: "mock_block list"
  mtxs :: "mock_tx list"
  token_balances :: "mock_balance list"
  faults :: "mock_faults option"
  m_draws :: nat

definition EXTERNAL_SOURCE_ADDRESS :: string where
  "EXTERNAL_SOURCE_ADDRESS = ''0x1111111111111111111111111111111111111111''"

definition GENESIS_NUMBER :: int where "GENESIS_NUMBER = 1"

definition MAX_TXS_PER_BLOCK :: nat where "MAX_TXS_PER_BLOCK = 50"

definition mock_hash :: "(string \<Rightarrow> string) \<Rightarrow> string list \<Rightarrow> string" where
  "mock_hash sha parts = ''0x'' @ sha (join_with ''|'' parts)"

definition ZERO_HASH :: string where "ZERO_HASH = ''0x'' @ replicate 64 CHR ''0''"

definition default_faults :: mock_faults where
  "default_faults = \<lparr>rpc_available = True, halt_mining = False, fail_next_transfers = 0\<rparr>"

definition new_mock :: "string \<Rightarrow> mock_chain" where
  "new_mock network = \<lparr>m_network = network, m_asset = ''USDT'', blocks = [], mtxs = [], token_balances = [], faults = None, m_draws = 0\<rparr>"

definition add_block :: "env \<Rightarrow> int \<Rightarrow> string \<Rightarrow> string \<Rightarrow> mock_chain \<Rightarrow> mock_chain result" where
  "add_block \<Gamma> number hash parent c =
     bindr (varchar 80 ''blocks.hash'' hash) (\<lambda>hash.
     bindr (int8 ''blocks.number'' number) (\<lambda>_.
     bindr (varchar 80 ''blocks.parent_hash'' parent) (\<lambda>parent.
       if row_of mb_hash hash (blocks c) \<noteq> None then Inl (IntegrityError ''blocks_pkey'')
       else if list_ex (\<lambda>b. mb_canonical b \<and> mb_number b = number) (blocks c) then Inl (IntegrityError ''uq_mock_canonical_height'')
       else Inr (c\<lparr>blocks := blocks c @ [\<lparr>mb_hash = hash, mb_number = number, mb_parent_hash = parent,
              mb_canonical = True, mb_mined_at = now \<Gamma>\<rparr>]\<rparr>))))"

definition ensure_started :: "(string \<Rightarrow> string) \<Rightarrow> env \<Rightarrow> mock_chain \<Rightarrow> mock_chain result" where
  "ensure_started sha \<Gamma> c =
     (let c1 = (if faults c = None then c\<lparr>faults := Some default_faults\<rparr> else c) in
      if blocks c1 = [] then add_block \<Gamma> GENESIS_NUMBER (mock_hash sha [''genesis'', m_network c]) ZERO_HASH c1
      else Inr c1)"

text \<open>\<open>_faults\<close> inserts a missing row; \<open>_assert_rpc_up\<close> only reads.\<close>

definition faults_row :: "mock_chain \<Rightarrow> mock_faults" where
  "faults_row c = (case faults c of None \<Rightarrow> default_faults | Some f \<Rightarrow> f)"

definition rpc_up :: "mock_chain \<Rightarrow> bool" where
  "rpc_up c = (case faults c of None \<Rightarrow> True | Some f \<Rightarrow> rpc_available f)"

definition assert_rpc_up :: "mock_chain \<Rightarrow> unit result" where
  "assert_rpc_up c = (if rpc_up c then Inr () else Inl (RpcUnavailableError ''simulated RPC node is unreachable''))"

section \<open>Read side\<close>

definition canonical :: "mock_chain \<Rightarrow> mock_block list" where
  "canonical c = filter mb_canonical (blocks c)"

text \<open>The canonical block of the greatest height.\<close>

definition head_block :: "mock_chain \<Rightarrow> mock_block option" where
  "head_block c = (case rev (sort_key mb_number (canonical c)) of [] \<Rightarrow> None | b # _ \<Rightarrow> Some b)"

definition get_block_number :: "mock_chain \<Rightarrow> int result" where
  "get_block_number c = bindr (assert_rpc_up c) (\<lambda>_. Inr (case head_block c of None \<Rightarrow> 0 | Some b \<Rightarrow> mb_number b))"

definition get_block_hash :: "mock_chain \<Rightarrow> int \<Rightarrow> string option result" where
  "get_block_hash c number = bindr (assert_rpc_up c) (\<lambda>_.
     Inr (map_option mb_hash (row_of mb_number number (canonical c))))"

text \<open>The canonical block that a transaction is joined with, by hash.\<close>

definition tx_block :: "mock_chain \<Rightarrow> mock_tx \<Rightarrow> mock_block option" where
  "tx_block c x = (case mx_block_hash x of None \<Rightarrow> None | Some h \<Rightarrow> row_of mb_hash h (blocks c))"

definition in_canonical :: "mock_chain \<Rightarrow> mock_tx \<Rightarrow> bool" where
  "in_canonical c x = (case tx_block c x of None \<Rightarrow> False | Some b \<Rightarrow> mb_canonical b)"

definition or_zero :: "int option \<Rightarrow> int" where
  "or_zero v = (case v of None \<Rightarrow> 0 | Some n \<Rightarrow> n)"

definition in_range :: "int \<Rightarrow> int \<Rightarrow> int option \<Rightarrow> bool" where
  "in_range lo hi v = (case v of None \<Rightarrow> False | Some n \<Rightarrow> lo \<le> n \<and> n \<le> hi)"

definition log_of :: "mock_chain \<Rightarrow> mock_tx \<Rightarrow> transfer_log" where
  "log_of c x = \<lparr>lg_network = m_network c, lg_asset = mx_asset x, lg_tx_hash = mx_hash x,
     lg_log_index = or_zero (mx_log_index x), lg_block_number = or_zero (mx_block_number x),
     lg_block_hash = (case tx_block c x of None \<Rightarrow> [] | Some b \<Rightarrow> mb_hash b),
     lg_from_address = mx_from x, lg_to_address = mx_to x, lg_amount = mx_amount x\<rparr>"

definition get_transfer_logs :: "mock_chain \<Rightarrow> int \<Rightarrow> int \<Rightarrow> string list \<Rightarrow> transfer_log list result" where
  "get_transfer_logs c from_block to_block addrs =
     (if to_block < from_block then Inr []
      else bindr (assert_rpc_up c) (\<lambda>_.
        let hit = (\<lambda>x. mx_status x = MockMined \<and> in_range from_block to_block (mx_block_number x) \<and> in_canonical c x \<and>
              (addrs = [] \<or> py_lower (mx_to x) \<in> set (map py_lower addrs))) in
        Inr (map (log_of c) (sort_key (\<lambda>x. or_zero (mx_block_number x)) (sort_key (\<lambda>x. or_zero (mx_log_index x)) (filter hit (mtxs c)))))))"

definition get_receipt :: "mock_chain \<Rightarrow> string \<Rightarrow> tx_receipt option result" where
  "get_receipt c tx_hash = bindr (assert_rpc_up c) (\<lambda>_.
     Inr (case row_of mx_hash tx_hash (mtxs c) of
        None \<Rightarrow> None
      | Some x \<Rightarrow>
          if mx_status x = MockPending \<or> mx_status x = MockDropped \<or> \<not> in_canonical c x then None
          else Some \<lparr>rc_tx_hash = mx_hash x, rc_block_number = or_zero (mx_block_number x),
                 rc_block_hash = (case tx_block c x of None \<Rightarrow> [] | Some b \<Rightarrow> mb_hash b),
                 rc_status = (if mx_status x = MockMined then 1 else 0)\<rparr>))"

definition get_token_balance :: "mock_chain \<Rightarrow> string \<Rightarrow> int result" where
  "get_token_balance c address = bindr (assert_rpc_up c) (\<lambda>_.
     Inr (case row_of bl_address address (token_balances c) of None \<Rightarrow> 0 | Some b \<Rightarrow> bl_amount b))"

section \<open>Write side\<close>

definition new_tx :: "env \<Rightarrow> mock_chain \<Rightarrow> string \<Rightarrow> string \<Rightarrow> string \<Rightarrow> int \<Rightarrow> bool \<Rightarrow> mock_tx" where
  "new_tx \<Gamma> c h f t n mint = \<lparr>mx_hash = h, mx_from = f, mx_to = t, mx_amount = n, mx_asset = m_asset c, mx_status = MockPending,
     mx_block_number = None, mx_block_hash = None, mx_log_index = None, mx_is_mint = mint, mx_fail_on_mine = False,
     mx_created_at = now \<Gamma>\<rparr>"

definition send_transfer :: "(string \<Rightarrow> string) \<Rightarrow> env \<Rightarrow> string \<Rightarrow> string \<Rightarrow> int \<Rightarrow> string \<Rightarrow> bool \<Rightarrow> mock_chain \<Rightarrow> (mock_chain \<times> string) result" where
  "send_transfer sha \<Gamma> f t n client_ref is_mint c =
     (if n \<le> 0 then Inl (TransactionRejectedError ''amount must be positive'')
      else let tx_hash = mock_hash sha [''tx'', m_network c, client_ref] in
        bindr (assert_rpc_up c) (\<lambda>_.
        bindr (varchar 80 ''transactions.hash'' tx_hash) (\<lambda>h.
        bindr (varchar 64 ''transactions.from_address'' f) (\<lambda>f.
        bindr (varchar 64 ''transactions.to_address'' t) (\<lambda>t.
        bindr (numeric78 ''transactions.amount'' n) (\<lambda>_.
          if row_of mx_hash h (mtxs c) \<noteq> None then Inr (c, tx_hash)
          else Inr (c\<lparr>mtxs := mtxs c @ [new_tx \<Gamma> c h f t n is_mint]\<rparr>, tx_hash)))))))"

text \<open>\<open>_adjust\<close> and \<open>_apply_balances\<close>\<close>

definition adjust :: "string \<Rightarrow> int \<Rightarrow> mock_balance list \<Rightarrow> mock_balance list result" where
  "adjust a delta bs =
     (let bs1 = (if row_of bl_address a bs = None then bs @ [\<lparr>bl_address = a, bl_amount = 0\<rparr>] else bs) in
      case row_of bl_address a bs1 of
        None \<Rightarrow> Inr bs1
      | Some b \<Rightarrow> bindr (numeric78 ''token_balances.amount'' (bl_amount b + delta)) (\<lambda>n.
          Inr (upd_of bl_address a (\<lambda>b. b\<lparr>bl_amount := n\<rparr>) bs1)))"

definition apply_balances :: "int \<Rightarrow> mock_tx \<Rightarrow> mock_balance list \<Rightarrow> mock_balance list result" where
  "apply_balances sg x bs =
     bindr (if mx_is_mint x then Inr bs else adjust (mx_from x) (- sg * mx_amount x) bs) (\<lambda>bs1.
       adjust (mx_to x) (sg * mx_amount x) bs1)"

text \<open>One pending transaction: forced failures first, then the balance of the sender.\<close>

definition forced_failure :: "mock_faults \<Rightarrow> mock_tx \<Rightarrow> bool" where
  "forced_failure f x = (mx_fail_on_mine x \<or> (0 < fail_next_transfers f \<and> \<not> mx_is_mint x))"

definition covered :: "mock_balance list \<Rightarrow> mock_tx \<Rightarrow> bool" where
  "covered bs x = (mx_is_mint x \<or> (case row_of bl_address (mx_from x) bs of None \<Rightarrow> False | Some b \<Rightarrow> mx_amount x \<le> bl_amount b))"

definition settle_tx :: "int \<Rightarrow> string \<Rightarrow> mock_status \<Rightarrow> int option \<Rightarrow> mock_tx \<Rightarrow> mock_tx" where
  "settle_tx number hash st li x = x\<lparr>mx_block_number := Some number, mx_block_hash := Some hash, mx_status := st, mx_log_index := li\<rparr>"

definition mine_tx :: "int \<Rightarrow> string \<Rightarrow> mock_tx \<Rightarrow> mock_chain \<times> int \<Rightarrow> (mock_chain \<times> int) result" where
  "mine_tx number hash x cl =
     (case cl of (c, log_index) \<Rightarrow>
        let f = faults_row c; forced = forced_failure f x;
            c1 = (if forced \<and> \<not> mx_fail_on_mine x
                  then c\<lparr>faults := Some (f\<lparr>fail_next_transfers := fail_next_transfers f - 1\<rparr>)\<rparr> else c) in
        if forced \<or> \<not> covered (token_balances c1) x
        then Inr (c1\<lparr>mtxs := upd_of mx_hash (mx_hash x) (settle_tx number hash MockFailed None) (mtxs c1)\<rparr>, log_index)
        else bindr (apply_balances 1 x (token_balances c1)) (\<lambda>bs.
          Inr (c1\<lparr>token_balances := bs,
                 mtxs := upd_of mx_hash (mx_hash x) (settle_tx number hash MockMined (Some log_index)) (mtxs c1)\<rparr>, log_index + 1)))"

fun mine_txs :: "int \<Rightarrow> string \<Rightarrow> mock_tx list \<Rightarrow> mock_chain \<times> int \<Rightarrow> (mock_chain \<times> int) result" where
  "mine_txs number hash [] cl = Inr cl"
| "mine_txs number hash (x # xs) cl = bindr (mine_tx number hash x cl) (mine_txs number hash xs)"

definition mempool :: "mock_chain \<Rightarrow> mock_tx list" where
  "mempool c = take MAX_TXS_PER_BLOCK (sort_key mx_created_at (sort_key mx_hash (filter (\<lambda>x. mx_status x = MockPending) (mtxs c))))"

definition next_block :: "(string \<Rightarrow> string) \<Rightarrow> env \<Rightarrow> mock_chain \<Rightarrow> int \<times> string \<times> string" where
  "next_block sha \<Gamma> c =
     (let number = (case head_block c of None \<Rightarrow> GENESIS_NUMBER | Some b \<Rightarrow> mb_number b + 1);
          parent = (case head_block c of None \<Rightarrow> ZERO_HASH | Some b \<Rightarrow> mb_hash b) in
      (number, parent, mock_hash sha [''block'', py_str number, parent, uuid_hex (uuid4 \<Gamma> (m_draws c))]))"

definition mine_block :: "(string \<Rightarrow> string) \<Rightarrow> env \<Rightarrow> mock_chain \<Rightarrow> (mock_chain \<times> int) result" where
  "mine_block sha \<Gamma> c =
     (let f = faults_row c; c1 = c\<lparr>faults := Some f, m_draws := Suc (m_draws c)\<rparr> in
      case next_block sha \<Gamma> c of (number, parent, hash) \<Rightarrow>
        bindr (add_block \<Gamma> number hash parent c1) (\<lambda>c2.
          if halt_mining f then Inr (c2, number)
          else bindr (mine_txs number hash (mempool c2) (c2, 0)) (\<lambda>(c3, _). Inr (c3, number))))"

section \<open>Simulation controls\<close>

definition mock_simulate_deposit :: "(string \<Rightarrow> string) \<Rightarrow> env \<Rightarrow> string \<Rightarrow> int \<Rightarrow> string \<Rightarrow> mock_chain \<Rightarrow> (mock_chain \<times> string) result" where
  "mock_simulate_deposit sha \<Gamma> t n client_ref c = send_transfer sha \<Gamma> EXTERNAL_SOURCE_ADDRESS t n client_ref True c"

definition evict :: "string list \<Rightarrow> mock_tx \<Rightarrow> mock_tx" where
  "evict drops x = x\<lparr>mx_block_number := None, mx_block_hash := None, mx_log_index := None,
     mx_status := (if py_lower (mx_hash x) \<in> set drops then MockDropped else MockPending)\<rparr>"

text \<open>The transactions of one orphaned block, then the orphaned blocks from the top.\<close>

fun orphan_txs :: "string list \<Rightarrow> mock_tx list \<Rightarrow> mock_chain \<Rightarrow> mock_chain result" where
  "orphan_txs drops [] c = Inr c"
| "orphan_txs drops (x # xs) c =
     bindr (if mx_status x = MockMined then apply_balances (- 1) x (token_balances c) else Inr (token_balances c)) (\<lambda>bs.
       orphan_txs drops xs (c\<lparr>token_balances := bs, mtxs := upd_of mx_hash (mx_hash x) (evict drops) (mtxs c)\<rparr>))"

fun orphan_blocks :: "string list \<Rightarrow> mock_block list \<Rightarrow> mock_chain \<times> string list \<Rightarrow> (mock_chain \<times> string list) result" where
  "orphan_blocks drops [] cr = Inr cr"
| "orphan_blocks drops (b # bs) cr =
     (case cr of (c, reverted) \<Rightarrow>
        let xs = filter (\<lambda>x. mx_block_hash x = Some (mb_hash b)) (mtxs c) in
        bindr (orphan_txs drops xs c) (\<lambda>c1.
          orphan_blocks drops bs (c1\<lparr>blocks := upd_of mb_hash (mb_hash b) (\<lambda>b. b\<lparr>mb_canonical := False\<rparr>) (blocks c1)\<rparr>,
            reverted @ map mx_hash xs)))"

text \<open>Each block of the competing fork is its own transaction: those mined before an exception stay.\<close>

fun mine_blocks :: "(string \<Rightarrow> string) \<Rightarrow> env \<Rightarrow> nat \<Rightarrow> int \<Rightarrow> mock_chain \<Rightarrow> mock_chain \<times> int result" where
  "mine_blocks sha \<Gamma> 0 lst c = (c, Inr lst)"
| "mine_blocks sha \<Gamma> (Suc k) lst c =
     (case mine_block sha \<Gamma> c of Inl e \<Rightarrow> (c, Inl e) | Inr (c1, number) \<Rightarrow> mine_blocks sha \<Gamma> k number c1)"

definition victims :: "int \<Rightarrow> int \<Rightarrow> mock_chain \<Rightarrow> mock_block list" where
  "victims head depth c = rev (sort_key mb_number (filter (\<lambda>b. max (GENESIS_NUMBER + 1) (head - depth + 1) \<le> mb_number b) (canonical c)))"

definition reorg :: "(string \<Rightarrow> string) \<Rightarrow> env \<Rightarrow> int \<Rightarrow> string list \<Rightarrow> mock_chain \<Rightarrow> mock_chain \<times> (int list \<times> string list) result" where
  "reorg sha \<Gamma> depth drop_hashes c =
     (case head_block c of
        None \<Rightarrow> (c, Inr ([], []))
      | Some h \<Rightarrow>
          let vs = victims (mb_number h) depth c in
          case orphan_blocks (map py_lower drop_hashes) vs (c, []) of
            Inl e \<Rightarrow> (c, Inl e)
          | Inr (c1, reverted) \<Rightarrow>
              case mine_blocks sha \<Gamma> (length vs + 1) 0 c1 of
                (c2, Inl e) \<Rightarrow> (c2, Inl e)
              | (c2, Inr _) \<Rightarrow> (c2, Inr (map mb_number vs, reverted)))"

definition set_faults :: "bool option \<Rightarrow> bool option \<Rightarrow> int option \<Rightarrow> mock_chain \<Rightarrow> (mock_chain \<times> mock_faults) result" where
  "set_faults rpc halt fail_next c =
     (let f = faults_row c;
          f1 = (case rpc of None \<Rightarrow> f | Some v \<Rightarrow> f\<lparr>rpc_available := v\<rparr>);
          f2 = (case halt of None \<Rightarrow> f1 | Some v \<Rightarrow> f1\<lparr>halt_mining := v\<rparr>);
          f3 = (case fail_next of None \<Rightarrow> f2 | Some v \<Rightarrow> f2\<lparr>fail_next_transfers := max 0 v\<rparr>) in
      bindr (int4 ''faults.fail_next_transfers'' (fail_next_transfers f3)) (\<lambda>_.
        Inr (c\<lparr>faults := Some f3\<rparr>, f3)))"

definition get_faults :: "mock_chain \<Rightarrow> mock_faults" where
  "get_faults c = faults_row c"

text \<open>
  \<open>MockChainAdapter\<close>: the node together with its clock and its random source. A submission
  that raises has been rolled back.
\<close>

type_synonym mock_node = "env \<times> mock_chain"

definition mock_submit :: "(string \<Rightarrow> string) \<Rightarrow> mock_node \<Rightarrow> string \<Rightarrow> string \<Rightarrow> int \<Rightarrow> string \<Rightarrow> mock_node \<times> string result" where
  "mock_submit sha node f t n ref = (case node of (\<Gamma>, c) \<Rightarrow>
     case send_transfer sha \<Gamma> f t n ref False c of Inl e \<Rightarrow> ((\<Gamma>, c), Inl e) | Inr (c1, h) \<Rightarrow> ((\<Gamma>, c1), Inr h))"

definition MockChainAdapter :: "(string \<Rightarrow> string) \<Rightarrow> string \<Rightarrow> mock_node chain_adapter" where
  "MockChainAdapter sha network = \<lparr>port_network = network, port_asset = ''USDT'',
     block_number_at = (\<lambda>(\<Gamma>, c). get_block_number c), block_hash_at = (\<lambda>(\<Gamma>, c). get_block_hash c),
     transfer_logs_at = (\<lambda>(\<Gamma>, c). get_transfer_logs c), receipt_at = (\<lambda>(\<Gamma>, c). get_receipt c),
     submit = mock_submit sha, token_balance_at = (\<lambda>(\<Gamma>, c). get_token_balance c)\<rparr>"

end
