(* ===== verification/MockNode.thy ===== *)
theory MockNode
  imports MockChain
begin

text \<open>
  What the simulated node guarantees: its canonical blocks form one linked chain, its token
  balances are the transfers of that chain and never negative, and it honours the contract
  of the port that the service relies on.
\<close>

section \<open>Balances\<close>

definition balv :: "mock_balance list \<Rightarrow> string \<Rightarrow> int" where
  "balv bs a = (case row_of bl_address a bs of None \<Rightarrow> 0 | Some b \<Rightarrow> bl_amount b)"

text \<open>What a transfer adds to the balance of an address; minting has no sender.\<close>

definition flow :: "string \<Rightarrow> mock_tx \<Rightarrow> int" where
  "flow a x = (if mx_to x = a then mx_amount x else 0) - (if mx_from x = a \<and> \<not> mx_is_mint x then mx_amount x else 0)"

definition mined :: "mock_tx \<Rightarrow> bool" where "mined x = (mx_status x = MockMined)"

definition mined_to :: "int \<Rightarrow> mock_tx \<Rightarrow> bool" where
  "mined_to h x = (mx_status x = MockMined \<and> or_zero (mx_block_number x) \<le> h)"

lemma adjust_spec:
  assumes "adjust a d bs = Inr bs'" and "uniq bl_address bs"
  shows "uniq bl_address bs' \<and> balv bs' = (balv bs)(a := balv bs a + d)"
proof -
  let ?bs = "if row_of bl_address a bs = None then bs @ [\<lparr>bl_address = a, bl_amount = 0\<rparr>] else bs"
  have u: "uniq bl_address ?bs" using assms(2) by (simp add: uniq_snoc)
  have same: "balv ?bs = balv bs" by (auto simp: fun_eq_iff balv_def row_of_append split: option.split)
  obtain b where b: "row_of bl_address a ?bs = Some b" by (cases "row_of bl_address a bs") (auto simp: row_of_append)
  with assms(1) have bs': "bs' = upd_of bl_address a (\<lambda>r. r\<lparr>bl_amount := bl_amount b + d\<rparr>) ?bs"
    by (auto simp: adjust_def Let_def result_simps)
  have "balv bs' x = (if x = a then balv ?bs a + d else balv ?bs x)" for x
    unfolding bs' balv_def using b by (auto simp: row_of_upd split: option.splits)
  moreover have "uniq bl_address bs'" unfolding bs' using u by (simp add: uniq_upd)
  ultimately show ?thesis unfolding same by (auto simp: fun_eq_iff)
qed

lemma apply_balances_spec:
  assumes "apply_balances s x bs = Inr bs'" and "uniq bl_address bs"
  shows "uniq bl_address bs' \<and> (\<forall>a. balv bs' a = balv bs a + s * flow a x)"
proof -
  from assms(1) obtain bs1 where one: "(if mx_is_mint x then Inr bs else adjust (mx_from x) (- s * mx_amount x) bs) = Inr bs1"
    and two: "adjust (mx_to x) (s * mx_amount x) bs1 = Inr bs'"
    by (auto simp: apply_balances_def bindr_eq_Inr)
  have B: "uniq bl_address bs1 \<and> (\<forall>a. balv bs1 a = balv bs a - (if mx_from x = a \<and> \<not> mx_is_mint x then s * mx_amount x else 0))"
    using one assms(2) adjust_spec [of "mx_from x" "- s * mx_amount x" bs bs1] by (auto split: if_splits)
  then have "uniq bl_address bs'" and b: "balv bs' = (balv bs1)(mx_to x := balv bs1 (mx_to x) + s * mx_amount x)"
    using adjust_spec [OF two] by simp_all
  moreover have "balv bs' a = balv bs a + s * flow a x" for a
    using B unfolding b by (simp add: flow_def right_diff_distrib)
  ultimately show ?thesis by blast
qed

section \<open>The invariant of the node\<close>

text \<open>The canonical blocks, in the order they were mined, have the heights 1, 2, ... and each names the one before.\<close>

definition chain_ok :: "mock_chain \<Rightarrow> bool" where
  "chain_ok c = (uniq mb_hash (blocks c) \<and> map mb_number (canonical c) = [1..int (length (canonical c))] \<and>
     (\<forall>i. Suc i < length (canonical c) \<longrightarrow> mb_parent_hash (canonical c ! Suc i) = mb_hash (canonical c ! i)))"

definition settled_in :: "mock_chain \<Rightarrow> mock_tx \<Rightarrow> bool" where
  "settled_in c x = (\<exists>b\<in>set (blocks c). mb_canonical b \<and> mx_block_hash x = Some (mb_hash b) \<and> mx_block_number x = Some (mb_number b))"

definition tx_ok :: "mock_chain \<Rightarrow> mock_tx \<Rightarrow> bool" where
  "tx_ok c x = (0 < mx_amount x \<and>
     (if mx_status x = MockMined \<or> mx_status x = MockFailed then settled_in c x
      else mx_block_hash x = None \<and> mx_block_number x = None))"

definition books_ok :: "mock_chain \<Rightarrow> bool" where
  "books_ok c = (uniq bl_address (token_balances c) \<and>
     (\<forall>a. balv (token_balances c) a = total mined (flow a) (mtxs c)) \<and>
     (\<forall>h a. 0 \<le> total (mined_to h) (flow a) (mtxs c)))"

definition mock_ok :: "mock_chain \<Rightarrow> bool" where
  "mock_ok c = (chain_ok c \<and> uniq mx_hash (mtxs c) \<and> (\<forall>x\<in>set (mtxs c). tx_ok c x) \<and> books_ok c)"

lemma tx_ok_blocks: "blocks c' = blocks c \<Longrightarrow> tx_ok c' x = tx_ok c x"
  by (simp add: tx_ok_def settled_in_def)

lemma chain_ok_cong: "blocks c' = blocks c \<Longrightarrow> chain_ok c' = chain_ok c"
  by (simp add: chain_ok_def canonical_def)

lemma mock_ok_cong:
  "\<lbrakk>blocks c' = blocks c; mtxs c' = mtxs c; token_balances c' = token_balances c\<rbrakk> \<Longrightarrow> mock_ok c' = mock_ok c"
  using tx_ok_blocks [of c' c] chain_ok_cong [of c' c] by (simp add: mock_ok_def books_ok_def)

lemma chain_ok_numbers: "chain_ok c \<Longrightarrow> map mb_number (canonical c) = [1..int (length (canonical c))]"
  unfolding chain_ok_def by blast

lemma canonical_number:
  assumes "chain_ok c" and "b \<in> set (canonical c)"
  shows "1 \<le> mb_number b" and "mb_number b \<le> int (length (canonical c))"
proof -
  have "mb_number b \<in> set (map mb_number (canonical c))" using assms(2) by simp
  then have "mb_number b \<in> set [1..int (length (canonical c))]" by (simp only: chain_ok_numbers [OF assms(1)])
  then show "1 \<le> mb_number b" "mb_number b \<le> int (length (canonical c))" by simp_all
qed

lemma head_block_eq:
  assumes "chain_ok c"
  shows "head_block c = (if canonical c = [] then None else Some (last (canonical c)))"
proof -
  have "sorted (map mb_number (canonical c))" using assms by (simp add: chain_ok_def)
  then have "sort_key mb_number (canonical c) = canonical c" by (simp add: sort_key_id_if_sorted)
  then show ?thesis by (cases "canonical c" rule: rev_cases) (simp_all add: head_block_def)
qed

lemma head_number:
  assumes "chain_ok c" and "canonical c \<noteq> []"
  shows "mb_number (last (canonical c)) = int (length (canonical c))"
proof -
  have "mb_number (last (canonical c)) = last (map mb_number (canonical c))" using assms(2) by (simp add: last_map)
  also have "\<dots> = last [1..int (length (canonical c))]" using assms(1) by (simp add: chain_ok_def)
  also have "\<dots> = int (length (canonical c))" using assms(2) upto_rec2 [of 1 "int (length (canonical c))"] by (simp add: Suc_leI)
  finally show ?thesis .
qed

lemma tx_block_settled:
  assumes "chain_ok c" and "settled_in c x"
  shows "\<exists>b. tx_block c x = Some b \<and> mb_canonical b \<and> b \<in> set (blocks c) \<and> mx_block_hash x = Some (mb_hash b) \<and> mx_block_number x = Some (mb_number b)"
proof -
  from assms(2) obtain b where b: "b \<in> set (blocks c)" "mb_canonical b" "mx_block_hash x = Some (mb_hash b)" "mx_block_number x = Some (mb_number b)"
    by (auto simp: settled_in_def)
  then have "tx_block c x = Some b" using assms(1) by (simp add: tx_block_def chain_ok_def row_of_unique)
  with b show ?thesis by simp
qed

section \<open>New blocks\<close>

lemma add_block_spec:
  assumes "add_block \<Gamma> n h p c = Inr c'" and "length h \<le> 80" "length p \<le> 80"
  shows "c' = c\<lparr>blocks := blocks c @ [\<lparr>mb_hash = h, mb_number = n, mb_parent_hash = p, mb_canonical = True, mb_mined_at = now \<Gamma>\<rparr>]\<rparr> \<and>
    row_of mb_hash h (blocks c) = None"
  using assms by (auto simp: add_block_def bindr_eq_Inr split: if_splits)

lemma settled_in_grow: "set (blocks c) \<subseteq> set (blocks c') \<Longrightarrow> settled_in c x \<Longrightarrow> settled_in c' x"
  by (auto simp: settled_in_def)

lemma nth_snoc_link:
  assumes "\<forall>i. Suc i < length xs \<longrightarrow> p (xs ! Suc i) = g (xs ! i)" and "xs \<noteq> [] \<Longrightarrow> p y = g (last xs)"
  shows "Suc i < length (xs @ [y]) \<Longrightarrow> p ((xs @ [y]) ! Suc i) = g ((xs @ [y]) ! i)"
proof (cases "Suc i = length xs")
  case True
  then have "xs \<noteq> []" "length xs - 1 = i" by auto
  with True assms(2) show "Suc i < length (xs @ [y]) \<Longrightarrow> ?thesis" by (simp add: nth_append last_conv_nth)
next
  case False
  then show "Suc i < length (xs @ [y]) \<Longrightarrow> ?thesis" using assms(1) by (auto simp: nth_append)
qed

lemma add_block_ok:
  assumes ok: "mock_ok c" and run: "add_block \<Gamma> n h p c = Inr c'" and len: "length h \<le> 80" "length p \<le> 80"
    and n: "n = int (length (canonical c)) + 1" and p: "canonical c \<noteq> [] \<Longrightarrow> p = mb_hash (last (canonical c))"
  shows "mock_ok c' \<and> mtxs c' = mtxs c \<and> length (canonical c') = length (canonical c) + 1 \<and>
    (\<exists>b\<in>set (blocks c'). mb_canonical b \<and> mb_hash b = h \<and> mb_number b = n) \<and> faults c' = faults c \<and> m_network c' = m_network c"
proof -
  let ?b = "\<lparr>mb_hash = h, mb_number = n, mb_parent_hash = p, mb_canonical = True, mb_mined_at = now \<Gamma>\<rparr>"
  note S = add_block_spec [OF run len]
  have c': "c' = c\<lparr>blocks := blocks c @ [?b]\<rparr>" using S by simp
  have can: "canonical c' = canonical c @ [?b]" unfolding c' by (simp add: canonical_def)
  have cok: "chain_ok c" and txs: "\<forall>x\<in>set (mtxs c). tx_ok c x" using ok by (simp_all add: mock_ok_def)
  have up: "[1..int (length (canonical c)) + 1] = [1..int (length (canonical c))] @ [int (length (canonical c)) + 1]"
    by (simp add: upto_rec2)
  have "map mb_number (canonical c') = [1..int (length (canonical c'))]"
    unfolding can using cok n up by (simp add: chain_ok_def algebra_simps)
  moreover have "mb_parent_hash (canonical c' ! Suc i) = mb_hash (canonical c' ! i)" if "Suc i < length (canonical c')" for i
    using nth_snoc_link [of "canonical c" mb_parent_hash mb_hash ?b i] cok p that unfolding can by (simp add: chain_ok_def)
  moreover have "uniq mb_hash (blocks c')" unfolding c' using cok S by (simp add: chain_ok_def uniq_snoc)
  ultimately have cok': "chain_ok c'" by (simp add: chain_ok_def)
  have "tx_ok c' x" if "tx_ok c x" for x
  proof -
    have "settled_in c' x" if "settled_in c x" using that by (rule settled_in_grow [rotated]) (auto simp: c')
    with that show ?thesis by (auto simp: tx_ok_def)
  qed
  with txs ok cok' have "mock_ok c'" unfolding mock_ok_def books_ok_def c' by simp
  then show ?thesis using can c' by simp
qed

section \<open>Mining\<close>

text \<open>The block under construction is the top of the chain.\<close>

definition top_block :: "int \<Rightarrow> string \<Rightarrow> mock_chain \<Rightarrow> bool" where
  "top_block n h c = (n = int (length (canonical c)) \<and> (\<exists>b\<in>set (blocks c). mb_canonical b \<and> mb_hash b = h \<and> mb_number b = n))"

lemma top_block_cong: "blocks c' = blocks c \<Longrightarrow> top_block n h c' = top_block n h c"
  by (simp add: top_block_def canonical_def)

lemma mined_below_top:
  assumes ok: "mock_ok c" and top: "top_block n h c" and "n \<le> m"
  shows "total (mined_to m) g (mtxs c) = total mined g (mtxs c)"
proof (rule total_cong)
  fix x assume x: "x \<in> set (mtxs c)"
  have "or_zero (mx_block_number x) \<le> m" if "mx_status x = MockMined"
  proof -
    have "settled_in c x" using ok x that by (auto simp: mock_ok_def tx_ok_def)
    then obtain b where b: "b \<in> set (canonical c)" "mx_block_number x = Some (mb_number b)"
      by (auto simp: settled_in_def canonical_def)
    have "mb_number b \<le> n" using canonical_number(2) [OF _ b(1)] ok top by (simp add: mock_ok_def top_block_def)
    then show ?thesis using b(2) assms(3) by (simp add: or_zero_def)
  qed
  then show "mined_to m x = mined x" by (auto simp: mined_to_def mined_def)
qed simp

lemma flow_settle [simp]: "flow a (settle_tx n h st li x) = flow a x"
  by (simp add: flow_def settle_tx_def)

lemma settle_sel [simp]:
  "mx_hash (settle_tx n h st li x) = mx_hash x" "mx_status (settle_tx n h st li x) = st" "mx_amount (settle_tx n h st li x) = mx_amount x"
  "mx_block_number (settle_tx n h st li x) = Some n" "mx_block_hash (settle_tx n h st li x) = Some h"
  "mx_from (settle_tx n h st li x) = mx_from x" "mx_to (settle_tx n h st li x) = mx_to x" "mx_is_mint (settle_tx n h st li x) = mx_is_mint x"
  by (simp_all add: settle_tx_def)

text \<open>What a transaction is, whatever becomes of it.\<close>

definition tx_id :: "mock_tx \<Rightarrow> string \<times> string \<times> string \<times> int \<times> bool" where
  "tx_id x = (mx_hash x, mx_from x, mx_to x, mx_amount x, mx_is_mint x)"

lemma covered_flow:
  assumes "covered bs x" and "0 < mx_amount x" and "0 \<le> balv bs a"
  shows "0 \<le> balv bs a + flow a x"
  using assms by (auto simp: covered_def flow_def balv_def split: option.splits if_splits)

text \<open>A pending row is settled in the top block; the books move when it was mined.\<close>

lemma settle_ok:
  assumes ok: "mock_ok c" and top: "top_block n h c" and x: "x \<in> set (mtxs c)" "mx_status x = MockPending"
    and same: "blocks c' = blocks c" and tx: "mtxs c' = upd_of mx_hash (mx_hash x) (settle_tx n h st li) (mtxs c)"
    and st: "st = MockMined \<or> st = MockFailed" and uq: "uniq bl_address (token_balances c')"
    and bal: "\<And>a. balv (token_balances c') a = balv (token_balances c) a + (if st = MockMined then flow a x else 0)"
    and pos: "\<And>a. st = MockMined \<Longrightarrow> 0 \<le> balv (token_balances c) a + flow a x"
  shows "mock_ok c'"
proof -
  have u: "uniq mx_hash (mtxs c)" and row: "row_of mx_hash (mx_hash x) (mtxs c) = Some x"
    using ok x by (simp_all add: mock_ok_def row_of_unique)
  have tot: "total P (flow a) (mtxs c') = total P (flow a) (mtxs c) + (if P (settle_tx n h st li x) then flow a x else 0)"
    if "\<not> P x" for P a
    unfolding tx using total_upd [OF u row, of P "flow a" "settle_tx n h st li"] that by simp
  have m: "total mined (flow a) (mtxs c') = total mined (flow a) (mtxs c) + (if st = MockMined then flow a x else 0)" for a
    using tot [of mined a] x(2) by (simp add: mined_def)
  have "0 \<le> total (mined_to k) (flow a) (mtxs c')" for k a
  proof (cases "n \<le> k \<and> st = MockMined")
    case True
    then have "total (mined_to k) (flow a) (mtxs c') = total mined (flow a) (mtxs c) + flow a x"
      using tot [of "mined_to k" a] x(2) mined_below_top [OF ok top, of k "flow a"] by (simp add: mined_to_def or_zero_def)
    with True pos [of a] ok show ?thesis by (simp add: mock_ok_def books_ok_def)
  next
    case False
    then have "total (mined_to k) (flow a) (mtxs c') = total (mined_to k) (flow a) (mtxs c)"
      using tot [of "mined_to k" a] x(2) by (auto simp: mined_to_def or_zero_def)
    with ok show ?thesis by (simp add: mock_ok_def books_ok_def)
  qed
  moreover have "tx_ok c' y" if "y \<in> set (mtxs c')" for y
  proof -
    from that tx obtain z where z: "z \<in> set (mtxs c)" "y = (if mx_hash z = mx_hash x then settle_tx n h st li z else z)"
      by (auto simp: set_upd_of)
    have "settled_in c (settle_tx n h st li z)" using top by (auto simp: top_block_def settled_in_def)
    moreover have "tx_ok c z" using ok z(1) by (simp add: mock_ok_def)
    ultimately show ?thesis using z(2) st unfolding tx_ok_blocks [OF same] by (auto simp: tx_ok_def)
  qed
  moreover have "uniq mx_hash (mtxs c')" unfolding tx using u by (simp add: uniq_upd)
  ultimately show ?thesis using ok bal m uq chain_ok_cong [OF same] by (simp add: mock_ok_def books_ok_def)
qed

lemma mine_tx_ok:
  assumes run: "mine_tx n h x (c, li) = Inr (c', li')" and ok: "mock_ok c" and top: "top_block n h c"
    and x: "x \<in> set (mtxs c)" "mx_status x = MockPending"
  shows "mock_ok c' \<and> top_block n h c' \<and> m_network c' = m_network c \<and>
    map tx_id (mtxs c') = map tx_id (mtxs c) \<and> (\<forall>y\<in>set (mtxs c). mx_hash y \<noteq> mx_hash x \<longrightarrow> y \<in> set (mtxs c'))"
proof -
  let ?c1 = "if forced_failure (faults_row c) x \<and> \<not> mx_fail_on_mine x
     then c\<lparr>faults := Some (faults_row c\<lparr>fail_next_transfers := fail_next_transfers (faults_row c) - 1\<rparr>)\<rparr> else c"
  have c1: "blocks ?c1 = blocks c" "mtxs ?c1 = mtxs c" "token_balances ?c1 = token_balances c" "m_network ?c1 = m_network c" by simp_all
  have uq: "uniq bl_address (token_balances c)" and nonneg: "0 \<le> balv (token_balances c) a" for a
  proof -
    from ok show "uniq bl_address (token_balances c)" by (simp add: mock_ok_def books_ok_def)
    show "0 \<le> balv (token_balances c) a" using ok mined_below_top [OF ok top order_refl, of "flow a"]
      unfolding mock_ok_def books_ok_def by metis
  qed
  consider (failed) "c' = ?c1\<lparr>mtxs := upd_of mx_hash (mx_hash x) (settle_tx n h MockFailed None) (mtxs ?c1)\<rparr>"
    | (settled) bs where "covered (token_balances c) x" "apply_balances 1 x (token_balances c) = Inr bs"
        "c' = ?c1\<lparr>token_balances := bs, mtxs := upd_of mx_hash (mx_hash x) (settle_tx n h MockMined (Some li)) (mtxs ?c1)\<rparr>"
    using run by (auto simp: mine_tx_def Let_def bindr_eq_Inr split: if_splits)
  then show ?thesis
  proof cases
    case failed
    have "mock_ok c'"
      by (rule settle_ok [OF ok top x, of c' MockFailed None]) (simp_all add: failed c1 uq)
    moreover have "top_block n h c'" using top top_block_cong [of c' c] by (simp add: failed c1)
    ultimately show ?thesis by (auto simp: failed c1 tx_id_def map_key_upd set_upd_of)
  next
    case settled
    note B = apply_balances_spec [OF settled(2) uq]
    have "0 < mx_amount x" using ok x(1) by (auto simp: mock_ok_def tx_ok_def)
    then have "mock_ok c'"
      by (intro settle_ok [OF ok top x, of c' MockMined "Some li"])
        (simp_all add: settled(3) c1 B covered_flow [OF settled(1) _ nonneg])
    moreover have "top_block n h c'" using top top_block_cong [of c' c] by (simp add: settled(3) c1)
    ultimately show ?thesis by (auto simp: settled(3) c1 tx_id_def map_key_upd set_upd_of)
  qed
qed

lemma mine_txs_ok:
  assumes "mine_txs n h xs (c, li) = Inr (c', li')" and "mock_ok c" and "top_block n h c"
    and "\<forall>x\<in>set xs. x \<in> set (mtxs c) \<and> mx_status x = MockPending" and "distinct (map mx_hash xs)"
  shows "mock_ok c' \<and> m_network c' = m_network c \<and> map tx_id (mtxs c') = map tx_id (mtxs c)"
  using assms
proof (induction xs arbitrary: c li)
  case (Cons x xs)
  from Cons.prems(1) obtain c1 l1 where one: "mine_tx n h x (c, li) = Inr (c1, l1)" and rest: "mine_txs n h xs (c1, l1) = Inr (c', li')"
    by (auto simp: bindr_eq_Inr)
  have x: "x \<in> set (mtxs c)" "mx_status x = MockPending" using Cons.prems(4) by simp_all
  note M = mine_tx_ok [OF one Cons.prems(2,3) x]
  have "\<forall>y\<in>set xs. y \<in> set (mtxs c1) \<and> mx_status y = MockPending"
    using Cons.prems(4,5) M by (auto simp: image_iff)
  with Cons.IH [OF rest] M Cons.prems(5) show ?case by auto
qed auto

lemma distinct_mempool:
  assumes "uniq mx_hash (mtxs c)"
  shows "distinct (map mx_hash (mempool c))" and "\<forall>x\<in>set (mempool c). x \<in> set (mtxs c) \<and> mx_status x = MockPending"
proof -
  let ?xs = "filter (\<lambda>x. mx_status x = MockPending) (mtxs c)"
  have "distinct (map mx_hash ?xs)" using assms by (simp add: uniq_def distinct_map_filter)
  then have "inj_on mx_hash (set ?xs)" "distinct ?xs" by (simp_all add: distinct_map)
  then have "distinct (map mx_hash (sort_key mx_created_at (sort_key mx_hash ?xs)))" by (simp add: distinct_map)
  then show "distinct (map mx_hash (mempool c))" by (simp add: mempool_def take_map [symmetric] distinct_take)
  show "\<forall>x\<in>set (mempool c). x \<in> set (mtxs c) \<and> mx_status x = MockPending"
    by (auto simp: mempool_def dest: in_set_takeD)
qed

lemma mine_tx_blocks: "mine_tx n h x (c, li) = Inr (c', li') \<Longrightarrow> blocks c' = blocks c"
  by (auto simp: mine_tx_def Let_def bindr_eq_Inr split: if_splits)

lemma mine_txs_blocks: "mine_txs n h xs (c, li) = Inr (c', li') \<Longrightarrow> blocks c' = blocks c"
  by (induction xs arbitrary: c li) (auto simp: bindr_eq_Inr dest!: mine_tx_blocks)

definition digest :: "(string \<Rightarrow> string) \<Rightarrow> bool" where
  "digest sha = (\<forall>s. length (sha s) = 64)"

lemma mock_hash_length: "digest sha \<Longrightarrow> length (mock_hash sha ps) = 66"
  by (simp add: digest_def mock_hash_def)

lemma ZERO_HASH_length [simp]: "length ZERO_HASH = 66"
  by (simp add: ZERO_HASH_def)

definition hashes_ok :: "mock_chain \<Rightarrow> bool" where
  "hashes_ok c = (\<forall>b\<in>set (blocks c). length (mb_hash b) = 66)"

lemma canonical_last: "canonical c \<noteq> [] \<Longrightarrow> last (canonical c) \<in> set (blocks c)"
  using last_in_set [of "canonical c"] by (simp add: canonical_def)

lemma bindr_first: "bindr m (\<lambda>(a, _). Inr (a, k)) = Inr (c, n) \<Longrightarrow> \<exists>l. m = Inr (c, l) \<and> n = k"
  by (cases m) auto

lemma mine_block_ok:
  assumes run: "mine_block sha \<Gamma> c = Inr (c', n)" and ok: "mock_ok c" "hashes_ok c" and sha: "digest sha"
  shows "mock_ok c' \<and> hashes_ok c' \<and> m_network c' = m_network c \<and> map tx_id (mtxs c') = map tx_id (mtxs c) \<and>
    n = int (length (canonical c)) + 1"
proof -
  let ?c1 = "c\<lparr>faults := Some (faults_row c), m_draws := Suc (m_draws c)\<rparr>"
  obtain number parent hash where nb: "next_block sha \<Gamma> c = (number, parent, hash)" by (metis prod_cases3)
  have cok: "chain_ok c" using ok by (simp add: mock_ok_def)
  have num: "number = int (length (canonical c)) + 1" and par: "canonical c \<noteq> [] \<Longrightarrow> parent = mb_hash (last (canonical c))"
    and lens: "length hash \<le> 80" "length parent \<le> 80" "length hash = 66"
    using nb head_number [OF cok] ok(2) canonical_last [of c] mock_hash_length [OF sha]
    by (auto simp: next_block_def Let_def head_block_eq [OF cok] GENESIS_NUMBER_def hashes_ok_def)
  from run nb obtain c2 where add: "add_block \<Gamma> number hash parent ?c1 = Inr c2"
    and rest: "(if halt_mining (faults_row c) then Inr (c2, number)
       else bindr (mine_txs number hash (mempool c2) (c2, 0)) (\<lambda>(c3, _). Inr (c3, number))) = Inr (c', n)"
    by (auto simp: mine_block_def Let_def bindr_eq_Inr)
  have ok1: "mock_ok ?c1" using ok(1) mock_ok_cong [of ?c1 c] by simp
  have can1: "canonical ?c1 = canonical c" by (simp add: canonical_def)
  note A = add_block_ok [OF ok1 add lens(1,2), unfolded can1, OF num par]
  have h2: "hashes_ok c2" using add_block_spec [OF add lens(1,2)] ok(2) lens(3) by (auto simp: hashes_ok_def)
  have top: "top_block number hash c2" using A num by (auto simp: top_block_def)
  have ok2: "mock_ok c2" using A by blast
  then have u: "uniq mx_hash (mtxs c2)" by (simp add: mock_ok_def)
  show ?thesis
  proof (cases "halt_mining (faults_row c)")
    case True
    with rest A h2 num show ?thesis by simp
  next
    case False
    with rest have "bindr (mine_txs number hash (mempool c2) (c2, 0)) (\<lambda>(c3, _). Inr (c3, number)) = Inr (c', n)" by simp
    then obtain li where m: "mine_txs number hash (mempool c2) (c2, 0) = Inr (c', li)" and n: "n = number"
      by (metis bindr_first)
    have "blocks c' = blocks c2" using mine_txs_blocks [OF m] .
    with mine_txs_ok [OF m ok2 top distinct_mempool(2,1) [OF u]] A h2 n num show ?thesis by (simp add: hashes_ok_def)
  qed
qed

section \<open>Reorganisations\<close>

lemma total_map: "total P amt (map f xs) = total (\<lambda>x. P (f x)) (\<lambda>x. amt (f x)) xs"
  by (induction xs) auto

lemma evict_sel [simp]:
  "mx_hash (evict d x) = mx_hash x" "tx_id (evict d x) = tx_id x" "mx_amount (evict d x) = mx_amount x"
  "mx_status (evict d x) \<noteq> MockMined" "mx_status (evict d x) \<noteq> MockFailed" "mx_block_hash (evict d x) = None" "mx_block_number (evict d x) = None"
  by (simp_all add: evict_def tx_id_def)

lemma orphan_txs_spec:
  assumes "orphan_txs d xs c = Inr c'" and "uniq mx_hash (mtxs c)" and "distinct (map mx_hash xs)" and "set xs \<subseteq> set (mtxs c)"
    and "uniq bl_address (token_balances c)"
  shows "mtxs c' = map (\<lambda>x. if mx_hash x \<in> mx_hash ` set xs then evict d x else x) (mtxs c) \<and> uniq bl_address (token_balances c') \<and>
    (\<forall>a. balv (token_balances c') a - total mined (flow a) (mtxs c') = balv (token_balances c) a - total mined (flow a) (mtxs c)) \<and>
    blocks c' = blocks c \<and> m_network c' = m_network c"
  using assms
proof (induction xs arbitrary: c)
  case (Cons x xs)
  from Cons.prems(1) obtain bs where bs: "(if mx_status x = MockMined then apply_balances (- 1) x (token_balances c) else Inr (token_balances c)) = Inr bs"
    and rest: "orphan_txs d xs (c\<lparr>token_balances := bs, mtxs := upd_of mx_hash (mx_hash x) (evict d) (mtxs c)\<rparr>) = Inr c'"
    by (auto simp: bindr_eq_Inr)
  let ?c1 = "c\<lparr>token_balances := bs, mtxs := upd_of mx_hash (mx_hash x) (evict d) (mtxs c)\<rparr>"
  have x: "row_of mx_hash (mx_hash x) (mtxs c) = Some x" using Cons.prems(2,4) by (simp add: row_of_unique)
  have B: "uniq bl_address bs \<and> (\<forall>a. balv bs a = balv (token_balances c) a - (if mined x then flow a x else 0))"
    using bs apply_balances_spec [of "- 1" x "token_balances c" bs] Cons.prems(5) by (auto simp: mined_def split: if_splits)
  have T: "total mined (flow a) (mtxs ?c1) = total mined (flow a) (mtxs c) - (if mined x then flow a x else 0)" for a
    using total_upd [OF Cons.prems(2) x, of mined "flow a" "evict d"] by (simp add: mined_def)
  have sub: "set xs \<subseteq> set (mtxs ?c1)" using Cons.prems(3,4) by (auto simp: set_upd_of image_iff)
  have u: "uniq mx_hash (mtxs ?c1)" "uniq bl_address (token_balances ?c1)" using Cons.prems(2) B by (simp_all add: uniq_upd)
  have ds: "distinct (map mx_hash xs)" using Cons.prems(3) by simp
  note IH = Cons.IH [OF rest u(1) ds sub u(2)]
  have "mtxs c' = map (\<lambda>y. if mx_hash y \<in> mx_hash ` set xs then evict d y else y) (mtxs ?c1) \<and> uniq bl_address (token_balances c') \<and>
    (\<forall>a. balv (token_balances c') a - total mined (flow a) (mtxs c') = balv (token_balances c) a - total mined (flow a) (mtxs c)) \<and>
    blocks c' = blocks c \<and> m_network c' = m_network c"
  proof (intro conjI allI)
    fix a
    have "balv (token_balances c') a - total mined (flow a) (mtxs c') = balv (token_balances ?c1) a - total mined (flow a) (mtxs ?c1)"
      using IH by blast
    with B T [of a] show "balv (token_balances c') a - total mined (flow a) (mtxs c') = balv (token_balances c) a - total mined (flow a) (mtxs c)"
      by simp
  qed (use IH in simp_all)
  then show ?case using Cons.prems(3) by (auto simp: upd_of_def)
qed simp

lemma uniq_same: "\<lbrakk>uniq key rows; x \<in> set rows; y \<in> set rows; key x = key y\<rbrakk> \<Longrightarrow> x = y"
  by (auto simp: uniq_def distinct_map inj_on_def)

lemma filter_demoted:
  "filter mb_canonical (map (\<lambda>b. if mb_canonical b \<and> l \<le> mb_number b then b\<lparr>mb_canonical := False\<rparr> else b) bs) =
   filter (\<lambda>b. mb_number b < l) (filter mb_canonical bs)"
  by (induction bs) auto

lemma one_row: "\<lbrakk>uniq key rows; row_of key k rows = Some x\<rbrakk> \<Longrightarrow> length (filter (\<lambda>r. key r = k) rows) = 1"
  by (induction rows) (auto simp: filter_empty_conv image_iff split: if_splits)

lemma total_restrict:
  "\<lbrakk>\<And>x. x \<in> set xs \<Longrightarrow> P x = Q x; \<And>x. \<lbrakk>x \<in> set xs; Q x\<rbrakk> \<Longrightarrow> f x = g x\<rbrakk> \<Longrightarrow> total P f xs = total Q g xs"
  by (induction xs) auto

lemma filter_upto_take:
  "map g xs = [i..i + int (length xs) - 1] \<Longrightarrow> filter (\<lambda>x. g x < l) xs = take (nat (l - i)) xs"
proof (induction xs arbitrary: i)
  case (Cons x xs)
  have "[i..i + int (length (x # xs)) - 1] = i # [i + 1..i + 1 + int (length xs) - 1]" by (simp add: upto_rec1)
  with Cons.prems have x: "g x = i" and xs: "map g xs = [i + 1..i + 1 + int (length xs) - 1]" by simp_all
  show ?case
  proof (cases "i < l")
    case True
    then have "nat (l - i) = Suc (nat (l - (i + 1)))" by simp
    with True x Cons.IH [OF xs] show ?thesis by simp
  next
    case False
    have "\<forall>y\<in>set xs. \<not> g y < l"
    proof
      fix y assume "y \<in> set xs"
      then have "g y \<in> set (map g xs)" by simp
      then have "g y \<in> set [i + 1..i + 1 + int (length xs) - 1]" by (simp only: xs)
      with False show "\<not> g y < l" by simp
    qed
    with False x show ?thesis by (simp add: filter_False)
  qed
qed simp

lemma upto_take: "map g xs = [1..int (length xs)] \<Longrightarrow> map g (take k xs) = [1..int (length (take k xs))]"
proof (rule nth_equalityI)
  fix i assume m: "map g xs = [1..int (length xs)]" and i: "i < length (map g (take k xs))"
  then have "map g xs ! i = 1 + int i" by (simp only: m) (simp add: nth_upto)
  moreover have "1 + int i \<le> int (length (take k xs))" using i by (auto simp: min_def)
  ultimately have "[1..int (length (take k xs))] ! i = map g xs ! i" by (simp add: nth_upto del: length_take)
  then show "map g (take k xs) ! i = [1..int (length (take k xs))] ! i" using i by simp
qed simp

text \<open>Orphaning a list of blocks evicts exactly their transactions and keeps the books equal to the mined transfers.\<close>

definition in_blocks :: "mock_block list \<Rightarrow> mock_tx \<Rightarrow> bool" where
  "in_blocks vs x = (mx_block_hash x \<in> (Some \<circ> mb_hash) ` set vs)"

lemma orphan_blocks_spec:
  assumes "orphan_blocks d vs (c, rs) = Inr (c', rs')" and "uniq mx_hash (mtxs c)" and "uniq bl_address (token_balances c)"
    and "\<forall>a. balv (token_balances c) a = total mined (flow a) (mtxs c)"
  shows "mtxs c' = map (\<lambda>x. if in_blocks vs x then evict d x else x) (mtxs c) \<and> uniq bl_address (token_balances c') \<and>
    (\<forall>a. balv (token_balances c') a = total mined (flow a) (mtxs c')) \<and> m_network c' = m_network c \<and>
    blocks c' = map (\<lambda>b. if mb_hash b \<in> mb_hash ` set vs then b\<lparr>mb_canonical := False\<rparr> else b) (blocks c)"
  using assms
proof (induction vs arbitrary: c rs)
  case Nil
  then show ?case by (simp add: in_blocks_def)
next
  case (Cons b vs)
  let ?xs = "filter (\<lambda>x. mx_block_hash x = Some (mb_hash b)) (mtxs c)"
  from Cons.prems(1) obtain c1 where one: "orphan_txs d ?xs c = Inr c1"
    and rest: "orphan_blocks d vs (c1\<lparr>blocks := upd_of mb_hash (mb_hash b) (\<lambda>b. b\<lparr>mb_canonical := False\<rparr>) (blocks c1)\<rparr>, rs @ map mx_hash ?xs) = Inr (c', rs')"
    by (auto simp: bindr_eq_Inr Let_def)
  let ?c2 = "c1\<lparr>blocks := upd_of mb_hash (mb_hash b) (\<lambda>b. b\<lparr>mb_canonical := False\<rparr>) (blocks c1)\<rparr>"
  have ds: "distinct (map mx_hash ?xs)" using Cons.prems(2) by (simp add: uniq_def distinct_map_filter)
  note S = orphan_txs_spec [OF one Cons.prems(2) ds filter_is_subset Cons.prems(3)]
  have hit: "mx_hash x \<in> mx_hash ` set ?xs \<longleftrightarrow> mx_block_hash x = Some (mb_hash b)" if "x \<in> set (mtxs c)" for x
    using that row_of_unique [OF Cons.prems(2)] by (auto simp: image_iff) (metis option.inject)
  have m1: "mtxs c1 = map (\<lambda>x. if mx_block_hash x = Some (mb_hash b) then evict d x else x) (mtxs c)"
  proof -
    have "mtxs c1 = map (\<lambda>x. if mx_hash x \<in> mx_hash ` set ?xs then evict d x else x) (mtxs c)" using S by blast
    also have "\<dots> = map (\<lambda>x. if mx_block_hash x = Some (mb_hash b) then evict d x else x) (mtxs c)"
      using hit by (intro map_cong refl) simp
    finally show ?thesis .
  qed
  have u: "uniq mx_hash (mtxs ?c2)" using Cons.prems(2) by (simp add: m1 uniq_def comp_def if_distrib cong: if_cong)
  have b2: "\<forall>a. balv (token_balances ?c2) a = total mined (flow a) (mtxs ?c2)"
  proof
    fix a
    have "balv (token_balances c1) a - total mined (flow a) (mtxs c1) = balv (token_balances c) a - total mined (flow a) (mtxs c)"
      using S by blast
    then show "balv (token_balances ?c2) a = total mined (flow a) (mtxs ?c2)" using Cons.prems(4) by simp
  qed
  have "uniq bl_address (token_balances ?c2)" using S by simp
  note IH = Cons.IH [OF rest u this b2]
  have "mtxs c' = map (\<lambda>x. if in_blocks (b # vs) x then evict d x else x) (mtxs c)"
    using IH by (auto simp: m1 in_blocks_def)
  moreover have "blocks c' = map (\<lambda>v. if mb_hash v \<in> mb_hash ` set (b # vs) then v\<lparr>mb_canonical := False\<rparr> else v) (blocks c)"
    using IH S by (auto simp: upd_of_def)
  ultimately show ?case using IH S by simp
qed

lemma orphan_ok:
  assumes ok: "mock_ok c" and run: "orphan_blocks d vs (c, []) = Inr (c', rs)"
    and vs: "set vs = {b \<in> set (canonical c). lowest \<le> mb_number b}"
  shows "mock_ok c' \<and> m_network c' = m_network c \<and> map tx_id (mtxs c') = map tx_id (mtxs c) \<and>
    canonical c' = filter (\<lambda>b. mb_number b < lowest) (canonical c) \<and> mb_hash ` set (blocks c') = mb_hash ` set (blocks c)"
proof -
  have cok: "chain_ok c" and u: "uniq mx_hash (mtxs c)" and bk: "books_ok c" and txs: "\<And>x. x \<in> set (mtxs c) \<Longrightarrow> tx_ok c x"
    using ok by (simp_all add: mock_ok_def)
  have ub: "uniq mb_hash (blocks c)" using cok by (simp add: chain_ok_def)
  note S = orphan_blocks_spec [OF run u] 
  have S1: "mtxs c' = map (\<lambda>x. if in_blocks vs x then evict d x else x) (mtxs c)" "uniq bl_address (token_balances c')"
    "\<forall>a. balv (token_balances c') a = total mined (flow a) (mtxs c')" "m_network c' = m_network c"
    "blocks c' = map (\<lambda>b. if mb_hash b \<in> mb_hash ` set vs then b\<lparr>mb_canonical := False\<rparr> else b) (blocks c)"
    using S bk by (simp_all add: books_ok_def)
  have orphaned: "mb_hash b \<in> mb_hash ` set vs \<longleftrightarrow> mb_canonical b \<and> lowest \<le> mb_number b" if "b \<in> set (blocks c)" for b
  proof
    assume "mb_hash b \<in> mb_hash ` set vs"
    then obtain v where "v \<in> set (canonical c)" "lowest \<le> mb_number v" "mb_hash v = mb_hash b" using vs by auto
    then have "v = b" using uniq_same [OF ub _ that, of v] by (simp add: canonical_def)
    with \<open>v \<in> _\<close> \<open>lowest \<le> mb_number v\<close> show "mb_canonical b \<and> lowest \<le> mb_number b" by (simp add: canonical_def)
  qed (use that vs in \<open>auto simp: canonical_def\<close>)
  have blk: "blocks c' = map (\<lambda>b. if mb_canonical b \<and> lowest \<le> mb_number b then b\<lparr>mb_canonical := False\<rparr> else b) (blocks c)"
    unfolding S1(5) using orphaned by (intro map_cong refl) simp
  have can: "canonical c' = filter (\<lambda>b. mb_number b < lowest) (canonical c)"
    unfolding canonical_def blk by (rule filter_demoted)
  have hs: "map mb_hash (blocks c') = map mb_hash (blocks c)" by (simp add: blk)
  have tk: "canonical c' = take (nat (lowest - 1)) (canonical c)"
    unfolding can by (rule filter_upto_take) (use chain_ok_numbers [OF cok] in simp)
  have cok': "chain_ok c'"
    unfolding chain_ok_def tk using cok ub hs upto_take [OF chain_ok_numbers [OF cok], of "nat (lowest - 1)"]
    by (auto simp: chain_ok_def uniq_def)
  have placed: "\<exists>b\<in>set (blocks c). mb_canonical b \<and> mx_block_hash x = Some (mb_hash b) \<and> mx_block_number x = Some (mb_number b) \<and>
      (in_blocks vs x \<longleftrightarrow> lowest \<le> mb_number b)" if "x \<in> set (mtxs c)" "mx_status x = MockMined \<or> mx_status x = MockFailed" for x
  proof -
    from txs [OF that(1)] that(2) obtain b where b: "b \<in> set (blocks c)" "mb_canonical b" "mx_block_hash x = Some (mb_hash b)" "mx_block_number x = Some (mb_number b)"
      by (auto simp: tx_ok_def settled_in_def)
    have "in_blocks vs x \<longleftrightarrow> mb_hash b \<in> mb_hash ` set vs" using b(3) by (auto simp: in_blocks_def)
    with orphaned [OF b(1)] b show ?thesis by auto
  qed
  have tx': "tx_ok c' x" if "x \<in> set (mtxs c')" for x
  proof -
    from that S1(1) obtain y where y: "y \<in> set (mtxs c)" "x = (if in_blocks vs y then evict d y else y)" by auto
    show ?thesis
    proof (cases "in_blocks vs y")
      case True
      with y txs show ?thesis by (auto simp: tx_ok_def)
    next
      case False
      have "settled_in c' y" if s: "mx_status y = MockMined \<or> mx_status y = MockFailed"
      proof -
        from placed [OF y(1) s] False obtain b where b: "b \<in> set (blocks c)" "mb_canonical b" "mx_block_hash y = Some (mb_hash b)"
          "mx_block_number y = Some (mb_number b)" "\<not> lowest \<le> mb_number b" by auto
        then have "b \<in> set (blocks c')" unfolding blk by force
        with b show ?thesis by (auto simp: settled_in_def)
      qed
      with False y txs [OF y(1)] show ?thesis by (auto simp: tx_ok_def)
    qed
  qed
  have nn: "0 \<le> total (mined_to h) (flow a) (mtxs c')" for h a
  proof -
    have "total (mined_to h) (flow a) (mtxs c') = total (mined_to (min h (lowest - 1))) (flow a) (mtxs c)"
      unfolding S1(1) total_map
    proof (rule total_restrict)
      fix x assume x: "x \<in> set (mtxs c)"
      show "mined_to h (if in_blocks vs x then evict d x else x) = mined_to (min h (lowest - 1)) x"
        using placed [OF x] by (auto simp: mined_to_def or_zero_def)
      show "mined_to (min h (lowest - 1)) x \<Longrightarrow> flow a (if in_blocks vs x then evict d x else x) = flow a x"
        using placed [OF x] by (auto simp: mined_to_def or_zero_def)
    qed
    with bk show ?thesis by (simp add: books_ok_def)
  qed
  have "uniq mx_hash (mtxs c')" using u by (simp add: S1(1) uniq_def comp_def if_distrib cong: if_cong)
  then have "mock_ok c'" using cok' tx' nn S1(2,3) by (simp add: mock_ok_def books_ok_def)
  moreover have "map tx_id (mtxs c') = map tx_id (mtxs c)" by (simp add: S1(1))
  moreover have "mb_hash ` set (blocks c') = mb_hash ` set (blocks c)" using arg_cong [OF hs, of set] by simp
  ultimately show ?thesis using S1(4) can by simp
qed

lemma mine_blocks_ok:
  assumes "mine_blocks sha \<Gamma> k l c = (c', r)" and "mock_ok c" "hashes_ok c" and "digest sha"
  shows "mock_ok c' \<and> hashes_ok c' \<and> m_network c' = m_network c \<and> map tx_id (mtxs c') = map tx_id (mtxs c)"
  using assms
proof (induction k arbitrary: c l)
  case (Suc k)
  show ?case
  proof (cases "mine_block sha \<Gamma> c")
    case (Inl e)
    with Suc.prems show ?thesis by simp
  next
    case (Inr cn)
    obtain c1 n where cn: "cn = (c1, n)" by fastforce
    note M = mine_block_ok [OF Inr [unfolded cn] Suc.prems(2-4)]
    from Suc.prems(1) Inr cn have "mine_blocks sha \<Gamma> k n c1 = (c', r)" by simp
    from Suc.IH [OF this] M Suc.prems(4) show ?thesis by simp
  qed
qed simp

lemma reorg_ok:
  assumes run: "reorg sha \<Gamma> depth drops c = (c', r)" and ok: "mock_ok c" "hashes_ok c" and sha: "digest sha"
  shows "mock_ok c' \<and> hashes_ok c' \<and> m_network c' = m_network c \<and> map tx_id (mtxs c') = map tx_id (mtxs c)"
proof (cases "head_block c")
  case None
  with run ok show ?thesis by (simp add: reorg_def)
next
  case (Some h)
  let ?vs = "victims (mb_number h) depth c"
  show ?thesis
  proof (cases "orphan_blocks (map py_lower drops) ?vs (c, [])")
    case (Inl e)
    with run ok Some show ?thesis by (simp add: reorg_def Let_def)
  next
    case (Inr cr)
    obtain c1 rs where cr: "cr = (c1, rs)" by fastforce
    have "set ?vs = {b \<in> set (canonical c). max (GENESIS_NUMBER + 1) (mb_number h - depth + 1) \<le> mb_number b}"
      by (auto simp: victims_def)
    note B = orphan_ok [OF ok(1) Inr [unfolded cr] this]
    have "hashes_ok c1" using B ok(2) unfolding hashes_ok_def by (metis (no_types, lifting) image_iff)
    moreover obtain c2 r2 where m: "mine_blocks sha \<Gamma> (length ?vs + 1) 0 c1 = (c2, r2)" by fastforce
    moreover have "c' = c2" using run Some Inr cr m by (auto simp: reorg_def Let_def split: sum.splits)
    ultimately show ?thesis using mine_blocks_ok [OF m _ _ sha] B by simp
  qed
qed

section \<open>Submissions and switches\<close>

lemma send_transfer_cases:
  assumes "send_transfer sha \<Gamma> f t n ref mint c = Inr (c', h)" and "digest sha"
  obtains "c' = c" "row_of mx_hash h (mtxs c) \<noteq> None" "h = mock_hash sha [''tx'', m_network c, ref]"
  | f' t' where "c' = c\<lparr>mtxs := mtxs c @ [new_tx \<Gamma> c h f' t' n mint]\<rparr>" "row_of mx_hash h (mtxs c) = None" "0 < n"
      "h = mock_hash sha [''tx'', m_network c, ref]" "length f \<le> 64 \<longrightarrow> f' = f" "length t \<le> 64 \<longrightarrow> t' = t"
proof -
  have h: "varchar 80 col (mock_hash sha [''tx'', m_network c, ref]) = Inr (mock_hash sha [''tx'', m_network c, ref])" for col
    using mock_hash_length [OF assms(2)] by simp
  from assms(1) have n: "0 < n" by (simp add: send_transfer_def split: if_splits)
  from assms(1) n obtain f' t' where ft: "varchar 64 ''transactions.from_address'' f = Inr f'" "varchar 64 ''transactions.to_address'' t = Inr t'"
    and res: "h = mock_hash sha [''tx'', m_network c, ref]"
      "c' = (if row_of mx_hash h (mtxs c) \<noteq> None then c else c\<lparr>mtxs := mtxs c @ [new_tx \<Gamma> c h f' t' n mint]\<rparr>)"
    by (auto simp: send_transfer_def Let_def bindr_eq_Inr h split: if_splits)
  have "length f \<le> 64 \<longrightarrow> f' = f" "length t \<le> 64 \<longrightarrow> t' = t" using ft by auto
  with res n that show thesis by (cases "row_of mx_hash h (mtxs c) = None") auto
qed

lemma send_transfer_ok:
  assumes run: "send_transfer sha \<Gamma> f t n ref mint c = Inr (c', h)" and ok: "mock_ok c" and sha: "digest sha"
  shows "mock_ok c' \<and> blocks c' = blocks c \<and> m_network c' = m_network c"
  using run sha
proof (cases rule: send_transfer_cases)
  case 1
  with ok show ?thesis by simp
next
  case (2 f' t')
  have "\<not> mined (new_tx \<Gamma> c h f' t' n mint)" "\<not> mined_to k (new_tx \<Gamma> c h f' t' n mint)" for k
    by (simp_all add: new_tx_def mined_def mined_to_def)
  then have "books_ok c'" using ok 2(1) by (simp add: mock_ok_def books_ok_def)
  moreover have "tx_ok c' (new_tx \<Gamma> c h f' t' n mint)" using 2(3) by (simp add: tx_ok_def new_tx_def)
  moreover have "chain_ok c' = chain_ok c" "tx_ok c' x = tx_ok c x" for x
    using 2(1) chain_ok_cong [of c' c] tx_ok_blocks [of c' c] by simp_all
  moreover have "uniq mx_hash (mtxs c')" using 2(1,2) ok by (simp add: mock_ok_def uniq_snoc new_tx_def)
  ultimately show ?thesis using ok 2(1) by (auto simp: mock_ok_def)
qed

text \<open>Everything that can happen at the node.\<close>

inductive mock_step :: "(string \<Rightarrow> string) \<Rightarrow> mock_chain \<Rightarrow> mock_chain \<Rightarrow> bool" for sha where
  started: "ensure_started sha \<Gamma> c = Inr c' \<Longrightarrow> mock_step sha c c'"
| sent: "send_transfer sha \<Gamma> f t n ref mint c = Inr (c', h) \<Longrightarrow> mock_step sha c c'"
| block: "mine_block sha \<Gamma> c = Inr (c', n) \<Longrightarrow> mock_step sha c c'"
| reorganised: "reorg sha \<Gamma> depth drops c = (c', r) \<Longrightarrow> mock_step sha c c'"
| switched: "set_faults rpc halt k c = Inr (c', fs) \<Longrightarrow> mock_step sha c c'"

definition mock_steps :: "(string \<Rightarrow> string) \<Rightarrow> mock_chain \<Rightarrow> mock_chain \<Rightarrow> bool" where
  "mock_steps sha = (mock_step sha)\<^sup>*\<^sup>*"

text \<open>The transfer that the node knows under a hash; no step replaces or forgets it.\<close>

definition known_tx :: "mock_chain \<Rightarrow> string \<Rightarrow> (string \<times> string \<times> int) option" where
  "known_tx c h = map_option (\<lambda>x. (mx_from x, mx_to x, mx_amount x)) (row_of mx_hash h (mtxs c))"

lemma row_of_ids: "row_of fst h (map tx_id xs) = map_option tx_id (row_of mx_hash h xs)"
  by (induction xs) (simp_all add: tx_id_def)

lemma known_tx_ids:
  assumes "map tx_id (mtxs c') = map tx_id (mtxs c)"
  shows "known_tx c' = known_tx c"
proof
  fix h
  have "map_option tx_id (row_of mx_hash h (mtxs c')) = map_option tx_id (row_of mx_hash h (mtxs c))"
    using assms by (simp add: row_of_ids [symmetric])
  then show "known_tx c' h = known_tx c h"
    by (cases "row_of mx_hash h (mtxs c)"; cases "row_of mx_hash h (mtxs c')") (auto simp: known_tx_def tx_id_def)
qed

lemma send_hash: "send_transfer sha \<Gamma> f t n ref mint c = Inr (c', h) \<Longrightarrow> h = mock_hash sha [''tx'', m_network c, ref]"
  by (auto simp: send_transfer_def Let_def bindr_eq_Inr split: if_splits)

lemma send_known:
  assumes "send_transfer sha \<Gamma> f t n ref mint c = Inr (c', h)" and "digest sha"
  shows "known_tx c h' = Some x \<Longrightarrow> known_tx c' h' = Some x"
  using assms by (cases rule: send_transfer_cases) (auto simp: known_tx_def row_of_append)

lemma mock_step_keeps:
  assumes "mock_step sha c c'" and "mock_ok c" "hashes_ok c" and sha: "digest sha"
  shows "mock_ok c' \<and> hashes_ok c' \<and> m_network c' = m_network c \<and> (\<forall>h x. known_tx c h = Some x \<longrightarrow> known_tx c' h = Some x)"
  using assms(1)
proof cases
  case (started \<Gamma>)
  let ?c1 = "if faults c = None then c\<lparr>faults := Some default_faults\<rparr> else c"
  have ok1: "mock_ok ?c1" "hashes_ok ?c1" using assms(2,3) mock_ok_cong [of ?c1 c] by (simp_all add: hashes_ok_def)
  have len: "length (mock_hash sha [''genesis'', m_network c]) \<le> 80" "length ZERO_HASH \<le> 80"
    using mock_hash_length [OF sha, of "[''genesis'', m_network c]"] by simp_all
  show ?thesis
  proof (cases "blocks c = []")
    case True
    with started have add: "add_block \<Gamma> GENESIS_NUMBER (mock_hash sha [''genesis'', m_network c]) ZERO_HASH ?c1 = Inr c'"
      by (auto simp: ensure_started_def Let_def)
    have "canonical ?c1 = []" using True by (simp add: canonical_def)
    with add_block_ok [OF ok1(1) add len] have "mock_ok c'" by (simp add: GENESIS_NUMBER_def)
    moreover note add_block_spec [OF add len]
    ultimately show ?thesis using True mock_hash_length [OF sha, of "[''genesis'', m_network c]"]
      by (auto simp: hashes_ok_def known_tx_def)
  next
    case False
    with started have "c' = ?c1" by (auto simp: ensure_started_def Let_def)
    with ok1 show ?thesis by (simp add: known_tx_def)
  qed
next
  case (sent \<Gamma> f t n ref mint h)
  with send_transfer_ok [OF sent assms(2) sha] send_known [OF sent sha] assms(3) show ?thesis by (simp add: hashes_ok_def)
next
  case (block \<Gamma> n)
  with mine_block_ok [OF block assms(2-4)] known_tx_ids show ?thesis by metis
next
  case (reorganised \<Gamma> depth drops r)
  with reorg_ok [OF reorganised assms(2-4)] known_tx_ids show ?thesis by metis
next
  case (switched rpc halt k fs)
  then obtain f where "c' = c\<lparr>faults := f\<rparr>" by (auto simp: set_faults_def Let_def bindr_eq_Inr)
  with mock_ok_cong [of c' c] assms(2,3) show ?thesis by (simp add: hashes_ok_def known_tx_def)
qed

lemma new_mock_ok: "mock_ok (new_mock network)" "hashes_ok (new_mock network)"
  by (simp_all add: mock_ok_def chain_ok_def books_ok_def hashes_ok_def new_mock_def canonical_def balv_def)

lemma mock_steps_keep:
  assumes "mock_steps sha c c'" and "mock_ok c" "hashes_ok c" and "digest sha"
  shows "mock_ok c' \<and> hashes_ok c' \<and> m_network c' = m_network c \<and> (\<forall>h x. known_tx c h = Some x \<longrightarrow> known_tx c' h = Some x)"
  using assms(1) unfolding mock_steps_def
proof (induction rule: rtranclp_induct)
  case base
  then show ?case using assms by simp
next
  case (step y z)
  then show ?case using mock_step_keeps [OF step(2) _ _ assms(4)] by simp
qed

section \<open>The node as a chain port\<close>

definition node_ok :: "(string \<Rightarrow> string) \<Rightarrow> string \<Rightarrow> mock_node \<Rightarrow> bool" where
  "node_ok sha network node = (digest sha \<and> mock_ok (snd node) \<and> hashes_ok (snd node) \<and> m_network (snd node) = network)"

text \<open>Between two requests the clock moves and the node takes steps of its own.\<close>

definition node_advance :: "(string \<Rightarrow> string) \<Rightarrow> mock_node \<Rightarrow> mock_node \<Rightarrow> bool" where
  "node_advance sha node node' = mock_steps sha (snd node) (snd node')"

lemma mock_submit_cases:
  assumes "mock_submit sha node f t n ref = (node', r)"
  obtains e where "node' = node" "r = Inl e"
  | h where "send_transfer sha (fst node) f t n ref False (snd node) = Inr (snd node', h)" "r = Inr h" "fst node' = fst node"
  using assms by (cases node) (auto simp: mock_submit_def split: sum.splits)

lemma receipt_cases:
  assumes "get_receipt c h = Inr (Some r)" and ok: "mock_ok c"
  obtains x b where "row_of mx_hash h (mtxs c) = Some x" "rpc_up c" "mx_status x = (if rc_status r = 1 then MockMined else MockFailed)"
    "b \<in> set (blocks c)" "mb_canonical b" "tx_block c x = Some b" "mx_block_number x = Some (mb_number b)" "mx_block_hash x = Some (mb_hash b)"
    "rc_block_number r = mb_number b" "rc_block_hash r = mb_hash b" "rc_status r \<in> {0, 1}" "rc_tx_hash r = h"
proof -
  from assms(1) obtain x where x: "row_of mx_hash h (mtxs c) = Some x" and up: "rpc_up c"
    and st: "mx_status x = MockMined \<or> mx_status x = MockFailed"
    and r: "r = \<lparr>rc_tx_hash = mx_hash x, rc_block_number = or_zero (mx_block_number x),
       rc_block_hash = (case tx_block c x of None \<Rightarrow> [] | Some b \<Rightarrow> mb_hash b), rc_status = (if mx_status x = MockMined then 1 else 0)\<rparr>"
    by (cases "row_of mx_hash h (mtxs c)"; cases "mx_status (the (row_of mx_hash h (mtxs c)))")
      (auto simp: get_receipt_def assert_rpc_up_def bindr_eq_Inr split: if_splits)
  from row_of_Some [OF x] ok st have "settled_in c x" "mx_hash x = h" by (auto simp: mock_ok_def tx_ok_def)
  then obtain b where "tx_block c x = Some b" "mb_canonical b" "b \<in> set (blocks c)" "mx_block_hash x = Some (mb_hash b)" "mx_block_number x = Some (mb_number b)"
    using tx_block_settled [of c x] ok unfolding mock_ok_def by blast
  with x up st r \<open>mx_hash x = h\<close> show thesis by (intro that [of x b]) (auto simp: or_zero_def)
qed

lemma mock_receipt_log:
  assumes "mock_ok c" and "get_receipt c h = Inr (Some r)" "rc_status r = 1" and "known_tx c h = Some (f, t, n)"
    and "get_transfer_logs c (rc_block_number r) (rc_block_number r) [t] = Inr logs"
  shows "\<exists>e\<in>set logs. lg_tx_hash e = h \<and> lg_block_hash e = rc_block_hash r \<and> lg_block_number e = rc_block_number r \<and>
    lg_from_address e = f \<and> lg_to_address e = t \<and> lg_amount e = n"
proof -
  obtain x b where x: "row_of mx_hash h (mtxs c) = Some x" "rpc_up c" "mx_status x = MockMined" "mb_canonical b" "tx_block c x = Some b"
    "mx_block_number x = Some (mb_number b)" "rc_block_number r = mb_number b" "rc_block_hash r = mb_hash b"
    using receipt_cases [OF assms(2,1)] assms(3) by metis
  have k: "mx_from x = f" "mx_to x = t" "mx_amount x = n" "mx_hash x = h" "x \<in> set (mtxs c)"
    using assms(4) x(1) row_of_Some [OF x(1)] by (auto simp: known_tx_def)
  have "log_of c x \<in> set logs"
    using assms(5) x k by (auto simp: get_transfer_logs_def assert_rpc_up_def Let_def in_range_def in_canonical_def)
  then show ?thesis using x k by (intro bexI [of _ "log_of c x"]) (simp_all add: log_of_def or_zero_def)
qed

lemma adapter_sel [simp]:
  "submit (MockChainAdapter sha network) = mock_submit sha" "receipt_at (MockChainAdapter sha network) = (\<lambda>(\<Gamma>, c). get_receipt c)"
  "transfer_logs_at (MockChainAdapter sha network) = (\<lambda>(\<Gamma>, c). get_transfer_logs c)"
  "block_number_at (MockChainAdapter sha network) = (\<lambda>(\<Gamma>, c). get_block_number c)"
  "block_hash_at (MockChainAdapter sha network) = (\<lambda>(\<Gamma>, c). get_block_hash c)"
  by (simp_all add: MockChainAdapter_def)

interpretation mock: chain_port "MockChainAdapter sha network" "node_ok sha network" "node_advance sha" "\<lambda>node. known_tx (snd node)"
  for sha network
proof (unfold_locales, unfold adapter_sel)
  fix c c' :: mock_node and f t n ref c1 h f' t' n' c2 h'
  assume "node_ok sha network c" "node_ok sha network c'" "mock_submit sha c f t n ref = (c1, Inr h)" "mock_submit sha c' f' t' n' ref = (c2, Inr h')"
  then show "h' = h" by (auto simp: node_ok_def elim!: mock_submit_cases dest!: send_hash)
next
  fix c c1 :: mock_node and f t n ref h
  assume ok: "node_ok sha network c" and run: "mock_submit sha c f t n ref = (c1, Inr h)" and new: "known_tx (snd c) h = None"
    and len: "length f \<le> 64" "length t \<le> 64"
  from run have s: "send_transfer sha (fst c) f t n ref False (snd c) = Inr (snd c1, h)" by (auto elim: mock_submit_cases)
  have "digest sha" using ok by (simp add: node_ok_def)
  from s this new len show "known_tx (snd c1) = (known_tx (snd c))(h \<mapsto> (f, t, n))"
    by (cases rule: send_transfer_cases) (auto simp: known_tx_def fun_eq_iff row_of_append new_tx_def split: option.split)
next
  fix c c1 :: mock_node and f t n ref h x
  assume ok: "node_ok sha network c" and run: "mock_submit sha c f t n ref = (c1, Inr h)" and old: "known_tx (snd c) h = Some x"
  from run have s: "send_transfer sha (fst c) f t n ref False (snd c) = Inr (snd c1, h)" by (auto elim: mock_submit_cases)
  have "digest sha" using ok by (simp add: node_ok_def)
  from s this old show "known_tx (snd c1) = known_tx (snd c)"
    by (cases rule: send_transfer_cases) (auto simp: known_tx_def)
next
  fix c c1 :: mock_node and f t n ref res h x
  assume ok: "node_ok sha network c" and run: "mock_submit sha c f t n ref = (c1, res)" and old: "known_tx (snd c) h = Some x"
  from run old ok show "known_tx (snd c1) h = Some x"
    by (auto simp: node_ok_def elim!: mock_submit_cases dest: send_known)
next
  fix c c1 :: mock_node and f t n ref res
  assume ok: "node_ok sha network c" and run: "mock_submit sha c f t n ref = (c1, res)"
  from run ok show "node_ok sha network c1"
    by (auto simp: node_ok_def hashes_ok_def elim!: mock_submit_cases dest: send_transfer_ok)
next
  fix c c' :: mock_node
  assume "node_ok sha network c" "node_advance sha c c'"
  then show "node_ok sha network c'" using mock_steps_keep by (auto simp: node_ok_def node_advance_def)
next
  fix c c' :: mock_node and h x
  assume "node_ok sha network c" "node_advance sha c c'" "known_tx (snd c) h = Some x"
  then show "known_tx (snd c') h = Some x" using mock_steps_keep [of sha "snd c" "snd c'"] by (cases x) (auto simp: node_ok_def node_advance_def)
next
  fix c :: mock_node and h r f t n logs
  assume "node_ok sha network c" "(case c of (\<Gamma>, c) \<Rightarrow> get_receipt c) h = Inr (Some r)" "rc_status r = 1" "known_tx (snd c) h = Some (f, t, n)"
    "(case c of (\<Gamma>, c) \<Rightarrow> get_transfer_logs c) (rc_block_number r) (rc_block_number r) [t] = Inr logs"
  then show "\<exists>e\<in>set logs. lg_tx_hash e = h \<and> lg_block_hash e = rc_block_hash r \<and> lg_block_number e = rc_block_number r \<and>
      lg_from_address e = f \<and> lg_to_address e = t \<and> lg_amount e = n"
    using mock_receipt_log [of "snd c" h r f t n logs] by (cases c) (simp add: node_ok_def)
qed

section \<open>Properties\<close>

lemma flow_sum:
  assumes "finite F" and "mx_to x \<in> F" "mx_from x \<in> F"
  shows "(\<Sum>a\<in>F. flow a x) = (if mx_is_mint x then mx_amount x else 0)"
  using assms by (simp add: flow_def sum_subtractf)

lemma total_flow_sum:
  assumes "finite F" and "\<forall>x\<in>set xs. mx_to x \<in> F \<and> mx_from x \<in> F"
  shows "(\<Sum>a\<in>F. total mined (flow a) xs) = total (\<lambda>x. mined x \<and> mx_is_mint x) mx_amount xs"
  using assms(2)
proof (induction xs)
  case (Cons x xs)
  have "(\<Sum>a\<in>F. if mined x then flow a x else 0) = (if mined x \<and> mx_is_mint x then mx_amount x else 0)"
    using flow_sum [OF assms(1), of x] Cons.prems by (cases "mined x") simp_all
  with Cons show ?case by (simp only: total_Cons sum.distrib) simp
qed simp

text \<open>
  Property C37. The simulated node is a chain with sound books: in every state it can reach by
  submissions, mining, faults and reorganisations, its canonical blocks have the heights
  1 to the head and each names its predecessor; the balance of every address is what the
  mined transfers of these blocks gave it, and never negative; and only minting creates
  tokens, so all balances together are the minted amounts.
\<close>

theorem mock_chain_sound:
  assumes "digest sha" and "mock_steps sha (new_mock network) c"
    and F: "finite F" "\<forall>x\<in>set (mtxs c). mx_to x \<in> F \<and> mx_from x \<in> F"
  shows "map mb_number (canonical c) = [1..int (length (canonical c))] \<and>
    (\<forall>i. Suc i < length (canonical c) \<longrightarrow> mb_parent_hash (canonical c ! Suc i) = mb_hash (canonical c ! i)) \<and>
    (\<forall>a. balv (token_balances c) a = total mined (flow a) (mtxs c) \<and> 0 \<le> balv (token_balances c) a) \<and>
    (\<Sum>a\<in>F. balv (token_balances c) a) = total (\<lambda>x. mined x \<and> mx_is_mint x) mx_amount (mtxs c)"
proof -
  have ok: "mock_ok c" using mock_steps_keep [OF assms(2) new_mock_ok assms(1)] by blast
  then have b: "balv (token_balances c) a = total mined (flow a) (mtxs c)" for a by (simp add: mock_ok_def books_ok_def)
  have nn: "0 \<le> total mined (flow a) (mtxs c)" for a
  proof -
    have "total (mined_to (int (length (canonical c)))) (flow a) (mtxs c) = total mined (flow a) (mtxs c)"
    proof (rule total_restrict)
      fix x assume x: "x \<in> set (mtxs c)"
      show "mined_to (int (length (canonical c))) x = mined x"
      proof (cases "mined x")
        case True
        then have "settled_in c x" using ok x by (auto simp: mock_ok_def tx_ok_def mined_def)
        then obtain v where v: "v \<in> set (canonical c)" "mx_block_number x = Some (mb_number v)"
          by (auto simp: settled_in_def canonical_def)
        have "chain_ok c" using ok by (simp add: mock_ok_def)
        from canonical_number(2) [OF this v(1)] True v(2) show ?thesis by (simp add: mined_def mined_to_def or_zero_def)
      qed (simp add: mined_def mined_to_def)
    qed simp
    then show ?thesis using ok unfolding mock_ok_def books_ok_def by metis
  qed
  show ?thesis
    using ok nn b total_flow_sum [OF F] unfolding mock_ok_def chain_ok_def by simp
qed

text \<open>
  Property C38. A transfer cannot be spent twice by submitting it again: once the node accepted
  a transfer under a reference, then whatever the node does afterwards, mining and
  reorganisations included, a submission under the same reference with whatever arguments
  returns the same hash and adds no transaction, and the node still has the first transfer
  under that hash, in one row.
\<close>

theorem resubmission_harmless:
  assumes node: "digest sha" "mock_steps sha (new_mock network) c" and first: "mock_submit sha (\<Gamma>, c) f t n ref = ((\<Gamma>, c1), Inr h)"
    and new: "row_of mx_hash h (mtxs c) = None" and len: "length f \<le> 64" "length t \<le> 64"
    and later: "mock_steps sha c1 c2" and again: "mock_submit sha (\<Gamma>', c2) f' t' n' ref = ((\<Gamma>', c3), Inr h')"
  shows "h' = h \<and> known_tx c3 = known_tx c2 \<and> known_tx c3 h = Some (f, t, n) \<and>
    length (filter (\<lambda>x. mx_hash x = h) (mtxs c3)) = 1"
proof -
  have ok: "node_ok sha network (\<Gamma>, c)"
    using mock_steps_keep [OF node(2) new_mock_ok node(1)] node(1) by (simp add: node_ok_def new_mock_def)
  have "node_run (MockChainAdapter sha network) (node_advance sha) (\<Gamma>, c1) [] (\<Gamma>', c2)"
    by (rule node_run.moved [OF node_run.start]) (simp add: node_advance_def later)
  note R = mock.resubmission_changes_nothing [OF ok _ _ len this, unfolded adapter_sel, OF first _ again]
  have nk: "known_tx c h = None" using new by (simp add: known_tx_def)
  have "h' = h \<and> known_tx (snd (\<Gamma>', c3)) = known_tx (snd (\<Gamma>', c2)) \<and> known_tx (snd (\<Gamma>', c3)) h = Some (f, t, n)"
    by (rule R) (simp add: nk)
  then have res: "h' = h" "known_tx c3 = known_tx c2" "known_tx c3 h = Some (f, t, n)" unfolding snd_conv by blast+
  have "node_ok sha network (\<Gamma>, c1)" by (rule mock.submit_ok [OF ok, unfolded adapter_sel, OF first])
  then have ok2: "node_ok sha network (\<Gamma>', c2)" by (rule mock.advance_ok) (simp add: node_advance_def later)
  have "node_ok sha network (\<Gamma>', c3)" by (rule mock.submit_ok [OF ok2, unfolded adapter_sel, OF again])
  then have u: "uniq mx_hash (mtxs c3)" by (simp add: node_ok_def mock_ok_def)
  obtain x where "row_of mx_hash h (mtxs c3) = Some x" using res(3) by (auto simp: known_tx_def)
  from one_row [OF u this] res show ?thesis by simp
qed

section \<open>A small node\<close>

definition sample_digest :: "string \<Rightarrow> string" where
  "sample_digest s = take 64 (rev s @ replicate 64 CHR ''0'')"

lemma sample_digest_ok: "digest sample_digest"
  by (auto simp: digest_def sample_digest_def min_def)

definition run_mock :: "mock_chain result" where
  "run_mock = bindr (ensure_started sample_digest sample_env (new_mock ''BSC'')) (\<lambda>c.
     bindr (mock_simulate_deposit sample_digest sample_env ''0xA'' 500 ''d1'' c) (\<lambda>(c, _).
     bindr (send_transfer sample_digest sample_env ''0xA'' ''0xB'' 200 ''t1'' False c) (\<lambda>(c, _).
     bindr (mine_block sample_digest sample_env c) (\<lambda>(c, _). Inr c))))"

lemma returned_value:
  "case r of Inl _ \<Rightarrow> False | Inr c \<Rightarrow> P c \<Longrightarrow>
    r = Inr (case r of Inr c \<Rightarrow> c | Inl _ \<Rightarrow> d) \<and> P (case r of Inr c \<Rightarrow> c | Inl _ \<Rightarrow> d)"
  by (cases r) simp_all

definition sample_node :: mock_chain where
  "sample_node = (case run_mock of Inr c \<Rightarrow> c | Inl _ \<Rightarrow> new_mock ''BSC'')"

lemma sample_run_returns:
  "case run_mock of Inl _ \<Rightarrow> False | Inr c \<Rightarrow>
     map (\<lambda>x. (mx_from x, mx_to x, mx_amount x, mined x, mx_is_mint x)) (mtxs c) =
       [(EXTERNAL_SOURCE_ADDRESS, ''0xA'', 500, True, True), (''0xA'', ''0xB'', 200, True, False)] \<and>
     map (balv (token_balances c)) [''0xA'', ''0xB''] = [300, 200]"
  by code_simp

lemma sample_node_facts:
  "run_mock = Inr sample_node"
  "map (\<lambda>x. (mx_from x, mx_to x, mx_amount x, mined x, mx_is_mint x)) (mtxs sample_node) =
     [(EXTERNAL_SOURCE_ADDRESS, ''0xA'', 500, True, True), (''0xA'', ''0xB'', 200, True, False)]"
  "map (balv (token_balances sample_node)) [''0xA'', ''0xB''] = [300, 200]"
proof -
  note F = returned_value [OF sample_run_returns, of "new_mock ''BSC''", folded sample_node_def]
  show "run_mock = Inr sample_node" by (rule F [THEN conjunct1])
  show "map (\<lambda>x. (mx_from x, mx_to x, mx_amount x, mined x, mx_is_mint x)) (mtxs sample_node) =
     [(EXTERNAL_SOURCE_ADDRESS, ''0xA'', 500, True, True), (''0xA'', ''0xB'', 200, True, False)]" by (rule F [THEN conjunct2, THEN conjunct1])
  show "map (balv (token_balances sample_node)) [''0xA'', ''0xB''] = [300, 200]" by (rule F [THEN conjunct2, THEN conjunct2])
qed

lemma sample_node_reached: "mock_steps sample_digest (new_mock ''BSC'') sample_node"
proof -
  have "run_mock = Inr sample_node" by (rule sample_node_facts)
  then obtain c1 c2 c3 h2 h3 n where
    1: "ensure_started sample_digest sample_env (new_mock ''BSC'') = Inr c1" and
    2: "mock_simulate_deposit sample_digest sample_env ''0xA'' 500 ''d1'' c1 = Inr (c2, h2)" and
    3: "send_transfer sample_digest sample_env ''0xA'' ''0xB'' 200 ''t1'' False c2 = Inr (c3, h3)" and
    4: "mine_block sample_digest sample_env c3 = Inr (sample_node, n)"
    by (auto simp: run_mock_def bindr_eq_Inr)
  show ?thesis unfolding mock_steps_def
    using mock_step.started [OF 1] mock_step.sent [OF 2 [unfolded mock_simulate_deposit_def]] mock_step.sent [OF 3] mock_step.block [OF 4]
    by (meson converse_rtranclp_into_rtranclp rtranclp.rtrancl_refl)
qed

theorem mock_chain_sound_witness:
  "balv (token_balances sample_node) ''0xA'' = 300 \<and> balv (token_balances sample_node) ''0xB'' = 200 \<and>
   (\<Sum>a\<in>{EXTERNAL_SOURCE_ADDRESS, ''0xA'', ''0xB''}. balv (token_balances sample_node) a) = 500"
proof -
  let ?F = "{EXTERNAL_SOURCE_ADDRESS, ''0xA'', ''0xB''}"
  from sample_node_facts(2) obtain x y where xy: "mtxs sample_node = [x, y]" "mx_from x = EXTERNAL_SOURCE_ADDRESS" "mx_to x = ''0xA''"
    "mx_from y = ''0xA''" "mx_to y = ''0xB''" "mined x" "mx_is_mint x" "\<not> mx_is_mint y" "mx_amount x = 500"
    by (auto simp: map_eq_Cons_conv)
  have "(\<Sum>a\<in>?F. balv (token_balances sample_node) a) = total (\<lambda>x. mined x \<and> mx_is_mint x) mx_amount (mtxs sample_node)"
    by (rule mock_chain_sound [THEN conjunct2, THEN conjunct2, THEN conjunct2, OF sample_digest_ok sample_node_reached])
      (simp_all add: xy)
  moreover have "total (\<lambda>x. mined x \<and> mx_is_mint x) mx_amount (mtxs sample_node) = 500" using xy by simp
  ultimately have "(\<Sum>a\<in>?F. balv (token_balances sample_node) a) = 500" by (rule trans)
  moreover have "balv (token_balances sample_node) ''0xA'' = 300" "balv (token_balances sample_node) ''0xB'' = 200"
    using sample_node_facts(3) by simp_all
  ultimately show ?thesis by blast
qed

lemma mock_steps_refl: "mock_steps sha c c"
  by (simp add: mock_steps_def)

definition sample_h :: string where "sample_h = mock_hash sample_digest [''tx'', ''BSC'', ''t2'']"

theorem resubmission_harmless_witness:
  "\<exists>c1 c3. mock_submit sample_digest (sample_env, new_mock ''BSC'') ''0xB'' ''0xC'' 7 ''t2'' = ((sample_env, c1), Inr sample_h) \<and>
     mock_submit sample_digest (sample_env, c1) ''0xB'' ''0xD'' 9 ''t2'' = ((sample_env, c3), Inr sample_h) \<and>
     known_tx c3 sample_h = Some (''0xB'', ''0xC'', 7)"
proof -
  let ?c1 = "snd (fst (mock_submit sample_digest (sample_env, new_mock ''BSC'') ''0xB'' ''0xC'' 7 ''t2''))"
  let ?c3 = "snd (fst (mock_submit sample_digest (sample_env, ?c1) ''0xB'' ''0xD'' 9 ''t2''))"
  have 1: "mock_submit sample_digest (sample_env, new_mock ''BSC'') ''0xB'' ''0xC'' 7 ''t2'' = ((sample_env, ?c1), Inr sample_h)"
  proof -
    have "snd (mock_submit sample_digest (sample_env, new_mock ''BSC'') ''0xB'' ''0xC'' 7 ''t2'') = Inr sample_h" by code_simp
    then show ?thesis by (auto simp: mock_submit_def split: sum.splits)
  qed
  have 2: "mock_submit sample_digest (sample_env, ?c1) ''0xB'' ''0xD'' 9 ''t2'' = ((sample_env, ?c3), Inr sample_h)"
  proof -
    have "snd (mock_submit sample_digest (sample_env, ?c1) ''0xB'' ''0xD'' 9 ''t2'') = Inr sample_h" by code_simp
    then show ?thesis by (auto simp: mock_submit_def split: sum.splits)
  qed
  have new: "row_of mx_hash sample_h (mtxs (new_mock ''BSC'')) = None" by code_simp
  have "sample_h = sample_h \<and> known_tx ?c3 = known_tx ?c1 \<and> known_tx ?c3 sample_h = Some (''0xB'', ''0xC'', 7) \<and>
      length (filter (\<lambda>x. mx_hash x = sample_h) (mtxs ?c3)) = 1"
    by (rule resubmission_harmless [OF sample_digest_ok mock_steps_refl 1 new _ _ _ 2]) (simp_all add: mock_steps_refl)
  with 1 2 show ?thesis by blast
qed

end
