(* ===== verification/DepositTracking.thy ===== *)
theory DepositTracking
  imports ChainDeposits MockNode
begin

text \<open>
  What the deposit scanner and the confirmation watcher guarantee: rescanning has no effect,
  the scanner reaches the head without missing a log, and the watcher's decisions follow
  the chain.
\<close>

section \<open>Events\<close>

definition event_ids :: "cdb \<Rightarrow> uuid set" where
  "event_ids db = o_event_id ` set (o_rows (c_outbox db))"

lemma emit_spec:
  assumes "emit \<Gamma> ty p k corr db = Inr db'" and "k \<noteq> []"
  shows "\<exists>ob. db' = db\<lparr>c_outbox := ob\<rparr> \<and> event_ids db' = insert (uuid5 \<Gamma> (event_name ty k)) (event_ids db) \<and>
    (outbox_ok (c_outbox db) \<longrightarrow> outbox_ok ob)"
proof -
  let ?ev = "new_event \<Gamma> ty p CHAIN_PRODUCER (Some k) corr None"
  from assms(1) obtain ob where ob: "enqueue_event (c_outbox db) ?ev = Inr ob" and db': "db' = db\<lparr>c_outbox := ob\<rparr>"
    by (auto simp: emit_def bindr_eq_Inr)
  have id: "uuid_of_string (event_id ?ev) = Some (uuid5 \<Gamma> (event_name ty k))" using assms(2) by simp
  have "o_event_id ` set (o_rows ob) = insert (uuid5 \<Gamma> (event_name ty k)) (o_event_id ` set (o_rows (c_outbox db)))"
    using ob by (cases rule: enqueue_event_cases) (use id in \<open>auto simp: row_of_None insert_absorb\<close>)
  then show ?thesis using db' enqueue_event_ok [OF ob] by (intro exI [of _ ob]) (simp add: event_ids_def)
qed

lemma emit_total:
  assumes "k \<noteq> []" and "length ty \<le> 64" and "length (first_nonempty [corr, get_correlation_id \<Gamma>] (minted_cid \<Gamma>)) \<le> 64"
  shows "\<exists>db'. emit \<Gamma> ty p k corr db = Inr db'"
proof -
  let ?ev = "new_event \<Gamma> ty p CHAIN_PRODUCER (Some k) corr None"
  have "\<exists>ob. enqueue_event (c_outbox db) ?ev = Inr ob"
    using enqueue_event_total [of ?ev "uuid5 \<Gamma> (event_name ty k)" "c_outbox db"] assms by (auto simp: new_event_def)
  then show ?thesis by (auto simp: emit_def)
qed

section \<open>Rescanning\<close>

text \<open>Whether a proposed row fits depends on the log alone, and so does its chain identity.\<close>

lemma check_deposit_relabel:
  "check_deposit (d\<lparr>d_id := i, d_first_seen_at := t\<rparr>) = map_sum id (\<lambda>x. x\<lparr>d_id := i, d_first_seen_at := t\<rparr>) (check_deposit d)"
  unfolding check_deposit_def by (simp add: bindr_def split: sum.split)

lemma new_deposit_relabel: "new_deposit \<Gamma>' i' e = (new_deposit \<Gamma> i e)\<lparr>d_id := i', d_first_seen_at := now \<Gamma>'\<rparr>"
  by (simp add: new_deposit_def)

definition log_row :: "transfer_log \<Rightarrow> deposit result" where
  "log_row e = check_deposit (new_deposit sample_env 0 e)"

lemma proposed_row:
  "check_deposit (new_deposit \<Gamma> i e) = map_sum id (\<lambda>x. x\<lparr>d_id := i, d_first_seen_at := now \<Gamma>\<rparr>) (log_row e)"
  unfolding log_row_def using check_deposit_relabel [where d = "new_deposit sample_env 0 e" and i = i and t = "now \<Gamma>"]
  by (simp add: new_deposit_relabel [of \<Gamma> i e sample_env 0])

text \<open>The log is recorded by a deposit that no reorganisation has removed.\<close>

definition recorded :: "cdb \<Rightarrow> transfer_log \<Rightarrow> bool" where
  "recorded db e = (\<exists>n d. log_row e = Inr n \<and> row_of deposit_key (deposit_key n) (deposits db) = Some d \<and> d_status d \<noteq> DepReorged)"

lemma deposit_key_relabel [simp]: "deposit_key (x\<lparr>d_id := i, d_first_seen_at := t\<rparr>) = deposit_key x"
  by (simp add: deposit_key_def)

lemma deposit_key_revive [simp]: "deposit_key (revive n d) = deposit_key d" "d_status (revive n d) = DepDetected" "d_id (revive n d) = d_id d"
  by (simp_all add: deposit_key_def revive_def)

lemma upsert_row_cases:
  assumes "upsert_row \<Gamma> e db = Inr (db', got)"
  obtains n where "log_row e = Inr n" "got = None" "db' = db\<lparr>c_draws := Suc (c_draws db)\<rparr>" "recorded db e"
  | n m where "log_row e = Inr n" "m = n\<lparr>d_id := uuid4 \<Gamma> (c_draws db), d_first_seen_at := now \<Gamma>\<rparr>" "got = Some m"
      "row_of deposit_key (deposit_key n) (deposits db) = None" "row_of d_id (d_id m) (deposits db) = None"
      "db' = db\<lparr>c_draws := Suc (c_draws db), deposits := deposits db @ [m]\<rparr>"
  | n m d where "log_row e = Inr n" "row_of deposit_key (deposit_key n) (deposits db) = Some d" "d_status d = DepReorged"
      "got = Some (revive m d)" "db' = db\<lparr>c_draws := Suc (c_draws db), deposits := upd_of deposit_key (deposit_key n) (revive m) (deposits db)\<rparr>"
proof -
  from assms obtain n where n: "log_row e = Inr n"
    by (cases "log_row e") (auto simp: upsert_row_def proposed_row)
  let ?m = "n\<lparr>d_id := uuid4 \<Gamma> (c_draws db), d_first_seen_at := now \<Gamma>\<rparr>"
  have run: "(let db1 = db\<lparr>c_draws := Suc (c_draws db)\<rparr> in
       case row_of deposit_key (deposit_key ?m) (deposits db) of
         None \<Rightarrow> if row_of d_id (d_id ?m) (deposits db) \<noteq> None then Inl (IntegrityError ''deposits_pkey'')
           else Inr (db1\<lparr>deposits := deposits db @ [?m]\<rparr>, Some ?m)
       | Some d \<Rightarrow> if d_status d = DepReorged
           then Inr (db1\<lparr>deposits := upd_of deposit_key (deposit_key ?m) (revive ?m) (deposits db)\<rparr>, Some (revive ?m d))
           else Inr (db1, None)) = Inr (db', got)"
    using assms unfolding upsert_row_def proposed_row n by simp
  show thesis
  proof (cases "row_of deposit_key (deposit_key n) (deposits db)")
    case None
    show thesis by (rule that(2) [OF n refl]) (use run None in \<open>auto simp: Let_def split: if_splits\<close>)
  next
    case (Some d)
    show thesis
    proof (cases "d_status d = DepReorged")
      case True
      show thesis by (rule that(3) [OF n Some True, of ?m]) (use run Some True in \<open>simp_all add: Let_def\<close>)
    next
      case False
      show thesis by (rule that(1) [OF n]) (use run Some False n in \<open>auto simp: Let_def recorded_def\<close>)
    qed
  qed
qed

lemma upsert_deposit_cases:
  assumes "upsert_deposit \<Gamma> e db = Inr (db', hit)"
  obtains db1 where "upsert_row \<Gamma> e db = Inr (db1, None)" "db' = db1" "\<not> hit"
  | db1 d p where "upsert_row \<Gamma> e db = Inr (db1, Some d)" "deposit_payload d (Some 0) = Inr p" "hit"
      "emit (correlation_scope (Some (deposit_cid (lg_tx_hash e))) \<Gamma>) DEPOSIT_DETECTED p (log_identity e @ '':'' @ lg_block_hash e)
         (Some (deposit_cid (lg_tx_hash e))) db1 = Inr db'"
  using assms by (auto simp: upsert_deposit_def bindr_eq_Inr Let_def split: option.splits)

lemma recorded_cong: "deposits db' = deposits db \<Longrightarrow> recorded db' = recorded db"
  by (simp add: recorded_def fun_eq_iff)

lemma upsert_row_records:
  assumes "upsert_row \<Gamma> e db = Inr (db', got)"
  shows "recorded db' e \<and> (recorded db e' \<longrightarrow> recorded db' e')"
  using assms
proof (cases rule: upsert_row_cases)
  case (1 n)
  then show ?thesis using recorded_cong [of db' db] by simp
next
  case (2 n m)
  then have "row_of deposit_key (deposit_key n) (deposits db') = Some m" by (simp add: row_of_append)
  moreover have "d_status m \<noteq> DepReorged"
    using 2(1,2) check_deposit_keeps(3) [of "new_deposit sample_env 0 e" n] by (simp add: log_row_def new_deposit_def)
  ultimately show ?thesis using 2 by (auto simp: recorded_def row_of_append)
next
  case (3 n m d)
  have r: "row_of deposit_key k (deposits db') = (if k = deposit_key n then map_option (revive m) (row_of deposit_key k (deposits db))
      else row_of deposit_key k (deposits db))" for k
    using 3(5) by (simp add: row_of_upd)
  then show ?thesis using 3 by (auto simp: recorded_def)
qed

lemma emit_deposits: "emit \<Gamma> ty p k corr db = Inr db' \<Longrightarrow> deposits db' = deposits db"
  by (auto simp: emit_def bindr_eq_Inr)

lemma upsert_deposit_records:
  assumes "upsert_deposit \<Gamma> e db = Inr (db', hit)"
  shows "recorded db' e \<and> (recorded db e' \<longrightarrow> recorded db' e')"
  using assms
proof (cases rule: upsert_deposit_cases)
  case (1 db1)
  then show ?thesis using upsert_row_records by metis
next
  case (2 db1 d p)
  then show ?thesis using upsert_row_records [OF 2(1)] recorded_cong [OF emit_deposits [OF 2(4)]] by simp
qed

lemma upsert_deposit_recorded:
  "recorded db e \<Longrightarrow> upsert_deposit \<Gamma> e db = Inr (db\<lparr>c_draws := Suc (c_draws db)\<rparr>, False)"
  by (auto simp: recorded_def upsert_deposit_def upsert_row_def proposed_row)

lemma upsert_all_records:
  assumes "upsert_all \<Gamma> es db = Inr (db', n)"
  shows "(\<forall>e\<in>set es. recorded db' e) \<and> (\<forall>e'. recorded db e' \<longrightarrow> recorded db' e')"
  using assms
proof (induction es arbitrary: db n)
  case (Cons e es)
  then obtain db1 hit m where one: "upsert_deposit \<Gamma> e db = Inr (db1, hit)" and rest: "upsert_all \<Gamma> es db1 = Inr (db', m)"
    by (auto simp: bindr_eq_Inr)
  from Cons.IH [OF rest] upsert_deposit_records [OF one] show ?case by auto
qed simp

lemma upsert_all_recorded:
  assumes "\<forall>e\<in>set es. recorded db e"
  shows "upsert_all \<Gamma> es db = Inr (db\<lparr>c_draws := c_draws db + length es\<rparr>, 0)"
  using assms
proof (induction es arbitrary: db)
  case (Cons e es)
  have "\<forall>x\<in>set es. recorded (db\<lparr>c_draws := Suc (c_draws db)\<rparr>) x" using Cons.prems recorded_cong [of "db\<lparr>c_draws := Suc (c_draws db)\<rparr>" db] by simp
  from Cons.IH [OF this] Cons.prems show ?case by (simp add: upsert_deposit_recorded)
qed simp

text \<open>
  Property C32. Rescanning has no effect: after a batch of logs was ingested, ingesting any of
  them again, in whatever order and number and in whatever environment, returns, detects
  nothing, and changes no deposit and no event; only random identifiers are used up.
\<close>

theorem rescan_changes_nothing:
  assumes "upsert_all \<Gamma> es db = Inr (db1, n)" and "set again \<subseteq> set es"
  shows "\<exists>db2. upsert_all \<Gamma>' again db1 = Inr (db2, 0) \<and> deposits db2 = deposits db1 \<and> c_outbox db2 = c_outbox db1"
proof -
  have "\<forall>e\<in>set again. recorded db1 e" using upsert_all_records [OF assms(1)] assms(2) by blast
  from upsert_all_recorded [OF this] show ?thesis by simp
qed

section \<open>Reaching the head\<close>

text \<open>A log whose values fit the columns, and a database whose rows do not get in the way of new ones.\<close>

definition log_fits :: "transfer_log \<Rightarrow> bool" where
  "log_fits e = (length (lg_network e) \<le> 32 \<and> length (lg_asset e) \<le> 16 \<and> length (lg_tx_hash e) \<le> 80 \<and> length (lg_to_address e) \<le> 64 \<and>
     length (lg_from_address e) \<le> 64 \<and> length (lg_block_hash e) \<le> 80 \<and> - (2 ^ 31) \<le> lg_log_index e \<and> lg_log_index e < 2 ^ 31 \<and>
     0 < lg_amount e \<and> lg_amount e < 10 ^ 78 \<and> - (2 ^ 63) \<le> lg_block_number e \<and> lg_block_number e < 2 ^ 63 \<and>
     py_upper_ascii (lg_asset e) = ''USDT'')"

definition scan_ready :: "env \<Rightarrow> nat \<Rightarrow> cdb \<Rightarrow> bool" where
  "scan_ready \<Gamma> M db = (inj_on (uuid4 \<Gamma>) {..<M} \<and> (\<forall>d\<in>set (deposits db). py_upper_ascii (d_asset d) = ''USDT'' \<and> (\<exists>i<c_draws db. d_id d = uuid4 \<Gamma> i)))"

lemma log_row_fits: "log_fits e \<Longrightarrow> log_row e = Inr (new_deposit sample_env 0 e)"
  by (simp add: log_fits_def log_row_def check_deposit_def new_deposit_def int4_def int8_def numeric78_def del: power_numeral)

lemma payload_total: "py_upper_ascii (d_asset d) = ''USDT'' \<Longrightarrow> \<exists>p. deposit_payload d n = Inr p"
  by (auto simp: deposit_payload_def bindr_eq_Inr get_asset_eq_Inr)

lemma deposit_cid_short: "length (deposit_cid h) \<le> 16" "deposit_cid h \<noteq> []"
  by (simp_all add: deposit_cid_def)

lemma scan_ready_upd:
  assumes "scan_ready \<Gamma> M db" and "\<forall>d\<in>set ds. \<exists>d0\<in>set (deposits db). d_asset d = d_asset d0 \<and> d_id d = d_id d0"
  shows "scan_ready \<Gamma> M (db\<lparr>c_draws := Suc (c_draws db), deposits := ds\<rparr>)"
  using assms unfolding scan_ready_def by simp (metis less_SucI)

lemma upsert_row_total:
  assumes "log_fits e" and ready: "scan_ready \<Gamma> M db" and room: "c_draws db < M"
  shows "\<exists>db' got. upsert_row \<Gamma> e db = Inr (db', got) \<and> c_draws db' = Suc (c_draws db) \<and> scan_ready \<Gamma> M db' \<and> addresses db' = addresses db \<and> scans db' = scans db \<and>
    (\<forall>d. got = Some d \<longrightarrow> py_upper_ascii (d_asset d) = ''USDT'')"
proof -
  let ?m = "(new_deposit sample_env 0 e)\<lparr>d_id := uuid4 \<Gamma> (c_draws db), d_first_seen_at := now \<Gamma>\<rparr>"
  have a: "py_upper_ascii (lg_asset e) = ''USDT''" using assms(1) by (simp add: log_fits_def)
  have new: "row_of d_id (uuid4 \<Gamma> (c_draws db)) (deposits db) = None"
    using ready room by (fastforce simp: row_of_None scan_ready_def dest: inj_onD)
  show ?thesis
  proof (cases "row_of deposit_key (deposit_key ?m) (deposits db)")
    case None
    have "upsert_row \<Gamma> e db = Inr (db\<lparr>c_draws := Suc (c_draws db), deposits := deposits db @ [?m]\<rparr>, Some ?m)"
      using None new by (simp add: upsert_row_def proposed_row log_row_fits [OF assms(1)] Let_def)
    moreover have "scan_ready \<Gamma> M (db\<lparr>c_draws := Suc (c_draws db), deposits := deposits db @ [?m]\<rparr>)"
      using ready a by (auto simp: scan_ready_def new_deposit_def intro: less_SucI)
    ultimately show ?thesis using a by (simp add: new_deposit_def)
  next
    case (Some d)
    have d: "py_upper_ascii (d_asset d) = ''USDT''" using ready row_of_Some [OF Some] by (simp add: scan_ready_def)
    have keep: "scan_ready \<Gamma> M (db\<lparr>c_draws := Suc (c_draws db)\<rparr>)" "scan_ready \<Gamma> M (db\<lparr>c_draws := Suc (c_draws db),
        deposits := upd_of deposit_key (deposit_key ?m) (revive ?m) (deposits db)\<rparr>)"
    proof -
      show "scan_ready \<Gamma> M (db\<lparr>c_draws := Suc (c_draws db)\<rparr>)" using scan_ready_upd [OF ready, of "deposits db"] by auto
      show "scan_ready \<Gamma> M (db\<lparr>c_draws := Suc (c_draws db), deposits := upd_of deposit_key (deposit_key ?m) (revive ?m) (deposits db)\<rparr>)"
        by (rule scan_ready_upd [OF ready]) (auto simp: set_upd_of revive_def)
    qed
    then show ?thesis using Some d by (simp add: upsert_row_def proposed_row log_row_fits [OF assms(1)] Let_def revive_def)
  qed
qed

lemma upsert_deposit_total:
  assumes "log_fits e" and "scan_ready \<Gamma> M db" and "c_draws db < M"
  shows "\<exists>db' hit. upsert_deposit \<Gamma> e db = Inr (db', hit) \<and> c_draws db' = Suc (c_draws db) \<and> scan_ready \<Gamma> M db' \<and> addresses db' = addresses db \<and> scans db' = scans db"
proof -
  from upsert_row_total [OF assms] obtain db1 got where row: "upsert_row \<Gamma> e db = Inr (db1, got)" "c_draws db1 = Suc (c_draws db)" "scan_ready \<Gamma> M db1"
    "addresses db1 = addresses db" "scans db1 = scans db" and got: "\<forall>d. got = Some d \<longrightarrow> py_upper_ascii (d_asset d) = ''USDT''" by blast
  show ?thesis
  proof (cases got)
    case None
    with row show ?thesis by (intro exI [of _ db1] exI [of _ False]) (simp add: upsert_deposit_def)
  next
    case (Some d)
    let ?corr = "deposit_cid (lg_tx_hash e)" and ?k = "log_identity e @ '':'' @ lg_block_hash e"
    obtain p where p: "deposit_payload d (Some 0) = Inr p" using payload_total got Some by blast
    have "length (first_nonempty [Some ?corr, get_correlation_id (correlation_scope (Some ?corr) \<Gamma>)] (minted_cid (correlation_scope (Some ?corr) \<Gamma>))) \<le> 64"
      using deposit_cid_short [of "lg_tx_hash e"] by (simp add: first_nonempty_def)
    then obtain db2 where em: "emit (correlation_scope (Some ?corr) \<Gamma>) DEPOSIT_DETECTED p ?k (Some ?corr) db1 = Inr db2"
      using emit_total [of ?k DEPOSIT_DETECTED "Some ?corr" "correlation_scope (Some ?corr) \<Gamma>" p db1]
      by (auto simp: DEPOSIT_DETECTED_def)
    then obtain ob where "db2 = db1\<lparr>c_outbox := ob\<rparr>" using emit_spec by fastforce
    then show ?thesis using row Some p em
      by (intro exI [of _ db2] exI [of _ True]) (simp add: upsert_deposit_def Let_def scan_ready_def)
  qed
qed

lemma upsert_all_total:
  assumes "\<forall>e\<in>set es. log_fits e" and "scan_ready \<Gamma> M db" and "c_draws db + length es \<le> M"
  shows "\<exists>db' n. upsert_all \<Gamma> es db = Inr (db', n) \<and> c_draws db' = c_draws db + length es \<and> scan_ready \<Gamma> M db' \<and> addresses db' = addresses db \<and> scans db' = scans db"
  using assms
proof (induction es arbitrary: db)
  case (Cons e es)
  from Cons.prems have "log_fits e" "c_draws db < M" by simp_all
  from upsert_deposit_total [OF this(1) Cons.prems(2) this(2)] obtain db1 hit where one: "upsert_deposit \<Gamma> e db = Inr (db1, hit)"
    "c_draws db1 = Suc (c_draws db)" "scan_ready \<Gamma> M db1" "addresses db1 = addresses db" "scans db1 = scans db" by blast
  with Cons.IH [of db1] Cons.prems show ?case by fastforce
qed simp

text \<open>A chain that stands still while it is scanned: one head, hashes that fit, and the logs of every range.\<close>

definition still_chain :: "'c chain_adapter \<Rightarrow> 'c \<Rightarrow> int \<Rightarrow> string list \<Rightarrow> transfer_log list \<Rightarrow> bool" where
  "still_chain A c head watched L = (block_number_at A c = Inr head \<and> 0 < head \<and> head < 2 ^ 63 \<and>
     (\<forall>k. \<exists>h. block_hash_at A c k = Inr h \<and> fits_opt 80 h) \<and> (\<forall>e\<in>set L. log_fits e) \<and>
     (\<forall>lo hi. lo \<le> hi \<longrightarrow> transfer_logs_at A c lo hi watched = Inr (filter (\<lambda>e. lo \<le> lg_block_number e \<and> lg_block_number e \<le> hi) L)))"

definition cursor_known :: "chain_settings \<Rightarrow> 'c chain_adapter \<Rightarrow> 'c \<Rightarrow> cdb \<Rightarrow> bool" where
  "cursor_known S A c db = (case cursor_of S db of (block, h) \<Rightarrow> 0 \<le> block \<and> (h = None \<or> block_hash_at A c block = Inr h))"

fun scan_rounds :: "chain_settings \<Rightarrow> 'c chain_adapter \<Rightarrow> 'c \<Rightarrow> env \<Rightarrow> nat \<Rightarrow> cdb \<Rightarrow> cdb result" where
  "scan_rounds S A c \<Gamma> 0 db = Inr db"
| "scan_rounds S A c \<Gamma> (Suc k) db = bindr (scanner_run_once S A (\<lambda>_. c) \<Gamma> db db db) (\<lambda>(db1, _). scan_rounds S A c \<Gamma> k db1)"

lemma rewind_known: "cursor_known S A c db \<Longrightarrow> rewind S A c (cursor_of S db) = Inr (fst (cursor_of S db))"
  by (auto simp: cursor_known_def rewind_def split: prod.splits)

lemma set_cursor_total:
  assumes "length (cs_network S) \<le> 32" "- (2 ^ 63) \<le> block" "block < 2 ^ 63" "fits_opt 80 h"
  shows "\<exists>db'. set_cursor \<Gamma> (cs_network S) block h db = Inr db' \<and> cursor_of S db' = (block, h) \<and> deposits db' = deposits db \<and>
    addresses db' = addresses db \<and> c_draws db' = c_draws db"
  using assms by (cases "row_of sc_network (cs_network S) (scans db)")
    (simp_all add: set_cursor_def int8_def varchar_opt_fits cursor_of_def row_of_append row_of_upd)

lemma scan_round:
  assumes ch: "still_chain A c head (active_addresses db) L" and S: "length (cs_network S) \<le> 32" "0 < scan_batch_blocks S"
    and db: "scan_ready \<Gamma> M db" "cursor_known S A c db" and room: "c_draws db + length L \<le> M" and cur: "fst (cursor_of S db) = cur"
  shows "\<exists>db' rep. scanner_run_once S A (\<lambda>_. c) \<Gamma> db db db = Inr (db', rep) \<and> c_draws db' \<le> c_draws db + length L \<and> scan_ready \<Gamma> M db' \<and> cursor_known S A c db' \<and>
    active_addresses db' = active_addresses db \<and> fst (cursor_of S db') = max cur (min head (cur + scan_batch_blocks S)) \<and>
    (\<forall>e\<in>set (external (active_addresses db) L). (active_addresses db \<noteq> [] \<and> cur < lg_block_number e \<and> lg_block_number e \<le> fst (cursor_of S db') \<longrightarrow> recorded db' e) \<and>
      (recorded db e \<longrightarrow> recorded db' e))"
proof -
  have head: "block_number_at A c = Inr head" "0 < head" "head < 2 ^ 63" using ch by (simp_all add: still_chain_def)
  have rw: "rewind S A c (cursor_of S db) = Inr cur" using rewind_known [OF db(2)] cur by simp
  have pos: "0 \<le> cur" using db(2) cur by (auto simp: cursor_known_def split: prod.splits)
  let ?to = "min head (cur + 1 + scan_batch_blocks S - 1)" and ?w = "active_addresses db"
  show ?thesis
  proof (cases "?to < cur + 1")
    case True
    then have "scanner_run_once S A (\<lambda>_. c) \<Gamma> db db db = Inr (db, \<lparr>scanned = 0, detected = 0, internal_skipped = 0, scan_head = head\<rparr>)"
      using head rw by (simp add: scanner_run_once_def Let_def)
    moreover have "max cur (min head (cur + scan_batch_blocks S)) = cur" using True S(2) by auto
    ultimately show ?thesis using db cur by auto
  next
    case False
    let ?logs = "if ?w = [] then [] else filter (\<lambda>e. cur + 1 \<le> lg_block_number e \<and> lg_block_number e \<le> ?to) L"
    have logs: "(if ?w = [] then Inr [] else transfer_logs_at A c (cur + 1) ?to ?w) = Inr ?logs"
    proof -
      have "transfer_logs_at A c (cur + 1) ?to ?w = Inr (filter (\<lambda>e. cur + 1 \<le> lg_block_number e \<and> lg_block_number e \<le> ?to) L)"
        using ch False unfolding still_chain_def by (meson not_less)
      then show ?thesis by (simp only: if_distrib [where f = Inr])
    qed
    obtain tip where tip: "block_hash_at A c ?to = Inr tip" "fits_opt 80 tip" using ch unfolding still_chain_def by meson
    have "\<forall>e\<in>set (external ?w ?logs). log_fits e" using ch by (auto simp: external_def still_chain_def)
    moreover have few: "length (external ?w ?logs) \<le> length L" unfolding external_def by (simp add: le_trans [OF length_filter_le])
    moreover have "c_draws db + length (external ?w ?logs) \<le> M" using few room by (rule order_trans [OF add_left_mono])
    ultimately obtain db2 n where up: "upsert_all \<Gamma> (external ?w ?logs) db = Inr (db2, n)"
      "scan_ready \<Gamma> M db2" "addresses db2 = addresses db" and dr: "c_draws db2 = c_draws db + length (external ?w ?logs)"
      using upsert_all_total [OF _ db(1)] by blast
    have "- (2 ^ 63) \<le> ?to" "?to < 2 ^ 63" using head pos S(2) by auto
    from set_cursor_total [OF S(1) this tip(2)] obtain db3 where cu: "set_cursor \<Gamma> (cs_network S) ?to tip db2 = Inr db3"
      "cursor_of S db3 = (?to, tip)" "deposits db3 = deposits db2" "addresses db3 = addresses db2" "c_draws db3 = c_draws db2" by metis
    have rec: "recorded db3 = recorded db2" by (rule recorded_cong [OF cu(3)])
    have "\<exists>rep. scanner_run_once S A (\<lambda>_. c) \<Gamma> db db db = Inr (db3, rep)"
      unfolding scanner_run_once_def head(1) bindr_Inr rw Let_def using head(2) False logs tip(1) up(1) cu(1) by simp
    moreover have "scan_ready \<Gamma> M db3" "c_draws db3 \<le> c_draws db + length L" using up(2) cu dr few by (simp_all add: scan_ready_def)
    moreover have "cursor_known S A c db3" using cu(2) tip(1) pos False by (auto simp: cursor_known_def)
    moreover have "active_addresses db3 = ?w" using cu(4) up(3) by (simp add: active_addresses_def)
    moreover have "fst (cursor_of S db3) = max cur (min head (cur + scan_batch_blocks S))" using cu(2) False by auto
    moreover have "recorded db3 e" if "e \<in> set (external ?w L)" "?w \<noteq> []" "cur < lg_block_number e" "lg_block_number e \<le> fst (cursor_of S db3)" for e
      using that upsert_all_records [OF up(1)] cu(2) rec by (auto simp: external_def)
    moreover have "recorded db e \<longrightarrow> recorded db3 e" for e using upsert_all_records [OF up(1)] rec by simp
    ultimately show ?thesis by blast
  qed
qed

lemma scan_rounds_reach:
  assumes ch: "still_chain A c head (active_addresses db) L" and S: "length (cs_network S) \<le> 32" "0 < scan_batch_blocks S"
    and db: "scan_ready \<Gamma> M db" "cursor_known S A c db" and room: "c_draws db + k * length L \<le> M" and cur: "fst (cursor_of S db) \<le> head"
    and k: "head \<le> fst (cursor_of S db) + int k * scan_batch_blocks S"
  shows "\<exists>db'. scan_rounds S A c \<Gamma> k db = Inr db' \<and> fst (cursor_of S db') = head \<and>
    (\<forall>e\<in>set (external (active_addresses db) L). (recorded db e \<longrightarrow> recorded db' e) \<and>
      (active_addresses db \<noteq> [] \<and> fst (cursor_of S db) < lg_block_number e \<and> lg_block_number e \<le> head \<longrightarrow> recorded db' e))"
  using assms
proof (induction k arbitrary: db)
  case 0
  then show ?case by auto
next
  case (Suc k)
  let ?cur = "fst (cursor_of S db)"
  have "c_draws db + length L \<le> M" using Suc.prems(6) by simp
  from scan_round [OF Suc.prems(1-5) this refl] obtain db1 rep where r: "scanner_run_once S A (\<lambda>_. c) \<Gamma> db db db = Inr (db1, rep)"
    "scan_ready \<Gamma> M db1" "cursor_known S A c db1" "c_draws db1 \<le> c_draws db + length L" and w: "active_addresses db1 = active_addresses db"
    and c1: "fst (cursor_of S db1) = max ?cur (min head (?cur + scan_batch_blocks S))"
    and rec: "\<forall>e\<in>set (external (active_addresses db) L). (active_addresses db \<noteq> [] \<and> ?cur < lg_block_number e \<and> lg_block_number e \<le> fst (cursor_of S db1) \<longrightarrow> recorded db1 e) \<and>
      (recorded db e \<longrightarrow> recorded db1 e)" by blast
  have le: "fst (cursor_of S db1) \<le> head" using c1 Suc.prems(7) by simp
  have reach: "head \<le> fst (cursor_of S db1) + int k * scan_batch_blocks S"
    using Suc.prems(7,8) c1 S(2) by (auto simp: algebra_simps min_def max_def split: if_splits)
  have room1: "c_draws db1 + k * length L \<le> M" using r(4) Suc.prems(6) by simp
  from Suc.IH [OF Suc.prems(1) [folded w] Suc.prems(2,3) r(2,3) room1 le reach] obtain db' where
    d: "scan_rounds S A c \<Gamma> k db1 = Inr db'" "fst (cursor_of S db') = head"
      "\<forall>e\<in>set (external (active_addresses db) L). (recorded db1 e \<longrightarrow> recorded db' e) \<and>
        (active_addresses db \<noteq> [] \<and> fst (cursor_of S db1) < lg_block_number e \<and> lg_block_number e \<le> head \<longrightarrow> recorded db' e)"
    unfolding w by blast
  have "recorded db' e" if "e \<in> set (external (active_addresses db) L)" "active_addresses db \<noteq> []" "?cur < lg_block_number e" "lg_block_number e \<le> head" for e
    using that d(3) rec by (cases "lg_block_number e \<le> fst (cursor_of S db1)") auto
  then show ?case using r(1) d rec by (intro exI [of _ db']) auto
qed


section \<open>What the watcher decides\<close>

lemma save_deposit_spec:
  assumes "save_deposit d db = Inr db'" and "row_of d_id (d_id d) (deposits db) \<noteq> None"
  shows "\<exists>d'. check_deposit d = Inr d' \<and> row_of d_id (d_id d) (deposits db') = Some d' \<and>
    db' = db\<lparr>deposits := upd_of d_id (d_id d) (\<lambda>_. d') (deposits db)\<rparr>"
proof -
  from assms(1) obtain d' where d': "check_deposit d = Inr d'" "db' = db\<lparr>deposits := upd_of d_id (d_id d) (\<lambda>_. d') (deposits db)\<rparr>"
    by (auto simp: save_deposit_def bindr_eq_Inr)
  have "row_of d_id (d_id d) (upd_of d_id (d_id d) (\<lambda>_. d') xs) = (if row_of d_id (d_id d) xs = None then None else Some d')" for xs
    using check_deposit_keeps(1) [OF d'(1)] by (induction xs) auto
  then show ?thesis using d' assms(2) by auto
qed

lemma save_row:
  assumes "save_deposit d db = Inr db'" and "row_of d_id (d_id d) (deposits db) \<noteq> None"
  shows "\<exists>d'. row_of d_id (d_id d) (deposits db') = Some d' \<and> d_amount d' = d_amount d \<and> d_status d' = d_status d \<and>
    d_confirmations d' = d_confirmations d \<and> c_outbox db' = c_outbox db \<and>
    (\<forall>j. j \<noteq> d_id d \<longrightarrow> row_of d_id j (deposits db') = row_of d_id j (deposits db)) \<and> outgoings db' = outgoings db \<and> scans db' = scans db"
proof -
  obtain d' where d': "check_deposit d = Inr d'" "row_of d_id (d_id d) (deposits db') = Some d'"
    "db' = db\<lparr>deposits := upd_of d_id (d_id d) (\<lambda>_. d') (deposits db)\<rparr>" using save_deposit_spec [OF assms] by blast
  have "j \<noteq> d_id d \<Longrightarrow> row_of d_id j (upd_of d_id (d_id d) (\<lambda>_. d') xs) = row_of d_id j xs" for j xs
    using check_deposit_keeps(1) [OF d'(1)] by (induction xs) auto
  then show ?thesis using d' check_deposit_keeps(2,3,8) [OF d'(1)] by simp
qed

text \<open>The event of a decision, in the environment of the deposit's own correlation id.\<close>

definition deposit_event :: "env \<Rightarrow> string \<Rightarrow> string \<Rightarrow> uuid" where
  "deposit_event \<Gamma> ty k = uuid5 \<Gamma> (event_name ty k)"

lemma deposit_key_nonempty: "deposit_event_key d h \<noteq> []"
  by (simp add: deposit_event_key_def)

lemma decide_and_tell:
  assumes em: "emit \<Gamma> ty p k corr db = Inr db1" "k \<noteq> []" and sv: "save_deposit d1 db1 = Inr db2"
    and d: "row_of d_id (d_id d1) (deposits db) = Some d"
  shows "\<exists>d'. row_of d_id (d_id d1) (deposits db2) = Some d' \<and> d_amount d' = d_amount d1 \<and> d_status d' = d_status d1 \<and>
    d_confirmations d' = d_confirmations d1 \<and> event_ids db2 = insert (uuid5 \<Gamma> (event_name ty k)) (event_ids db) \<and>
    (\<forall>j. j \<noteq> d_id d1 \<longrightarrow> row_of d_id j (deposits db2) = row_of d_id j (deposits db)) \<and> outgoings db2 = outgoings db \<and> scans db2 = scans db"
proof -
  obtain ob where db1: "db1 = db\<lparr>c_outbox := ob\<rparr>" and ids: "event_ids db1 = insert (uuid5 \<Gamma> (event_name ty k)) (event_ids db)"
    using emit_spec [OF em] by blast
  from save_row [OF sv] d db1 ids show ?thesis by (auto simp: event_ids_def)
qed

lemma reverify_spec:
  assumes run: "reverify S A c1 c2 \<Gamma> head i db0 db = Inr (db', out)"
    and d0: "row_of d_id i (deposits db0) = Some d0" and d: "row_of d_id i (deposits db) = Some d"
    and found: "locate A c1 c2 d0 = Inr found"
  shows "\<exists>d'. row_of d_id i (deposits db') = Some d' \<and> d_amount d' = d_amount d \<and>
    (case found of
       None \<Rightarrow> out = ''reorged'' \<and> d_status d' = DepReorged \<and>
         event_ids db' = insert (deposit_event \<Gamma> DEPOSIT_REORGED (deposit_event_key d (d_block_hash d) @ '':reorg'')) (event_ids db)
     | Some (block, hash) \<Rightarrow>
         if d_status d = DepDetected \<and> confirmations_required S \<le> max 0 (head - block + 1)
         then out = ''confirmed'' \<and> d_status d' = DepConfirmed \<and> d_confirmations d' = max 0 (head - block + 1) \<and>
           event_ids db' = insert (deposit_event \<Gamma> DEPOSIT_CONFIRMED (deposit_event_key d hash)) (event_ids db)
         else out = ''checked'' \<and> d_status d' = d_status d \<and> event_ids db' = event_ids db) \<and>
    (\<forall>j. j \<noteq> i \<longrightarrow> row_of d_id j (deposits db') = row_of d_id j (deposits db)) \<and> outgoings db' = outgoings db \<and> scans db' = scans db"
proof -
  let ?corr = "deposit_cid (d_tx_hash d)" let ?\<Gamma> = "correlation_scope (Some ?corr) \<Gamma>"
  have id: "d_id d = i" using row_of_Some [OF d] by simp
  have U: "uuid5 ?\<Gamma> = uuid5 \<Gamma>" by (simp add: correlation_scope_def)
  have ap: "reverify_apply \<Gamma> head (confirmations_required S) found d db = Inr (db', out)" using run d0 d found by (simp add: reverify_def)
  show ?thesis
  proof (cases found)
    case None
    let ?d1 = "d\<lparr>d_status := DepReorged, d_reorged_at := Some (now ?\<Gamma>)\<rparr>"
    from ap None obtain p q db1 where em: "emit ?\<Gamma> DEPOSIT_REORGED q (deposit_event_key ?d1 (d_block_hash d) @ '':reorg'') (Some ?corr) db = Inr db1"
      and sv: "save_deposit ?d1 db1 = Inr db'" and out: "out = ''reorged''"
      by (auto simp: reverify_apply_def mark_deposit_reorged_def Let_def bindr_eq_Inr)
    have "deposit_event_key ?d1 (d_block_hash d) = deposit_event_key d (d_block_hash d)" by (simp add: deposit_event_key_def)
    then show ?thesis using decide_and_tell [OF em _ sv, of d] d id None out U by (auto simp: deposit_event_def)
  next
    case (Some bh)
    obtain block hash where bh: "bh = (block, hash)" by fastforce
    let ?d1 = "d\<lparr>d_block_number := block, d_block_hash := hash, d_confirmations := max 0 (head - block + 1)\<rparr>"
    show ?thesis
    proof (cases "d_status d = DepDetected \<and> confirmations_required S \<le> max 0 (head - block + 1)")
      case True
      let ?d2 = "?d1\<lparr>d_status := DepConfirmed, d_confirmed_at := Some (now \<Gamma>)\<rparr>"
      from ap Some bh True obtain p db1 where em: "emit ?\<Gamma> DEPOSIT_CONFIRMED p (deposit_event_key ?d2 (d_block_hash ?d2)) (Some ?corr) db = Inr db1"
        and sv: "save_deposit ?d2 db1 = Inr db'" and out: "out = ''confirmed''"
        by (auto simp: reverify_apply_def Let_def bindr_eq_Inr)
      have "deposit_event_key ?d2 (d_block_hash ?d2) = deposit_event_key d hash" by (simp add: deposit_event_key_def)
      then show ?thesis using decide_and_tell [OF em _ sv, of d] d id Some bh True out U deposit_key_nonempty by (auto simp: deposit_event_def)
    next
      case False
      then have sv: "save_deposit ?d1 db = Inr db'" and out: "out = ''checked''"
        using ap Some bh by (auto simp: reverify_apply_def Let_def bindr_eq_Inr)
      then show ?thesis using save_row [OF sv] d id Some bh False by (auto simp: event_ids_def)
    qed
  qed
qed

text \<open>
  The watcher follows the chain, and tells: when a run on a deposit commits, then
  if the chain no longer has it, it is \<open>REORGED\<close> and its reorganisation event is in the
  outbox; if the chain has it and a detected deposit is deep enough below the head, it is
  \<open>CONFIRMED\<close> and its confirmation event, keyed by the block, is in the outbox; in every
  other case its status is unchanged and no event was added. Nothing else is written.
\<close>

lemma reverify_decides:
  assumes run: "reverify S A c1 c2 \<Gamma> head i db0 db = Inr (db', out)"
    and d0: "row_of d_id i (deposits db0) = Some d0" and d: "row_of d_id i (deposits db) = Some d"
    and found: "locate A c1 c2 d0 = Inr found"
  shows "\<exists>d'. row_of d_id i (deposits db') = Some d' \<and> d_amount d' = d_amount d \<and>
    (case found of
       None \<Rightarrow> out = ''reorged'' \<and> d_status d' = DepReorged \<and>
         event_ids db' = insert (deposit_event \<Gamma> DEPOSIT_REORGED (deposit_event_key d (d_block_hash d) @ '':reorg'')) (event_ids db)
     | Some (block, hash) \<Rightarrow>
         if d_status d = DepDetected \<and> confirmations_required S \<le> max 0 (head - block + 1)
         then out = ''confirmed'' \<and> d_status d' = DepConfirmed \<and> d_confirmations d' = max 0 (head - block + 1) \<and>
           event_ids db' = insert (deposit_event \<Gamma> DEPOSIT_CONFIRMED (deposit_event_key d hash)) (event_ids db)
         else out = ''checked'' \<and> d_status d' = d_status d \<and> event_ids db' = event_ids db) \<and>
    (\<forall>j. j \<noteq> i \<longrightarrow> row_of d_id j (deposits db') = row_of d_id j (deposits db)) \<and> outgoings db' = outgoings db \<and> scans db' = scans db"
  by (rule reverify_spec [OF assms])

text \<open>Rows that are not on the watch list are left alone.\<close>

lemma reverify_other:
  assumes "reverify S A c1 c2 \<Gamma> head j db0 db = Inr (db', out)" and "i \<noteq> j"
  shows "row_of d_id i (deposits db') = row_of d_id i (deposits db)"
proof (cases "row_of d_id j (deposits db0) = None \<or> row_of d_id j (deposits db) = None")
  case True
  with assms(1) show ?thesis by (auto simp: reverify_def bindr_eq_Inr split: option.splits)
next
  case False
  then obtain d0 d where d: "row_of d_id j (deposits db0) = Some d0" "row_of d_id j (deposits db) = Some d" by auto
  from assms(1) d(1) obtain found where "locate A c1 c2 d0 = Inr found" by (auto simp: reverify_def bindr_eq_Inr)
  from reverify_spec [OF assms(1) d this] assms(2) show ?thesis by blast
qed

lemma reverify_all_other:
  "i \<notin> set is \<Longrightarrow> row_of d_id i (deposits (fst (reverify_all S A C \<Gamma> head k is rep db))) = row_of d_id i (deposits db)"
proof (induction "is" arbitrary: k rep db)
  case (Cons j "is")
  show ?case
  proof (cases "reverify S A (C (2 * k + 1)) (C (2 * k + 2)) \<Gamma> head j db db")
    case (Inr r)
    obtain db1 out where r: "r = (db1, out)" by fastforce
    have "row_of d_id i (deposits db1) = row_of d_id i (deposits db)" using reverify_other [OF Inr [unfolded r]] Cons.prems by simp
    then show ?thesis using Inr r Cons by simp
  qed simp
qed simp

fun watcher_runs :: "chain_settings \<Rightarrow> 'c chain_adapter \<Rightarrow> ((nat \<Rightarrow> 'c) \<times> env) list \<Rightarrow> cdb \<Rightarrow> cdb" where
  "watcher_runs S A [] db = db"
| "watcher_runs S A ((C, \<Gamma>) # runs) db = watcher_runs S A runs (fst (deposit_watcher_run_once S A C \<Gamma> db))"

lemma watcher_skips:
  assumes "block_number_at A (C 0) = Inr head" and "i \<notin> set (watchlist S head db)"
  shows "row_of d_id i (deposits (fst (deposit_watcher_run_once S A C \<Gamma> db))) = row_of d_id i (deposits db)"
  using assms reverify_all_other by (auto simp: deposit_watcher_run_once_def)

lemma not_watched:
  assumes "row_of d_id i (deposits db) = Some d" and "d_block_number d \<le> head - finality_depth S" and "uniq d_id (deposits db)"
  shows "i \<notin> set (watchlist S head db)"
proof
  assume "i \<in> set (watchlist S head db)"
  then obtain d' where "d' \<in> set (deposits db)" "d_id d' = i" "head - finality_depth S < d_block_number d'" by (auto simp: watchlist_def)
  with row_of_unique [OF assms(3)] assms(1,2) show False by fastforce
qed

lemma save_deposit_ids: "save_deposit d db = Inr db' \<Longrightarrow> map d_id (deposits db') = map d_id (deposits db)"
proof -
  assume "save_deposit d db = Inr db'"
  then obtain d' where d': "check_deposit d = Inr d'" "db' = db\<lparr>deposits := upd_of d_id (d_id d) (\<lambda>_. d') (deposits db)\<rparr>"
    by (auto simp: save_deposit_def bindr_eq_Inr)
  have "map d_id (upd_of d_id (d_id d) (\<lambda>_. d') xs) = map d_id xs" for xs
    using check_deposit_keeps(1) [OF d'(1)] by (induction xs) auto
  then show ?thesis using d' by simp
qed

lemma reverify_apply_ids:
  "reverify_apply \<Gamma> head n found d db = Inr (db', out) \<Longrightarrow> map d_id (deposits db') = map d_id (deposits db)"
  by (auto simp: reverify_apply_def mark_deposit_reorged_def Let_def bindr_eq_Inr dest!: save_deposit_ids emit_deposits
    split: option.splits if_splits)

lemma reverify_ids:
  "reverify S A c1 c2 \<Gamma> head j db0 db = Inr (db', out) \<Longrightarrow> map d_id (deposits db') = map d_id (deposits db)"
  by (auto simp: reverify_def bindr_eq_Inr dest!: reverify_apply_ids split: option.splits)

lemma reverify_all_ids: "map d_id (deposits (fst (reverify_all S A C \<Gamma> head k is rep db))) = map d_id (deposits db)"
  by (induction "is" arbitrary: k rep db) (auto dest!: reverify_ids split: sum.splits)

lemma watcher_ids: "map d_id (deposits (fst (deposit_watcher_run_once S A C \<Gamma> db))) = map d_id (deposits db)"
  by (auto simp: deposit_watcher_run_once_def reverify_all_ids split: sum.splits exn.splits)

text \<open>
  A deposit can be stranded: one that is still only detected when its block is at
  least the finality depth below the head is not on the watch list, so no run of the watcher
  at that head or a later one changes it, and it is never confirmed.
\<close>

lemma deep_deposit_stranded:
  assumes "uniq d_id (deposits db)" and "row_of d_id i (deposits db) = Some d" and "d_status d = DepDetected"
    and "\<forall>(C, \<Gamma>)\<in>set runs. \<exists>head. block_number_at A (C 0) = Inr head \<and> d_block_number d \<le> head - finality_depth S"
  shows "\<exists>d'. row_of d_id i (deposits (watcher_runs S A runs db)) = Some d' \<and> d_status d' = DepDetected"
  using assms
proof (induction runs arbitrary: db)
  case (Cons r runs)
  obtain C \<Gamma> where r: "r = (C, \<Gamma>)" by fastforce
  from Cons.prems(4) r obtain head where head: "block_number_at A (C 0) = Inr head" "d_block_number d \<le> head - finality_depth S" by auto
  let ?db = "fst (deposit_watcher_run_once S A C \<Gamma> db)"
  have "row_of d_id i (deposits ?db) = Some d"
    using watcher_skips [where C = C, OF head(1) not_watched [OF Cons.prems(2) head(2) Cons.prems(1)]] Cons.prems(2) by simp
  moreover have "uniq d_id (deposits ?db)" using Cons.prems(1) by (simp add: uniq_def watcher_ids)
  ultimately show ?case using Cons.IH [of ?db] Cons.prems(3,4) r by simp
qed simp

section \<open>A chain to try it on\<close>

definition sample_log :: transfer_log where
  "sample_log = \<lparr>lg_network = ''BSC'', lg_asset = ''USDT'', lg_tx_hash = ''0xt'', lg_log_index = 0, lg_block_number = 3, lg_block_hash = ''0xb'',
     lg_from_address = ''0xe'', lg_to_address = ''0x0'', lg_amount = 500\<rparr>"

definition sample_port :: "unit chain_adapter" where
  "sample_port = \<lparr>port_network = ''BSC'', port_asset = ''USDT'', block_number_at = (\<lambda>_. Inr 5), block_hash_at = (\<lambda>_ _. Inr (Some ''0xb'')),
     transfer_logs_at = (\<lambda>_ lo hi _. Inr (filter (\<lambda>e. lo \<le> lg_block_number e \<and> lg_block_number e \<le> hi) [sample_log])),
     receipt_at = (\<lambda>_ h. Inr (if h = ''0xt'' then Some \<lparr>rc_tx_hash = h, rc_block_number = 3, rc_block_hash = ''0xb'', rc_status = 1\<rparr> else None)),
     submit = (\<lambda>c _ _ _ _. (c, Inl (RpcUnavailableError []))), token_balance_at = (\<lambda>_ _. Inr 0)\<rparr>"

definition sample_settings :: chain_settings where
  "sample_settings = \<lparr>cs_network = ''BSC'', confirmations_required = 3, finality_depth = 24, scan_batch_blocks = 2, reorg_safety_blocks = 12,
     broadcast_max_attempts = 5, pending_timeout_seconds = 300, chain_backend = ''mock''\<rparr>"

definition sample_scanned :: cdb where
  "sample_scanned = (case upsert_all sample_env [sample_log] sample_cdb of Inr (db, _) \<Rightarrow> db | Inl _ \<Rightarrow> empty_cdb)"

lemma sample_cdb_facts: "deposits sample_cdb = []" "c_draws sample_cdb = 1" "scans sample_cdb = []" "event_ids sample_cdb = {}"
    "active_addresses sample_cdb = [''0x0'']"
  by code_simp+

lemma sample_scan:
  "upsert_all sample_env [sample_log] sample_cdb = Inr (sample_scanned, 1)" "deposits sample_scanned = [new_deposit sample_env 2 sample_log]"
  "scans sample_scanned = []"
proof -
  let ?d = "new_deposit sample_env 2 sample_log" and ?corr = "deposit_cid (lg_tx_hash sample_log)" and ?k = "log_identity sample_log @ '':'' @ lg_block_hash sample_log"
  let ?\<Gamma> = "correlation_scope (Some ?corr) sample_env" and ?db = "sample_cdb\<lparr>c_draws := 2, deposits := [?d]\<rparr>"
  have id: "uuid4 sample_env (Suc 0) = 2" by (simp add: sample_env_def)
  have "check_deposit ?d = Inr ?d" by (simp add: check_deposit_def new_deposit_def sample_log_def int4_def int8_def numeric78_def)
  then have row: "upsert_row sample_env sample_log sample_cdb = Inr (?db, Some ?d)"
    by (simp add: upsert_row_def sample_cdb_facts id numeral_2_eq_2)
  obtain p where p: "deposit_payload ?d (Some 0) = Inr p" using payload_total [of ?d] by (auto simp: new_deposit_def sample_log_def py_upper_ascii_def)
  obtain db2 where e: "emit ?\<Gamma> DEPOSIT_DETECTED p ?k (Some ?corr) ?db = Inr db2"
    using emit_total [of ?k DEPOSIT_DETECTED "Some ?corr" ?\<Gamma> p ?db] deposit_cid_short [of "lg_tx_hash sample_log"]
    by (auto simp: DEPOSIT_DETECTED_def first_nonempty_def)
  then obtain ob where db2: "db2 = ?db\<lparr>c_outbox := ob\<rparr>" using emit_spec by fastforce
  have run: "upsert_all sample_env [sample_log] sample_cdb = Inr (db2, 1)" using row p e by (simp add: upsert_deposit_def Let_def)
  then have eq: "sample_scanned = db2" by (simp add: sample_scanned_def)
  show "upsert_all sample_env [sample_log] sample_cdb = Inr (sample_scanned, 1)" "deposits sample_scanned = [?d]" "scans sample_scanned = []"
    unfolding eq using run by (simp_all add: db2 sample_cdb_facts(3))
qed

lemma upsert_row_outbox:
  assumes "upsert_row \<Gamma> e db = Inr (db', got)"
  shows "event_ids db' = event_ids db"
  using assms by (cases rule: upsert_row_cases) (simp_all add: event_ids_def)

lemma sample_scan_events: "event_ids sample_scanned \<subseteq> {uuid5 sample_env (event_name DEPOSIT_DETECTED ''BSC:0xt:0:0xb'')}"
proof -
  note none = sample_cdb_facts(4)
  from sample_scan(1) obtain hit where "upsert_deposit sample_env sample_log sample_cdb = Inr (sample_scanned, hit)"
    by (auto simp: bindr_eq_Inr)
  then show ?thesis
  proof (cases rule: upsert_deposit_cases)
    case (1 db1)
    then show ?thesis using none upsert_row_outbox by blast
  next
    case (2 db1 d p)
    have "event_ids db1 = event_ids sample_cdb" using 2(1) by (rule upsert_row_outbox)
    moreover have "log_identity sample_log @ '':'' @ lg_block_hash sample_log = ''BSC:0xt:0:0xb''" by code_simp
    ultimately show ?thesis using emit_spec [OF 2(4)] none by auto
  qed
qed

lemma sample_fresh_name:
  "uuid5 sample_env (event_name DEPOSIT_CONFIRMED ''BSC:0xt:0:0xb'') \<noteq> uuid5 sample_env (event_name DEPOSIT_DETECTED ''BSC:0xt:0:0xb'')"
  by code_simp

theorem rescan_changes_nothing_witness:
  "upsert_all sample_env [sample_log] sample_cdb = Inr (sample_scanned, 1) \<and> length (deposits sample_scanned) = 1 \<and>
   (\<exists>db2. upsert_all sample_env [sample_log, sample_log] sample_scanned = Inr (db2, 0) \<and> deposits db2 = deposits sample_scanned)"
proof -
  show ?thesis using sample_scan rescan_changes_nothing [OF sample_scan(1), of "[sample_log, sample_log]" sample_env] by auto
qed

lemma sample_still: "still_chain sample_port () 5 w [sample_log]"
  by (simp add: still_chain_def sample_port_def log_fits_def sample_log_def fits_opt_def py_upper_ascii_def)

lemma sample_external: "external [''0x0''] [sample_log] = [sample_log]"
  by code_simp


lemma sample_located: "locate sample_port () () (new_deposit sample_env 2 sample_log) = Inr (Some (3, ''0xb''))"
  by (simp add: locate_def sample_port_def new_deposit_def sample_log_def)

lemma sample_confirms:
  assumes "deposits db = [new_deposit sample_env 2 sample_log]" and "confirmations_required S = 3"
  shows "\<exists>db'. reverify S sample_port () () sample_env 5 2 db db = Inr (db', ''confirmed'')"
proof -
  let ?d = "new_deposit sample_env 2 sample_log"
  let ?d2 = "?d\<lparr>d_block_number := 3, d_block_hash := ''0xb'', d_confirmations := 3, d_status := DepConfirmed, d_confirmed_at := Some (now sample_env)\<rparr>"
  let ?corr = "deposit_cid (d_tx_hash ?d)" let ?\<Gamma> = "correlation_scope (Some ?corr) sample_env" let ?k = "deposit_event_key ?d2 ''0xb''"
  have row: "row_of d_id 2 (deposits db) = Some ?d" by (simp add: assms(1) new_deposit_def)
  obtain p where p: "deposit_payload ?d2 None = Inr p"
    using payload_total [of ?d2] by (auto simp: new_deposit_def sample_log_def py_upper_ascii_def)
  obtain db1 where e: "emit ?\<Gamma> DEPOSIT_CONFIRMED p ?k (Some ?corr) db = Inr db1"
    using emit_total [of ?k DEPOSIT_CONFIRMED "Some ?corr" ?\<Gamma> p db] deposit_key_nonempty deposit_cid_short [of "d_tx_hash ?d"]
    by (auto simp: DEPOSIT_CONFIRMED_def first_nonempty_def)
  have "check_deposit ?d2 = Inr ?d2"
    by (simp add: check_deposit_def new_deposit_def sample_log_def int4_def int8_def numeric78_def)
  then have "\<exists>db'. reverify_apply sample_env 5 3 (Some (3, ''0xb'')) ?d db = Inr (db', ''confirmed'')"
    using p e by (simp add: reverify_apply_def Let_def save_deposit_def new_deposit_def)
  then show ?thesis using row sample_located assms(2) by (simp add: reverify_def)
qed

end
