(* ===== verification/OutgoingTracking.thy ===== *)
theory OutgoingTracking
  imports Outgoing DepositTracking
begin

text \<open>
  What holds of the outgoing transactions whatever the workers and the chain do: one row per
  transfer, parties and amount never change, every decision has its event in the outbox,
  and no nonce is ever recorded.
\<close>

section \<open>The invariant\<close>

definition tx_event :: "(string \<Rightarrow> uuid) \<Rightarrow> string \<Rightarrow> outgoing \<Rightarrow> string \<Rightarrow> uuid" where
  "tx_event U ty r suffix = U (event_name ty (uuid_str (og_transfer_id r) @ '':'' @ suffix))"

text \<open>The decision that the status of a row stands for has its event among \<open>ids\<close>.\<close>

definition told :: "(string \<Rightarrow> uuid) \<Rightarrow> uuid set \<Rightarrow> outgoing \<Rightarrow> bool" where
  "told U ids r = (case og_status r of
     TxBroadcasted \<Rightarrow> \<exists>h. tx_event U TX_BROADCASTED r (h @ '':broadcast'') \<in> ids
   | TxConfirmed \<Rightarrow> \<exists>h. tx_event U TX_CONFIRMED r (h @ '':confirmed'') \<in> ids
   | TxFailed \<Rightarrow> \<exists>s. tx_event U TX_FAILED r s \<in> ids
   | TxReorged \<Rightarrow> \<exists>s. tx_event U TX_FAILED r s \<in> ids
   | _ \<Rightarrow> True)"

text \<open>What the row of an accepted request never changes.\<close>

definition out_immut :: "outgoing \<Rightarrow> uuid \<times> uuid \<times> string \<times> string \<times> string \<times> string \<times> int \<times> int" where
  "out_immut r = (og_id r, og_transfer_id r, og_network r, og_asset r, og_from_address r, og_to_address r, og_amount r, og_created_at r)"

definition out_stored :: "outgoing \<Rightarrow> bool" where
  "out_stored r = (length (og_network r) \<le> 32 \<and> length (og_asset r) \<le> 16 \<and> length (og_from_address r) \<le> 64 \<and>
     length (og_to_address r) \<le> 64 \<and> 0 < og_amount r \<and> og_amount r < 10 ^ 78 \<and> og_nonce r = None)"

definition outs_ok :: "(string \<Rightarrow> uuid) \<Rightarrow> cdb \<Rightarrow> bool" where
  "outs_ok U db = (uniq og_id (outgoings db) \<and> uniq og_transfer_id (outgoings db) \<and>
     (\<forall>r\<in>set (outgoings db). out_stored r \<and> told U (event_ids db) r))"

definition outs_le :: "cdb \<Rightarrow> cdb \<Rightarrow> bool" where
  "outs_le db db' = (\<forall>i r. row_of og_id i (outgoings db) = Some r \<longrightarrow>
     (\<exists>r'. row_of og_id i (outgoings db') = Some r' \<and> out_immut r' = out_immut r \<and> og_attempts r \<le> og_attempts r'))"

text \<open>A step of the outgoing side: the invariant and the rows survive, events are only added, the other tables are not touched.\<close>

definition out_keeps :: "(string \<Rightarrow> uuid) \<Rightarrow> cdb \<Rightarrow> cdb \<Rightarrow> bool" where
  "out_keeps U db db' = (outs_ok U db' \<and> outs_le db db' \<and> event_ids db \<subseteq> event_ids db' \<and>
     (outbox_ok (c_outbox db) \<longrightarrow> outbox_ok (c_outbox db')) \<and> deposits db' = deposits db \<and> c_processed db' = c_processed db)"

lemma out_immut_sel:
  assumes "out_immut r' = out_immut r"
  shows "og_id r' = og_id r" "og_transfer_id r' = og_transfer_id r" "og_network r' = og_network r" "og_asset r' = og_asset r"
    "og_from_address r' = og_from_address r" "og_to_address r' = og_to_address r" "og_amount r' = og_amount r" "og_created_at r' = og_created_at r"
  using assms by (simp_all add: out_immut_def)

lemma told_mono: "\<lbrakk>told U ids r; ids \<subseteq> ids'\<rbrakk> \<Longrightarrow> told U ids' r"
  by (auto simp: told_def split: tx_status.splits)

lemma told_cong: "\<lbrakk>og_status r' = og_status r; og_transfer_id r' = og_transfer_id r\<rbrakk> \<Longrightarrow> told U ids r' = told U ids r"
  by (cases "og_status r") (simp_all add: told_def tx_event_def)

lemma out_stored_cong: "\<lbrakk>out_immut r' = out_immut r; og_nonce r' = og_nonce r\<rbrakk> \<Longrightarrow> out_stored r' = out_stored r"
  by (simp add: out_stored_def out_immut_def)

lemma outs_le_refl: "outgoings db' = outgoings db \<Longrightarrow> outs_le db db'"
  by (simp add: outs_le_def)

lemma out_keeps_same:
  "\<lbrakk>outs_ok U db; outgoings db' = outgoings db; c_outbox db' = c_outbox db; deposits db' = deposits db; c_processed db' = c_processed db\<rbrakk> \<Longrightarrow> out_keeps U db db'"
  by (simp add: out_keeps_def outs_ok_def outs_le_refl event_ids_def)

lemma outs_ok_row: "\<lbrakk>outs_ok U db; row_of og_id i (outgoings db) = Some r\<rbrakk> \<Longrightarrow> out_stored r \<and> told U (event_ids db) r \<and> og_id r = i"
  using row_of_Some by (fastforce simp: outs_ok_def)

section \<open>Writing a row\<close>

lemma map_upd_const:
  assumes "uniq key rows" and "row_of key k rows = Some r0" and "key r' = k" and "f r' = f r0"
  shows "map f (upd_of key k (\<lambda>_. r') rows) = map f rows"
  using assms
proof (induction rows)
  case (Cons r rows)
  have "key r = k \<Longrightarrow> upd_of key k (\<lambda>_. r') rows = rows" using Cons.prems(1) by (auto intro!: upd_of_absent simp: row_of_None)
  then show ?case using Cons by (auto split: if_splits)
qed simp

lemma row_of_const:
  assumes "key r' = k"
  shows "row_of key j (upd_of key k (\<lambda>_. r') rows) = (if j = k then map_option (\<lambda>_. r') (row_of key k rows) else row_of key j rows)"
  using assms by (induction rows) auto

lemma check_outgoing_stored:
  assumes "check_outgoing r = Inr r'" and "out_stored r"
  shows "out_immut r' = out_immut r" "og_nonce r' = og_nonce r" "og_status r' = og_status r" "og_attempts r' = og_attempts r"
  by (rule check_outgoingE [OF assms(1)], use assms(2) in \<open>simp add: out_stored_def out_immut_def\<close>)+

text \<open>The new state \<open>r\<close> of the row \<open>r0\<close> is saved after events may have been added.\<close>

lemma save_keeps:
  assumes ok: "outs_ok U db" and row: "row_of og_id (og_id r) (outgoings db) = Some r0"
    and new: "out_immut r = out_immut r0" "og_nonce r = og_nonce r0" "og_attempts r0 \<le> og_attempts r"
    and ob: "db1 = db\<lparr>c_outbox := ob\<rparr>" "event_ids db \<subseteq> event_ids db1" "outbox_ok (c_outbox db) \<longrightarrow> outbox_ok ob"
    and said: "told U (event_ids db1) r" and save: "save_outgoing \<Gamma> r db1 = Inr db'"
  shows "out_keeps U db db' \<and> (\<exists>r'. row_of og_id (og_id r) (outgoings db') = Some r' \<and> og_status r' = og_status r) \<and> event_ids db' = event_ids db1"
proof -
  from save obtain r' where chk: "check_outgoing (r\<lparr>og_updated_at := now \<Gamma>\<rparr>) = Inr r'"
    and db': "db' = db1\<lparr>outgoings := upd_of og_id (og_id r) (\<lambda>_. r') (outgoings db1)\<rparr>"
    by (auto simp: save_outgoing_def bindr_eq_Inr split: if_splits)
  have st0: "out_stored r0" using outs_ok_row [OF ok row] by simp
  have st: "out_stored r" using st0 out_stored_cong new by metis
  have st1: "out_stored (r\<lparr>og_updated_at := now \<Gamma>\<rparr>)" using st by (simp add: out_stored_def)
  note c = check_outgoing_stored [OF chk st1]
  have im: "out_immut r' = out_immut r" using c(1) by (simp add: out_immut_def)
  then have s': "out_immut r' = out_immut r0" "og_id r' = og_id r" "og_transfer_id r' = og_transfer_id r0" "og_transfer_id r' = og_transfer_id r"
    using new(1) out_immut_sel [of r' r0] out_immut_sel [of r' r] by simp_all
  let ?rows = "upd_of og_id (og_id r) (\<lambda>_. r') (outgoings db)"
  have u: "uniq og_id (outgoings db)" "uniq og_transfer_id (outgoings db)" using ok by (simp_all add: outs_ok_def)
  have "map og_id ?rows = map og_id (outgoings db)" "map og_transfer_id ?rows = map og_transfer_id (outgoings db)"
    by (rule map_upd_const [OF u(1) row s'(2)], use s' row_of_Some [OF row] in simp)+
  then have uq: "uniq og_id ?rows" "uniq og_transfer_id ?rows" using u by (simp_all add: uniq_def)
  have t': "told U (event_ids db1) r'" using said told_cong [of r' r] c(3) s'(4) by simp
  have "out_stored r'" using out_stored_cong [OF s'(1)] c(2) new(2) st0 by simp
  then have rows: "out_stored x \<and> told U (event_ids db1) x" if "x \<in> set ?rows" for x
    using that ok t' told_mono [OF _ ob(2)] by (auto simp: set_upd_of outs_ok_def split: if_splits)
  have ids: "event_ids db' = event_ids db1" using db' by (simp add: event_ids_def)
  have "outs_ok U db'" using uq rows ids db' ob(1) by (simp add: outs_ok_def)
  moreover have "outs_le db db'"
    unfolding outs_le_def using row s' c(4) new(3) db' ob(1) by (auto simp: row_of_const)
  ultimately have "out_keeps U db db'" using ids ob db' by (simp add: out_keeps_def)
  moreover have "row_of og_id (og_id r) (outgoings db') = Some r'" using row s'(2) db' ob(1) by (simp add: row_of_const)
  ultimately show ?thesis using ids c(3) by auto
qed

lemma save_only:
  assumes "outs_ok U db" and "row_of og_id (og_id r) (outgoings db) = Some r0"
    and "out_immut r = out_immut r0" "og_nonce r = og_nonce r0" "og_attempts r0 \<le> og_attempts r"
    and "told U (event_ids db) r" and "save_outgoing \<Gamma> r db = Inr db'"
  shows "out_keeps U db db'"
  using save_keeps [OF assms(1-5), of db "c_outbox db"] assms(6,7) by simp

lemma emit_then_save:
  assumes ok: "outs_ok U db" and row: "row_of og_id (og_id r) (outgoings db) = Some r0"
    and new: "out_immut r = out_immut r0" "og_nonce r = og_nonce r0" "og_attempts r0 \<le> og_attempts r"
    and em: "emit \<Gamma>1 ty p k corr db = Inr db1" "uuid5 \<Gamma>1 = U" "k \<noteq> []"
    and said: "told U (insert (U (event_name ty k)) (event_ids db)) r" and save: "save_outgoing \<Gamma> r db1 = Inr db'"
  shows "out_keeps U db db'"
proof -
  obtain ob where ob: "db1 = db\<lparr>c_outbox := ob\<rparr>" "event_ids db1 = insert (U (event_name ty k)) (event_ids db)"
    "outbox_ok (c_outbox db) \<longrightarrow> outbox_ok ob" using emit_spec [OF em(1,3)] em(2) by blast
  show ?thesis using save_keeps [OF ok row new ob(1) _ ob(3) _ save] said ob(2) by auto
qed

lemma fail_keeps:
  assumes ok: "outs_ok U db" and row: "row_of og_id (og_id r) (outgoings db) = Some r0"
    and new: "out_immut r = out_immut r0" "og_nonce r = og_nonce r0" "og_attempts r0 \<le> og_attempts r"
    and U: "uuid5 \<Gamma> = U" and run: "fail_outgoing \<Gamma> r reason code corr db = Inr db'"
  shows "out_keeps U db db'"
proof -
  let ?r = "r\<lparr>og_status := TxFailed, og_failure_reason := Some reason\<rparr>" let ?k = "uuid_str (og_transfer_id r) @ '':'' @ code"
  from run obtain p db1 where em: "emit \<Gamma> TX_FAILED p ?k corr db = Inr db1" and sv: "save_outgoing \<Gamma> ?r db1 = Inr db'"
    by (auto simp: fail_outgoing_def Let_def bindr_eq_Inr)
  have "told U (insert (U (event_name TX_FAILED ?k)) (event_ids db)) ?r" by (auto simp: told_def tx_event_def)
  then show ?thesis
    by - (rule emit_then_save [OF ok _ _ _ _ em U _ _ sv, of r0], use row new in \<open>simp_all add: out_immut_def\<close>)
qed

section \<open>Every operation keeps it\<close>

lemma check_outgoing_fresh:
  assumes "check_outgoing r = Inr r'" and "og_nonce r = None"
  shows "out_stored r'"
  by (rule check_outgoingE [OF assms(1)]) (use assms(2) in \<open>auto simp: out_stored_def dest: varchar_length simp del: power_numeral\<close>)

lemma insert_outgoing_cases:
  assumes "insert_outgoing \<Gamma> tid network asset f t n corr db = Inr (db', got)"
  obtains "got = None" "db' = db\<lparr>c_draws := Suc (c_draws db)\<rparr>" "row_of og_transfer_id tid (outgoings db) \<noteq> None"
  | r where "got = Some r" "db' = db\<lparr>c_draws := Suc (c_draws db), outgoings := outgoings db @ [r]\<rparr>" "out_stored r" "og_status r = TxCreated"
      "og_transfer_id r = tid" "og_amount r = n" "og_attempts r = 0" "row_of og_transfer_id tid (outgoings db) = None" "row_of og_id (og_id r) (outgoings db) = None"
proof -
  from assms obtain r0 r where chk: "check_outgoing r0 = Inr r" and r0: "og_nonce r0 = None" "og_status r0 = TxCreated" "og_transfer_id r0 = tid"
      "og_amount r0 = n" "og_attempts r0 = 0"
    and run: "(if row_of og_transfer_id tid (outgoings db) \<noteq> None then Inr (db\<lparr>c_draws := Suc (c_draws db)\<rparr>, None)
       else if row_of og_id (og_id r) (outgoings db) \<noteq> None then Inl (IntegrityError ''outgoing_transactions_pkey'')
       else Inr (db\<lparr>c_draws := Suc (c_draws db), outgoings := outgoings db @ [r]\<rparr>, Some r)) = Inr (db', got)"
    unfolding insert_outgoing_def bindr_eq_Inr Let_def by (elim exE conjE) (rule that, assumption, simp_all)
  show thesis
  proof (cases "row_of og_transfer_id tid (outgoings db)")
    case None
    show thesis
      by (rule that(2) [of r]) (use run None r0 check_outgoing_keeps [OF chk] check_outgoing_fresh [OF chk] in \<open>auto split: if_splits\<close>)
  next
    case (Some x)
    show thesis by (rule that(1)) (use run Some in auto)
  qed
qed

lemma insert_keeps:
  assumes "outs_ok U db" and "insert_outgoing \<Gamma> tid network asset f t n corr db = Inr (db', got)"
  shows "out_keeps U db db' \<and> (\<forall>r. got = Some r \<longrightarrow> row_of og_id (og_id r) (outgoings db') = Some r)"
  using assms(2)
proof (cases rule: insert_outgoing_cases)
  case 1
  then show ?thesis using out_keeps_same [OF assms(1), of db'] by simp
next
  case (2 r)
  have "outs_ok U db'" using assms(1) 2 by (auto simp: outs_ok_def uniq_snoc event_ids_def told_def)
  then show ?thesis using 2 by (auto simp: out_keeps_def outs_le_def event_ids_def row_of_append)
qed

lemma out_keeps_trans: "\<lbrakk>out_keeps U a b; out_keeps U b c\<rbrakk> \<Longrightarrow> out_keeps U a c"
  unfolding out_keeps_def outs_le_def
  by (intro conjI allI impI; elim conjE) (blast, metis order_trans, blast+, simp_all)

lemma out_keepsD: "out_keeps U db db' \<Longrightarrow> outs_ok U db'"
  by (simp add: out_keeps_def)

text \<open>An accepted request is one insert, and a failure when the sender is not a custody address.\<close>

lemma accept_cases:
  assumes "accept_transfer_request \<Gamma> p corr db = Inr (db', out)"
  obtains v tid network asset f t n where "jreq p ''transfer_id'' = Inr v" "juuid v = Inr tid" "out = ''duplicate''"
      "insert_outgoing \<Gamma> tid network asset f t n (Some corr) db = Inr (db', None)"
  | v tid network asset f t n r where "jreq p ''transfer_id'' = Inr v" "juuid v = Inr tid" "out = ''processed''"
      "insert_outgoing \<Gamma> tid network asset f t n (Some corr) db = Inr (db', Some r)"
  | v tid network asset f t n r db1 where "jreq p ''transfer_id'' = Inr v" "juuid v = Inr tid" "out = ''processed''"
      "insert_outgoing \<Gamma> tid network asset f t n (Some corr) db = Inr (db1, Some r)"
      "fail_outgoing \<Gamma> r ''unknown sending address'' ''UNKNOWN_SENDING_ADDRESS'' (Some corr) db1 = Inr db'"
proof -
  from assms obtain v tid network asset f t n from_v db1 got where v: "jreq p ''transfer_id'' = Inr v" "juuid v = Inr tid"
    and ins: "insert_outgoing \<Gamma> tid network asset f t n (Some corr) db = Inr (db1, got)"
    and rest: "(case got of None \<Rightarrow> Inr (db1, ''duplicate'') | Some r \<Rightarrow>
           if (case jtext from_v of None \<Rightarrow> None | Some s \<Rightarrow> row_of ad_address s (addresses db)) = None
           then bindr (fail_outgoing \<Gamma> r ''unknown sending address'' ''UNKNOWN_SENDING_ADDRESS'' (Some corr) db1) (\<lambda>db2. Inr (db2, ''processed''))
           else Inr (db1, ''processed'')) = Inr (db', out)"
    unfolding accept_transfer_request_def bindr_eq_Inr by (elim exE conjE) (auto simp only: prod.case split_paired_all)
  show thesis
  proof (cases got)
    case None
    show thesis by (rule that(1) [OF v]) (use ins rest None in auto)
  next
    case (Some r)
    show thesis
    proof (cases "(case jtext from_v of None \<Rightarrow> None | Some s \<Rightarrow> row_of ad_address s (addresses db)) = None")
      case True
      show thesis by (rule that(3) [OF v]) (use ins rest Some True in \<open>auto simp: bindr_eq_Inr\<close>)
    next
      case False
      show thesis by (rule that(2) [OF v]) (use ins rest Some False in auto)
    qed
  qed
qed

lemma accept_keeps:
  assumes ok: "outs_ok U db" and U: "uuid5 \<Gamma> = U" and run: "accept_transfer_request \<Gamma> p corr db = Inr (db', out)"
  shows "out_keeps U db db'"
  using run
proof (cases rule: accept_cases)
  case 1
  then show ?thesis using insert_keeps [OF ok] by blast
next
  case 2
  then show ?thesis using insert_keeps [OF ok] by blast
next
  case (3 v tid network asset f t n r db1)
  have 1: "out_keeps U db db1" and row: "row_of og_id (og_id r) (outgoings db1) = Some r" using insert_keeps [OF ok 3(4)] by auto
  have "out_keeps U db1 db'" by (rule fail_keeps [OF out_keepsD [OF 1] row _ _ _ U 3(5)]) simp_all
  with 1 show ?thesis by (rule out_keeps_trans)
qed

lemma outs_map:
  assumes ok: "outs_ok U db" and f: "\<And>r. out_immut (f r) = out_immut r" "\<And>r. og_nonce (f r) = og_nonce r" "\<And>r. og_attempts r \<le> og_attempts (f r)"
    and s: "\<And>r. f r = r \<or> og_status (f r) = TxPending"
  shows "out_keeps U db (db\<lparr>outgoings := map f (outgoings db)\<rparr>)"
proof -
  note I = out_immut_sel [OF f(1)]
  have m: "og_id \<circ> f = og_id" "og_transfer_id \<circ> f = og_transfer_id" by (simp_all add: fun_eq_iff I)
  have row: "row_of og_id i (map f xs) = map_option f (row_of og_id i xs)" for xs i
    by (induction xs) (simp_all add: I)
  have "told U ids (f r)" if "told U ids r" for ids r
  proof (cases "f r = r")
    case False
    with s have "og_status (f r) = TxPending" by blast
    then show ?thesis by (simp add: told_def)
  qed (use that in simp)
  then show ?thesis using ok f(3) m row out_stored_cong [OF f(1,2)] f(1)
    unfolding out_keeps_def outs_ok_def outs_le_def event_ids_def uniq_def by auto
qed

lemma claim_keeps:
  assumes "outs_ok U db" and "claim_outgoing \<Gamma> limit lease locked db = Inr (db', rows)"
  shows "out_keeps U db db'"
proof -
  from assms(2) obtain ids where db': "db' = db\<lparr>outgoings := map (\<lambda>r. if og_id r \<in> ids then take_lease (now \<Gamma>) lease r else r) (outgoings db)\<rparr>"
    by (auto simp: claim_outgoing_def Let_def split: if_splits)
  show ?thesis unfolding db' by (rule outs_map [OF assms(1)]) (simp_all add: take_lease_def out_immut_def)
qed

lemma schedule_retry_keeps: "outs_ok U db \<Longrightarrow> out_keeps U db (schedule_retry \<Gamma> row reason db)"
  unfolding schedule_retry_def upd_of_def by (rule outs_map) (simp_all add: out_immut_def)

lemma record_failure_keeps:
  assumes ok: "outs_ok U db" and U: "uuid5 \<Gamma> = U" and run: "record_broadcast_failure \<Gamma> row reason code db = Inr (db', out)"
  shows "out_keeps U db db'"
proof (cases "db' = db")
  case True
  with ok show ?thesis by (simp add: out_keeps_same)
next
  case False
  with run obtain r where r: "row_of og_id (og_id row) (outgoings db) = Some r"
    and f: "fail_outgoing \<Gamma> (r\<lparr>og_next_attempt_at := None\<rparr>) (take 500 reason) code (og_correlation_id r) db = Inr db'"
    by (auto simp: record_broadcast_failure_def bindr_eq_Inr split: option.splits if_splits)
  show ?thesis by (rule fail_keeps [OF ok _ _ _ _ U f, of r]) (use r row_of_Some [OF r] in \<open>simp_all add: out_immut_def\<close>)
qed

lemma record_broadcast_keeps:
  assumes ok: "outs_ok U db" and U: "uuid5 \<Gamma> = U" and run: "record_broadcast \<Gamma> row h db = Inr (db', out)"
  shows "out_keeps U db db'"
proof (cases "db' = db")
  case True
  with ok show ?thesis by (simp add: out_keeps_same)
next
  case False
  from run False obtain r where r: "row_of og_id (og_id row) (outgoings db) = Some r"
    by (auto simp: record_broadcast_def split: option.splits)
  let ?r = "r\<lparr>og_tx_hash := Some h, og_status := TxBroadcasted, og_broadcast_at := Some (now \<Gamma>), og_failure_reason := None, og_next_attempt_at := None\<rparr>"
  let ?k = "uuid_str (og_transfer_id r) @ '':'' @ h @ '':broadcast''"
  from run False r obtain p db1 where em: "emit \<Gamma> TX_BROADCASTED p ?k (og_correlation_id row) db = Inr db1" and sv: "save_outgoing \<Gamma> ?r db1 = Inr db'"
    by (auto simp: record_broadcast_def Let_def bindr_eq_Inr split: if_splits)
  have "told U (insert (U (event_name TX_BROADCASTED ?k)) (event_ids db)) ?r" by (auto simp: told_def tx_event_def)
  then show ?thesis
    by - (rule emit_then_save [OF ok _ _ _ _ em U _ _ sv, of r], use r row_of_Some [OF r] in \<open>simp_all add: out_immut_def\<close>)
qed

lemma broadcast_outcome_keeps:
  assumes ok: "outs_ok U db" and U: "uuid5 \<Gamma> = U" and run: "broadcast_outcome S describe \<Gamma> row sent db = Inr (db', out)"
  shows "out_keeps U db db'"
proof -
  have U': "uuid5 (correlation_scope (og_correlation_id row) \<Gamma>) = U" using U by simp
  show ?thesis using run record_failure_keeps [OF ok U'] record_broadcast_keeps [OF ok U'] schedule_retry_keeps [OF ok]
    by (auto simp: broadcast_outcome_def Let_def split: sum.splits exn.splits if_splits)
qed

lemma mark_outgoing_reorged_keeps:
  assumes ok: "outs_ok U db" and U: "uuid5 \<Gamma> = U" and r: "row_of og_id (og_id r) (outgoings db) = Some r"
    and run: "mark_outgoing_reorged \<Gamma> r db = Inr (db', out)"
  shows "out_keeps U db db'"
proof -
  let ?s = "''CHAIN_REORG:'' @ (case og_block_hash r of None \<Rightarrow> ''None'' | Some h \<Rightarrow> h)"
  let ?k = "uuid_str (og_transfer_id r) @ '':'' @ ?s"
  from run obtain p reason db1 where em: "emit \<Gamma> TX_FAILED p ?k (og_correlation_id r) db = Inr db1"
    and sv: "save_outgoing \<Gamma> (r\<lparr>og_status := TxReorged, og_failure_reason := Some reason\<rparr>) db1 = Inr db'"
    by (auto simp: mark_outgoing_reorged_def Let_def bindr_eq_Inr)
  have "told U (insert (U (event_name TX_FAILED ?k)) (event_ids db)) (r\<lparr>og_status := TxReorged, og_failure_reason := Some reason\<rparr>)"
    unfolding told_def by (simp add: tx_event_def) blast
  then show ?thesis by - (rule emit_then_save [OF ok _ _ _ _ em U _ _ sv, of r], use r in \<open>simp_all add: out_immut_def\<close>)
qed

lemma handle_stuck_keeps:
  assumes ok: "outs_ok U db" and U: "uuid5 \<Gamma> = U" and r: "row_of og_id (og_id r) (outgoings db) = Some r"
    and run: "handle_stuck S \<Gamma> r b att db = Inr (db', out)"
  shows "out_keeps U db db'"
proof -
  let ?r = "r\<lparr>og_status := TxPending, og_next_attempt_at := Some (now \<Gamma>)\<rparr>"
  from run consider "db' = db" | "save_outgoing \<Gamma> ?r db = Inr db'"
    | reason where "fail_outgoing \<Gamma> r reason ''STUCK_PENDING'' (og_correlation_id r) db = Inr db'"
    by (auto simp: handle_stuck_def Let_def bindr_eq_Inr split: option.splits if_splits)
  then show ?thesis
  proof cases
    case 1
    with ok show ?thesis by (simp add: out_keeps_same)
  next
    case 2
    show ?thesis by (rule save_only [OF ok _ _ _ _ _ 2, of r]) (use r in \<open>simp_all add: out_immut_def told_def\<close>)
  next
    case 3
    show ?thesis by (rule fail_keeps [OF ok r _ _ _ U 3]) simp_all
  qed
qed

lemma check_apply_keeps:
  assumes ok: "outs_ok U db" and U: "uuid5 \<Gamma> = U" and r: "row_of og_id (og_id r) (outgoings db) = Some r"
    and run: "check_apply S \<Gamma> head h receipt r0 r db = Inr (db', out)"
  shows "out_keeps U db db'"
proof -
  let ?\<Gamma> = "correlation_scope (og_correlation_id r) \<Gamma>"
  have U': "uuid5 ?\<Gamma> = U" using U by simp
  show ?thesis
  proof (cases receipt)
    case None
    with run show ?thesis using mark_outgoing_reorged_keeps [OF ok U' r] handle_stuck_keeps [OF ok U' r]
      by (auto simp: check_apply_def Let_def split: if_splits)
  next
    case (Some rc)
    let ?r1 = "r\<lparr>og_block_number := Some (rc_block_number rc), og_block_hash := Some (rc_block_hash rc),
       og_confirmations := max 0 (head - rc_block_number rc + 1)\<rparr>"
    let ?r2 = "?r1\<lparr>og_status := TxConfirmed\<rparr>" and ?k = "uuid_str (og_transfer_id r) @ '':'' @ h @ '':confirmed''"
    from run Some consider "save_outgoing ?\<Gamma> ?r1 db = Inr db'"
      | reason code where "fail_outgoing ?\<Gamma> ?r1 reason code (og_correlation_id r) db = Inr db'"
      | p db1 where "emit ?\<Gamma> TX_CONFIRMED p ?k (og_correlation_id r) db = Inr db1" "save_outgoing ?\<Gamma> ?r2 db1 = Inr db'"
      by (auto simp: check_apply_def Let_def bindr_eq_Inr split: if_splits)
    then show ?thesis
    proof cases
      case 1
      have "told U (event_ids db) ?r1" using outs_ok_row [OF ok r] told_cong [of ?r1 r] by simp
      then show ?thesis by - (rule save_only [OF ok _ _ _ _ _ 1, of r], use r in \<open>simp_all add: out_immut_def\<close>)
    next
      case 2
      show ?thesis by (rule fail_keeps [OF ok _ _ _ _ U' 2, of r]) (use r in \<open>simp_all add: out_immut_def\<close>)
    next
      case 3
      have "told U (insert (U (event_name TX_CONFIRMED ?k)) (event_ids db)) ?r2" by (auto simp: told_def tx_event_def)
      then show ?thesis by - (rule emit_then_save [OF ok _ _ _ _ 3(1) U' _ _ 3(2), of r], use r in \<open>simp_all add: out_immut_def\<close>)
    qed
  qed
qed

lemma check_one_keeps:
  assumes ok: "outs_ok U db" and U: "uuid5 \<Gamma> = U" and run: "check_one S A c \<Gamma> head i db0 db = Inr (db', out)"
  shows "out_keeps U db db'"
proof (cases "db' = db")
  case True
  with ok show ?thesis by (simp add: out_keeps_same)
next
  case False
  with run obtain h receipt r0 r where r: "row_of og_id i (outgoings db) = Some r" and ap: "check_apply S \<Gamma> head h receipt r0 r db = Inr (db', out)"
    by (auto simp: check_one_def bindr_eq_Inr split: option.splits if_splits)
  have "row_of og_id (og_id r) (outgoings db) = Some r" using r row_of_Some [OF r] by simp
  from check_apply_keeps [OF ok U this ap] show ?thesis .
qed

end
