(* ===== verification/ChainDispatch.thy ===== *)
theory ChainDispatch
  imports OutgoingTracking Dedup
begin

text \<open>
  \<open>blockchain_service/consumers/dispatcher.py\<close>: the idempotent dispatcher of the blockchain
  service. It provides the same contract as the wallet's dispatcher, so what the consumer
  runtime gets from one it gets from the other.
\<close>

definition CHAIN_CONSUMER_NAME :: string where "CHAIN_CONSUMER_NAME = ''blockchain-service''"

definition CHAIN_SUBSCRIBED_EVENTS :: "string list" where "CHAIN_SUBSCRIBED_EVENTS = [TRANSFER_REQUESTED]"

definition chain_dispatch :: "env \<Rightarrow> envelope \<Rightarrow> cdb \<Rightarrow> (cdb \<times> string) result" where
  "chain_dispatch \<Gamma> ev db =
     (let \<Gamma>' = correlation_scope (Some (e_correlation_id ev)) \<Gamma> in
      case uuid_of_string (event_id ev) of
        None \<Rightarrow> Inl (ValueError ''badly formed hexadecimal UUID string'')
      | Some u \<Rightarrow>
          bindr (varchar 64 ''processed_events.event_type'' (event_type ev)) (\<lambda>ty.
            if row_of cp_key (CHAIN_CONSUMER_NAME, u) (c_processed db) \<noteq> None then Inr (db, ''duplicate'')
            else
              let db1 = db\<lparr>c_processed := c_processed db @
                    [\<lparr>cp_consumer = CHAIN_CONSUMER_NAME, cp_event_id = u, cp_event_type = ty, cp_processed_at = now \<Gamma>\<rparr>]\<rparr> in
              if event_type ev = TRANSFER_REQUESTED then accept_transfer_request \<Gamma>' (e_payload ev) (e_correlation_id ev) db1
              else Inr (db1, ''ignored'')))"

definition record_chain_dead_letter :: "env \<Rightarrow> dead_letter_item \<Rightarrow> cdb \<Rightarrow> (cdb \<times> unit) result" where
  "record_chain_dead_letter \<Gamma> item db =
     (let ev = dl_envelope item; i = uuid4 \<Gamma> (c_draws db) in
      case uuid_of_string (event_id ev) of
        None \<Rightarrow> Inl (ValueError ''badly formed hexadecimal UUID string'')
      | Some u \<Rightarrow>
          bindr (varchar 64 ''dead_letters.event_type'' (event_type ev)) (\<lambda>ty.
          bindr (int4 ''dead_letters.delivery_count'' (int (dl_delivery_count item))) (\<lambda>n.
            if row_of cd_id i (c_dead_rows db) \<noteq> None then Inl (IntegrityError ''dead_letters_pkey'')
            else Inr (db\<lparr>c_dead_rows := c_dead_rows db @
                   [\<lparr>cd_id = i, cd_consumer = CHAIN_CONSUMER_NAME, cd_event_id = u, cd_event_type = ty, cd_envelope = ev,
                     cd_delivery_count = n, cd_error = dl_error item, cd_created_at = now \<Gamma>\<rparr>],
                   c_draws := Suc (c_draws db)\<rparr>, ()))))"

section \<open>The contract\<close>

definition chain_seen :: "cdb \<Rightarrow> uuid set" where
  "chain_seen db = {u. row_of cp_key (CHAIN_CONSUMER_NAME, u) (c_processed db) \<noteq> None}"

lemma emit_processed: "emit \<Gamma> ty p k corr db = Inr db' \<Longrightarrow> c_processed db' = c_processed db"
  by (auto simp: emit_def bindr_eq_Inr)

lemma save_outgoing_processed: "save_outgoing \<Gamma> r db = Inr db' \<Longrightarrow> c_processed db' = c_processed db"
  by (auto simp: save_outgoing_def bindr_eq_Inr split: if_splits)

lemma fail_outgoing_processed: "fail_outgoing \<Gamma> r reason code corr db = Inr db' \<Longrightarrow> c_processed db' = c_processed db"
  by (auto simp: fail_outgoing_def bindr_eq_Inr Let_def dest!: emit_processed save_outgoing_processed)

lemma insert_outgoing_processed:
  assumes "insert_outgoing \<Gamma> tid network asset f t n corr db = Inr (db', got)"
  shows "c_processed db' = c_processed db"
  using assms by (cases rule: insert_outgoing_cases) simp_all

lemma accept_processed:
  assumes "accept_transfer_request \<Gamma> p corr db = Inr (db', out)"
  shows "c_processed db' = c_processed db"
  using assms by (cases rule: accept_cases) (auto dest!: fail_outgoing_processed insert_outgoing_processed)

lemma chain_dispatch_cases:
  assumes "chain_dispatch \<Gamma> ev db = Inr (db', out)"
  obtains (dup) u where "uuid_of_string (event_id ev) = Some u" "u \<in> chain_seen db" "db' = db" "out = ''duplicate''"
  | (new) u p where "uuid_of_string (event_id ev) = Some u" "u \<notin> chain_seen db" "cp_key p = (CHAIN_CONSUMER_NAME, u)"
      "(if event_type ev = TRANSFER_REQUESTED
        then accept_transfer_request (correlation_scope (Some (e_correlation_id ev)) \<Gamma>) (e_payload ev) (e_correlation_id ev)
               (db\<lparr>c_processed := c_processed db @ [p]\<rparr>)
        else Inr (db\<lparr>c_processed := c_processed db @ [p]\<rparr>, ''ignored'')) = Inr (db', out)"
proof -
  from assms obtain u ty where u: "uuid_of_string (event_id ev) = Some u"
    and ty: "varchar 64 ''processed_events.event_type'' (event_type ev) = Inr ty"
    by (auto simp: chain_dispatch_def bindr_eq_Inr split: option.splits)
  let ?p = "\<lparr>cp_consumer = CHAIN_CONSUMER_NAME, cp_event_id = u, cp_event_type = ty, cp_processed_at = now \<Gamma>\<rparr>"
  show thesis
  proof (cases "u \<in> chain_seen db")
    case True
    show thesis by (rule dup [OF u True]) (use assms u ty True in \<open>auto simp: chain_dispatch_def chain_seen_def\<close>)
  next
    case False
    show thesis by (rule new [OF u False, of ?p]) (use assms u ty False in \<open>simp_all add: chain_dispatch_def chain_seen_def cp_key_def Let_def\<close>)
  qed
qed

lemma chain_dispatch_marks:
  assumes "chain_dispatch \<Gamma> ev db = Inr (db', out)"
  shows "\<exists>u. uuid_of_string (event_id ev) = Some u \<and> chain_seen db' = insert u (chain_seen db)"
    and "uniq cp_key (c_processed db) \<Longrightarrow> uniq cp_key (c_processed db')"
proof -
  have "(\<exists>u. uuid_of_string (event_id ev) = Some u \<and> chain_seen db' = insert u (chain_seen db)) \<and>
    (uniq cp_key (c_processed db) \<longrightarrow> uniq cp_key (c_processed db'))"
    using assms
  proof (cases rule: chain_dispatch_cases)
    case (dup u)
    then show ?thesis by (auto simp: insert_absorb)
  next
    case (new u p)
    then have "c_processed db' = c_processed db @ [p]" by (auto dest: accept_processed split: if_splits)
    then show ?thesis using new(1-3)
      by (intro conjI exI [of _ u]) (auto simp: chain_seen_def row_of_append uniq_snoc split: option.splits)
  qed
  then show "\<exists>u. uuid_of_string (event_id ev) = Some u \<and> chain_seen db' = insert u (chain_seen db)"
    and "uniq cp_key (c_processed db) \<Longrightarrow> uniq cp_key (c_processed db')" by blast+
qed

interpretation chain_dedup: dedup_consumer chain_dispatch chain_seen "\<lambda>db. uniq cp_key (c_processed db)"
proof
  show "chain_dispatch e ev s = Inr (s, ''duplicate'')"
    if "uuid_of_string (event_id ev) = Some u" "u \<in> chain_seen s" "length (event_type ev) \<le> 64" for ev u s and e :: env
    using that by (simp add: chain_dispatch_def chain_seen_def)
qed (auto intro: chain_dispatch_marks)

section \<open>Requests\<close>

text \<open>
  A request names its transfer, and a second row for a transfer is never inserted: a new
  event with a known transfer id is handled and leaves the outgoing transactions alone.
\<close>

lemma accept_known:
  assumes "accept_transfer_request \<Gamma> p corr db = Inr (db', out)"
    and "jreq p ''transfer_id'' = Inr v" "juuid v = Inr tid" "row_of og_transfer_id tid (outgoings db) \<noteq> None"
  shows "out = ''duplicate'' \<and> outgoings db' = outgoings db \<and> c_outbox db' = c_outbox db"
  using assms(1)
proof (cases rule: accept_cases)
  case 1
  then show ?thesis using assms(2-4) by (auto elim: insert_outgoing_cases)
qed (use assms(2-4) in \<open>auto elim: insert_outgoing_cases\<close>)

end
