(* ===== verification/ChainService.thy ===== *)
theory ChainService
  imports ChainDispatch
begin

text \<open>
  The blockchain service as a whole: every transaction that any of its processes commits is a
  step, in any order, with any answer of the chain and any stale snapshot a worker may hold.
\<close>

section \<open>The invariant of deposits\<close>

definition dep_immut :: "deposit \<Rightarrow> uuid \<times> string \<times> string \<times> string \<times> int \<times> string \<times> int" where
  "dep_immut d = (d_id d, d_network d, d_asset d, d_tx_hash d, d_log_index d, d_to_address d, d_amount d)"

definition dep_stored :: "deposit \<Rightarrow> bool" where
  "dep_stored d = (length (d_network d) \<le> 32 \<and> length (d_asset d) \<le> 16 \<and> length (d_tx_hash d) \<le> 80 \<and> length (d_to_address d) \<le> 64 \<and>
     0 < d_amount d \<and> d_amount d < 10 ^ 78)"

definition dep_told :: "(string \<Rightarrow> uuid) \<Rightarrow> uuid set \<Rightarrow> deposit \<Rightarrow> bool" where
  "dep_told U ids d = (case d_status d of
     DepConfirmed \<Rightarrow> \<exists>h. U (event_name DEPOSIT_CONFIRMED (deposit_event_key d h)) \<in> ids
   | DepReorged \<Rightarrow> \<exists>h. U (event_name DEPOSIT_REORGED (deposit_event_key d h @ '':reorg'')) \<in> ids
   | DepDetected \<Rightarrow> True)"

definition deps_ok :: "(string \<Rightarrow> uuid) \<Rightarrow> cdb \<Rightarrow> bool" where
  "deps_ok U db = (uniq d_id (deposits db) \<and> uniq deposit_key (deposits db) \<and>
     (\<forall>d\<in>set (deposits db). dep_stored d \<and> dep_told U (event_ids db) d))"

definition deps_le :: "cdb \<Rightarrow> cdb \<Rightarrow> bool" where
  "deps_le db db' = (\<forall>i d. row_of d_id i (deposits db) = Some d \<longrightarrow>
     (\<exists>d'. row_of d_id i (deposits db') = Some d' \<and> dep_immut d' = dep_immut d))"

definition deps_keeps :: "(string \<Rightarrow> uuid) \<Rightarrow> cdb \<Rightarrow> cdb \<Rightarrow> bool" where
  "deps_keeps U db db' = (deps_ok U db' \<and> deps_le db db' \<and> event_ids db \<subseteq> event_ids db' \<and>
     (outbox_ok (c_outbox db) \<longrightarrow> outbox_ok (c_outbox db')) \<and> outgoings db' = outgoings db \<and> c_processed db' = c_processed db)"

lemma dep_immut_sel:
  assumes "dep_immut d' = dep_immut d"
  shows "d_id d' = d_id d" "deposit_key d' = deposit_key d" "deposit_event_key d' = deposit_event_key d" "dep_stored d' = dep_stored d"
  using assms by (simp_all add: dep_immut_def deposit_key_def deposit_event_key_def dep_stored_def fun_eq_iff)

lemma dep_told_mono: "\<lbrakk>dep_told U ids d; ids \<subseteq> ids'\<rbrakk> \<Longrightarrow> dep_told U ids' d"
  by (auto simp: dep_told_def split: deposit_status.splits)

lemma dep_told_cong: "\<lbrakk>d_status d' = d_status d; dep_immut d' = dep_immut d\<rbrakk> \<Longrightarrow> dep_told U ids d' = dep_told U ids d"
  by (drule dep_immut_sel(3)) (cases "d_status d"; simp add: dep_told_def)

lemma deps_keeps_same:
  "\<lbrakk>deps_ok U db; deposits db' = deposits db; c_outbox db' = c_outbox db; outgoings db' = outgoings db; c_processed db' = c_processed db\<rbrakk> \<Longrightarrow> deps_keeps U db db'"
  by (simp add: deps_keeps_def deps_ok_def deps_le_def event_ids_def)

lemma deps_keeps_trans: "\<lbrakk>deps_keeps U a b; deps_keeps U b c\<rbrakk> \<Longrightarrow> deps_keeps U a c"
  unfolding deps_keeps_def deps_le_def by (intro conjI allI impI; elim conjE) (blast, metis, blast+, simp_all)

lemma check_deposit_stored:
  assumes "check_deposit d = Inr d'"
  shows "dep_stored d'" and "dep_stored d \<Longrightarrow> dep_immut d' = dep_immut d"
  by (rule check_depositE [OF assms], auto simp: dep_stored_def dep_immut_def dest: varchar_length simp del: power_numeral)+

lemma dep_save_keeps:
  assumes ok: "deps_ok U db" and row: "row_of d_id (d_id d) (deposits db) = Some d0" and new: "dep_immut d = dep_immut d0"
    and ob: "db1 = db\<lparr>c_outbox := ob\<rparr>" "event_ids db \<subseteq> event_ids db1" "outbox_ok (c_outbox db) \<longrightarrow> outbox_ok ob"
    and said: "dep_told U (event_ids db1) d" and save: "save_deposit d db1 = Inr db'"
  shows "deps_keeps U db db'"
proof -
  from save obtain d' where chk: "check_deposit d = Inr d'" and db': "db' = db1\<lparr>deposits := upd_of d_id (d_id d) (\<lambda>_. d') (deposits db1)\<rparr>"
    by (auto simp: save_deposit_def bindr_eq_Inr)
  have st0: "dep_stored d0" using row_of_Some [OF row] ok by (simp add: deps_ok_def)
  have im: "dep_immut d' = dep_immut d" using check_deposit_stored(2) [OF chk] dep_immut_sel(4) [OF new] st0 by simp
  then have im0: "dep_immut d' = dep_immut d0" using new by simp
  note I = dep_immut_sel [OF im] note I0 = dep_immut_sel [OF im0]
  let ?rows = "upd_of d_id (d_id d) (\<lambda>_. d') (deposits db)"
  have u: "uniq d_id (deposits db)" "uniq deposit_key (deposits db)" using ok by (simp_all add: deps_ok_def)
  have "map d_id ?rows = map d_id (deposits db)" "map deposit_key ?rows = map deposit_key (deposits db)"
    by (rule map_upd_const [OF u(1) row I(1)], use I0 in simp)+
  then have uq: "uniq d_id ?rows" "uniq deposit_key ?rows" using u by (simp_all add: uniq_def)
  have "dep_told U (event_ids db1) d'" using said dep_told_cong [OF _ im] check_deposit_keeps(3) [OF chk] by simp
  then have rows: "dep_stored x \<and> dep_told U (event_ids db1) x" if "x \<in> set ?rows" for x
    using that ok check_deposit_stored(1) [OF chk] dep_told_mono [OF _ ob(2)] by (auto simp: set_upd_of deps_ok_def split: if_splits)
  have ids: "event_ids db' = event_ids db1" using db' by (simp add: event_ids_def)
  have "deps_ok U db'" using uq rows ids db' ob(1) by (simp add: deps_ok_def)
  moreover have "deps_le db db'" unfolding deps_le_def using row I(1) im0 db' ob(1) by (auto simp: row_of_const)
  ultimately show ?thesis using ids ob db' by (simp add: deps_keeps_def)
qed

lemma dep_emit_save:
  assumes ok: "deps_ok U db" and row: "row_of d_id (d_id d) (deposits db) = Some d0" and new: "dep_immut d = dep_immut d0"
    and em: "emit \<Gamma> ty p k corr db = Inr db1" "uuid5 \<Gamma> = U" "k \<noteq> []"
    and said: "dep_told U (insert (U (event_name ty k)) (event_ids db)) d" and save: "save_deposit d db1 = Inr db'"
  shows "deps_keeps U db db'"
proof -
  obtain ob where ob: "db1 = db\<lparr>c_outbox := ob\<rparr>" "event_ids db1 = insert (U (event_name ty k)) (event_ids db)"
    "outbox_ok (c_outbox db) \<longrightarrow> outbox_ok ob" using emit_spec [OF em(1,3)] em(2) by blast
  show ?thesis by (rule dep_save_keeps [OF ok row new ob(1) _ ob(3) _ save]) (use said ob(2) in auto)
qed

lemma reverify_apply_keeps:
  assumes ok: "deps_ok U db" and U: "uuid5 \<Gamma> = U" and row: "row_of d_id (d_id d) (deposits db) = Some d"
    and run: "reverify_apply \<Gamma> head n found d db = Inr (db', out)"
  shows "deps_keeps U db db'"
proof -
  let ?corr = "deposit_cid (d_tx_hash d)" let ?\<Gamma> = "correlation_scope (Some ?corr) \<Gamma>"
  have U': "uuid5 ?\<Gamma> = U" using U by simp
  show ?thesis
  proof (cases found)
    case None
    let ?d = "d\<lparr>d_status := DepReorged, d_reorged_at := Some (now \<Gamma>)\<rparr>" and ?k = "deposit_event_key d (d_block_hash d) @ '':reorg''"
    have k: "deposit_event_key ?d = deposit_event_key d" by (simp add: deposit_event_key_def fun_eq_iff)
    from run None k obtain p db1 where em: "emit ?\<Gamma> DEPOSIT_REORGED p ?k (Some ?corr) db = Inr db1" and sv: "save_deposit ?d db1 = Inr db'"
      by (auto simp: reverify_apply_def mark_deposit_reorged_def Let_def bindr_eq_Inr)
    have "dep_told U (insert (U (event_name DEPOSIT_REORGED ?k)) (event_ids db)) ?d" using k by (auto simp: dep_told_def)
    then show ?thesis by - (rule dep_emit_save [OF ok _ _ em U' _ _ sv, of d], use row in \<open>simp_all add: dep_immut_def\<close>)
  next
    case (Some bh)
    obtain block hash where bh: "bh = (block, hash)" by fastforce
    let ?d1 = "d\<lparr>d_block_number := block, d_block_hash := hash, d_confirmations := max 0 (head - block + 1)\<rparr>"
    let ?d2 = "?d1\<lparr>d_status := DepConfirmed, d_confirmed_at := Some (now \<Gamma>)\<rparr>"
    have k: "deposit_event_key ?d2 = deposit_event_key d" by (simp add: deposit_event_key_def fun_eq_iff)
    from run Some bh k consider "save_deposit ?d1 db = Inr db'"
      | p db1 where "emit ?\<Gamma> DEPOSIT_CONFIRMED p (deposit_event_key d hash) (Some ?corr) db = Inr db1" "save_deposit ?d2 db1 = Inr db'"
      by (auto simp: reverify_apply_def Let_def bindr_eq_Inr split: if_splits)
    then show ?thesis
    proof cases
      case 1
      have im: "dep_immut ?d1 = dep_immut d" by (simp add: dep_immut_def)
      have "dep_told U (event_ids db) ?d1" using dep_told_cong [OF _ im] ok row_of_Some [OF row] by (simp add: deps_ok_def)
      then show ?thesis by - (rule dep_save_keeps [where ob = "c_outbox db", OF ok _ im _ _ _ _ 1], use row in simp_all)
    next
      case 2
      have "dep_told U (insert (U (event_name DEPOSIT_CONFIRMED (deposit_event_key d hash))) (event_ids db)) ?d2" using k by (auto simp: dep_told_def)
      then show ?thesis
        by - (rule dep_emit_save [OF ok _ _ 2(1) U' deposit_key_nonempty _ 2(2), of d], use row in \<open>simp_all add: dep_immut_def\<close>)
    qed
  qed
qed

lemma reverify_keeps:
  assumes ok: "deps_ok U db" and U: "uuid5 \<Gamma> = U" and run: "reverify S A c1 c2 \<Gamma> head i db0 db = Inr (db', out)"
  shows "deps_keeps U db db'"
proof (cases "db' = db")
  case True
  with ok show ?thesis by (simp add: deps_keeps_same)
next
  case False
  with run obtain found d where d: "row_of d_id i (deposits db) = Some d"
    and ap: "reverify_apply \<Gamma> head (confirmations_required S) found d db = Inr (db', out)"
    by (auto simp: reverify_def bindr_eq_Inr split: option.splits)
  have "row_of d_id (d_id d) (deposits db) = Some d" using d row_of_Some [OF d] by simp
  from reverify_apply_keeps [OF ok U this ap] show ?thesis .
qed

lemma revive_immut [simp]: "dep_immut (revive n d) = dep_immut d"
  by (simp add: dep_immut_def revive_def)

lemma upsert_row_keeps:
  assumes ok: "deps_ok U db" and run: "upsert_row \<Gamma> e db = Inr (db', got)"
  shows "deps_keeps U db db'"
  using run
proof (cases rule: upsert_row_cases)
  case 1
  then show ?thesis using ok by (simp add: deps_keeps_same)
next
  case (2 n m)
  have chk: "check_deposit (new_deposit sample_env 0 e) = Inr n" using 2(1) by (simp add: log_row_def)
  have "d_status m = DepDetected" "dep_stored m" "deposit_key m = deposit_key n"
    using 2(2) check_deposit_keeps(3) [OF chk] check_deposit_stored(1) [OF chk] by (simp_all add: new_deposit_def dep_stored_def)
  then have "deps_ok U db'" using ok 2(4-6) by (auto simp: deps_ok_def uniq_snoc event_ids_def dep_told_def)
  then show ?thesis using 2(6) by (auto simp: deps_keeps_def deps_le_def event_ids_def row_of_append)
next
  case (3 n m d)
  let ?f = "revive m"
  have u: "uniq d_id (upd_of deposit_key (deposit_key n) ?f (deposits db))" "uniq deposit_key (upd_of deposit_key (deposit_key n) ?f (deposits db))"
    using ok by (simp_all add: deps_ok_def uniq_upd)
  have "dep_stored (?f d)" if "dep_stored d" for d using that dep_immut_sel(4) [OF revive_immut] by simp
  moreover have "dep_told U ids (?f d)" for ids d by (simp add: dep_told_def)
  ultimately have "deps_ok U db'" using ok 3(5) u by (auto simp: deps_ok_def set_upd_of event_ids_def)
  moreover have "row_of d_id i (upd_of deposit_key k ?f rows) = map_option (\<lambda>d. if deposit_key d = k then ?f d else d) (row_of d_id i rows)" for i k rows
    by (induction rows) auto
  ultimately show ?thesis using 3(5) by (auto simp: deps_keeps_def deps_le_def event_ids_def)
qed

lemma emit_keeps:
  assumes ok: "deps_ok U db" and em: "emit \<Gamma> ty p k corr db = Inr db'" and k: "k \<noteq> []"
  shows "deps_keeps U db db'"
proof -
  obtain ob where "db' = db\<lparr>c_outbox := ob\<rparr>" "event_ids db \<subseteq> event_ids db'" "outbox_ok (c_outbox db) \<longrightarrow> outbox_ok ob"
    using emit_spec [OF em k] by blast
  then show ?thesis using ok dep_told_mono by (auto simp: deps_keeps_def deps_ok_def deps_le_def)
qed

lemma upsert_all_keeps:
  assumes "deps_ok U db" and "upsert_all \<Gamma> es db = Inr (db', n)"
  shows "deps_keeps U db db'"
  using assms
proof (induction es arbitrary: db n)
  case Nil
  then show ?case by (simp add: deps_keeps_same)
next
  case (Cons e es)
  from Cons.prems(2) obtain db1 hit m where one: "upsert_deposit \<Gamma> e db = Inr (db1, hit)" and rest: "upsert_all \<Gamma> es db1 = Inr (db', m)"
    by (auto simp: bindr_eq_Inr)
  have 1: "deps_keeps U db db1" using one
  proof (cases rule: upsert_deposit_cases)
    case 1
    then show ?thesis using upsert_row_keeps [OF Cons.prems(1)] by blast
  next
    case (2 db0 d p)
    have 0: "deps_keeps U db db0" using upsert_row_keeps [OF Cons.prems(1) 2(1)] .
    then have "deps_ok U db0" by (simp add: deps_keeps_def)
    from emit_keeps [OF this 2(4)] 0 show ?thesis by (auto intro: deps_keeps_trans)
  qed
  then have "deps_ok U db1" by (simp add: deps_keeps_def)
  from Cons.IH [OF this rest] 1 show ?case by (rule deps_keeps_trans [rotated])
qed

lemma scanner_keeps:
  assumes ok: "deps_ok U db" and run: "scanner_run_once S A C \<Gamma> db0 db1 db = Inr (db', rep)"
  shows "deps_keeps U db db'"
proof (cases "db' = db")
  case True
  with ok show ?thesis by (simp add: deps_keeps_same)
next
  case False
  from run False obtain es db2 n to_block tip where up: "upsert_all \<Gamma> es db = Inr (db2, n)" and cu: "set_cursor \<Gamma> (cs_network S) to_block tip db2 = Inr db'"
    unfolding scanner_run_once_def Let_def bindr_eq_Inr by (auto simp: bindr_eq_Inr split: if_splits)
  have 1: "deps_keeps U db db2" by (rule upsert_all_keeps [OF ok up])
  from cu have "deps_keeps U db2 db'" using 1 by (intro deps_keeps_same) (auto simp: deps_keeps_def set_cursor_def bindr_eq_Inr)
  with 1 show ?thesis by (rule deps_keeps_trans)
qed

section \<open>Steps of the service\<close>

inductive chain_step :: "(string \<Rightarrow> uuid) \<Rightarrow> chain_settings \<Rightarrow> 'c chain_adapter \<Rightarrow> cdb \<Rightarrow> cdb \<Rightarrow> bool"
  for U :: "string \<Rightarrow> uuid" and S :: chain_settings and A :: "'c chain_adapter" where
  address: "get_or_create_address ks accounts \<Gamma> owner_ref network db = Inr (db', a, created) \<Longrightarrow> chain_step U S A db db'"
| event: "\<lbrakk>uuid5 \<Gamma> = U; chain_dispatch \<Gamma> ev db = Inr (db', out)\<rbrakk> \<Longrightarrow> chain_step U S A db db'"
| dead: "record_chain_dead_letter \<Gamma> item db = Inr (db', ()) \<Longrightarrow> chain_step U S A db db'"
| relay: "relay_run_once pub bs mb locked t (b :: bus) (c_outbox db) = (b', ob', n) \<Longrightarrow> chain_step U S A db (db\<lparr>c_outbox := ob'\<rparr>)"
| scan: "\<lbrakk>uuid5 \<Gamma> = U; scanner_run_once S A C \<Gamma> db0 db1 db = Inr (db', rep)\<rbrakk> \<Longrightarrow> chain_step U S A db db'"
| deposit: "\<lbrakk>uuid5 \<Gamma> = U; reverify S A c1 c2 \<Gamma> head i db0 db = Inr (db', out)\<rbrakk> \<Longrightarrow> chain_step U S A db db'"
| claim: "claim_outgoing \<Gamma> limit lease locked db = Inr (db', rows) \<Longrightarrow> chain_step U S A db db'"
| sent: "\<lbrakk>uuid5 \<Gamma> = U; broadcast_outcome S describe \<Gamma> row answer db = Inr (db', out)\<rbrakk> \<Longrightarrow> chain_step U S A db db'"
| watched: "\<lbrakk>uuid5 \<Gamma> = U; check_one S A c \<Gamma> head i db0 db = Inr (db', out)\<rbrakk> \<Longrightarrow> chain_step U S A db db'"

abbreviation chain_steps :: "(string \<Rightarrow> uuid) \<Rightarrow> chain_settings \<Rightarrow> 'c chain_adapter \<Rightarrow> cdb \<Rightarrow> cdb \<Rightarrow> bool" where
  "chain_steps U S A \<equiv> (chain_step U S A)\<^sup>*\<^sup>*"

definition chaindb_ok :: "(string \<Rightarrow> uuid) \<Rightarrow> cdb \<Rightarrow> bool" where
  "chaindb_ok U db = (outs_ok U db \<and> deps_ok U db \<and> outbox_ok (c_outbox db) \<and> uniq cp_key (c_processed db))"

definition chain_mono :: "cdb \<Rightarrow> cdb \<Rightarrow> bool" where
  "chain_mono db db' = (outs_le db db' \<and> deps_le db db' \<and> event_ids db \<subseteq> event_ids db' \<and> chain_seen db \<subseteq> chain_seen db')"

lemma chain_mono_refl [simp]: "chain_mono db db"
  by (simp add: chain_mono_def outs_le_def deps_le_def)

lemma chain_mono_trans: "\<lbrakk>chain_mono a b; chain_mono b c\<rbrakk> \<Longrightarrow> chain_mono a c"
  unfolding chain_mono_def outs_le_def deps_le_def by (intro conjI allI impI; elim conjE) (metis order_trans, metis, blast+)

lemma out_keeps_chain:
  assumes "chaindb_ok U db" and "out_keeps U db db'"
  shows "chaindb_ok U db' \<and> chain_mono db db'"
  using assms dep_told_mono by (auto simp: chaindb_ok_def out_keeps_def deps_ok_def chain_mono_def deps_le_def chain_seen_def)

lemma deps_keeps_chain:
  assumes "chaindb_ok U db" and "deps_keeps U db db'"
  shows "chaindb_ok U db' \<and> chain_mono db db'"
  using assms told_mono by (auto simp: chaindb_ok_def deps_keeps_def outs_ok_def chain_mono_def outs_le_def chain_seen_def)

lemma chain_same:
  "\<lbrakk>chaindb_ok U db; outgoings db' = outgoings db; deposits db' = deposits db; event_ids db' = event_ids db; outbox_ok (c_outbox db');
    uniq cp_key (c_processed db'); chain_seen db \<subseteq> chain_seen db'\<rbrakk> \<Longrightarrow> chaindb_ok U db' \<and> chain_mono db db'"
  by (simp add: chaindb_ok_def chain_mono_def outs_ok_def deps_ok_def outs_le_def deps_le_def)

lemma address_frame:
  assumes "get_or_create_address ks accounts \<Gamma> owner_ref network db = Inr (db', a, created)"
  shows "outgoings db' = outgoings db \<and> deposits db' = deposits db \<and> c_outbox db' = c_outbox db \<and> c_processed db' = c_processed db"
  using assms by (auto simp: get_or_create_address_def insert_address_def insert_key_def Let_def bindr_eq_Inr split: option.splits if_splits)

lemma chain_dispatch_keeps:
  assumes ok: "chaindb_ok U db" and U: "uuid5 \<Gamma> = U" and run: "chain_dispatch \<Gamma> ev db = Inr (db', out)"
  shows "chaindb_ok U db' \<and> chain_mono db db'"
  using run
proof (cases rule: chain_dispatch_cases)
  case (dup u)
  then show ?thesis using ok by (auto intro: chain_same simp: chaindb_ok_def)
next
  case (new u p)
  let ?db = "db\<lparr>c_processed := c_processed db @ [p]\<rparr>"
  have "chaindb_ok U ?db \<and> chain_mono db ?db"
    by (rule chain_same [OF ok])
      (use ok new(2,3) in \<open>auto simp: event_ids_def chaindb_ok_def chain_seen_def row_of_append uniq_snoc split: option.splits\<close>)
  then have 1: "chaindb_ok U ?db" "chain_mono db ?db" by auto
  have U': "uuid5 (correlation_scope (Some (e_correlation_id ev)) \<Gamma>) = U" using U by simp
  have "chaindb_ok U db' \<and> chain_mono ?db db'"
  proof (cases "event_type ev = TRANSFER_REQUESTED")
    case True
    with new(4) have run': "accept_transfer_request (correlation_scope (Some (e_correlation_id ev)) \<Gamma>) (e_payload ev) (e_correlation_id ev) ?db = Inr (db', out)"
      by simp
    have "outs_ok U ?db" using 1(1) by (simp add: chaindb_ok_def)
    from out_keeps_chain [OF 1(1) accept_keeps [OF this U' run']] show ?thesis .
  next
    case False
    with new(4) have "db' = ?db" by simp
    then show ?thesis using 1(1) by (auto intro: chain_same simp: chaindb_ok_def)
  qed
  then show ?thesis using 1(2) chain_mono_trans by blast
qed

lemma relay_chain_keeps:
  assumes ok: "chaindb_ok U db" and run: "relay_run_once pub bs mb locked t b (c_outbox db) = (b', ob', n)"
  shows "chaindb_ok U (db\<lparr>c_outbox := ob'\<rparr>) \<and> chain_mono db (db\<lparr>c_outbox := ob'\<rparr>)"
proof -
  have "map row_core (o_rows ob') = map row_core (o_rows (c_outbox db))" using relay_keeps_rows [OF run] by simp
  then have "(\<lambda>c. fst (snd c)) ` set (map row_core (o_rows ob')) = (\<lambda>c. fst (snd c)) ` set (map row_core (o_rows (c_outbox db)))" by simp
  then have "event_ids (db\<lparr>c_outbox := ob'\<rparr>) = event_ids db" by (simp add: event_ids_def image_image row_core_def)
  moreover have "outbox_ok ob'" using relay_ok [OF run] ok by (simp add: chaindb_ok_def)
  ultimately show ?thesis using ok by - (rule chain_same [OF ok], auto simp: chaindb_ok_def chain_seen_def)
qed

lemma chain_step_keeps:
  assumes "chain_step U S A db db'" and ok: "chaindb_ok U db"
  shows "chaindb_ok U db' \<and> chain_mono db db'"
proof -
  have o: "outs_ok U db" and d: "deps_ok U db" using ok by (simp_all add: chaindb_ok_def)
  from assms(1) show ?thesis
  proof cases
    case address
    from address_frame [OF this] ok show ?thesis by - (rule chain_same [OF ok], auto simp: chaindb_ok_def event_ids_def chain_seen_def)
  next
    case event
    then show ?thesis by (rule chain_dispatch_keeps [OF ok])
  next
    case (dead \<Gamma> item)
    then have "outgoings db' = outgoings db \<and> deposits db' = deposits db \<and> c_outbox db' = c_outbox db \<and> c_processed db' = c_processed db"
      by (auto simp: record_chain_dead_letter_def Let_def bindr_eq_Inr split: option.splits if_splits)
    then show ?thesis using ok by - (rule chain_same [OF ok], auto simp: chaindb_ok_def event_ids_def chain_seen_def)
  next
    case relay
    then show ?thesis using relay_chain_keeps [OF ok] by simp
  next
    case scan
    then show ?thesis using deps_keeps_chain [OF ok] scanner_keeps [OF d] by blast
  next
    case deposit
    from reverify_keeps [OF d this] show ?thesis by (rule deps_keeps_chain [OF ok])
  next
    case claim
    then show ?thesis using out_keeps_chain [OF ok] claim_keeps [OF o] by blast
  next
    case sent
    then show ?thesis using out_keeps_chain [OF ok] broadcast_outcome_keeps [OF o] by blast
  next
    case watched
    from check_one_keeps [OF o this] show ?thesis by (rule out_keeps_chain [OF ok])
  qed
qed

lemma chain_steps_keep:
  assumes "chain_steps U S A db db'" and "chaindb_ok U db"
  shows "chaindb_ok U db' \<and> chain_mono db db'"
  using assms
proof (induction rule: rtranclp_induct)
  case base
  then show ?case by (auto intro: chain_same simp: chaindb_ok_def)
next
  case (step x y)
  then show ?case using chain_step_keeps [OF step.hyps(2)] chain_mono_trans by blast
qed

lemma empty_chaindb_ok: "chaindb_ok U empty_cdb"
  by (simp add: chaindb_ok_def outs_ok_def deps_ok_def empty_cdb_def empty_outbox_def outbox_ok_def)

lemma chain_reachable: "chain_steps U S A empty_cdb db \<Longrightarrow> chaindb_ok U db"
  using chain_steps_keep empty_chaindb_ok by blast

section \<open>What always holds\<close>

text \<open>
  Property C30. In every state the service can reach, with any interleaving of its workers, any
  answers of the chain and any repeated or damaged events, every transfer has at most one
  outgoing transaction and every chain log at most one deposit, and every decision was
  announced: a broadcast, confirmed, failed or reorganised transaction and a confirmed or
  reorganised deposit have the corresponding event in the outbox.
\<close>

theorem chain_announces:
  assumes "chain_steps U S A empty_cdb db"
  shows "uniq og_transfer_id (outgoings db) \<and> uniq deposit_key (deposits db) \<and>
    list_all (told U (event_ids db)) (outgoings db) \<and> list_all (dep_told U (event_ids db)) (deposits db)"
  using chain_reachable [OF assms] by (simp add: chaindb_ok_def outs_ok_def deps_ok_def list_all_iff)

text \<open>
  Whatever happens after a request was accepted, its transaction keeps its
  identity, parties and amount and never loses an attempt; and a deposit keeps its chain
  identity, recipient and amount.
\<close>

lemma accepted_transaction_fixed:
  assumes "chain_steps U S A empty_cdb db" and "chain_steps U S A db db'"
  shows "(row_of og_id i (outgoings db) = Some r \<longrightarrow>
      (\<exists>r'. row_of og_id i (outgoings db') = Some r' \<and> out_immut r' = out_immut r \<and> og_attempts r \<le> og_attempts r')) \<and>
    (row_of d_id j (deposits db) = Some d \<longrightarrow> (\<exists>d'. row_of d_id j (deposits db') = Some d' \<and> dep_immut d' = dep_immut d))"
  using chain_steps_keep [OF assms(2) chain_reachable [OF assms(1)]] by (simp add: chain_mono_def outs_le_def deps_le_def)

text \<open>
  No operation of the service ever records a nonce, so the allocator answers every request
  with zero: two different transfers of one address are given the same nonce.
\<close>

lemma allocator_zero:
  assumes "chain_steps U S A empty_cdb db"
  shows "nonce_allocator db address transfer_id = 0"
proof -
  have "\<forall>r\<in>set (outgoings db). og_nonce r = None" using chain_reachable [OF assms] by (simp add: chaindb_ok_def outs_ok_def out_stored_def)
  then have "filter (\<lambda>r. og_nonce r \<noteq> None) (outgoings db) = []" "filter (\<lambda>r. og_from_address r = address \<and> og_nonce r \<noteq> None) (outgoings db) = []"
    by (auto simp: filter_empty_conv)
  then show ?thesis by (simp add: nonce_allocator_def)
qed

section \<open>Runs of the workers are sequences of steps\<close>

text \<open>The steps that handle no event: whatever a worker but the consumer does.\<close>

definition chain_work :: "(string \<Rightarrow> uuid) \<Rightarrow> chain_settings \<Rightarrow> 'c chain_adapter \<Rightarrow> cdb \<Rightarrow> cdb \<Rightarrow> bool" where
  "chain_work U S A db db' = (chain_step U S A db db' \<and> (chaindb_ok U db \<longrightarrow> c_processed db' = c_processed db))"

abbreviation chain_works :: "(string \<Rightarrow> uuid) \<Rightarrow> chain_settings \<Rightarrow> 'c chain_adapter \<Rightarrow> cdb \<Rightarrow> cdb \<Rightarrow> bool" where
  "chain_works U S A \<equiv> (chain_work U S A)\<^sup>*\<^sup>*"

lemma chain_works_steps: "chain_works U S A db db' \<Longrightarrow> chain_steps U S A db db'"
  by (erule rtranclp_mono [THEN predicate2D, rotated]) (auto simp: chain_work_def)

lemma work_deps: "\<lbrakk>chain_step U S A db db'; deps_ok U db \<Longrightarrow> deps_keeps U db db'\<rbrakk> \<Longrightarrow> chain_work U S A db db'"
  by (simp add: chain_work_def chaindb_ok_def deps_keeps_def)

lemma work_outs: "\<lbrakk>chain_step U S A db db'; outs_ok U db \<Longrightarrow> out_keeps U db db'\<rbrakk> \<Longrightarrow> chain_work U S A db db'"
  by (simp add: chain_work_def chaindb_ok_def out_keeps_def)

lemma work_address: "get_or_create_address ks accounts \<Gamma> owner_ref network db = Inr (db', a, created) \<Longrightarrow> chain_work U S A db db'"
  unfolding chain_work_def by (auto dest: address_frame intro: chain_step.address)

lemma work_scan: "\<lbrakk>uuid5 \<Gamma> = U; scanner_run_once S A C \<Gamma> db0 db1 db = Inr (db', rep)\<rbrakk> \<Longrightarrow> chain_work U S A db db'"
  by (rule work_deps [OF chain_step.scan]; (assumption | rule scanner_keeps))

lemma work_deposit: "\<lbrakk>uuid5 \<Gamma> = U; reverify S A c1 c2 \<Gamma> head i db0 db = Inr (db', out)\<rbrakk> \<Longrightarrow> chain_work U S A db db'"
  by (rule work_deps [OF chain_step.deposit]; (assumption | rule reverify_keeps))

lemma work_claim: "claim_outgoing \<Gamma> limit lease locked db = Inr (db', rows) \<Longrightarrow> chain_work U S A db db'"
  by (rule work_outs [OF chain_step.claim]; (assumption | rule claim_keeps))

lemma work_sent: "\<lbrakk>uuid5 \<Gamma> = U; broadcast_outcome S describe \<Gamma> row answer db = Inr (db', out)\<rbrakk> \<Longrightarrow> chain_work U S A db db'"
  by (rule work_outs [OF chain_step.sent]; (assumption | rule broadcast_outcome_keeps))

lemma work_watched: "\<lbrakk>uuid5 \<Gamma> = U; check_one S A c \<Gamma> head i db0 db = Inr (db', out)\<rbrakk> \<Longrightarrow> chain_work U S A db db'"
  by (rule work_outs [OF chain_step.watched]; (assumption | rule check_one_keeps))

lemma work_relay: "relay_run_once pub bs mb locked t (b :: bus) (c_outbox db) = (b', ob', n) \<Longrightarrow> chain_work U S A db (db\<lparr>c_outbox := ob'\<rparr>)"
  using chain_step.relay by (auto simp: chain_work_def)

lemma reverify_all_steps:
  "uuid5 \<Gamma> = U \<Longrightarrow> chain_works U S A db (fst (reverify_all S A C \<Gamma> head k is rep db))"
proof (induction "is" arbitrary: k rep db)
  case (Cons i "is")
  show ?case
  proof (cases "reverify S A (C (2 * k + 1)) (C (2 * k + 2)) \<Gamma> head i db db")
    case (Inr r)
    obtain db1 out where r: "r = (db1, out)" by fastforce
    have "chain_work U S A db db1" by (rule work_deposit [OF Cons.prems Inr [unfolded r]])
    then show ?thesis using Inr r Cons by (simp add: converse_rtranclp_into_rtranclp)
  qed simp
qed simp

lemma broadcast_all_steps:
  "\<lbrakk>uuid5 \<Gamma> = U; broadcast_all S A describe \<Gamma> rows c db counts = (c', db', res)\<rbrakk> \<Longrightarrow> chain_works U S A db db'"
proof (induction rows arbitrary: c db counts)
  case (Cons row rows)
  obtain c1 answer where sub: "submit A c (og_from_address row) (og_to_address row) (og_amount row) (uuid_str (og_transfer_id row)) = (c1, answer)" by fastforce
  show ?case
  proof (cases "broadcast_outcome S describe \<Gamma> row answer db")
    case (Inl e)
    then show ?thesis using Cons.prems(2) sub by (simp add: broadcast_one_def)
  next
    case (Inr r)
    obtain db1 out where r: "r = (db1, out)" by fastforce
    have "chain_work U S A db db1" by (rule work_sent [OF Cons.prems(1) Inr [unfolded r]])
    moreover have "chain_works U S A db1 db'" using Cons Inr r sub by (auto simp: broadcast_one_def)
    ultimately show ?thesis by (rule converse_rtranclp_into_rtranclp)
  qed
qed simp

lemma check_all_steps:
  "uuid5 \<Gamma> = U \<Longrightarrow> chain_works U S A db (fst (check_all S A C \<Gamma> head k is rep db))"
proof (induction "is" arbitrary: k rep db)
  case (Cons i "is")
  show ?case
  proof (cases "check_one S A (C k) \<Gamma> head i db db")
    case (Inr r)
    obtain db1 out where r: "r = (db1, out)" by fastforce
    have "chain_work U S A db db1" by (rule work_watched [OF Cons.prems Inr [unfolded r]])
    then show ?thesis using Inr r Cons by (simp add: converse_rtranclp_into_rtranclp)
  qed simp
qed simp

lemma deposit_watcher_steps: "uuid5 \<Gamma> = U \<Longrightarrow> chain_works U S A db (fst (deposit_watcher_run_once S A C \<Gamma> db))"
  by (auto simp: deposit_watcher_run_once_def reverify_all_steps split: sum.splits exn.splits)

lemma broadcaster_steps:
  assumes "uuid5 \<Gamma> = U" and "broadcaster_run_once S A describe \<Gamma> limit locked c db = (c', db', res)"
  shows "chain_works U S A db db'"
proof (cases "claim_outgoing \<Gamma> limit (lease_seconds 1) locked db")
  case (Inl e)
  then show ?thesis using assms(2) by (simp add: broadcaster_run_once_def)
next
  case (Inr r)
  obtain db1 claimed where r: "r = (db1, claimed)" by fastforce
  have "chain_work U S A db db1" by (rule work_claim [OF Inr [unfolded r]])
  moreover have "chain_works U S A db1 db'"
    using assms Inr r broadcast_all_steps [OF assms(1), of S A describe claimed c db1 "(0, 0)"] by (auto simp: broadcaster_run_once_def split: if_splits)
  ultimately show ?thesis by (rule converse_rtranclp_into_rtranclp)
qed

lemma outgoing_watcher_steps: "uuid5 \<Gamma> = U \<Longrightarrow> chain_works U S A db (fst (outgoing_watcher_run_once S A C \<Gamma> db))"
  by (auto simp: outgoing_watcher_run_once_def check_all_steps split: sum.splits exn.splits)

section \<open>A life of the service\<close>

definition sample_request :: envelope where
  "sample_request = new_event sample_env TRANSFER_REQUESTED
     [(''transfer_id'', JStr (uuid_str 7)), (''network'', JStr ''BSC''), (''asset'', JStr ''USDT''), (''from_address'', JStr ''0x0''),
      (''to_address'', JStr ''0x1''), (''amount_units'', JStr ''30'')] ''wallet-service'' (Some ''7'') None None"

definition sample_accepted :: cdb where
  "sample_accepted = (case chain_dispatch sample_env sample_request sample_cdb of Inr (db, _) \<Rightarrow> db | Inl _ \<Rightarrow> empty_cdb)"

definition sample_outgoing :: outgoing where
  "sample_outgoing =
      \<lparr>og_id = 2, og_transfer_id = 7, og_network = ''BSC'', og_asset = ''USDT'', og_from_address = ''0x0'', og_to_address = ''0x1'', og_amount = 30,
        og_tx_hash = None, og_nonce = None, og_status = TxCreated, og_block_number = None, og_block_hash = None, og_confirmations = 0,
        og_failure_reason = None, og_attempts = 0, og_next_attempt_at = None, og_broadcast_at = None, og_correlation_id = Some ''cid-0'',
        og_created_at = 0, og_updated_at = 0\<rparr>"

lemma sample_accept_returns:
  "case chain_dispatch sample_env sample_request sample_cdb of Inl _ \<Rightarrow> False
   | Inr x \<Rightarrow> snd x = ''processed'' \<and> deposits (fst x) = [] \<and> outgoings (fst x) = [sample_outgoing]"
  by code_simp

lemma sample_accept:
  "chain_dispatch sample_env sample_request sample_cdb = Inr (sample_accepted, ''processed'')" "outgoings sample_accepted = [sample_outgoing]"
  "deposits sample_accepted = []"
  using sample_accept_returns by (auto simp: sample_accepted_def split: sum.splits)

lemma sample_reached:
  "chain_steps (uuid5 sample_env) S A empty_cdb sample_cdb" "chain_steps (uuid5 sample_env) S A empty_cdb sample_accepted"
proof -
  have "case get_or_create_address sample_keystore sample_accounts sample_env ''user:1'' ''BSC'' empty_cdb of Inl _ \<Rightarrow> False | Inr x \<Rightarrow> True"
    by code_simp
  then have "\<exists>x. get_or_create_address sample_keystore sample_accounts sample_env ''user:1'' ''BSC'' empty_cdb = Inr (sample_cdb, x)"
    by (auto simp: sample_cdb_def split: sum.splits)
  then have s: "chain_step (uuid5 sample_env) S A empty_cdb sample_cdb" using chain_step.address by fastforce
  then show "chain_steps (uuid5 sample_env) S A empty_cdb sample_cdb" by (rule r_into_rtranclp)
  with chain_step.event [OF refl sample_accept(1)] show "chain_steps (uuid5 sample_env) S A empty_cdb sample_accepted"
    by (meson rtranclp.rtrancl_into_rtrancl)
qed

text \<open>The accepted request is claimed and sent.\<close>

definition sample_sent_row :: outgoing where
  "sample_sent_row = sample_outgoing\<lparr>og_attempts := 1, og_tx_hash := Some ''0xh'', og_status := TxBroadcasted, og_broadcast_at := Some 0\<rparr>"

lemma sample_sent: "\<exists>db. chain_steps (uuid5 sample_env) S A sample_accepted db \<and> outgoings db = [sample_sent_row]"
proof -
  let ?r = "take_lease 0 2 sample_outgoing" and ?db = "sample_accepted\<lparr>outgoings := [take_lease 0 2 sample_outgoing]\<rparr>"
  let ?\<Gamma> = "correlation_scope (Some ''cid-0'') sample_env"
  let ?r1 = "?r\<lparr>og_tx_hash := Some ''0xh'', og_status := TxBroadcasted, og_broadcast_at := Some (now ?\<Gamma>), og_failure_reason := None, og_next_attempt_at := None\<rparr>"
  have "claim_outgoing sample_env 20 2 [] sample_accepted = Inr (?db, [?r])"
    by (simp add: claim_outgoing_def sample_accept Let_def claimable_def sample_outgoing_def sample_env_def)
  then have 1: "chain_step (uuid5 sample_env) S A sample_accepted ?db" by (rule chain_step.claim)
  obtain p where p: "broadcasted_payload ?r1 ''0xh'' = Inr p"
    by (auto simp: broadcasted_payload_def bindr_eq_Inr get_asset_eq_Inr take_lease_def sample_outgoing_def py_upper_ascii_def)
  let ?k = "uuid_str (og_transfer_id ?r) @ '':'' @ ''0xh'' @ '':broadcast''"
  obtain db1 where e: "emit ?\<Gamma> TX_BROADCASTED p ?k (Some ''cid-0'') ?db = Inr db1"
    using emit_total [of ?k TX_BROADCASTED "Some ''cid-0''" ?\<Gamma> p ?db] by (auto simp: TX_BROADCASTED_def first_nonempty_def)
  then obtain ob where db1: "db1 = ?db\<lparr>c_outbox := ob\<rparr>" using emit_spec by fastforce
  let ?r2 = "?r1\<lparr>og_updated_at := 0\<rparr>"
  have "save_outgoing ?\<Gamma> ?r1 db1 = Inr (db1\<lparr>outgoings := [?r2]\<rparr>)"
    by (simp add: save_outgoing_def check_outgoing_def db1 take_lease_def sample_outgoing_def int4_def numeric78_def sample_env_def)
  then have "broadcast_outcome S describe sample_env ?r (Inr ''0xh'') ?db = Inr (db1\<lparr>outgoings := [?r2]\<rparr>, ''broadcast'')"
    using p e by (simp add: broadcast_outcome_def record_broadcast_def take_lease_def sample_outgoing_def Let_def)
  from chain_step.sent [OF refl this] have "chain_step (uuid5 sample_env) S A ?db (db1\<lparr>outgoings := [?r2]\<rparr>)" .
  with 1 have "chain_steps (uuid5 sample_env) S A sample_accepted (db1\<lparr>outgoings := [?r2]\<rparr>)"
    by (meson converse_rtranclp_into_rtranclp rtranclp.rtrancl_refl)
  moreover have "?r2 = sample_sent_row" by (simp add: sample_sent_row_def take_lease_def sample_outgoing_def sample_env_def)
  ultimately show ?thesis by (intro exI [of _ "db1\<lparr>outgoings := [?r2]\<rparr>"]) simp
qed

theorem chain_announces_witness:
  "\<exists>db r h. chain_steps (uuid5 sample_env) sample_settings sample_port empty_cdb db \<and> outgoings db = [r] \<and> og_status r = TxBroadcasted \<and>
     tx_event (uuid5 sample_env) TX_BROADCASTED r (h @ '':broadcast'') \<in> event_ids db"
proof -
  obtain db where db: "chain_steps (uuid5 sample_env) sample_settings sample_port sample_accepted db" "outgoings db = [sample_sent_row]"
    using sample_sent by blast
  then obtain r where r: "chain_steps (uuid5 sample_env) sample_settings sample_port sample_accepted db" "outgoings db = [r]" "og_status r = TxBroadcasted"
    by (auto simp: sample_sent_row_def)
  have run: "chain_steps (uuid5 sample_env) sample_settings sample_port empty_cdb db" using sample_reached(2) r(1) by (rule rtranclp_trans)
  from chain_announces [OF run] r(2,3) have "\<exists>h. tx_event (uuid5 sample_env) TX_BROADCASTED r (h @ '':broadcast'') \<in> event_ids db"
    by (simp add: told_def)
  with run r show ?thesis by blast
qed

end
