(* ===== verification/OutgoingDecisions.thy ===== *)
theory OutgoingDecisions
  imports ChainService
begin

text \<open>
  What the broadcaster and the confirmation watcher decide about a single transaction, branch
  by branch, and what they do not guard against.
\<close>

section \<open>Deciding and telling\<close>

lemma emit_then_save_row:
  assumes ok: "outs_ok U db" and row: "row_of og_id (og_id r) (outgoings db) = Some r0"
    and new: "out_immut r = out_immut r0" "og_nonce r = og_nonce r0" "og_attempts r0 \<le> og_attempts r"
    and em: "emit \<Gamma>1 ty p k corr db = Inr db1" "uuid5 \<Gamma>1 = U" "k \<noteq> []"
    and said: "told U (insert (U (event_name ty k)) (event_ids db)) r" and save: "save_outgoing \<Gamma> r db1 = Inr db'"
  shows "\<exists>r'. row_of og_id (og_id r) (outgoings db') = Some r' \<and> out_immut r' = out_immut r0 \<and> og_status r' = og_status r \<and>
    event_ids db' = insert (U (event_name ty k)) (event_ids db)"
proof -
  obtain ob where ob: "db1 = db\<lparr>c_outbox := ob\<rparr>" "event_ids db1 = insert (U (event_name ty k)) (event_ids db)"
    "outbox_ok (c_outbox db) \<longrightarrow> outbox_ok ob" using emit_spec [OF em(1,3)] em(2) by blast
  have K: "out_keeps U db db' \<and> (\<exists>r'. row_of og_id (og_id r) (outgoings db') = Some r' \<and> og_status r' = og_status r) \<and> event_ids db' = event_ids db1"
    by (rule save_keeps [OF ok row new ob(1) _ ob(3) _ save]) (use said ob(2) in auto)
  then have "outs_le db db'" by (simp add: out_keeps_def)
  with K row ob(2) show ?thesis unfolding outs_le_def by fastforce
qed

lemma fail_row:
  assumes ok: "outs_ok U db" and row: "row_of og_id (og_id r) (outgoings db) = Some r0"
    and new: "out_immut r = out_immut r0" "og_nonce r = og_nonce r0" "og_attempts r0 \<le> og_attempts r"
    and U: "uuid5 \<Gamma> = U" and run: "fail_outgoing \<Gamma> r reason code corr db = Inr db'"
  shows "\<exists>r'. row_of og_id (og_id r) (outgoings db') = Some r' \<and> out_immut r' = out_immut r0 \<and> og_status r' = TxFailed \<and>
    event_ids db' = insert (tx_event U TX_FAILED r0 code) (event_ids db)"
proof -
  let ?r = "r\<lparr>og_status := TxFailed, og_failure_reason := Some reason\<rparr>" let ?k = "uuid_str (og_transfer_id r) @ '':'' @ code"
  from run obtain p db1 where em: "emit \<Gamma> TX_FAILED p ?k corr db = Inr db1" and sv: "save_outgoing \<Gamma> ?r db1 = Inr db'"
    by (auto simp: fail_outgoing_def Let_def bindr_eq_Inr)
  have said: "told U (insert (U (event_name TX_FAILED ?k)) (event_ids db)) ?r" by (auto simp: told_def tx_event_def)
  have im: "out_immut ?r = out_immut r0" "og_id ?r = og_id r" using new(1) by (simp_all add: out_immut_def)
  from emit_then_save_row [OF ok _ im(1) _ _ em U _ said sv] row new(2,3) show ?thesis
    using out_immut_sel(2) [OF new(1)] by (auto simp: tx_event_def)
qed

section \<open>The broadcaster\<close>

lemma record_failure_row:
  assumes ok: "outs_ok U db" and U: "uuid5 \<Gamma> = U" and run: "record_broadcast_failure \<Gamma> row reason code db = Inr (db', out)"
    and r: "row_of og_id (og_id row) (outgoings db) = Some r" "og_status r \<noteq> TxConfirmed"
  shows "out = ''failed'' \<and> (\<exists>r'. row_of og_id (og_id row) (outgoings db') = Some r' \<and> out_immut r' = out_immut r \<and> og_status r' = TxFailed \<and>
    event_ids db' = insert (tx_event U TX_FAILED r code) (event_ids db))"
proof -
  from run r have f: "fail_outgoing \<Gamma> (r\<lparr>og_next_attempt_at := None\<rparr>) (take 500 reason) code (og_correlation_id r) db = Inr db'" "out = ''failed''"
    by (auto simp: record_broadcast_failure_def bindr_eq_Inr)
  have id: "og_id r = og_id row" using row_of_Some [OF r(1)] by simp
  from fail_row [OF ok _ _ _ _ U f(1), of r] r(1) id f(2) show ?thesis by (simp add: out_immut_def)
qed

lemma record_broadcast_row:
  assumes ok: "outs_ok U db" and U: "uuid5 \<Gamma> = U" and run: "record_broadcast \<Gamma> row h db = Inr (db', out)"
    and r: "row_of og_id (og_id row) (outgoings db) = Some r" "og_status r \<noteq> TxConfirmed" "og_status r \<noteq> TxFailed"
  shows "out = ''broadcast'' \<and> (\<exists>r'. row_of og_id (og_id row) (outgoings db') = Some r' \<and> out_immut r' = out_immut r \<and> og_status r' = TxBroadcasted \<and>
    event_ids db' = insert (tx_event U TX_BROADCASTED r (h @ '':broadcast'')) (event_ids db))"
proof -
  let ?r = "r\<lparr>og_tx_hash := Some h, og_status := TxBroadcasted, og_broadcast_at := Some (now \<Gamma>), og_failure_reason := None, og_next_attempt_at := None\<rparr>"
  let ?k = "uuid_str (og_transfer_id r) @ '':'' @ h @ '':broadcast''"
  from run r obtain p db1 where em: "emit \<Gamma> TX_BROADCASTED p ?k (og_correlation_id row) db = Inr db1"
    and sv: "save_outgoing \<Gamma> ?r db1 = Inr db'" and out: "out = ''broadcast''"
    by (auto simp: record_broadcast_def Let_def bindr_eq_Inr split: if_splits)
  have id: "og_id r = og_id row" using row_of_Some [OF r(1)] by simp
  have said: "told U (insert (U (event_name TX_BROADCASTED ?k)) (event_ids db)) ?r" by (auto simp: told_def tx_event_def)
  have im: "out_immut ?r = out_immut r" by (simp add: out_immut_def)
  from emit_then_save_row [OF ok _ im _ _ em U _ said sv] r(1) id out show ?thesis by (simp add: tx_event_def)
qed

lemma schedule_retry_row:
  assumes "row_of og_id (og_id row) (outgoings db) = Some r"
  shows "\<exists>r'. row_of og_id (og_id row) (outgoings (schedule_retry \<Gamma> row reason db)) = Some r' \<and> out_immut r' = out_immut r \<and> og_status r' = TxPending \<and>
    og_next_attempt_at r' = Some (now \<Gamma> + lease_seconds (og_attempts row)) \<and> event_ids (schedule_retry \<Gamma> row reason db) = event_ids db"
  using assms by (simp add: schedule_retry_def row_of_upd event_ids_def out_immut_def)

text \<open>The code that a failed submission is announced with.\<close>

definition broadcast_code :: "exn \<Rightarrow> string" where
  "broadcast_code e = (case e of TransactionRejectedError _ \<Rightarrow> ''REJECTED_BY_NODE'' | RpcUnavailableError _ \<Rightarrow> ''RPC_UNAVAILABLE'' | _ \<Rightarrow> ''BROADCAST_FAILED'')"


text \<open>
  A stale worker can reopen a failed transaction: when a worker's submission ends
  with an exception after the transaction was failed and announced by another worker, the
  retry does not look at the status, makes it \<open>PENDING\<close> again, and once the back-off is
  over every broadcaster may claim it, although its failure stays announced.
\<close>

lemma stale_retry_reopens:
  assumes "row_of og_id (og_id row) (outgoings db) = Some r" and "og_status r = TxFailed" and "told U (event_ids db) r"
    and "og_attempts row < broadcast_max_attempts S" and "now \<Gamma> + 60 \<le> t"
  shows "\<exists>db' r' s. broadcast_outcome S describe \<Gamma> row (Inl (RpcUnavailableError m)) db = Inr (db', ''retry'') \<and>
    row_of og_id (og_id row) (outgoings db') = Some r' \<and> og_status r' = TxPending \<and> claimable t [] r' \<and>
    tx_event U TX_FAILED r' s \<in> event_ids db'"
proof -
  let ?\<Gamma> = "correlation_scope (og_correlation_id row) \<Gamma>" and ?reason = "exn_text describe (RpcUnavailableError m)"
  let ?db = "schedule_retry ?\<Gamma> row ?reason db"
  have run: "broadcast_outcome S describe \<Gamma> row (Inl (RpcUnavailableError m)) db = Inr (?db, ''retry'')"
    using assms(4) by (simp add: broadcast_outcome_def Let_def)
  obtain r' where r': "row_of og_id (og_id row) (outgoings ?db) = Some r'" "out_immut r' = out_immut r" "og_status r' = TxPending"
    "og_next_attempt_at r' = Some (now \<Gamma> + lease_seconds (og_attempts row))" "event_ids ?db = event_ids db"
    using schedule_retry_row [OF assms(1), of ?\<Gamma> ?reason] by auto
  have "lease_seconds (og_attempts row) \<le> 60" by (simp add: lease_seconds_def)
  then have "claimable t [] r'" using r'(3,4) assms(5) by (simp add: claimable_def)
  moreover obtain s where "tx_event U TX_FAILED r s \<in> event_ids db" using assms(2,3) by (auto simp: told_def)
  ultimately show ?thesis using run r' out_immut_sel(2) [OF r'(2)] by (auto simp: tx_event_def)
qed

section \<open>The watcher\<close>

lemma save_only_row:
  assumes ok: "outs_ok U db" and row: "row_of og_id (og_id r) (outgoings db) = Some r0"
    and new: "out_immut r = out_immut r0" "og_nonce r = og_nonce r0" "og_attempts r0 \<le> og_attempts r"
    and said: "told U (event_ids db) r" and save: "save_outgoing \<Gamma> r db = Inr db'"
  shows "\<exists>r'. row_of og_id (og_id r) (outgoings db') = Some r' \<and> out_immut r' = out_immut r0 \<and> og_status r' = og_status r \<and> event_ids db' = event_ids db"
proof -
  have K: "out_keeps U db db' \<and> (\<exists>r'. row_of og_id (og_id r) (outgoings db') = Some r' \<and> og_status r' = og_status r) \<and> event_ids db' = event_ids db"
    by (rule save_keeps [where ob = "c_outbox db", OF ok row new _ _ _ said save]) simp_all
  then have "outs_le db db'" by (simp add: out_keeps_def)
  with K row show ?thesis unfolding outs_le_def by fastforce
qed

text \<open>What the watcher makes of a missing receipt, and of a receipt: outcome, status and new event.\<close>

definition no_receipt :: "chain_settings \<Rightarrow> (string \<Rightarrow> uuid) \<Rightarrow> int \<Rightarrow> outgoing \<Rightarrow> outgoing \<Rightarrow> string \<times> tx_status \<times> uuid set" where
  "no_receipt S U t r0 r =
     (if og_status r0 = TxConfirmed
      then (''reorged'', TxReorged, {tx_event U TX_FAILED r (''CHAIN_REORG:'' @ (case og_block_hash r of None \<Rightarrow> ''None'' | Some h \<Rightarrow> h))})
      else case og_broadcast_at r0 of
        None \<Rightarrow> (''checked'', og_status r, {})
      | Some b \<Rightarrow>
          if t - b < pending_timeout_seconds S then (''checked'', og_status r, {})
          else if og_attempts r0 < broadcast_max_attempts S then (''requeued'', TxPending, {})
          else (''failed'', TxFailed, {tx_event U TX_FAILED r ''STUCK_PENDING''}))"

definition with_receipt :: "chain_settings \<Rightarrow> (string \<Rightarrow> uuid) \<Rightarrow> int \<Rightarrow> string \<Rightarrow> tx_receipt \<Rightarrow> outgoing \<Rightarrow> string \<times> tx_status \<times> uuid set" where
  "with_receipt S U head h rc r =
     (if rc_status rc = 0
      then if og_status r = TxFailed then (''skipped'', TxFailed, {}) else (''failed'', TxFailed, {tx_event U TX_FAILED r ''REVERTED_ON_CHAIN''})
      else if og_status r = TxBroadcasted \<and> confirmations_required S \<le> max 0 (head - rc_block_number rc + 1)
      then (''confirmed'', TxConfirmed, {tx_event U TX_CONFIRMED r (h @ '':confirmed'')})
      else (''checked'', og_status r, {}))"

lemma reorged_row:
  assumes ok: "outs_ok U db" and U: "uuid5 \<Gamma> = U" and r: "row_of og_id (og_id r) (outgoings db) = Some r"
    and run: "mark_outgoing_reorged \<Gamma> r db = Inr (db', out)"
  shows "out = ''reorged'' \<and> (\<exists>r'. row_of og_id (og_id r) (outgoings db') = Some r' \<and> out_immut r' = out_immut r \<and> og_status r' = TxReorged \<and>
    event_ids db' = insert (tx_event U TX_FAILED r (''CHAIN_REORG:'' @ (case og_block_hash r of None \<Rightarrow> ''None'' | Some h \<Rightarrow> h))) (event_ids db))"
proof -
  let ?s = "''CHAIN_REORG:'' @ (case og_block_hash r of None \<Rightarrow> ''None'' | Some h \<Rightarrow> h)" let ?k = "uuid_str (og_transfer_id r) @ '':'' @ ?s"
  from run obtain p reason db1 where em: "emit \<Gamma> TX_FAILED p ?k (og_correlation_id r) db = Inr db1" and out: "out = ''reorged''"
    and sv: "save_outgoing \<Gamma> (r\<lparr>og_status := TxReorged, og_failure_reason := Some reason\<rparr>) db1 = Inr db'"
    by (auto simp: mark_outgoing_reorged_def Let_def bindr_eq_Inr)
  let ?r = "r\<lparr>og_status := TxReorged, og_failure_reason := Some reason\<rparr>"
  have said: "told U (insert (U (event_name TX_FAILED ?k)) (event_ids db)) ?r" unfolding told_def by (simp add: tx_event_def) blast
  have im: "out_immut ?r = out_immut r" by (simp add: out_immut_def)
  from emit_then_save_row [OF ok _ im _ _ em U _ said sv] r out show ?thesis by (simp add: tx_event_def)
qed

lemma no_receipt_row:
  assumes ok: "outs_ok U db" and U: "uuid5 \<Gamma> = U" and r: "row_of og_id (og_id r) (outgoings db) = Some r"
    and run: "check_apply S \<Gamma> head h None r0 r db = Inr (db', out)"
  shows "\<exists>r'. row_of og_id (og_id r) (outgoings db') = Some r' \<and> out_immut r' = out_immut r \<and>
    (out, og_status r', event_ids db') = (case no_receipt S U (now \<Gamma>) r0 r of (o', s, es) \<Rightarrow> (o', s, es \<union> event_ids db))"
proof -
  let ?\<Gamma> = "correlation_scope (og_correlation_id r) \<Gamma>"
  let ?r = "r\<lparr>og_status := TxPending, og_next_attempt_at := Some (now \<Gamma>)\<rparr>"
  have U': "uuid5 ?\<Gamma> = U" using U by simp
  have im: "out_immut ?r = out_immut r" by (simp add: out_immut_def)
  have pend: "told U (event_ids db) ?r" by (simp add: told_def)
  from run consider "og_status r0 = TxConfirmed" "mark_outgoing_reorged ?\<Gamma> r db = Inr (db', out)"
    | "no_receipt S U (now \<Gamma>) r0 r = (''checked'', og_status r, {})" "db' = db" "out = ''checked''"
    | "no_receipt S U (now \<Gamma>) r0 r = (''requeued'', TxPending, {})" "save_outgoing ?\<Gamma> ?r db = Inr db'" "out = ''requeued''"
    | reason where "no_receipt S U (now \<Gamma>) r0 r = (''failed'', TxFailed, {tx_event U TX_FAILED r ''STUCK_PENDING''})"
        "fail_outgoing ?\<Gamma> r reason ''STUCK_PENDING'' (og_correlation_id r) db = Inr db'" "out = ''failed''"
    by (cases "og_broadcast_at r0") (auto simp: check_apply_def handle_stuck_def no_receipt_def Let_def bindr_eq_Inr split: if_splits)
  then show ?thesis
  proof cases
    case 1
    from reorged_row [OF ok U' r 1(2)] 1(1) show ?thesis by (auto simp: no_receipt_def)
  next
    case 2
    with r show ?thesis by simp
  next
    case 3
    from save_only_row [OF ok _ im _ _ pend 3(2)] r 3 show ?thesis by auto
  next
    case 4
    from fail_row [OF ok r refl refl order.refl U' 4(2)] 4 show ?thesis by auto
  qed
qed

lemma with_receipt_row:
  assumes ok: "outs_ok U db" and U: "uuid5 \<Gamma> = U" and r: "row_of og_id (og_id r) (outgoings db) = Some r"
    and run: "check_apply S \<Gamma> head h (Some rc) r0 r db = Inr (db', out)"
  shows "\<exists>r'. row_of og_id (og_id r) (outgoings db') = Some r' \<and> out_immut r' = out_immut r \<and>
    (out, og_status r', event_ids db') = (case with_receipt S U head h rc r of (o', s, es) \<Rightarrow> (o', s, es \<union> event_ids db))"
proof -
  let ?\<Gamma> = "correlation_scope (og_correlation_id r) \<Gamma>"
  let ?r1 = "r\<lparr>og_block_number := Some (rc_block_number rc), og_block_hash := Some (rc_block_hash rc),
     og_confirmations := max 0 (head - rc_block_number rc + 1)\<rparr>"
  let ?r2 = "?r1\<lparr>og_status := TxConfirmed\<rparr>" and ?k = "uuid_str (og_transfer_id r) @ '':'' @ h @ '':confirmed''"
  have U': "uuid5 ?\<Gamma> = U" using U by simp
  have im: "out_immut ?r1 = out_immut r" "out_immut ?r2 = out_immut r" by (simp_all add: out_immut_def)
  have said: "told U (event_ids db) ?r1" using outs_ok_row [OF ok r] told_cong [of ?r1 r] by simp
  have conf: "told U (insert (U (event_name TX_CONFIRMED ?k)) (event_ids db)) ?r2" by (auto simp: told_def tx_event_def)
  from run consider "with_receipt S U head h rc r = (out, og_status r, {})" "save_outgoing ?\<Gamma> ?r1 db = Inr db'"
    | "with_receipt S U head h rc r = (''failed'', TxFailed, {tx_event U TX_FAILED r ''REVERTED_ON_CHAIN''})" "out = ''failed''"
        "fail_outgoing ?\<Gamma> ?r1 ''transaction reverted on chain'' ''REVERTED_ON_CHAIN'' (og_correlation_id r) db = Inr db'"
    | p db1 where "with_receipt S U head h rc r = (''confirmed'', TxConfirmed, {tx_event U TX_CONFIRMED r (h @ '':confirmed'')})" "out = ''confirmed''"
        "emit ?\<Gamma> TX_CONFIRMED p ?k (og_correlation_id r) db = Inr db1" "save_outgoing ?\<Gamma> ?r2 db1 = Inr db'"
    by (auto simp: check_apply_def with_receipt_def Let_def bindr_eq_Inr split: if_splits)
  then show ?thesis
  proof cases
    case 1
    from save_only_row [OF ok _ im(1) _ _ said 1(2)] r 1(1) show ?thesis by auto
  next
    case 2
    from fail_row [OF ok _ im(1) _ _ U' 2(3)] r 2(1,2) show ?thesis by auto
  next
    case 3
    from emit_then_save_row [OF ok _ im(2) _ _ 3(3) U' _ conf 3(4)] r 3(1,2) show ?thesis by (auto simp: tx_event_def)
  qed
qed

text \<open>
  Property C34. The watcher follows the chain: a confirmed transaction whose receipt is gone is
  \<open>REORGED\<close>, a pending one that is overdue is queued again while attempts are left and
  \<open>FAILED\<close> otherwise; a receipt that reports a revert makes it \<open>FAILED\<close>, one that is deep
  enough makes a broadcast transaction \<open>CONFIRMED\<close>, and in every other case the status
  stays. Exactly the event of the decision is added to the outbox.
\<close>

theorem watcher_decides:
  assumes reach: "chain_steps U S A empty_cdb db" and U: "uuid5 \<Gamma> = U" and run: "check_one S A c \<Gamma> head i db0 db = Inr (db', out)"
    and r0: "row_of og_id i (outgoings db0) = Some r0" "og_tx_hash r0 = Some h" "h \<noteq> []" and r: "row_of og_id i (outgoings db) = Some r"
    and rc: "receipt_at A c h = Inr receipt"
  shows "\<exists>r'. row_of og_id i (outgoings db') = Some r' \<and> out_immut r' = out_immut r \<and>
    (out, og_status r', event_ids db') =
      (case (case receipt of None \<Rightarrow> no_receipt S U (now \<Gamma>) r0 r | Some rc \<Rightarrow> with_receipt S U head h rc r) of
         (o', s, es) \<Rightarrow> (o', s, es \<union> event_ids db))"
proof -
  have ok: "outs_ok U db" using chain_reachable [OF reach] by (simp add: chaindb_ok_def)
  have id: "og_id r = i" using row_of_Some [OF r] by simp
  have ap: "check_apply S \<Gamma> head h receipt r0 r db = Inr (db', out)" using run r0 r rc by (simp add: check_one_def)
  show ?thesis
  proof (cases receipt)
    case None
    from no_receipt_row [OF ok U _ ap [unfolded None]] r id None show ?thesis by simp
  next
    case (Some x)
    from with_receipt_row [OF ok U _ ap [unfolded Some]] r id Some show ?thesis by simp
  qed
qed

section \<open>The decisions on a sample\<close>


theorem watcher_decides_witness:
  "\<exists>db db' r'. outgoings db = [sample_sent_row] \<and> check_one sample_settings sample_port () (sample_env\<lparr>now := 1000\<rparr>) 5 2 db db = Inr (db', ''requeued'') \<and>
     row_of og_id 2 (outgoings db') = Some r' \<and> og_status r' = TxPending"
proof -
  let ?\<Gamma> = "sample_env\<lparr>now := 1000\<rparr>"
  obtain db where db: "chain_steps (uuid5 sample_env) sample_settings sample_port sample_accepted db" "outgoings db = [sample_sent_row]"
    using sample_sent by blast
  have reach: "chain_steps (uuid5 sample_env) sample_settings sample_port empty_cdb db" using sample_reached(2) db(1) by (rule rtranclp_trans)
  have row: "row_of og_id 2 (outgoings db) = Some sample_sent_row" "og_tx_hash sample_sent_row = Some ''0xh''"
    by (simp_all add: db(2) sample_sent_row_def sample_outgoing_def)
  have rc: "receipt_at sample_port () ''0xh'' = Inr None" by (simp add: sample_port_def)
  have "\<exists>db'. check_one sample_settings sample_port () ?\<Gamma> 5 2 db db = Inr (db', ''requeued'')"
    using db(2) rc by (simp add: check_one_def check_apply_def handle_stuck_def sample_sent_row_def sample_outgoing_def sample_settings_def
      save_outgoing_def check_outgoing_def int4_def numeric78_def Let_def)
  then obtain db' where run: "check_one sample_settings sample_port () ?\<Gamma> 5 2 db db = Inr (db', ''requeued'')" by blast
  from watcher_decides [OF reach _ run row(1,2) _ row(1) rc] obtain r' where "row_of og_id 2 (outgoings db') = Some r'" "og_status r' = TxPending"
    by (auto simp: no_receipt_def sample_sent_row_def sample_outgoing_def sample_settings_def)
  with run db(2) show ?thesis by blast
qed

end
