(* ===== verification/EndToEnd.thy ===== *)
theory EndToEnd
  imports WalletDispatch OutgoingDecisions
begin

text \<open>
  The two services together: what one enqueues, the other reads back as the same deposit, the
  same transfer and the same amount, and acts on it as intended. The envelope that leaves one
  outbox is the envelope that reaches the other dispatcher.
\<close>

section \<open>Envelopes\<close>

definition queued :: "cdb \<Rightarrow> envelope \<Rightarrow> bool" where
  "queued db ev = (\<exists>x\<in>set (o_rows (c_outbox db)). o_envelope x = ev)"

lemma emit_queued:
  assumes "emit \<Gamma> ty p k corr db = Inr db'" and "k \<noteq> []" and "uuid5 \<Gamma> (event_name ty k) \<notin> event_ids db"
  shows "queued db' (new_event \<Gamma> ty p CHAIN_PRODUCER (Some k) corr None)"
proof -
  let ?ev = "new_event \<Gamma> ty p CHAIN_PRODUCER (Some k) corr None"
  from assms(1) obtain ob where ob: "enqueue_event (c_outbox db) ?ev = Inr ob" and db': "db' = db\<lparr>c_outbox := ob\<rparr>"
    by (auto simp: emit_def bindr_eq_Inr)
  have id: "uuid_of_string (event_id ?ev) = Some (uuid5 \<Gamma> (event_name ty k))" using assms(2) by simp
  from ob show ?thesis
    by (cases rule: enqueue_event_cases) (use id assms(3) db' in \<open>auto simp: queued_def event_ids_def row_of_None\<close>)
qed

lemma uuid_str_not_Nil [simp]: "uuid_str u \<noteq> []"
  using length_uuid_str [of u] by (metis list.size(3) zero_neq_numeral)

section \<open>Deposits\<close>

text \<open>The payload of a deposit names it: wallet, asset, amount, and the ledger reference with the block.\<close>

lemma deposit_payload_names:
  assumes "deposit_payload d n = Inr p" and "\<bar>d_amount d\<bar> < 10 ^ 78" and "wallet_by_address (d_to_address d) wdb = Some w"
  shows "deposit_of ''block_hash'' p wdb w (d_asset d) (d_amount d) (deposit_event_key d (d_block_hash d))"
  using assms by (auto simp: deposit_payload_def bindr_eq_Inr deposit_of_def payload_wallet_def jreq_def jget_def pget_text_def chain_ref_def
    pget_default_def deposit_event_key_def py_int_str simp del: power_numeral)

lemma deposit_fits_frame:
  "\<lbrakk>entries db' = entries db; users db' = users db; draws db' = draws db; uuid4 \<Gamma>' = uuid4 \<Gamma>; fits_opt 64 (get_correlation_id \<Gamma>')\<rbrakk> \<Longrightarrow>
   deposit_fits \<Gamma> db a q \<Longrightarrow> deposit_fits \<Gamma>' db' a q"
  by (simp add: deposit_fits_def is_posted_def user_exists_def)

text \<open>A confirmed deposit event that the wallet has not seen is one credit.\<close>

lemma dispatch_credits:
  assumes ok: "ledger_ok wdb" and ev: "event_type ev = DEPOSIT_CONFIRMED" "uuid_of_string (event_id ev) = Some u" "u \<notin> seen_events wdb"
    and len: "length (e_correlation_id ev) \<le> 64" "e_correlation_id ev \<noteq> []"
    and d: "deposit_of ''block_hash'' (e_payload ev) wdb w a n ref"
    and fits: "deposit_fits \<Gamma> wdb a (deposit_posting w n DEPOSIT ref)" and rm: "room wdb (w_user_id w, a) n"
  shows "\<exists>wdb'. dispatch \<Gamma> ev wdb = Inr (wdb', ''processed'') \<and> ledger_ok wdb' \<and> acct_reserved wdb' = acct_reserved wdb \<and>
    acct_posted wdb' = (acct_posted wdb)((w_user_id w, a) := acct_posted wdb (w_user_id w, a) + n)"
proof -
  let ?q = "deposit_posting w n DEPOSIT ref" and ?\<Gamma> = "correlation_scope (Some (e_correlation_id ev)) \<Gamma>"
  let ?p = "\<lparr>pe_consumer = CONSUMER_NAME, pe_event_id = u, pe_event_type = event_type ev, processed_at = now \<Gamma>\<rparr>"
  let ?db = "wdb\<lparr>processed := processed wdb @ [?p]\<rparr>"
  have run: "dispatch \<Gamma> ev wdb = credit_deposit ?\<Gamma> (e_payload ev) ?db"
    using ev by (simp add: dispatch_def seen_events_def handle_event_def event_type_defs)
  have "get_correlation_id ?\<Gamma> = Some (e_correlation_id ev)" using len(2) by (simp add: correlation_scope_def get_correlation_id_def)
  then have f: "deposit_fits ?\<Gamma> ?db a ?q" using len(1) by - (rule deposit_fits_frame [OF _ _ _ _ _ fits], simp_all add: fits_opt_def)
  have ok': "ledger_ok ?db" using ok by (simp add: processed_invisible)
  have r': "room ?db (p_user_id ?q, a) (p_amount ?q)" using rm by (simp add: room_def)
  have d': "deposit_of ''block_hash'' (e_payload ev) ?db w a n ref" using d deposit_of_frame [of ?db wdb] by simp
  have acct: "acct_posted ?db = acct_posted wdb" "acct_reserved ?db = acct_reserved wdb" by (simp_all add: acct_posted_def acct_reserved_def fun_eq_iff)
  obtain db' where "post_one ?\<Gamma> a ?q (?db, 0) = Inr (db', 1)" "ledger_ok db'" "acct_reserved db' = acct_reserved ?db"
    "acct_posted db' = (acct_posted ?db)((w_user_id w, a) := acct_posted ?db (w_user_id w, a) + n)"
    using post_one_fits [OF ok' f r'] by (metis deposit_posting_sel(1,2))
  then show ?thesis using run acct by (simp add: credit_deposit_eq [OF d'])
qed

lemma reverify_confirms:
  assumes run: "reverify S A c1 c2 \<Gamma> head i db0 db = Inr (db', ''confirmed'')"
    and d0: "row_of d_id i (deposits db0) = Some d0" "locate A c1 c2 d0 = Inr (Some (block, hash))" and d: "row_of d_id i (deposits db) = Some d"
  shows "\<exists>d2 p db1. dep_immut d2 = dep_immut d \<and> d_block_hash d2 = hash \<and> deposit_payload d2 None = Inr p \<and>
    emit (correlation_scope (Some (deposit_cid (d_tx_hash d))) \<Gamma>) DEPOSIT_CONFIRMED p (deposit_event_key d hash)
      (Some (deposit_cid (d_tx_hash d))) db = Inr db1 \<and> c_outbox db' = c_outbox db1"
proof -
  let ?d2 = "d\<lparr>d_block_number := block, d_block_hash := hash, d_confirmations := max 0 (head - block + 1),
      d_status := DepConfirmed, d_confirmed_at := Some (now \<Gamma>)\<rparr>"
  have k: "deposit_event_key ?d2 hash = deposit_event_key d hash" by (simp add: deposit_event_key_def)
  from run d0 d obtain p db1 where "deposit_payload ?d2 None = Inr p" and sv: "save_deposit ?d2 db1 = Inr db'"
    "emit (correlation_scope (Some (deposit_cid (d_tx_hash d))) \<Gamma>) DEPOSIT_CONFIRMED p (deposit_event_key d hash) (Some (deposit_cid (d_tx_hash d))) db = Inr db1"
    using k by (auto simp: reverify_def reverify_apply_def Let_def bindr_eq_Inr split: if_splits)
  moreover have "c_outbox db' = c_outbox db1" using sv(1) by (auto simp: save_deposit_def bindr_eq_Inr)
  moreover have "dep_immut ?d2 = dep_immut d" "d_block_hash ?d2 = hash" by (simp_all add: dep_immut_def)
  ultimately show ?thesis by blast
qed

text \<open>
  Property C11. A deposit that the chain service confirms reaches its owner: the event that the
  service enqueues, dispatched by a wallet service that knows the address, credits
  exactly the amount of the deposit, in its asset, to the owner of the address, and moves
  nothing else.
\<close>

theorem deposit_end_to_end:
  assumes chain: "chain_steps U S A empty_cdb db" "reverify S A c1 c2 \<Gamma> head i db0 db = Inr (db', ''confirmed'')"
      "row_of d_id i (deposits db0) = Some d0" "locate A c1 c2 d0 = Inr (Some (block, hash))" "row_of d_id i (deposits db) = Some d"
    and new: "deposit_event \<Gamma> DEPOSIT_CONFIRMED (deposit_event_key d hash) \<notin> event_ids db"
      "deposit_event \<Gamma> DEPOSIT_CONFIRMED (deposit_event_key d hash) \<notin> seen_events wdb"
    and wallet: "ledger_ok wdb" "wallet_by_address (d_to_address d) wdb = Some w"
      "deposit_fits \<Gamma>w wdb (d_asset d) (deposit_posting w (d_amount d) DEPOSIT (deposit_event_key d hash))"
      "room wdb (w_user_id w, d_asset d) (d_amount d)"
  shows "\<exists>ev wdb'. queued db' ev \<and> event_type ev = DEPOSIT_CONFIRMED \<and> dispatch \<Gamma>w ev wdb = Inr (wdb', ''processed'') \<and> ledger_ok wdb' \<and>
    acct_reserved wdb' = acct_reserved wdb \<and>
    acct_posted wdb' = (acct_posted wdb)((w_user_id w, d_asset d) := acct_posted wdb (w_user_id w, d_asset d) + d_amount d)"
proof -
  let ?corr = "deposit_cid (d_tx_hash d)" let ?\<Gamma> = "correlation_scope (Some ?corr) \<Gamma>" let ?k = "deposit_event_key d hash"
  obtain d2 p db1 where d2: "dep_immut d2 = dep_immut d" "d_block_hash d2 = hash" and p: "deposit_payload d2 None = Inr p"
    and em: "emit ?\<Gamma> DEPOSIT_CONFIRMED p ?k (Some ?corr) db = Inr db1" and ob: "c_outbox db' = c_outbox db1"
    using reverify_confirms [OF chain(2-5)] by blast
  let ?ev = "new_event ?\<Gamma> DEPOSIT_CONFIRMED p CHAIN_PRODUCER (Some ?k) (Some ?corr) None"
  have im: "d_asset d2 = d_asset d" "d_amount d2 = d_amount d" "d_to_address d2 = d_to_address d" "deposit_event_key d2 = deposit_event_key d"
    using d2(1) by (simp_all add: dep_immut_def deposit_event_key_def fun_eq_iff)
  have "dep_stored d" using chain_reachable [OF chain(1)] row_of_Some [OF chain(5)] by (simp add: chaindb_ok_def deps_ok_def)
  then have amt: "\<bar>d_amount d2\<bar> < 10 ^ 78" using im by (simp add: dep_stored_def)
  have names: "deposit_of ''block_hash'' (e_payload ?ev) wdb w (d_asset d) (d_amount d) ?k"
    using deposit_payload_names [OF p amt, of wdb w] wallet(2) im d2(2) by (simp add: new_event_def)
  have q: "queued db' ?ev"
    using emit_queued [OF em deposit_key_nonempty] new(1) ob by (simp add: queued_def deposit_event_def)
  have cid: "e_correlation_id ?ev = ?corr" using deposit_cid_short(2) by (simp add: new_event_def first_nonempty_def)
  have id: "uuid_of_string (event_id ?ev) = Some (deposit_event \<Gamma> DEPOSIT_CONFIRMED ?k)" using deposit_key_nonempty by (simp add: deposit_event_def)
  have len: "length (e_correlation_id ?ev) \<le> 64" "e_correlation_id ?ev \<noteq> []" using cid deposit_cid_short [of "d_tx_hash d"] by simp_all
  have ty: "event_type ?ev = DEPOSIT_CONFIRMED" by (simp add: new_event_def)
  from dispatch_credits [OF wallet(1) ty id new(2) len names wallet(3,4)] q ty show ?thesis by blast
qed

section \<open>Transfers\<close>

text \<open>The row that an accepted request of the wallet creates.\<close>

definition row_matches :: "transfer \<Rightarrow> outgoing \<Rightarrow> bool" where
  "row_matches t r = (og_transfer_id r = t_id t \<and> og_network r = t_network t \<and> og_from_address r = from_address t \<and>
     og_to_address r = to_address t \<and> og_amount r = t_amount t)"

lemma insert_outgoing_fits:
  assumes len: "length network \<le> 32" "length asset \<le> 16" "length f \<le> 64" "length t \<le> 64" "length corr \<le> 64" and n: "0 < n" "n < 10 ^ 78"
    and new: "row_of og_transfer_id tid (outgoings db) = None" "row_of og_id (uuid4 \<Gamma> (c_draws db)) (outgoings db) = None"
  shows "\<exists>r. insert_outgoing \<Gamma> tid network asset f t n (Some corr) db =
      Inr (db\<lparr>c_draws := Suc (c_draws db), outgoings := outgoings db @ [r]\<rparr>, Some r) \<and>
    og_transfer_id r = tid \<and> og_network r = network \<and> og_asset r = asset \<and> og_from_address r = f \<and> og_to_address r = t \<and> og_amount r = n \<and>
    og_status r = TxCreated \<and> og_attempts r = 0"
  using assms by (simp add: insert_outgoing_def check_outgoing_def int4_def numeric78_def Let_def del: power_numeral)

lemma accept_requested:
  assumes t: "0 < t_amount t" "t_amount t < 10 ^ 78" and len: "length (t_network t) \<le> 32" "length (symbol a) \<le> 16"
      "length (from_address t) \<le> 64" "length (to_address t) \<le> 64" "length corr \<le> 64"
    and known: "row_of ad_address (from_address t) (addresses db) \<noteq> None"
    and new: "row_of og_transfer_id (t_id t) (outgoings db) = None" "row_of og_id (uuid4 \<Gamma> (c_draws db)) (outgoings db) = None"
  shows "\<exists>db' r. accept_transfer_request \<Gamma> (requested_payload a t) corr db = Inr (db', ''processed'') \<and>
    outgoings db' = outgoings db @ [r] \<and> row_matches t r \<and> og_asset r = symbol a \<and> og_status r = TxCreated \<and> og_attempts r = 0"
proof -
  obtain r where r: "insert_outgoing \<Gamma> (t_id t) (t_network t) (symbol a) (from_address t) (to_address t) (t_amount t) (Some corr) db =
      Inr (db\<lparr>c_draws := Suc (c_draws db), outgoings := outgoings db @ [r]\<rparr>, Some r)" "row_matches t r" "og_asset r = symbol a"
      "og_status r = TxCreated" "og_attempts r = 0"
    using insert_outgoing_fits [OF len t new] by (auto simp: row_matches_def)
  obtain x where known: "row_of ad_address (from_address t) (addresses db) = Some x" using assms(8) by blast
  have amt: "jint (JStr (py_str (t_amount t))) = Inr (t_amount t)" using t by (intro jint_str) (simp del: power_numeral)
  have "accept_transfer_request \<Gamma> (requested_payload a t) corr db =
      Inr (db\<lparr>c_draws := Suc (c_draws db), outgoings := outgoings db @ [r]\<rparr>, ''processed'')"
    using r(1) known len amt by (simp add: accept_transfer_request_def requested_payload_def jreq_def jget_def get_default_def text_column_def del: jint.simps)
  then show ?thesis using r by auto
qed

text \<open>Every payload about a transaction names the transfer it was made for.\<close>

lemma payloads_name_transfer:
  assumes "broadcasted_payload r h = Inr p \<or> confirmed_payload r h rc = Inr p \<or> failure_payload r reason code = Inr p"
  shows "load_for_update p wdb = Inr (row_of t_id (og_transfer_id r) (transfers wdb))"
  using assms by (auto simp: broadcasted_payload_def confirmed_payload_def failure_payload_def bindr_eq_Inr load_for_update_def jreq_def jget_def)


lemma check_confirms:
  assumes run: "check_one S A c \<Gamma> head i db0 db = Inr (db', ''confirmed'')"
    and r: "row_of og_id i (outgoings db0) = Some r0" "og_tx_hash r0 = Some h" "row_of og_id i (outgoings db) = Some r"
  shows "\<exists>r2 rc p db1. out_immut r2 = out_immut r \<and> confirmed_payload r2 h rc = Inr p \<and>
    emit (correlation_scope (og_correlation_id r) \<Gamma>) TX_CONFIRMED p (uuid_str (og_transfer_id r) @ '':'' @ h @ '':confirmed'') (og_correlation_id r) db = Inr db1 \<and>
    c_outbox db' = c_outbox db1"
proof -
  from run r obtain receipt where ap: "check_apply S \<Gamma> head h receipt r0 r db = Inr (db', ''confirmed'')"
    by (auto simp: check_one_def bindr_eq_Inr split: if_splits)
  then obtain rc where rc: "receipt = Some rc"
    by (cases receipt) (auto simp: check_apply_def mark_outgoing_reorged_def handle_stuck_def Let_def bindr_eq_Inr split: if_splits option.splits)
  let ?r2 = "r\<lparr>og_block_number := Some (rc_block_number rc), og_block_hash := Some (rc_block_hash rc),
     og_confirmations := max 0 (head - rc_block_number rc + 1), og_status := TxConfirmed\<rparr>"
  from ap rc obtain p db1 where p: "confirmed_payload ?r2 h rc = Inr p" and sv: "save_outgoing (correlation_scope (og_correlation_id r) \<Gamma>) ?r2 db1 = Inr db'"
    and em: "emit (correlation_scope (og_correlation_id r) \<Gamma>) TX_CONFIRMED p (uuid_str (og_transfer_id r) @ '':'' @ h @ '':confirmed'') (og_correlation_id r) db = Inr db1"
    by (auto simp: check_apply_def Let_def bindr_eq_Inr split: if_splits)
  have "c_outbox db' = c_outbox db1" using sv by (auto simp: save_outgoing_def bindr_eq_Inr split: if_splits)
  moreover have "out_immut ?r2 = out_immut r" by (simp add: out_immut_def)
  ultimately show ?thesis using p em by blast
qed

text \<open>A transaction confirmation that the wallet has not seen settles an open transfer.\<close>

definition settle_ready :: "env \<Rightarrow> wdb \<Rightarrow> transfer \<Rightarrow> bool" where
  "settle_ready \<Gamma> db t = (is_open t \<and> fits_opt 48 (failure_code t) \<and> t_amount t < 10 ^ 78 \<and> - (2 ^ 63) \<le> from_user_id t \<and> from_user_id t < 2 ^ 63 \<and>
     - (2 ^ 63) \<le> to_user_id t \<and> to_user_id t < 2 ^ 63 \<and> fresh_pair \<Gamma> db \<and> settle_room db t)"

lemma dispatch_settles:
  assumes ok: "ledger_ok wdb" "transfers_ok wdb" and ev: "event_type ev = TX_CONFIRMED" "uuid_of_string (event_id ev) = Some u" "u \<notin> seen_events wdb"
    and len: "length (e_correlation_id ev) \<le> 64" "e_correlation_id ev \<noteq> []" "fits_opt 80 (pget_or (e_payload ev) ''tx_hash'' (t_tx_hash t))"
    and t: "load_for_update (e_payload ev) wdb = Inr (Some t)" "settle_ready \<Gamma> wdb t"
  shows "\<exists>wdb' t'. dispatch \<Gamma> ev wdb = Inr (wdb', ''processed'') \<and> ledger_ok wdb' \<and> transfers_ok wdb' \<and>
    acct_posted wdb' = (acct_posted wdb)((from_user_id t, t_asset t) := acct_posted wdb (from_user_id t, t_asset t) - t_amount t,
       (to_user_id t, t_asset t) := acct_posted wdb (to_user_id t, t_asset t) + t_amount t) \<and>
    acct_reserved wdb' = (acct_reserved wdb)((from_user_id t, t_asset t) := acct_reserved wdb (from_user_id t, t_asset t) - t_amount t) \<and>
    row_of t_id (t_id t) (transfers wdb') = Some t' \<and> t_status t' = CONFIRMED"
proof -
  let ?\<Gamma> = "correlation_scope (Some (e_correlation_id ev)) \<Gamma>"
  let ?p = "\<lparr>pe_consumer = CONSUMER_NAME, pe_event_id = u, pe_event_type = event_type ev, processed_at = now \<Gamma>\<rparr>"
  let ?db = "wdb\<lparr>processed := processed wdb @ [?p]\<rparr>"
  have run: "dispatch \<Gamma> ev wdb = settle_transfer ?\<Gamma> (e_payload ev) ?db"
    using ev by (simp add: dispatch_def seen_events_def handle_event_def event_type_defs)
  have ok': "ledger_ok ?db" "transfers_ok ?db" using ok by (simp_all add: processed_invisible)
  have row: "load_for_update (e_payload ev) ?db = Inr (Some t)" using t(1) by (simp add: load_for_update_def)
  have op: "is_open t" using t(2) by (simp add: settle_ready_def)
  have "cid ?\<Gamma> = Some (e_correlation_id ev)" using len(2) by (simp add: correlation_scope_def)
  then have fits: "settle_fits ?\<Gamma> (e_payload ev) t" using t(2) len(1,3) by (simp add: settle_fits_def settle_ready_def fits_opt_def)
  have fr: "fresh_pair ?\<Gamma> ?db" and rm: "settle_room ?db t" using t(2) by (simp_all add: settle_ready_def fresh_pair_def settle_room_def room_def cong: option.case_cong)
  obtain db' where run': "settle_transfer ?\<Gamma> (e_payload ev) ?db = Inr (db', ''processed'')" using settle_total [OF ok' row op fits fr rm] by blast
  note S = settle_spec [OF ok' run' row op]
  have acct: "acct_posted ?db = acct_posted wdb" "acct_reserved ?db = acct_reserved wdb" by (simp_all add: acct_posted_def acct_reserved_def fun_eq_iff)
  have mem: "t \<in> set (transfers wdb)" using load_for_update_eq [OF t(1)] row_of_Some by fast
  have ne: "from_user_id t \<noteq> to_user_id t" using transfers_okD(4) [OF ok(2) mem] .
  have "acct_posted db' = (acct_posted wdb)((from_user_id t, t_asset t) := acct_posted wdb (from_user_id t, t_asset t) - t_amount t,
       (to_user_id t, t_asset t) := acct_posted wdb (to_user_id t, t_asset t) + t_amount t)"
    using S(5) ne acct by (auto simp: delta_settle fun_eq_iff)
  then show ?thesis using run run' S(2,3,6,7) acct by auto
qed

text \<open>
  Property C13. A confirmation on the chain settles the transfer: when the watcher confirms a
  transaction for the first time, the event that it enqueues, dispatched by the wallet
  service while the transfer is open, releases the hold, moves exactly the amount of the
  transfer from the sender to the recipient, and makes the transfer \<open>CONFIRMED\<close>.
\<close>

theorem confirmation_end_to_end:
  assumes chain: "check_one S A c \<Gamma> head i db0 db = Inr (db', ''confirmed'')" "row_of og_id i (outgoings db0) = Some r0" "og_tx_hash r0 = Some h"
      "row_of og_id i (outgoings db) = Some r" "og_correlation_id r = Some corr" "corr \<noteq> []" "length corr \<le> 64" "length h \<le> 80"
    and new: "tx_event (uuid5 \<Gamma>) TX_CONFIRMED r (h @ '':confirmed'') \<notin> event_ids db"
      "tx_event (uuid5 \<Gamma>) TX_CONFIRMED r (h @ '':confirmed'') \<notin> seen_events wdb"
    and wallet: "ledger_ok wdb" "transfers_ok wdb" "row_of t_id (og_transfer_id r) (transfers wdb) = Some t" "settle_ready \<Gamma>w wdb t" "fits_opt 80 (t_tx_hash t)"
  shows "\<exists>ev wdb' t'. queued db' ev \<and> dispatch \<Gamma>w ev wdb = Inr (wdb', ''processed'') \<and> ledger_ok wdb' \<and> transfers_ok wdb' \<and>
    acct_posted wdb' = (acct_posted wdb)((from_user_id t, t_asset t) := acct_posted wdb (from_user_id t, t_asset t) - t_amount t,
       (to_user_id t, t_asset t) := acct_posted wdb (to_user_id t, t_asset t) + t_amount t) \<and>
    acct_reserved wdb' = (acct_reserved wdb)((from_user_id t, t_asset t) := acct_reserved wdb (from_user_id t, t_asset t) - t_amount t) \<and>
    row_of t_id (t_id t) (transfers wdb') = Some t' \<and> t_status t' = CONFIRMED"
proof -
  let ?\<Gamma> = "correlation_scope (Some corr) \<Gamma>" and ?k = "uuid_str (og_transfer_id r) @ '':'' @ h @ '':confirmed''"
  obtain r2 rc p db1 where im: "out_immut r2 = out_immut r" and p: "confirmed_payload r2 h rc = Inr p"
    and em: "emit ?\<Gamma> TX_CONFIRMED p ?k (Some corr) db = Inr db1" and ob: "c_outbox db' = c_outbox db1"
    using check_confirms [OF chain(1-4)] chain(5) by auto
  let ?ev = "new_event ?\<Gamma> TX_CONFIRMED p CHAIN_PRODUCER (Some ?k) (Some corr) None"
  have q: "queued db' ?ev" using emit_queued [OF em] new(1) ob by (simp add: queued_def tx_event_def)
  have ty: "event_type ?ev = TX_CONFIRMED" by (simp add: new_event_def)
  have id: "uuid_of_string (event_id ?ev) = Some (tx_event (uuid5 \<Gamma>) TX_CONFIRMED r (h @ '':confirmed''))" by (simp add: tx_event_def)
  have len: "length (e_correlation_id ?ev) \<le> 64" "e_correlation_id ?ev \<noteq> []" using chain(6,7) by (simp_all add: new_event_def first_nonempty_def)
  have hash: "fits_opt 80 (pget_or (e_payload ?ev) ''tx_hash'' (t_tx_hash t))"
    using p chain(8) wallet(5) by (auto simp: new_event_def confirmed_payload_def bindr_eq_Inr pget_or_def jget_def fits_opt_def)
  have row: "load_for_update (e_payload ?ev) wdb = Inr (Some t)"
    using payloads_name_transfer [of r2 h p rc] p out_immut_sel(2) [OF im] wallet(3) by (simp add: new_event_def)
  from dispatch_settles [OF wallet(1,2) ty id new(2) len hash row wallet(4)] q show ?thesis by blast
qed

section \<open>The flows on samples\<close>

definition sample_owner :: wdb where
  "sample_owner = sample_wdb\<lparr>wallets := [sample_wallet 1 ''0xa'', sample_wallet 2 ''0x0'']\<rparr>"

definition wide_settings :: chain_settings where "wide_settings = sample_settings\<lparr>scan_batch_blocks := 200\<rparr>"

lemma sample_scanned_reached:
  "\<exists>db. chain_steps (uuid5 sample_env) wide_settings sample_port empty_cdb db \<and> deposits db = [new_deposit sample_env 2 sample_log] \<and>
     event_ids db \<subseteq> {uuid5 sample_env (event_name DEPOSIT_DETECTED ''BSC:0xt:0:0xb'')}"
proof -
  have logs: "block_number_at sample_port () = Inr 5" "block_hash_at sample_port () 5 = Inr (Some ''0xb'')"
    "transfer_logs_at sample_port () 1 5 [''0x0''] = Inr [sample_log]"
    by (simp_all add: sample_port_def sample_log_def)
  obtain db rep where run: "scanner_run_once wide_settings sample_port (\<lambda>_. ()) sample_env sample_cdb sample_cdb sample_cdb = Inr (db, rep)"
    and db: "deposits db = deposits sample_scanned" "c_outbox db = c_outbox sample_scanned"
    using logs sample_scan(1) by (auto simp: scanner_run_once_def rewind_def cursor_of_def sample_cdb_facts wide_settings_def sample_settings_def
        sample_external set_cursor_def int8_def Let_def simp del: upsert_all.simps)
  from chain_step.scan [OF refl run] have "chain_steps (uuid5 sample_env) wide_settings sample_port empty_cdb db"
    using sample_reached(1) by (rule rtranclp.rtrancl_into_rtrancl [rotated])
  then show ?thesis using db sample_scan(2) sample_scan_events by (intro exI [of _ db]) (simp add: event_ids_def)
qed

theorem deposit_end_to_end_witness:
  "\<exists>db db' ev wdb'. reverify wide_settings sample_port () () sample_env 5 2 db db = Inr (db', ''confirmed'') \<and> queued db' ev \<and>
     dispatch sample_env ev sample_owner = Inr (wdb', ''processed'') \<and>
     acct_posted wdb' (2, ''USDT'') = acct_posted sample_owner (2, ''USDT'') + 500"
proof -
  let ?d = "new_deposit sample_env 2 sample_log" and ?w = "sample_wallet 2 ''0x0''"
  obtain db where reach: "chain_steps (uuid5 sample_env) wide_settings sample_port empty_cdb db" and dep: "deposits db = [?d]"
    and ids: "event_ids db \<subseteq> {uuid5 sample_env (event_name DEPOSIT_DETECTED ''BSC:0xt:0:0xb'')}"
    using sample_scanned_reached by blast
  have row: "row_of d_id 2 (deposits db) = Some ?d" by (simp add: dep new_deposit_def)
  obtain db' where run: "reverify wide_settings sample_port () () sample_env 5 2 db db = Inr (db', ''confirmed'')"
    using sample_confirms [OF dep, of wide_settings] by (auto simp: wide_settings_def sample_settings_def)
  have k: "deposit_event_key ?d ''0xb'' = ''BSC:0xt:0:0xb''" by code_simp
  have new: "deposit_event sample_env DEPOSIT_CONFIRMED (deposit_event_key ?d ''0xb'') \<notin> event_ids db"
    using ids sample_fresh_name by (auto simp: deposit_event_def k)
  have seen: "deposit_event sample_env DEPOSIT_CONFIRMED (deposit_event_key ?d ''0xb'') \<notin> seen_events sample_owner"
    by (simp add: seen_events_def sample_owner_def sample_wdb_def empty_wdb_def)
  have d: "d_to_address ?d = ''0x0''" "d_asset ?d = ''USDT''" "d_amount ?d = 500" by (simp_all add: new_deposit_def sample_log_def)
  have w: "wallet_by_address (d_to_address ?d) sample_owner = Some ?w" unfolding d by code_simp
  have q: "deposit_posting ?w 500 DEPOSIT ''BSC:0xt:0:0xb'' =
      \<lparr>p_user_id = 2, p_amount = 500, p_entry_type = DEPOSIT, p_reference_type = DEPOSIT_REF, p_reference_id = ''BSC:0xt:0:0xb''\<rparr>"
    by (simp add: deposit_posting_def sample_wallet_def)
  have fits: "deposit_fits sample_env sample_owner (d_asset ?d) (deposit_posting ?w (d_amount ?d) DEPOSIT (deposit_event_key ?d ''0xb''))"
    unfolding d k q by code_simp
  have rm: "room sample_owner (w_user_id ?w, d_asset ?d) (d_amount ?d)" unfolding d by code_simp
  have ok: "ledger_ok sample_owner" by code_simp
  have u: "w_user_id ?w = 2" by (simp add: sample_wallet_def)
  obtain ev wdb' where "queued db' ev" "dispatch sample_env ev sample_owner = Inr (wdb', ''processed'')"
    "acct_posted wdb' = (acct_posted sample_owner)((2, ''USDT'') := acct_posted sample_owner (2, ''USDT'') + 500)"
    using deposit_end_to_end [OF reach run row sample_located row new seen ok w fits rm] unfolding d u by blast
  with run show ?thesis by (intro exI [of _ db] exI [of _ db'] exI [of _ ev] exI [of _ wdb']) simp
qed


definition mined_port :: "unit chain_adapter" where
  "mined_port = sample_port\<lparr>receipt_at := \<lambda>_ h. Inr (Some \<lparr>rc_tx_hash = h, rc_block_number = 2, rc_block_hash = ''0xb'', rc_status = 1\<rparr>)\<rparr>"

lemma sample_confirmation:
  assumes "outgoings db = [sample_sent_row\<lparr>og_transfer_id := 1\<rparr>]"
  shows "\<exists>db'. check_one sample_settings mined_port () sample_env 5 2 db db = Inr (db', ''confirmed'')"
proof -
  let ?r = "sample_sent_row\<lparr>og_transfer_id := 1\<rparr>"
  let ?rc = "\<lparr>rc_tx_hash = ''0xh'', rc_block_number = 2, rc_block_hash = ''0xb'', rc_status = 1\<rparr>" let ?\<Gamma> = "correlation_scope (Some ''cid-0'') sample_env"
  let ?r2 = "?r\<lparr>og_block_number := Some 2, og_block_hash := Some ''0xb'', og_confirmations := 4, og_status := TxConfirmed\<rparr>"
  let ?k = "uuid_str 1 @ '':'' @ ''0xh'' @ '':confirmed''"
  obtain p where p: "confirmed_payload ?r2 ''0xh'' ?rc = Inr p"
    by (auto simp: confirmed_payload_def bindr_eq_Inr get_asset_eq_Inr sample_sent_row_def sample_outgoing_def py_upper_ascii_def)
  obtain db1 where e: "emit ?\<Gamma> TX_CONFIRMED p ?k (Some ''cid-0'') db = Inr db1"
    using emit_total [of ?k TX_CONFIRMED "Some ''cid-0''" ?\<Gamma> p db] by (auto simp: TX_CONFIRMED_def first_nonempty_def)
  then obtain ob where db1: "db1 = db\<lparr>c_outbox := ob\<rparr>" using emit_spec by fastforce
  have "\<exists>db'. save_outgoing ?\<Gamma> ?r2 db1 = Inr db'"
    by (simp add: save_outgoing_def check_outgoing_def db1 assms sample_sent_row_def sample_outgoing_def int4_def int8_def numeric78_def)
  then show ?thesis using p e assms
    by (auto simp: check_one_def check_apply_def mined_port_def sample_sent_row_def sample_outgoing_def sample_settings_def Let_def)
qed

theorem confirmation_end_to_end_witness:
  "\<exists>db db' ev wdb'. check_one sample_settings mined_port () sample_env 5 2 db db = Inr (db', ''confirmed'') \<and> queued db' ev \<and>
     dispatch sample_env ev sample_db = Inr (wdb', ''processed'') \<and>
     acct_posted wdb' (1, ''USDT'') = 750 \<and> acct_posted wdb' (2, ''USDT'') = 250 \<and> acct_reserved wdb' (1, ''USDT'') = 0"
proof -
  let ?r = "sample_sent_row\<lparr>og_transfer_id := 1\<rparr>" let ?db = "empty_cdb\<lparr>outgoings := [?r]\<rparr>"
  obtain db' where run: "check_one sample_settings mined_port () sample_env 5 2 ?db ?db = Inr (db', ''confirmed'')"
    using sample_confirmation [of ?db] by auto
  have row: "row_of og_id 2 (outgoings ?db) = Some ?r" "og_tx_hash ?r = Some ''0xh''" "og_correlation_id ?r = Some ''cid-0''"
    by (simp_all add: sample_sent_row_def sample_outgoing_def)
  have none: "event_ids ?db = {}" "seen_events sample_db = {}"
    by (simp_all add: event_ids_def empty_cdb_def empty_outbox_def seen_events_def sample_db_def sample_wdb_def empty_wdb_def)
  have t: "row_of t_id (og_transfer_id ?r) (transfers sample_db) = Some sample_t" "fits_opt 80 (t_tx_hash sample_t)"
    by (simp_all add: sample_db_def sample_t_def fits_opt_def)
  have ready: "settle_ready sample_env sample_db sample_t" by code_simp
  have acct: "acct_posted sample_db (1, ''USDT'') = 1000" "acct_posted sample_db (2, ''USDT'') = 0" "acct_reserved sample_db (1, ''USDT'') = 250" by code_simp+
  have f: "from_user_id sample_t = 1" "to_user_id sample_t = 2" "t_asset sample_t = ''USDT''" "t_amount sample_t = 250" by (simp_all add: sample_t_def)
  have e: "tx_event (uuid5 sample_env) TX_CONFIRMED ?r (''0xh'' @ '':confirmed'') \<notin> event_ids ?db"
    "tx_event (uuid5 sample_env) TX_CONFIRMED ?r (''0xh'' @ '':confirmed'') \<notin> seen_events sample_db" unfolding none by simp_all
  obtain ev wdb' where "queued db' ev" "dispatch sample_env ev sample_db = Inr (wdb', ''processed'')"
    "acct_posted wdb' = (acct_posted sample_db)((1, ''USDT'') := acct_posted sample_db (1, ''USDT'') - 250, (2, ''USDT'') := acct_posted sample_db (2, ''USDT'') + 250)"
    "acct_reserved wdb' = (acct_reserved sample_db)((1, ''USDT'') := acct_reserved sample_db (1, ''USDT'') - 250)"
    using confirmation_end_to_end [OF run row(1,2,1,3) _ _ _ e sample_db_ok t(1) ready t(2)] unfolding f by auto
  with run acct show ?thesis by (intro exI [of _ ?db] exI [of _ db'] exI [of _ ev] exI [of _ wdb']) simp
qed

end
