(* ===== verification/Evm.thy ===== *)
theory Evm
  imports EndToEnd
begin

text \<open>
  \<open>blockchain_service/chain/evm.py\<close>: the adapter for a real EVM node. The web3 and eth_account
  libraries are a parameter, a record of the calls the adapter makes on the state \<open>'c\<close> of
  the node; an exception of theirs is its class and its text. The key resolver and the nonce
  allocator are arguments, as they are in the code.
\<close>

section \<open>The libraries\<close>

type_synonym foreign = "string \<times> string"

datatype hexval = HexBytes "8 word list" | HexText string

record raw_log =
  rl_transaction_hash :: "8 word list"
  rl_log_index :: int
  rl_block_number :: int
  rl_block_hash :: "8 word list"
  rl_topics :: "hexval list"
  rl_data :: hexval

record log_filter =
  lf_from_block :: int
  lf_to_block :: int
  lf_address :: string
  lf_topic :: string
  lf_recipients :: "string list option"

record raw_receipt =
  rr_block_number :: "int option"
  rr_block_hash :: "8 word list"
  rr_status :: "int option"

text \<open>The call of the token contract with the transaction fields that the adapter fills in.\<close>

record evm_tx =
  et_recipient :: string
  et_amount :: int
  et_chain_id :: int
  et_sender :: string
  et_nonce :: int
  et_gas :: int
  et_max_fee :: int
  et_priority_fee :: int

record signed_tx =
  sg_raw :: "8 word list"
  sg_hash :: "8 word list"

record 'c web3 =
  to_checksum :: "string \<Rightarrow> foreign + string"
  hex_text :: "8 word list \<Rightarrow> string"
  eth_block_number :: "'c \<Rightarrow> foreign + int"
  eth_block_hash :: "'c \<Rightarrow> int \<Rightarrow> foreign + 8 word list option"
  eth_get_logs :: "'c \<Rightarrow> log_filter \<Rightarrow> foreign + raw_log list"
  eth_receipt :: "'c \<Rightarrow> string \<Rightarrow> foreign + raw_receipt option"
  eth_balance_of :: "'c \<Rightarrow> string \<Rightarrow> foreign + int"
  eth_gas_price :: "'c \<Rightarrow> foreign + int"
  sign_transfer :: "evm_tx \<Rightarrow> string \<Rightarrow> foreign + signed_tx"
  eth_send_raw :: "'c \<Rightarrow> 8 word list \<Rightarrow> 'c \<times> foreign option"

text \<open>An exception of the libraries that the adapter lets through.\<close>

definition passed :: "foreign + 'a \<Rightarrow> 'a result" where
  "passed r = (case r of Inl (cls, text) \<Rightarrow> Inl (ForeignError cls text) | Inr x \<Rightarrow> Inr x)"

section \<open>Topics\<close>

definition TRANSFER_TOPIC :: string where
  "TRANSFER_TOPIC = ''0xddf252ad1be2c89b69c2b068fc378daa952ba7f163c4a11628f55a4df523b3ef''"

definition address_topic :: "string \<Rightarrow> string" where
  "address_topic address = ''0x'' @ zpad 64 (py_removeprefix ''0x'' (py_lower address))"

definition hex_of :: "'c web3 \<Rightarrow> hexval \<Rightarrow> string" where
  "hex_of W v = (case v of HexBytes bs \<Rightarrow> hex_text W bs | HexText s \<Rightarrow> s)"

definition topic_to_address :: "'c web3 \<Rightarrow> hexval \<Rightarrow> string" where
  "topic_to_address W topic =
     (let s = py_removeprefix ''0x'' (hex_of W topic) in ''0x'' @ drop (length s - 40) s)"

section \<open>The adapter\<close>

record evm_config =
  ev_chain_id :: int
  ev_token_address :: string
  ev_network :: string
  ev_asset :: string
  ev_gas_limit :: int

definition web3_block_hash :: "'c web3 \<Rightarrow> 'c \<Rightarrow> int \<Rightarrow> string option result" where
  "web3_block_hash W c n = (case eth_block_hash W c n of Inl _ \<Rightarrow> Inr None | Inr b \<Rightarrow> Inr (map_option (hex_text W) b))"

definition log_amount :: "hexval \<Rightarrow> int result" where
  "log_amount v =
     (case v of
        HexText s \<Rightarrow> (case py_int 16 s of None \<Rightarrow> Inl (ValueError ''invalid literal for int() with base 16'') | Some n \<Rightarrow> Inr n)
      | HexBytes bs \<Rightarrow> Inr (foldl (\<lambda>a b. a * 256 + uint b) 0 bs))"

definition transfer_log_of :: "'c web3 \<Rightarrow> evm_config \<Rightarrow> raw_log \<Rightarrow> transfer_log result" where
  "transfer_log_of W cfg l =
     (if length (rl_topics l) < 3 then Inl (LookupError ''list index out of range'')
      else bindr (log_amount (rl_data l)) (\<lambda>n. Inr \<lparr>lg_network = ev_network cfg, lg_asset = ev_asset cfg,
        lg_tx_hash = hex_text W (rl_transaction_hash l), lg_log_index = rl_log_index l, lg_block_number = rl_block_number l,
        lg_block_hash = hex_text W (rl_block_hash l), lg_from_address = topic_to_address W (rl_topics l ! 1),
        lg_to_address = topic_to_address W (rl_topics l ! 2), lg_amount = n\<rparr>))"

fun transfer_logs_of :: "'c web3 \<Rightarrow> evm_config \<Rightarrow> raw_log list \<Rightarrow> transfer_log list result" where
  "transfer_logs_of W cfg [] = Inr []"
| "transfer_logs_of W cfg (l # ls) = bindr (transfer_log_of W cfg l) (\<lambda>e. bindr (transfer_logs_of W cfg ls) (\<lambda>es. Inr (e # es)))"

definition web3_transfer_logs :: "'c web3 \<Rightarrow> evm_config \<Rightarrow> 'c \<Rightarrow> int \<Rightarrow> int \<Rightarrow> string list \<Rightarrow> transfer_log list result" where
  "web3_transfer_logs W cfg c from_block to_block watched =
     bindr (passed (eth_get_logs W c \<lparr>lf_from_block = from_block, lf_to_block = to_block, lf_address = ev_token_address cfg,
       lf_topic = TRANSFER_TOPIC, lf_recipients = (if watched = [] then None else Some (map address_topic watched))\<rparr>))
       (transfer_logs_of W cfg)"

definition web3_receipt :: "'c web3 \<Rightarrow> 'c \<Rightarrow> string \<Rightarrow> tx_receipt option result" where
  "web3_receipt W c tx_hash =
     (case eth_receipt W c tx_hash of
        Inl (cls, text) \<Rightarrow> if py_in ''not found'' (py_lower text) \<or> cls = ''TransactionNotFound'' then Inr None else Inl (RpcUnavailableError text)
      | Inr None \<Rightarrow> Inr None
      | Inr (Some r) \<Rightarrow>
          (case rr_block_number r of
             None \<Rightarrow> Inr None
           | Some n \<Rightarrow> Inr (Some \<lparr>rc_tx_hash = tx_hash, rc_block_number = n, rc_block_hash = hex_text W (rr_block_hash r),
               rc_status = (case rr_status r of None \<Rightarrow> 1 | Some s \<Rightarrow> s)\<rparr>)))"

definition web3_balance :: "'c web3 \<Rightarrow> 'c \<Rightarrow> string \<Rightarrow> int result" where
  "web3_balance W c address = bindr (passed (to_checksum W address)) (\<lambda>a. passed (eth_balance_of W c a))"

text \<open>The transaction of a transfer: the fees follow the gas price at the time of the submission.\<close>

definition transfer_tx :: "evm_config \<Rightarrow> string \<Rightarrow> string \<Rightarrow> int \<Rightarrow> int \<Rightarrow> int \<Rightarrow> evm_tx" where
  "transfer_tx cfg sender recipient amount nonce base_fee = \<lparr>et_recipient = recipient, et_amount = amount, et_chain_id = ev_chain_id cfg,
     et_sender = sender, et_nonce = nonce, et_gas = ev_gas_limit cfg, et_max_fee = base_fee * 2, et_priority_fee = base_fee\<rparr>"

definition signed_transfer :: "'c web3 \<Rightarrow> evm_config \<Rightarrow> (string \<Rightarrow> string result) \<Rightarrow> (string \<Rightarrow> string \<Rightarrow> int result) \<Rightarrow>
    'c \<Rightarrow> string \<Rightarrow> string \<Rightarrow> int \<Rightarrow> string \<Rightarrow> signed_tx result" where
  "signed_transfer W cfg key_of nonce_of c from_addr to_addr amount client_ref =
     bindr (passed (to_checksum W from_addr)) (\<lambda>sender.
     bindr (passed (to_checksum W to_addr)) (\<lambda>recipient.
     bindr (nonce_of sender client_ref) (\<lambda>nonce.
     bindr (key_of sender) (\<lambda>private_key.
     bindr (passed (eth_gas_price W c)) (\<lambda>base_fee.
       passed (sign_transfer W (transfer_tx cfg sender recipient amount nonce base_fee) private_key))))))"

definition web3_send :: "'c web3 \<Rightarrow> evm_config \<Rightarrow> (string \<Rightarrow> string result) \<Rightarrow> (string \<Rightarrow> string \<Rightarrow> int result) \<Rightarrow>
    'c \<Rightarrow> string \<Rightarrow> string \<Rightarrow> int \<Rightarrow> string \<Rightarrow> 'c \<times> string result" where
  "web3_send W cfg key_of nonce_of c from_addr to_addr amount client_ref =
     (case signed_transfer W cfg key_of nonce_of c from_addr to_addr amount client_ref of
        Inl e \<Rightarrow> (c, Inl e)
      | Inr s \<Rightarrow>
          let tx_hash = hex_text W (sg_hash s) in
          (case eth_send_raw W c (sg_raw s) of
             (c1, None) \<Rightarrow> (c1, Inr tx_hash)
           | (c1, Some (cls, text)) \<Rightarrow>
               let message = py_lower text in
               if py_in ''already known'' message \<or> py_in ''nonce too low'' message then (c1, Inr tx_hash)
               else if py_in ''insufficient'' message \<or> py_in ''revert'' message then (c1, Inl (TransactionRejectedError text))
               else (c1, Inl (RpcUnavailableError text))))"

text \<open>The constructor checks the token address.\<close>

definition Web3ChainAdapter :: "'c web3 \<Rightarrow> evm_config \<Rightarrow> (string \<Rightarrow> string result) \<Rightarrow> (string \<Rightarrow> string \<Rightarrow> int result) \<Rightarrow> 'c chain_adapter result" where
  "Web3ChainAdapter W cfg key_of nonce_of =
     bindr (passed (to_checksum W (ev_token_address cfg))) (\<lambda>token.
       let cfg1 = cfg\<lparr>ev_token_address := token\<rparr> in
       Inr \<lparr>port_network = ev_network cfg, port_asset = ev_asset cfg, block_number_at = (\<lambda>c. passed (eth_block_number W c)),
         block_hash_at = web3_block_hash W, transfer_logs_at = web3_transfer_logs W cfg1, receipt_at = web3_receipt W,
         submit = web3_send W cfg1 key_of nonce_of, token_balance_at = web3_balance W\<rparr>)"

text \<open>The callbacks of the service: \<open>client_ref\<close> is the text of the transfer id, compared with a UUID column.\<close>

definition allocate_nonce :: "cdb \<Rightarrow> string \<Rightarrow> string \<Rightarrow> int result" where
  "allocate_nonce db address client_ref =
     (case uuid_of_string client_ref of None \<Rightarrow> Inl (DataError ''transfer_id'') | Some u \<Rightarrow> Inr (nonce_allocator db address u))"

section \<open>Topics and watched\<close>

lemma py_lower_append [simp]: "py_lower (xs @ ys) = py_lower xs @ py_lower ys"
  by (simp add: py_lower_def)

lemma length_py_lower [simp]: "length (py_lower s) = length s"
  by (simp add: py_lower_def)

lemma py_lower_lower [simp]: "py_lower (py_lower s) = py_lower s"
proof -
  have "py_lower_char (py_lower_char c) = py_lower_char c" for c
    by (auto simp: py_lower_char_def Let_def)
  then show ?thesis by (simp add: py_lower_def)
qed

lemma py_lower_drop: "py_lower s = s \<Longrightarrow> py_lower (drop n s) = drop n s"
  by (metis py_lower_def drop_map)

text \<open>The topic of an address of twenty bytes gives the address back, in lower case.\<close>

lemma topic_round_trip:
  assumes "take 2 a = ''0x''" and "length a = 42"
  shows "topic_to_address W (HexText (address_topic a)) = py_lower a"
proof -
  obtain h where a: "a = ''0x'' @ h" and h: "length h = 40" using assms by (metis append_take_drop_id length_drop numeral_eq_Suc diff_Suc_Suc diff_zero pred_numeral_simps(2,3) BitM.simps numeral_2_eq_2)
  have "py_lower ''0x'' = ''0x''" by code_simp
  then have low: "py_lower a = ''0x'' @ py_lower h" unfolding a py_lower_append by simp
  have "address_topic a = ''0x'' @ replicate 24 (CHR ''0'') @ py_lower h" by (simp add: address_topic_def low py_removeprefix_def zpad_def h)
  then show ?thesis by (simp add: topic_to_address_def hex_of_def py_removeprefix_def Let_def h low)
qed

lemma topic_lower:
  assumes "py_lower (hex_of W v) = hex_of W v"
  shows "py_lower (topic_to_address W v) = topic_to_address W v"
proof -
  let ?s = "py_removeprefix ''0x'' (hex_of W v)"
  have x: "py_lower ''0x'' = ''0x''" by code_simp
  have "py_lower ?s = ?s" using py_lower_drop [OF assms] assms by (simp add: py_removeprefix_def)
  then show ?thesis unfolding topic_to_address_def Let_def py_lower_append x by (simp add: py_lower_drop)
qed

lemma logs_of_raw:
  "\<lbrakk>transfer_logs_of W cfg ls = Inr es; e \<in> set es\<rbrakk> \<Longrightarrow> \<exists>l\<in>set ls. 3 \<le> length (rl_topics l) \<and> lg_to_address e = topic_to_address W (rl_topics l ! 2)"
  by (induction ls arbitrary: es) (auto simp: bindr_eq_Inr transfer_log_of_def split: if_splits)

text \<open>
  On the EVM backend no deposit reaches a user whose custody address is in the
  mixed-case checksum form: the adapter reads the recipient of a log from its topic, which
  is lower-case hexadecimal, and the wallet service looks the address up as a text, so the
  event of the confirmed deposit is ignored and nothing is credited.
\<close>

lemma evm_deposit_ignored:
  assumes "Web3ChainAdapter W cfg key_of nonce_of = Inr A"
    and "transfer_logs_at A c lo hi watched = Inr logs" and "e \<in> set logs"
    and lower: "\<And>bs. py_lower (hex_text W bs) = hex_text W bs"
    and bytes: "\<And>flt ls l. \<lbrakk>eth_get_logs W c flt = Inr ls; l \<in> set ls\<rbrakk> \<Longrightarrow> \<forall>v\<in>set (rl_topics l). \<exists>bs. v = HexBytes bs"
    and "d_to_address d = lg_to_address e" and "deposit_payload d n = Inr p"
    and checksummed: "\<And>w. w \<in> set (wallets wdb) \<Longrightarrow> py_lower (w_address w) \<noteq> w_address w"
  shows "credit_deposit \<Gamma> p wdb = Inr (wdb, ''ignored'')"
proof -
  obtain cfg1 flt ls where ls: "eth_get_logs W c flt = Inr ls" "transfer_logs_of W cfg1 ls = Inr logs"
    using assms(1,2) by (auto simp: Web3ChainAdapter_def web3_transfer_logs_def passed_def bindr_eq_Inr Let_def split: sum.splits)
  obtain l where l: "l \<in> set ls" "3 \<le> length (rl_topics l)" "lg_to_address e = topic_to_address W (rl_topics l ! 2)"
    using logs_of_raw [OF ls(2) assms(3)] by blast
  have "rl_topics l ! 2 \<in> set (rl_topics l)" using l(2) by simp
  then obtain bs where "rl_topics l ! 2 = HexBytes bs" using bytes [OF ls(1) l(1)] by blast
  then have "py_lower (lg_to_address e) = lg_to_address e" unfolding l(3) using lower by (intro topic_lower) (simp add: hex_of_def)
  then have "wallet_by_address (d_to_address d) wdb = None"
    using checksummed assms(6) by (auto simp: wallet_by_address_def row_of_None)
  then show ?thesis using assms(7)
    by (auto simp: credit_deposit_def payload_wallet_def deposit_payload_def bindr_eq_Inr jreq_def jget_def)
qed

section \<open>Submissions\<close>

lemma adapter_submit:
  assumes "Web3ChainAdapter W cfg key_of nonce_of = Inr A"
  obtains cfg1 where "submit A = web3_send W cfg1 key_of nonce_of"
  using assms by (auto simp: Web3ChainAdapter_def bindr_eq_Inr Let_def)

lemma passed_Inr [simp]: "passed r = Inr x \<longleftrightarrow> r = Inr x"
  by (auto simp: passed_def split: sum.splits)

text \<open>A node that answers \<open>nonce too low\<close> is reported as if it had the transaction.\<close>

lemma refused_reported:
  assumes "signed_transfer W cfg key_of nonce_of c f t n ref = Inr s"
    and "eth_send_raw W c (sg_raw s) = (c, Some (cls, text))" and "py_in ''nonce too low'' (py_lower text)"
  shows "web3_send W cfg key_of nonce_of c f t n ref = (c, Inr (hex_text W (sg_hash s)))"
  using assms by (simp add: web3_send_def Let_def)

text \<open>
  Documented behaviour of an EVM node: a transaction whose nonce is below the number of
  transactions mined for its sender is refused, and nothing changes.
\<close>

definition refuses_used_nonces :: "'c web3 \<Rightarrow> (string \<Rightarrow> int) \<Rightarrow> 'c \<Rightarrow> bool" where
  "refuses_used_nonces W mined_of c = (\<forall>tx key s. sign_transfer W tx key = Inr s \<and> et_nonce tx < mined_of (et_sender tx) \<longrightarrow>
     (\<exists>cls text. eth_send_raw W c (sg_raw s) = (c, Some (cls, text)) \<and> py_in ''nonce too low'' (py_lower text)))"

text \<open>
  Property C36. On the EVM backend only the first transfer of an address can reach the chain.
  Whatever the service did before, once a transaction of the sender has been mined every
  further transfer of that sender is signed with nonce zero again, the node refuses it as
  \<open>nonce too low\<close>, and the adapter reports it as broadcast with a hash although the node did
  not change.
\<close>

theorem later_transfers_never_sent:
  assumes reach: "chain_steps U S A0 empty_cdb db"
    and adapter: "Web3ChainAdapter W cfg key_of (allocate_nonce db) = Inr A"
    and names: "to_checksum W f = Inr sender" "to_checksum W t = Inr recipient" "key_of sender = Inr key" "eth_gas_price W c = Inr price"
    and signs: "\<And>tx. \<exists>s. sign_transfer W tx key = Inr s"
    and node: "refuses_used_nonces W mined_of c" "0 < mined_of sender"
  shows "\<exists>h. submit A c f t n (uuid_str transfer_id) = (c, Inr h)"
proof -
  obtain cfg1 where sub: "submit A = web3_send W cfg1 key_of (allocate_nonce db)" using adapter_submit [OF adapter] by blast
  let ?tx = "transfer_tx cfg1 sender recipient n 0 price"
  obtain s where s: "sign_transfer W ?tx key = Inr s" using signs by blast
  have zero: "allocate_nonce db sender (uuid_str transfer_id) = Inr 0" using allocator_zero [OF reach] by (simp add: allocate_nonce_def)
  have run: "signed_transfer W cfg1 key_of (allocate_nonce db) c f t n (uuid_str transfer_id) = Inr s"
    using names s zero by (simp add: signed_transfer_def passed_def)
  obtain cls msg where r: "eth_send_raw W c (sg_raw s) = (c, Some (cls, msg))" "py_in ''nonce too low'' (py_lower msg)"
    using node s by (fastforce simp: refuses_used_nonces_def transfer_tx_def)
  from refused_reported [OF run r] show ?thesis unfolding sub by blast
qed

text \<open>
  On the EVM backend a retry does not repeat the transaction. When a submission
  reached the node and is retried after the gas price moved, the fees and so the signed
  transaction differ; if the first one has been mined meanwhile, the node refuses the second
  as \<open>nonce too low\<close> and the adapter returns the hash of the refused transaction, which is
  not the hash of the one on the chain.
\<close>

lemma resend_reports_other_hash:
  assumes adapter: "Web3ChainAdapter W cfg key_of nonce_of = Inr A"
    and first: "submit A c f t n ref = (c1, Inr h)"
    and prices: "eth_gas_price W c = Inr price" "eth_gas_price W c2 = Inr price2" "price2 \<noteq> price"
    and signs: "\<And>tx key. \<exists>s. sign_transfer W tx key = Inr s"
    and hashes: "\<And>tx tx' key s s'. \<lbrakk>sign_transfer W tx key = Inr s; sign_transfer W tx' key = Inr s'; hex_text W (sg_hash s) = hex_text W (sg_hash s')\<rbrakk> \<Longrightarrow>
      et_max_fee tx = et_max_fee tx'"
    and node: "refuses_used_nonces W mined_of c2" "to_checksum W f = Inr sender" "nonce_of sender ref = Inr nonce" "nonce < mined_of sender"
  shows "\<exists>h'. submit A c2 f t n ref = (c2, Inr h') \<and> h' \<noteq> h"
proof -
  obtain cfg1 where sub: "submit A = web3_send W cfg1 key_of nonce_of" using adapter_submit [OF adapter] by blast
  obtain s where sg: "signed_transfer W cfg1 key_of nonce_of c f t n ref = Inr s" and h: "h = hex_text W (sg_hash s)"
    using first unfolding sub by (auto simp: web3_send_def Let_def split: sum.splits prod.splits option.splits if_splits)
  obtain recipient key where p: "to_checksum W t = Inr recipient" "key_of sender = Inr key" and s: "sign_transfer W (transfer_tx cfg1 sender recipient n nonce price) key = Inr s"
    using sg prices(1) node(2,3) by (auto simp: signed_transfer_def bindr_eq_Inr)
  obtain s2 where s2: "sign_transfer W (transfer_tx cfg1 sender recipient n nonce price2) key = Inr s2" using signs by blast
  have run: "signed_transfer W cfg1 key_of nonce_of c2 f t n ref = Inr s2" using p node(2,3) prices(2) s2 by (simp add: signed_transfer_def passed_def)
  have "hex_text W (sg_hash s2) \<noteq> h" using hashes [OF s2 s] prices(3) by (auto simp: h transfer_tx_def)
  moreover obtain cls msg where r: "eth_send_raw W c2 (sg_raw s2) = (c2, Some (cls, msg))" "py_in ''nonce too low'' (py_lower msg)"
    using node(1,4) s2 by (fastforce simp: refuses_used_nonces_def transfer_tx_def)
  ultimately show ?thesis unfolding sub using refused_reported [OF run r] by blast
qed

section \<open>A node\<close>

text \<open>
  A node whose state is its gas price: it accepts transactions at price one and refuses them
  afterwards. It has one transfer log, to the address of twenty bytes that ends in ten.
\<close>

definition byte_hex :: "8 word list \<Rightarrow> string" where
  "byte_hex bs = concat (map (\<lambda>b. [digit_char (unat b div 16), digit_char (unat b mod 16)]) bs)"

definition sample_raw_log :: raw_log where
  "sample_raw_log = \<lparr>rl_transaction_hash = [1], rl_log_index = 0, rl_block_number = 3, rl_block_hash = [2],
     rl_topics = [HexBytes [], HexBytes (replicate 32 0), HexBytes (replicate 31 0 @ [10])], rl_data = HexBytes [1, 244]\<rparr>"

definition sample_web3 :: "int web3" where
  "sample_web3 = \<lparr>to_checksum = Inr, hex_text = byte_hex, eth_block_number = (\<lambda>c. Inr 5), eth_block_hash = (\<lambda>c n. Inr (Some [2])),
     eth_get_logs = (\<lambda>c flt. Inr [sample_raw_log]), eth_receipt = (\<lambda>c h. Inl (''TransactionNotFound'', [])), eth_balance_of = (\<lambda>c a. Inr 0),
     eth_gas_price = Inr, sign_transfer = (\<lambda>tx key. Inr \<lparr>sg_raw = [], sg_hash =
       replicate (if 0 \<le> et_max_fee tx then 2 * nat (et_max_fee tx) else Suc (2 * nat (- et_max_fee tx))) 0\<rparr>),
     eth_send_raw = (\<lambda>c raw. if c = 1 then (c, None) else (c, Some (''Web3RPCError'', ''Nonce too low'')))\<rparr>"

definition sample_evm_config :: evm_config where
  "sample_evm_config = \<lparr>ev_chain_id = 97, ev_token_address = ''0xT'', ev_network = ''BSC'', ev_asset = ''USDT'', ev_gas_limit = 120000\<rparr>"

lemma length_byte_hex [simp]: "length (byte_hex bs) = 2 * length bs"
  by (induction bs) (auto simp: byte_hex_def)

lemma byte_hex_lower: "py_lower (byte_hex bs) = byte_hex bs"
proof -
  have "py_lower_char (digit_char d) = digit_char d" if "d < 16" for d
    using that of_char_digit_char [of d] by (auto simp: py_lower_char_def Let_def)
  moreover have "unat b div 16 < 16" for b :: "8 word" using unsigned_less [of b, where ?'a = nat] by (simp add: less_mult_imp_div_less)
  ultimately show ?thesis by (induction bs) (auto simp: byte_hex_def py_lower_def)
qed

lemma sample_refuses: "refuses_used_nonces sample_web3 mined_of 2"
proof -
  have "py_in ''nonce too low'' (py_lower ''Nonce too low'')" by code_simp
  then show ?thesis by (simp add: refuses_used_nonces_def sample_web3_def)
qed

lemma sample_adapter: "\<exists>A. Web3ChainAdapter sample_web3 sample_evm_config key_of nonce_of = Inr A"
  by (simp add: Web3ChainAdapter_def sample_web3_def passed_def Let_def)

theorem later_transfers_never_sent_witness:
  "\<exists>A h. Web3ChainAdapter sample_web3 sample_evm_config Inr (allocate_nonce sample_accepted) = Inr A \<and>
     submit A 2 ''0x0'' ''0x1'' 5 (uuid_str 9) = (2, Inr h)"
proof -
  obtain A where A: "Web3ChainAdapter sample_web3 sample_evm_config Inr (allocate_nonce sample_accepted) = Inr A" using sample_adapter by blast
  have names: "to_checksum sample_web3 ''0x0'' = Inr ''0x0''" "to_checksum sample_web3 ''0x1'' = Inr ''0x1''" "eth_gas_price sample_web3 2 = Inr 2"
    by (simp_all add: sample_web3_def)
  have signs: "\<exists>s. sign_transfer sample_web3 tx ''0x0'' = Inr s" for tx by (simp add: sample_web3_def)
  from later_transfers_never_sent [OF sample_reached(2) [of sample_settings sample_port] A names(1,2) _ names(3) signs sample_refuses [of "\<lambda>_. 1"], of 5 9]
  show ?thesis using A by auto
qed

definition mixed_case_address :: string where
  "mixed_case_address = ''0x'' @ replicate 39 (CHR ''0'') @ ''A''"

end
