(* ===== verification/ChainApi.thy ===== *)
theory ChainApi
  imports Evm MockNode Http
begin

text \<open>
  \<open>blockchain_service/api/routes.py\<close> and \<open>schemas.py\<close>: the internal API of the blockchain
  service and the endpoints that drive the simulated chain, with the choice of the backend
  in \<open>chain/__init__.py\<close>. A reply is a status and a body in the order of the schema's fields,
  times as seconds; an exception becomes the error document of the HTTP layer.
\<close>

section \<open>Addresses\<close>

definition address_response :: "address_row \<Rightarrow> payload" where
  "address_response a = [(''owner_ref'', JStr (ad_owner_ref a)), (''address'', JStr (ad_address a)), (''network'', JStr (ad_network a)),
     (''status'', JStr (ad_status a)), (''created_at'', JInt (ad_created_at a))]"

definition address_request_errors :: "string \<Rightarrow> (string list \<times> string \<times> string) list" where
  "address_request_errors owner_ref =
     (if length owner_ref < 3 then [body_error ''owner_ref'' ''String should have at least 3 characters'' ''string_too_short'']
      else if 128 < length owner_ref then [body_error ''owner_ref'' ''String should have at most 128 characters'' ''string_too_long''] else [])"

definition post_address :: "keystore \<Rightarrow> (nat \<Rightarrow> generated_key) \<Rightarrow> env \<Rightarrow> string \<Rightarrow> string option \<Rightarrow> cdb \<Rightarrow> (cdb \<times> api_reply) result" where
  "post_address ks accounts \<Gamma> owner_ref network db =
     bindr (validate (address_request_errors owner_ref)) (\<lambda>_.
     bindr (get_or_create_address ks accounts \<Gamma> owner_ref (case network of None \<Rightarrow> ''BSC'' | Some n \<Rightarrow> n) db) (\<lambda>(db1, a, created).
       Inr (db1, plain_reply (if created then 201 else 200) (address_response a))))"

definition get_address :: "string \<Rightarrow> cdb \<Rightarrow> api_reply result" where
  "get_address owner_ref db =
     (case row_of ad_owner_ref owner_ref (addresses db) of
        None \<Rightarrow> Inl (app_exn NotFoundError (''No address for owner_ref '' @ quoted owner_ref @ ''.'') [])
      | Some a \<Rightarrow> Inr (plain_reply 200 (address_response a)))"

definition onchain_balance :: "'c chain_adapter \<Rightarrow> 'c \<Rightarrow> string \<Rightarrow> api_reply result" where
  "onchain_balance A c address =
     bindr (token_balance_at A c address) (\<lambda>units.
     bindr (get_asset (port_asset A)) (\<lambda>a.
       Inr (plain_reply 200 [(''address'', JStr address), (''asset'', JStr (symbol a)),
         (''amount'', JStr (format_amount units (decimals a))), (''amount_units'', JStr (py_str units))])))"

section \<open>Deposits and transactions\<close>

definition deposit_response :: "deposit \<Rightarrow> payload result" where
  "deposit_response d =
     bindr (get_asset (d_asset d)) (\<lambda>a.
       Inr [(''id'', JStr (uuid_str (d_id d))), (''network'', JStr (d_network d)), (''asset'', JStr (d_asset d)),
            (''tx_hash'', JStr (d_tx_hash d)), (''log_index'', JInt (d_log_index d)), (''to_address'', JStr (d_to_address d)),
            (''amount'', JStr (format_amount (d_amount d) (decimals a))), (''amount_units'', JStr (py_str (d_amount d))),
            (''block_number'', JInt (d_block_number d)), (''confirmations'', JInt (d_confirmations d)),
            (''status'', JStr (deposit_status_name (d_status d))), (''first_seen_at'', JInt (d_first_seen_at d)),
            (''confirmed_at'', jtime (d_confirmed_at d))])"

text \<open>A filter parameter that is absent or empty does not restrict the query.\<close>

definition wanted :: "string option \<Rightarrow> string \<Rightarrow> bool" where
  "wanted v s = (case v of None \<Rightarrow> True | Some x \<Rightarrow> x = [] \<or> s = x)"

definition deposit_rows :: "string option \<Rightarrow> string option \<Rightarrow> nat \<Rightarrow> cdb \<Rightarrow> deposit list" where
  "deposit_rows to_addr status limit db =
     take limit (sort_key (\<lambda>d. - d_first_seen_at d) (filter (\<lambda>d. wanted to_addr (d_to_address d) \<and>
       wanted (map_option py_upper_ascii status) (deposit_status_name (d_status d))) (deposits db)))"

definition list_deposits :: "string option \<Rightarrow> string option \<Rightarrow> int \<Rightarrow> cdb \<Rightarrow> payload list result" where
  "list_deposits to_addr status limit db =
     bindr (validate (if limit < 1 then [query_error ''limit'' ''Input should be greater than or equal to 1'' ''greater_than_equal'']
        else if 200 < limit then [query_error ''limit'' ''Input should be less than or equal to 200'' ''less_than_equal''] else [])) (\<lambda>_.
       all_results deposit_response (deposit_rows to_addr status (nat limit) db))"

definition transaction_response :: "outgoing \<Rightarrow> payload result" where
  "transaction_response r =
     bindr (get_asset (og_asset r)) (\<lambda>a.
       Inr [(''transfer_id'', JStr (uuid_str (og_transfer_id r))), (''network'', JStr (og_network r)), (''asset'', JStr (og_asset r)),
            (''from_address'', JStr (og_from_address r)), (''to_address'', JStr (og_to_address r)),
            (''amount'', JStr (format_amount (og_amount r) (decimals a))), (''amount_units'', JStr (py_str (og_amount r))),
            (''tx_hash'', jopt (og_tx_hash r)), (''status'', JStr (tx_status_name (og_status r))),
            (''confirmations'', JInt (og_confirmations r)), (''block_number'', jtime (og_block_number r)),
            (''failure_reason'', jopt (og_failure_reason r)), (''attempts'', JInt (og_attempts r)), (''created_at'', JInt (og_created_at r))])"

definition get_transaction :: "string \<Rightarrow> cdb \<Rightarrow> api_reply result" where
  "get_transaction transfer_id db =
     (case uuid_of_string transfer_id of
        None \<Rightarrow> Inl (app_exn ValidationError ''transfer_id must be a UUID.'' [])
      | Some u \<Rightarrow>
          (case row_of og_transfer_id u (outgoings db) of
             None \<Rightarrow> Inl (app_exn NotFoundError (''No on-chain transaction for transfer '' @ quoted transfer_id @ ''.'') [])
           | Some r \<Rightarrow> bindr (transaction_response r) (\<lambda>body. Inr (plain_reply 200 body))))"

section \<open>The backend\<close>

text \<open>
  \<open>build_chain_adapter\<close>: the simulated node, the adapter of an EVM node with the chain id and the
  token of the settings, or an error; the second component says whether the simulated node
  is exposed.
\<close>

datatype 'c backend = MockBackend "mock_node chain_adapter" | Web3Backend "'c chain_adapter"

definition build_chain_adapter :: "(string \<Rightarrow> string) \<Rightarrow> chain_settings \<Rightarrow> 'c web3 \<Rightarrow> int \<Rightarrow> string \<Rightarrow>
    (string \<Rightarrow> string result) option \<Rightarrow> (string \<Rightarrow> string \<Rightarrow> int result) option \<Rightarrow> ('c backend \<times> bool) result" where
  "build_chain_adapter sha S W chain_id token key_of nonce_of =
     (if chain_backend S = ''mock'' then Inr (MockBackend (MockChainAdapter sha (cs_network S)), True)
      else if chain_backend S = ''web3'' then
        (if key_of = None \<or> nonce_of = None then Inl (ValueError ''the web3 backend requires a key resolver and a nonce allocator'')
         else bindr (Web3ChainAdapter W \<lparr>ev_chain_id = chain_id, ev_token_address = token, ev_network = cs_network S, ev_asset = ''USDT'',
             ev_gas_limit = 120000\<rparr> (the key_of) (the nonce_of)) (\<lambda>A. Inr (Web3Backend A, False)))
      else Inl (ValueError (''unknown CHAIN_BACKEND: '' @ quoted (chain_backend S))))"

record chain_state_reply =
  cr_backend :: string
  cr_network :: string
  cr_head_block :: "int option"
  cr_confirmations_required :: int
  cr_faults :: "mock_faults option"

definition chain_state :: "chain_settings \<Rightarrow> 'c chain_adapter \<Rightarrow> 'c \<Rightarrow> mock_chain option \<Rightarrow> chain_state_reply" where
  "chain_state S A c mock = \<lparr>cr_backend = chain_backend S, cr_network = cs_network S,
     cr_head_block = (case block_number_at A c of Inr n \<Rightarrow> Some n | Inl _ \<Rightarrow> None),
     cr_confirmations_required = confirmations_required S, cr_faults = map_option get_faults mock\<rparr>"

section \<open>Driving the simulated chain\<close>

definition require_mock :: "mock_chain option \<Rightarrow> mock_chain result" where
  "require_mock mock = (case mock of
     None \<Rightarrow> Inl (app_exn ValidationError ''Simulation endpoints require CHAIN_BACKEND=mock.'' []) | Some c \<Rightarrow> Inr c)"

text \<open>The asset and the amount of a simulated deposit; both errors become validation errors.\<close>

definition deposit_units :: "string \<Rightarrow> string \<Rightarrow> (asset \<times> int) result" where
  "deposit_units asset amount =
     (case bindr (get_asset asset) (\<lambda>a. bindr (parse_amount (AmtText amount) (decimals a) False) (\<lambda>n. Inr (a, n))) of
        Inl (UnsupportedAssetError _) \<Rightarrow> Inl (app_exn ValidationError (''Asset '' @ quoted asset @ '' is not supported.'') [])
      | Inl (AmountError msg) \<Rightarrow> Inl (app_exn ValidationError msg [])
      | r \<Rightarrow> r)"

definition simulate_deposit :: "(string \<Rightarrow> string) \<Rightarrow> env \<Rightarrow> string \<Rightarrow> string \<Rightarrow> string \<Rightarrow> string option \<Rightarrow> mock_chain option \<Rightarrow> (mock_chain \<times> api_reply) result" where
  "simulate_deposit sha \<Gamma> to_addr amount asset reference mock =
     bindr (require_mock mock) (\<lambda>c.
     bindr (deposit_units asset amount) (\<lambda>(a, units).
     let given = reference \<noteq> None \<and> reference \<noteq> Some [];
         client_ref = or_default reference (''deposit-'' @ uuid_str (uuid4 \<Gamma> (m_draws c)));
         c0 = (if given then c else c\<lparr>m_draws := Suc (m_draws c)\<rparr>) in
     bindr (mock_simulate_deposit sha \<Gamma> to_addr units client_ref c0) (\<lambda>(c1, tx_hash).
       Inr (c1, plain_reply 202 [(''tx_hash'', JStr tx_hash), (''to_address'', JStr to_addr),
         (''amount'', JStr (format_amount units (decimals a))), (''amount_units'', JStr (py_str units)), (''asset'', JStr (symbol a))]))))"

text \<open>An endpoint on the simulated node, which may keep changes although it raises.\<close>

definition with_mock :: "mock_chain option \<Rightarrow> (mock_chain \<Rightarrow> mock_chain \<times> 'a result) \<Rightarrow> mock_chain option \<times> 'a result" where
  "with_mock mock f = (case require_mock mock of Inl e \<Rightarrow> (mock, Inl e) | Inr c \<Rightarrow> (case f c of (c1, r) \<Rightarrow> (Some c1, r)))"

definition range_errors :: "string \<Rightarrow> int \<Rightarrow> int \<Rightarrow> int \<Rightarrow> (string list \<times> string \<times> string) list" where
  "range_errors field lo hi n =
     (if n < lo then [body_error field (''Input should be greater than or equal to '' @ py_str lo) ''greater_than_equal'']
      else if hi < n then [body_error field (''Input should be less than or equal to '' @ py_str hi) ''less_than_equal''] else [])"

definition mine :: "(string \<Rightarrow> string) \<Rightarrow> env \<Rightarrow> int \<Rightarrow> mock_chain option \<Rightarrow> mock_chain option \<times> api_reply result" where
  "mine sha \<Gamma> n mock =
     (case validate (range_errors ''blocks'' 1 100 n) of
        Inl e \<Rightarrow> (mock, Inl e)
      | Inr _ \<Rightarrow> with_mock mock (\<lambda>c. case mine_blocks sha \<Gamma> (nat n) 0 c of
          (c1, Inl e) \<Rightarrow> (c1, Inl e)
        | (c1, Inr head) \<Rightarrow> (c1, Inr (plain_reply 200 [(''head_block'', JInt head), (''mined'', JInt n)]))))"

definition force_reorg :: "(string \<Rightarrow> string) \<Rightarrow> env \<Rightarrow> int \<Rightarrow> string list \<Rightarrow> mock_chain option \<Rightarrow> mock_chain option \<times> (int list \<times> string list) result" where
  "force_reorg sha \<Gamma> depth drops mock =
     (case validate (range_errors ''depth'' 1 50 depth) of Inl e \<Rightarrow> (mock, Inl e) | Inr _ \<Rightarrow> with_mock mock (reorg sha \<Gamma> depth drops))"

definition inject_faults :: "bool option \<Rightarrow> bool option \<Rightarrow> int option \<Rightarrow> mock_chain option \<Rightarrow> mock_chain option \<times> mock_faults result" where
  "inject_faults rpc halt fail_next mock =
     (case validate (case fail_next of Some n \<Rightarrow>
        if n < 0 then [body_error ''fail_next_transfers'' ''Input should be greater than or equal to 0'' ''greater_than_equal''] else [] | None \<Rightarrow> []) of
        Inl e \<Rightarrow> (mock, Inl e)
      | Inr _ \<Rightarrow> with_mock mock (\<lambda>c. case set_faults rpc halt fail_next c of Inl e \<Rightarrow> (c, Inl e) | Inr (c1, f) \<Rightarrow> (c1, Inr f)))"

text \<open>
  \<open>tick\<close>: one iteration of every worker on a node that stands still but for the service's own
  submissions. An exception ends it, and what was committed before stays.
\<close>

record tick_report =
  tk_scanner :: scan_report
  tk_broadcaster :: "nat \<times> nat"
  tk_deposits :: watch_report
  tk_transactions :: watch_report
  tk_published :: nat

definition tick :: "chain_settings \<Rightarrow> 'c chain_adapter \<Rightarrow> (exn \<Rightarrow> string) \<Rightarrow> env \<Rightarrow> (bus \<Rightarrow> envelope \<Rightarrow> bus \<times> string option) \<Rightarrow> nat \<Rightarrow> nat \<Rightarrow>
    'c \<Rightarrow> cdb \<Rightarrow> bus \<Rightarrow> 'c \<times> cdb \<times> bus \<times> tick_report result" where
  "tick S A describe \<Gamma> pub batch backoff c db b =
     (case scanner_run_once S A (\<lambda>_. c) \<Gamma> db db db of
        Inl e \<Rightarrow> (c, db, b, Inl e)
      | Inr (db1, scan) \<Rightarrow>
          (case broadcaster_run_once S A describe \<Gamma> 20 [] c db1 of
             (c1, db2, Inl e) \<Rightarrow> (c1, db2, b, Inl e)
           | (c1, db2, Inr sent) \<Rightarrow>
               (case deposit_watcher_run_once S A (\<lambda>_. c1) \<Gamma> db2 of
                  (db3, Inl e) \<Rightarrow> (c1, db3, b, Inl e)
                | (db3, Inr deps) \<Rightarrow>
                    (case outgoing_watcher_run_once S A (\<lambda>_. c1) \<Gamma> db3 of
                       (db4, Inl e) \<Rightarrow> (c1, db4, b, Inl e)
                     | (db4, Inr txs) \<Rightarrow>
                         (case relay_run_once pub batch backoff [] (now \<Gamma>) b (c_outbox db4) of
                            (b1, ob, n) \<Rightarrow> (c1, db4\<lparr>c_outbox := ob\<rparr>, b1,
                              Inr \<lparr>tk_scanner = scan, tk_broadcaster = sent, tk_deposits = deps, tk_transactions = txs, tk_published = n\<rparr>))))))"

section \<open>What the endpoints keep\<close>

text \<open>
  However it ends, a tick is a sequence of steps of the service, so every invariant of the
  steps holds after it; a relay run is its last step, and only that run moves the bus.
\<close>

definition works_told :: "(string \<Rightarrow> uuid) \<Rightarrow> chain_settings \<Rightarrow> 'c chain_adapter \<Rightarrow> (bus \<Rightarrow> envelope \<Rightarrow> bus \<times> string option) \<Rightarrow> nat \<Rightarrow> nat \<Rightarrow>
    bus \<times> cdb \<Rightarrow> bus \<times> cdb \<Rightarrow> bool" where
  "works_told U S A pub batch backoff s s' = (\<exists>db. chain_works U S A (snd s) db \<and>
     (s' = (fst s, db) \<or> (\<exists>t ob n. relay_run_once pub batch backoff [] t (fst s) (c_outbox db) = (fst s', ob, n) \<and> snd s' = db\<lparr>c_outbox := ob\<rparr>)))"

lemma works_told_refl: "chain_works U S A db db' \<Longrightarrow> works_told U S A pub batch backoff (b, db) (b, db')"
  by (auto simp: works_told_def)

lemma works_told_works:
  assumes "works_told U S A pub batch backoff s s'"
  shows "chain_works U S A (snd s) (snd s')"
proof -
  from assms obtain db where db: "chain_works U S A (snd s) db" and "s' = (fst s, db) \<or>
      (\<exists>t ob n. relay_run_once pub batch backoff [] t (fst s) (c_outbox db) = (fst s', ob, n) \<and> snd s' = db\<lparr>c_outbox := ob\<rparr>)"
    unfolding works_told_def by blast
  then have "snd s' = db \<or> chain_work U S A db (snd s')" by (auto dest: work_relay)
  with db show ?thesis by (auto intro: rtranclp.rtrancl_into_rtrancl)
qed

lemma tick_told:
  assumes U: "uuid5 \<Gamma> = U" and run: "tick S A describe \<Gamma> pub batch backoff c db b = (c', db', b', res)"
  shows "works_told U S A pub batch backoff (b, db) (b', db')"
proof (cases "scanner_run_once S A (\<lambda>_. c) \<Gamma> db db db")
  case (Inl e)
  with run show ?thesis by (simp add: tick_def works_told_refl)
next
  case (Inr x)
  obtain db1 scan where x: "x = (db1, scan)" by fastforce
  have 1: "chain_works U S A db db1" using work_scan [OF U Inr [unfolded x]] by blast
  obtain c1 db2 sent where br: "broadcaster_run_once S A describe \<Gamma> 20 [] c db1 = (c1, db2, sent)" by (cases "broadcaster_run_once S A describe \<Gamma> 20 [] c db1") auto
  obtain db3 deps where dw: "deposit_watcher_run_once S A (\<lambda>_. c1) \<Gamma> db2 = (db3, deps)" by fastforce
  obtain db4 txs where ow: "outgoing_watcher_run_once S A (\<lambda>_. c1) \<Gamma> db3 = (db4, txs)" by fastforce
  obtain b1 ob n where re: "relay_run_once pub batch backoff [] (now \<Gamma>) b (c_outbox db4) = (b1, ob, n)" by (cases "relay_run_once pub batch backoff [] (now \<Gamma>) b (c_outbox db4)") auto
  have 2: "chain_works U S A db1 db2" by (rule broadcaster_steps [OF U br])
  have 3: "chain_works U S A db2 db3" using deposit_watcher_steps [OF U, of S A db2 "\<lambda>_. c1"] dw by simp
  have 4: "chain_works U S A db3 db4" using outgoing_watcher_steps [OF U, of S A db3 "\<lambda>_. c1"] ow by simp
  have "b' = b \<and> (db' = db2 \<or> db' = db3 \<or> db' = db4) \<or> b' = b1 \<and> db' = db4\<lparr>c_outbox := ob\<rparr>"
  proof (cases sent)
    case (Inl e)
    with run Inr show ?thesis unfolding tick_def x by (simp add: br)
  next
    case s: (Inr s)
    show ?thesis
    proof (cases deps)
      case (Inl e)
      with run \<open>scanner_run_once S A (\<lambda>_. c) \<Gamma> db db db = Inr x\<close> s show ?thesis unfolding tick_def x by (simp add: br dw)
    next
      case d: (Inr d)
      show ?thesis using run \<open>scanner_run_once S A (\<lambda>_. c) \<Gamma> db db db = Inr x\<close> s d unfolding tick_def x
        by (cases txs) (simp_all add: br dw ow re)
    qed
  qed
  moreover have "chain_works U S A db db2" using 1 2 by (rule rtranclp_trans)
  moreover from this 3 have "chain_works U S A db db3" by (rule rtranclp_trans)
  moreover from this 4 have "chain_works U S A db db4" by (rule rtranclp_trans)
  ultimately show ?thesis using re by (auto simp: works_told_def)
qed

text \<open>Issuing twice answers 201 and then 200, with the same body.\<close>

lemma post_address_twice:
  assumes "post_address ks accounts \<Gamma> owner_ref network db = Inr (db1, rep)" and "row_of ad_owner_ref owner_ref (addresses db1) = Some a"
  shows "post_address ks accounts' \<Gamma>' owner_ref network' db1 = Inr (db1, plain_reply 200 (address_response a)) \<and>
    get_address owner_ref db1 = Inr (plain_reply 200 (address_response a))"
proof -
  have "validate (address_request_errors owner_ref) = Inr ()"
    using assms(1) by (cases "validate (address_request_errors owner_ref)") (simp_all add: post_address_def)
  then show ?thesis using assms(2) by (simp add: post_address_def get_or_create_address_def get_address_def)
qed

lemma deposit_rows_page:
  "length (deposit_rows to_addr status limit db) \<le> limit" "sorted (map (\<lambda>d. - d_first_seen_at d) (deposit_rows to_addr status limit db))"
  "d \<in> set (deposit_rows to_addr status limit db) \<Longrightarrow> d \<in> set (deposits db) \<and> wanted to_addr (d_to_address d)"
  by (auto simp: deposit_rows_def take_map [symmetric] sorted_wrt_take dest!: in_set_takeD)

lemma get_transaction_reports:
  assumes "uniq og_transfer_id (outgoings db)" and "r \<in> set (outgoings db)" and "transaction_response r = Inr body"
  shows "get_transaction (uuid_str (og_transfer_id r)) db = Inr (plain_reply 200 body)"
  using assms by (simp add: get_transaction_def row_of_unique)

end
