(* ===== verification/App.thy ===== *)
theory App
  imports Http
begin

text \<open>
  What the two \<open>create_app\<close> functions share: a router is the list of its routes, each with or
  without the dependency that authenticates; an application mounts routers and answers a
  request through the correlation middleware, the dependency and the endpoint. Which route
  belongs to a request is decided by the framework; a request is given with its route.
\<close>

section \<open>Routes\<close>

record route =
  rt_method :: string
  rt_path :: string
  rt_guarded :: bool

definition route_key :: "route \<Rightarrow> string \<times> string" where
  "route_key r = (rt_method r, rt_path r)"

definition mk_route :: "bool \<Rightarrow> string \<times> string \<Rightarrow> route" where
  "mk_route guarded k = \<lparr>rt_method = fst k, rt_path = snd k, rt_guarded = guarded\<rparr>"

text \<open>\<open>APIRouter(dependencies=[Depends(auth)])\<close> and a router without dependencies.\<close>

definition guarded_router :: "(string \<times> string) list \<Rightarrow> route list" where
  "guarded_router = map (mk_route True)"

definition open_router :: "(string \<times> string) list \<Rightarrow> route list" where
  "open_router = map (mk_route False)"

lemma route_keys [simp]: "route_key ` set (guarded_router ks) = set ks" "route_key ` set (open_router ks) = set ks"
  by (simp_all add: guarded_router_def open_router_def image_image route_key_def mk_route_def)

lemma guarded_routes [simp]: "r \<in> set (guarded_router ks) \<Longrightarrow> rt_guarded r"
  by (auto simp: guarded_router_def mk_route_def)

definition ops_keys :: "(string \<times> string) list" where
  "ops_keys = [(''GET'', ''/health/live''), (''GET'', ''/health''), (''GET'', ''/health/ready''), (''GET'', ''/metrics'')]"

definition build_ops_router :: "route list" where
  "build_ops_router = open_router ops_keys"

definition live_reply :: "string \<Rightarrow> string \<Rightarrow> payload" where
  "live_reply service version = [(''status'', JStr ''alive''), (''service'', JStr service), (''version'', JStr version)]"

section \<open>Requests\<close>

record headers =
  hd_key :: "string option"
  hd_authorization :: "string option"
  hd_correlation :: "string option"
  hd_request_id :: "string option"

definition api_key_auth :: "string list \<Rightarrow> string \<Rightarrow> bool \<Rightarrow> headers \<Rightarrow> string result" where
  "api_key_auth keys header enabled h = authenticate keys header enabled (hd_key h) (hd_authorization h)"

text \<open>
  An endpoint returns the state it leaves behind, also when it raises. One that runs in a
  single transaction leaves the state as it was.
\<close>

type_synonym ('s, 'a) endpoint = "env \<Rightarrow> 's \<Rightarrow> 's \<times> 'a result"

definition transaction :: "(env \<Rightarrow> 's \<Rightarrow> ('s \<times> 'a) result) \<Rightarrow> ('a \<Rightarrow> 'b) \<Rightarrow> ('s, 'b) endpoint" where
  "transaction f out \<Gamma> s = (case f \<Gamma> s of Inl e \<Rightarrow> (s, Inl e) | Inr (s', x) \<Rightarrow> (s', Inr (out x)))"

definition reading :: "('s \<Rightarrow> 'a result) \<Rightarrow> ('a \<Rightarrow> 'b) \<Rightarrow> ('s, 'b) endpoint" where
  "reading f out \<Gamma> s = (s, bindr (f s) (\<lambda>x. Inr (out x)))"

text \<open>The dependency runs before the endpoint; when it raises, the endpoint does not run.\<close>

definition guard :: "bool \<Rightarrow> string result \<Rightarrow> ('s, 'a) endpoint \<Rightarrow> ('s, 'a) endpoint" where
  "guard guarded auth f \<Gamma> s = (if guarded then (case auth of Inl e \<Rightarrow> (s, Inl e) | Inr _ \<Rightarrow> f \<Gamma> s) else f \<Gamma> s)"

text \<open>
  The answer to a request on a route: none when no router with that route is mounted, which
  the framework answers with its own 404.
\<close>

definition respond :: "route list \<Rightarrow> (headers \<Rightarrow> string result) \<Rightarrow> string \<times> string \<Rightarrow> ('s, 'a) endpoint \<Rightarrow> env \<Rightarrow> headers \<Rightarrow> 's \<Rightarrow>
    's \<times> ('a reply \<times> string option) option" where
  "respond app auth k f \<Gamma> h s =
     (case row_of route_key k app of
        None \<Rightarrow> (s, None)
      | Some r \<Rightarrow>
          (let run = guard (rt_guarded r) (auth h) f;
               c = request_correlation \<Gamma> (hd_correlation h) (hd_request_id h) in
           (fst (run (\<Gamma>\<lparr>cid := Some c\<rparr>) s), Some (serve (\<lambda>\<Gamma>. snd (run \<Gamma> s)) \<Gamma> (hd_correlation h) (hd_request_id h)))))"

section \<open>The credential of a request\<close>

definition bearer_of :: "string option \<Rightarrow> string" where
  "bearer_of a = (case a of None \<Rightarrow> [] | Some v \<Rightarrow> if take 7 (py_lower v) = ''bearer '' then drop 7 v else [])"

definition credential :: "headers \<Rightarrow> string" where
  "credential h = (case hd_key h of
     Some v \<Rightarrow> if v \<noteq> [] then v else bearer_of (hd_authorization h)
   | None \<Rightarrow> bearer_of (hd_authorization h))"

lemma auth_credential:
  "api_key_auth keys header True h =
     bindr (if credential h = [] then Inr False else any_key (credential h) (filter (\<lambda>k. k \<noteq> []) keys)) (\<lambda>ok.
       if ok then Inr ''authenticated'' else Inl (app_exn UnauthorizedError (''A valid '' @ header @ '' header is required.'') []))"
  by (auto simp: api_key_auth_def authenticate_def credential_def bearer_of_def py_lower_def Let_def split: option.splits)

definition refusal_status :: "string \<Rightarrow> headers \<Rightarrow> nat" where
  "refusal_status key h = (if is_ascii (credential h) \<or> key = [] then 401 else 500)"

lemma p_status_correlation: "p_status (error_response c e) = p_status (error_response None e)"
  by (cases e) (simp_all add: error_response_def problem_def)

lemma auth_refuses:
  assumes "is_ascii key" and "key = [] \<or> credential h \<noteq> key"
  obtains e where "api_key_auth [key] header True h = Inl e" and "p_status (error_response None e) = refusal_status key h"
proof -
  have "\<exists>e. api_key_auth [key] header True h = Inl e \<and> p_status (error_response None e) = refusal_status key h"
  proof (cases "key = [] \<or> credential h = []")
    case True
    then have "is_ascii (credential h) \<or> key = []" by (auto simp: is_ascii_def)
    then show ?thesis using True
      by (auto simp: auth_credential refusal_status_def error_response_def problem_def app_exn_def)
  next
    case False
    with assms show ?thesis
      by (auto simp: auth_credential refusal_status_def compare_digest_def error_response_def problem_def app_exn_def)
  qed
  then show ?thesis using that by blast
qed

lemma auth_accepts: "\<lbrakk>is_ascii key; key \<noteq> []; credential h = key\<rbrakk> \<Longrightarrow> api_key_auth [key] header True h = Inr ''authenticated''"
  by (simp add: auth_credential compare_digest_def)

lemma refusal_reply: "\<exists>d c. serve (\<lambda>\<Gamma>. Inl e) \<Gamma> h r = (Problem d, c) \<and> p_status d = p_status (error_response None e)"
  by (auto simp: serve_def Let_def intro: p_status_correlation)

section \<open>Applications that guard their endpoints\<close>

locale guarded_app =
  fixes app :: "route list"
  assumes guards: "\<And>r. \<lbrakk>r \<in> set app; \<not> rt_guarded r\<rbrakk> \<Longrightarrow> route_key r \<in> set ops_keys"
begin

lemma refused:
  assumes "auth h = Inl e" and "k \<notin> set ops_keys"
  shows "respond app auth k f \<Gamma> h s = (s, if row_of route_key k app = None then None
    else Some (serve (\<lambda>\<Gamma>. Inl e) \<Gamma> (hd_correlation h) (hd_request_id h)))"
proof (cases "row_of route_key k app")
  case (Some r)
  with row_of_Some [OF Some] guards [of r] assms(2) have "rt_guarded r" by auto
  with Some assms(1) show ?thesis by (simp add: respond_def guard_def Let_def)
qed (simp add: respond_def)

lemma refusal:
  assumes "auth h = Inl e" and "k \<notin> set ops_keys" and "row_of route_key k app \<noteq> None"
  shows "\<exists>d c. respond app auth k f \<Gamma> h s = (s, Some (Problem d, c)) \<and> p_status d = p_status (error_response None e)"
  using refused [where auth = auth and h = h, OF assms(1,2), of f \<Gamma> s] assms(3) refusal_reply [of e \<Gamma> "hd_correlation h" "hd_request_id h"] by auto

lemma served:
  assumes "auth h = Inr x" and "row_of route_key k app \<noteq> None"
  shows "respond app auth k f \<Gamma> h s =
    (fst (f (\<Gamma>\<lparr>cid := Some (request_correlation \<Gamma> (hd_correlation h) (hd_request_id h))\<rparr>) s),
     Some (serve (\<lambda>\<Gamma>. snd (f \<Gamma> s)) \<Gamma> (hd_correlation h) (hd_request_id h)))"
  using assms by (auto simp: respond_def guard_def Let_def)

end

lemma respond_state:
  "fst (respond app auth k f \<Gamma> h s) = s \<or>
   fst (respond app auth k f \<Gamma> h s) = fst (f (\<Gamma>\<lparr>cid := Some (request_correlation \<Gamma> (hd_correlation h) (hd_request_id h))\<rparr>) s)"
  by (auto simp: respond_def guard_def Let_def split: option.splits sum.splits)

lemma respond_unmounted: "row_of route_key k app = None \<Longrightarrow> respond app auth k f \<Gamma> h s = (s, None)"
  by (simp add: respond_def)

definition sample_headers :: "string \<Rightarrow> headers" where
  "sample_headers key = \<lparr>hd_key = Some key, hd_authorization = None, hd_correlation = None, hd_request_id = None\<rparr>"

end
