(* ===== verification/WalletApp.thy ===== *)
theory WalletApp
  imports App WalletService
begin

text \<open>
  \<open>wallet_service/main.py\<close>: the application of the wallet service, its routes in the order of
  \<open>api/routes.py\<close>, the readiness checks of \<open>context.py\<close> and the endpoint behind each route.
\<close>

record wallet_config =
  wc_service_name :: string
  wc_version :: string
  wc_auth_enabled :: bool
  wc_api_key :: string
  wc_settings :: wallet_settings

text \<open>What the endpoints use of libraries and of the other service.\<close>

record wallet_world =
  ww_email :: "string \<Rightarrow> string option"
  ww_issue :: "string \<Rightarrow> string \<Rightarrow> string result"
  ww_sha :: "string \<Rightarrow> string"
  ww_select :: "unit result"
  ww_redis_ping :: "bool result"
  ww_blockchain_ping :: "bool result"
  ww_metrics :: string

section \<open>Routes\<close>

datatype wallet_call =
  CreateUser string string
| GetUser int
| CreateWallet int "string option" "string option"
| GetWallet int "string option" "string option"
| GetBalance int "string option"
| PostTransfer transfer_request
| GetTransfer string
| GetTransactions int "string option" int "int option"
| Reconciliation
| Live
| Health
| Ready
| Metrics

primrec wallet_route :: "wallet_call \<Rightarrow> string \<times> string" where
  "wallet_route (CreateUser name email) = (''POST'', ''/users'')"
| "wallet_route (GetUser uid) = (''GET'', ''/users/{user_id}'')"
| "wallet_route (CreateWallet uid network asset) = (''POST'', ''/users/{user_id}/wallet'')"
| "wallet_route (GetWallet uid network asset) = (''GET'', ''/users/{user_id}/wallet'')"
| "wallet_route (GetBalance uid asset) = (''GET'', ''/users/{user_id}/balance'')"
| "wallet_route (PostTransfer q) = (''POST'', ''/transfers'')"
| "wallet_route (GetTransfer i) = (''GET'', ''/transfers/{transfer_id}'')"
| "wallet_route (GetTransactions uid asset limit cursor) = (''GET'', ''/users/{user_id}/transactions'')"
| "wallet_route Reconciliation = (''GET'', ''/admin/reconciliation'')"
| "wallet_route Live = (''GET'', ''/health/live'')"
| "wallet_route Health = (''GET'', ''/health'')"
| "wallet_route Ready = (''GET'', ''/health/ready'')"
| "wallet_route Metrics = (''GET'', ''/metrics'')"

definition wallet_build_router :: "route list" where
  "wallet_build_router = guarded_router
     [(''POST'', ''/users''), (''GET'', ''/users/{user_id}''), (''POST'', ''/users/{user_id}/wallet''), (''GET'', ''/users/{user_id}/wallet''),
      (''GET'', ''/users/{user_id}/balance''), (''POST'', ''/transfers''), (''GET'', ''/transfers/{transfer_id}''),
      (''GET'', ''/users/{user_id}/transactions''), (''GET'', ''/admin/reconciliation'')]"

definition wallet_create_app :: "route list" where
  "wallet_create_app = build_ops_router @ wallet_build_router"

definition wallet_auth :: "wallet_config \<Rightarrow> headers \<Rightarrow> string result" where
  "wallet_auth cfg = api_key_auth [wc_api_key cfg] ''X-API-Key'' (wc_auth_enabled cfg)"

definition wallet_checks :: "wallet_world \<Rightarrow> (string \<times> bool result) list" where
  "wallet_checks W = [(''database'', bindr (ww_select W) (\<lambda>_. Inr True)), (''redis'', ww_redis_ping W), (''blockchain_service'', ww_blockchain_ping W)]"

section \<open>Endpoints\<close>

datatype wallet_answer =
  Reply api_reply
| History history
| Report reconciliation_report
| Alive payload
| Readiness "nat \<times> string \<times> (string \<times> string) list"
| Exposition string

text \<open>\<open>db0\<close> is what the first transaction of \<open>create_wallet\<close> reads, before the call to blockchain-service.\<close>

primrec wallet_endpoint :: "wallet_config \<Rightarrow> wallet_world \<Rightarrow> wdb \<Rightarrow> wallet_call \<Rightarrow> (wdb, wallet_answer) endpoint" where
  "wallet_endpoint cfg W db0 (CreateUser name email) = transaction (\<lambda>\<Gamma>. post_user (ww_email W) \<Gamma> name email) Reply"
| "wallet_endpoint cfg W db0 (GetUser uid) = reading (read_user uid) Reply"
| "wallet_endpoint cfg W db0 (CreateWallet uid network asset) =
     transaction (\<lambda>\<Gamma>. post_wallet (wc_settings cfg) (ww_issue W) \<Gamma> uid network asset db0) Reply"
| "wallet_endpoint cfg W db0 (GetWallet uid network asset) = reading (read_wallet (wc_settings cfg) uid network asset) Reply"
| "wallet_endpoint cfg W db0 (GetBalance uid asset) = reading (get_balance (wc_settings cfg) uid asset) Reply"
| "wallet_endpoint cfg W db0 (PostTransfer q) = transaction (\<lambda>\<Gamma>. post_transfer (wc_settings cfg) (ww_sha W) \<Gamma> q) Reply"
| "wallet_endpoint cfg W db0 (GetTransfer i) = reading (get_transfer i) Reply"
| "wallet_endpoint cfg W db0 (GetTransactions uid asset limit cursor) = reading (get_transactions (wc_settings cfg) uid asset limit cursor) History"
| "wallet_endpoint cfg W db0 Reconciliation = reading (\<lambda>db. Inr (reconciliation db)) Report"
| "wallet_endpoint cfg W db0 Live = reading (\<lambda>_. Inr (live_reply (wc_service_name cfg) (wc_version cfg))) Alive"
| "wallet_endpoint cfg W db0 Health = reading (\<lambda>_. Inr (ready (wallet_checks W))) Readiness"
| "wallet_endpoint cfg W db0 Ready = reading (\<lambda>_. Inr (ready (wallet_checks W))) Readiness"
| "wallet_endpoint cfg W db0 Metrics = reading (\<lambda>_. Inr (ww_metrics W)) Exposition"

definition wallet_app :: "wallet_config \<Rightarrow> wallet_world \<Rightarrow> env \<Rightarrow> headers \<Rightarrow> wallet_call \<Rightarrow> wdb \<Rightarrow> wdb \<Rightarrow>
    wdb \<times> (wallet_answer reply \<times> string option) option" where
  "wallet_app cfg W \<Gamma> h call db0 = respond wallet_create_app (wallet_auth cfg) (wallet_route call) (wallet_endpoint cfg W db0 call) \<Gamma> h"

section \<open>Every request\<close>

interpretation wapp: guarded_app wallet_create_app
  by unfold_locales (auto simp: wallet_create_app_def build_ops_router_def wallet_build_router_def simp flip: route_keys(2))

definition wallet_probe :: "wallet_call \<Rightarrow> bool" where
  "wallet_probe call = (wallet_route call \<in> set ops_keys)"

lemma wallet_mounted: "row_of route_key (wallet_route call) wallet_create_app \<noteq> None"
  by (cases call) (simp_all add: row_of_None wallet_create_app_def build_ops_router_def wallet_build_router_def image_Un ops_keys_def)

text \<open>A request leaves the database as it is, or commits one transaction of the service.\<close>

lemma wallet_app_steps:
  assumes U: "uuid5 \<Gamma> = U"
  shows "fst (wallet_app cfg W \<Gamma> h call db0 db) = db \<or> wallet_step U (wc_settings cfg) (ww_sha W) db (fst (wallet_app cfg W \<Gamma> h call db0 db))"
proof -
  let ?\<Gamma> = "\<Gamma>\<lparr>cid := Some (request_correlation \<Gamma> (hd_correlation h) (hd_request_id h))\<rparr>"
  have "fst (wallet_endpoint cfg W db0 call ?\<Gamma> db) = db \<or>
      wallet_step U (wc_settings cfg) (ww_sha W) db (fst (wallet_endpoint cfg W db0 call ?\<Gamma> db))"
    using U by (cases call) (auto simp: transaction_def reading_def split: sum.split
        intro: wallet_step.user wallet_step.wallet dest: wallet_step.transfer [rotated])
  then show ?thesis
    using respond_state [of wallet_create_app "wallet_auth cfg" "wallet_route call" "wallet_endpoint cfg W db0 call" \<Gamma> h db]
    by (auto simp: wallet_app_def)
qed

text \<open>
  Property C14. Every endpoint of the wallet service but the probes is guarded: with
  authentication on, a request whose credential (the key header, or without one the bearer
  token) is not the configured key changes nothing and is answered with 401, or with 500 when
  the credential is not ASCII, whatever the request is; an empty configured key admits nobody.
  A request with the key is answered by its endpoint.
\<close>

theorem wallet_app_guarded:
  assumes on: "wc_auth_enabled cfg" and ascii: "is_ascii (wc_api_key cfg)" and call: "\<not> wallet_probe call"
  shows "((wc_api_key cfg = [] \<or> credential h \<noteq> wc_api_key cfg) \<longrightarrow>
      (\<exists>d c. wallet_app cfg W \<Gamma> h call db0 db = (db, Some (Problem d, c)) \<and> p_status d = refusal_status (wc_api_key cfg) h)) \<and>
    (wc_api_key cfg \<noteq> [] \<and> credential h = wc_api_key cfg \<longrightarrow>
      wallet_app cfg W \<Gamma> h call db0 db =
        (fst (wallet_endpoint cfg W db0 call (\<Gamma>\<lparr>cid := Some (request_correlation \<Gamma> (hd_correlation h) (hd_request_id h))\<rparr>) db),
         Some (serve (\<lambda>\<Gamma>. snd (wallet_endpoint cfg W db0 call \<Gamma> db)) \<Gamma> (hd_correlation h) (hd_request_id h))))"
proof (intro conjI impI)
  assume "wc_api_key cfg = [] \<or> credential h \<noteq> wc_api_key cfg"
  from auth_refuses [OF ascii this, where header = "''X-API-Key''"] obtain e
    where e: "wallet_auth cfg h = Inl e" "p_status (error_response None e) = refusal_status (wc_api_key cfg) h"
    using on by (auto simp: wallet_auth_def)
  show "\<exists>d c. wallet_app cfg W \<Gamma> h call db0 db = (db, Some (Problem d, c)) \<and> p_status d = refusal_status (wc_api_key cfg) h"
    unfolding wallet_app_def e(2) [symmetric]
    by (rule wapp.refusal [where auth = "wallet_auth cfg" and h = h, OF e(1) _ wallet_mounted]) (use call in \<open>simp add: wallet_probe_def\<close>)
next
  assume "wc_api_key cfg \<noteq> [] \<and> credential h = wc_api_key cfg"
  with on ascii have "wallet_auth cfg h = Inr ''authenticated''" by (simp add: wallet_auth_def auth_accepts)
  from wapp.served [where auth = "wallet_auth cfg" and h = h, OF this wallet_mounted [of call]]
  show "wallet_app cfg W \<Gamma> h call db0 db =
        (fst (wallet_endpoint cfg W db0 call (\<Gamma>\<lparr>cid := Some (request_correlation \<Gamma> (hd_correlation h) (hd_request_id h))\<rparr>) db),
         Some (serve (\<lambda>\<Gamma>. snd (wallet_endpoint cfg W db0 call \<Gamma> db)) \<Gamma> (hd_correlation h) (hd_request_id h)))"
    by (simp add: wallet_app_def)
qed

definition sample_config :: wallet_config where
  "sample_config = \<lparr>wc_service_name = ''wallet-service'', wc_version = ''1.0.0'', wc_auth_enabled = True, wc_api_key = ''dev-api-key'',
     wc_settings = sample_settings\<rparr>"

definition sample_world :: wallet_world where
  "sample_world = \<lparr>ww_email = Some, ww_issue = (\<lambda>_ _. Inr ''0xabc''), ww_sha = sample_sha, ww_select = Inr (), ww_redis_ping = Inr True,
     ww_blockchain_ping = Inr True, ww_metrics = []\<rparr>"

theorem wallet_app_guarded_witness:
  "(\<exists>d c. wallet_app sample_config sample_world sample_env (sample_headers ''guess'') (CreateUser ''Ada'' ''ada@x.io'') empty_wdb empty_wdb =
      (empty_wdb, Some (Problem d, c)) \<and> p_status d = 401) \<and>
   fst (wallet_app sample_config sample_world sample_env (sample_headers ''dev-api-key'') (CreateUser ''Ada'' ''ada@x.io'') empty_wdb empty_wdb) =
     fst (wallet_endpoint sample_config sample_world empty_wdb (CreateUser ''Ada'' ''ada@x.io'')
       (sample_env\<lparr>cid := Some (request_correlation sample_env None None)\<rparr>) empty_wdb)"
proof -
  have cfg: "wc_auth_enabled sample_config" "is_ascii (wc_api_key sample_config)" "\<not> wallet_probe (CreateUser ''Ada'' ''ada@x.io'')"
    by (simp_all add: sample_config_def is_ascii_def wallet_probe_def ops_keys_def)
  have bad: "credential (sample_headers ''guess'') \<noteq> wc_api_key sample_config" "refusal_status (wc_api_key sample_config) (sample_headers ''guess'') = 401"
    by (simp_all add: sample_config_def credential_def sample_headers_def refusal_status_def is_ascii_def)
  have good: "wc_api_key sample_config \<noteq> []" "credential (sample_headers ''dev-api-key'') = wc_api_key sample_config"
    "hd_correlation (sample_headers ''dev-api-key'') = None" "hd_request_id (sample_headers ''dev-api-key'') = None"
    by (simp_all add: sample_config_def credential_def sample_headers_def)
  show ?thesis
    using wallet_app_guarded [OF cfg, of "sample_headers ''guess''"] wallet_app_guarded [OF cfg, of "sample_headers ''dev-api-key''"] bad good
    by simp
qed

end
