(* ===== verification/ChainApp.thy ===== *)
theory ChainApp
  imports App ChainApi
begin

text \<open>
  \<open>blockchain_service/main.py\<close>: the application of the blockchain service, with the simulation
  router mounted only when the settings enable it, over the context of \<open>context.py\<close>. The state
  of a request is the database, the node behind the adapter and the bus.
\<close>

record 'c chain_process =
  cp_db :: cdb
  cp_node :: 'c
  cp_bus :: bus

text \<open>
  The context: \<open>cx_mock\<close> is \<open>ctx.mock_chain\<close> as a view of the node, absent on the EVM backend, and
  \<open>cx_put\<close> writes it back.
\<close>

record 'c chain_context =
  cx_settings :: chain_settings
  cx_adapter :: "'c chain_adapter"
  cx_mock :: "'c \<Rightarrow> mock_chain option"
  cx_put :: "mock_chain \<Rightarrow> 'c \<Rightarrow> 'c"
  cx_keystore :: keystore
  cx_accounts :: "nat \<Rightarrow> generated_key"
  cx_sha :: "string \<Rightarrow> string"
  cx_describe :: "exn \<Rightarrow> string"
  cx_publish :: "bus \<Rightarrow> envelope \<Rightarrow> bus \<times> string option"
  cx_batch_size :: nat
  cx_max_backoff :: nat

record chain_config =
  cc_service_name :: string
  cc_version :: string
  cc_auth_enabled :: bool
  cc_internal_api_key :: string
  cc_enable_simulation_api :: bool

record chain_probes =
  pr_select :: "unit result"
  pr_redis_ping :: "bool result"
  pr_metrics :: string

section \<open>Routes\<close>

datatype chain_call =
  CreateAddress string "string option"
| GetAddress string
| OnchainBalance string
| ListDeposits "string option" "string option" int
| GetTransaction string
| ChainState
| SimulateDeposit string string string "string option"
| Mine int
| Reorg int "string list"
| Faults "bool option" "bool option" "int option"
| Tick
| ChainLive
| ChainHealth
| ChainReady
| ChainMetrics

primrec chain_route :: "chain_call \<Rightarrow> string \<times> string" where
  "chain_route (CreateAddress owner_ref network) = (''POST'', ''/addresses'')"
| "chain_route (GetAddress owner_ref) = (''GET'', ''/addresses/{owner_ref}'')"
| "chain_route (OnchainBalance addr) = (''GET'', ''/addresses/{address}/onchain-balance'')"
| "chain_route (ListDeposits to_addr st limit) = (''GET'', ''/deposits'')"
| "chain_route (GetTransaction i) = (''GET'', ''/transactions/{transfer_id}'')"
| "chain_route ChainState = (''GET'', ''/chain'')"
| "chain_route (SimulateDeposit to_addr amount asset ref) = (''POST'', ''/simulate/deposits'')"
| "chain_route (Mine n) = (''POST'', ''/simulate/mine'')"
| "chain_route (Reorg depth drops) = (''POST'', ''/simulate/reorg'')"
| "chain_route (Faults rpc halt n) = (''POST'', ''/simulate/faults'')"
| "chain_route Tick = (''POST'', ''/simulate/tick'')"
| "chain_route ChainLive = (''GET'', ''/health/live'')"
| "chain_route ChainHealth = (''GET'', ''/health'')"
| "chain_route ChainReady = (''GET'', ''/health/ready'')"
| "chain_route ChainMetrics = (''GET'', ''/metrics'')"

definition chain_build_router :: "route list" where
  "chain_build_router = guarded_router
     [(''POST'', ''/addresses''), (''GET'', ''/addresses/{owner_ref}''), (''GET'', ''/addresses/{address}/onchain-balance''),
      (''GET'', ''/deposits''), (''GET'', ''/transactions/{transfer_id}''), (''GET'', ''/chain'')]"

definition build_simulation_router :: "route list" where
  "build_simulation_router = guarded_router (map (\<lambda>(m, p). (m, ''/simulate'' @ p))
     [(''POST'', ''/deposits''), (''POST'', ''/mine''), (''POST'', ''/reorg''), (''POST'', ''/faults''), (''POST'', ''/tick'')])"

definition chain_create_app :: "chain_config \<Rightarrow> route list" where
  "chain_create_app cfg = build_ops_router @ chain_build_router @ (if cc_enable_simulation_api cfg then build_simulation_router else [])"

definition chain_auth :: "chain_config \<Rightarrow> headers \<Rightarrow> string result" where
  "chain_auth cfg = api_key_auth [cc_internal_api_key cfg] ''X-Internal-Key'' (cc_auth_enabled cfg)"

section \<open>Endpoints\<close>

datatype chain_answer =
  Replied api_reply
| Deposits "payload list"
| State chain_state_reply
| Reorganised "int list \<times> string list"
| FaultsSet mock_faults
| Ticked tick_report
| ChainAlive payload
| ChainReadiness "nat \<times> string \<times> (string \<times> string) list"
| ChainExposition string

text \<open>\<open>check_database\<close>, \<open>check_redis\<close> and \<open>check_chain\<close>.\<close>

definition chain_checks :: "'c chain_context \<Rightarrow> chain_probes \<Rightarrow> 'c \<Rightarrow> (string \<times> bool result) list" where
  "chain_checks ctx P c = [(''database'', bindr (pr_select P) (\<lambda>_. Inr True)), (''redis'', pr_redis_ping P),
     (''chain'', bindr (block_number_at (cx_adapter ctx) c) (\<lambda>_. Inr True))]"

definition on_mock :: "'c chain_context \<Rightarrow> (mock_chain option \<Rightarrow> mock_chain option \<times> 'a result) \<Rightarrow> ('a \<Rightarrow> 'b) \<Rightarrow>
    'c chain_process \<Rightarrow> 'c chain_process \<times> 'b result" where
  "on_mock ctx f out s =
     (case f (cx_mock ctx (cp_node s)) of (m, r) \<Rightarrow>
        (case m of None \<Rightarrow> s | Some c \<Rightarrow> s\<lparr>cp_node := cx_put ctx c (cp_node s)\<rparr>, bindr r (\<lambda>x. Inr (out x))))"

definition chain_ready :: "chain_probes \<Rightarrow> 'c chain_context \<Rightarrow> ('c chain_process, chain_answer) endpoint" where
  "chain_ready P ctx = reading (\<lambda>s. Inr (ready (chain_checks ctx P (cp_node s)))) ChainReadiness"

primrec chain_endpoint :: "chain_config \<Rightarrow> chain_probes \<Rightarrow> 'c chain_context \<Rightarrow> chain_call \<Rightarrow> ('c chain_process, chain_answer) endpoint" where
  "chain_endpoint cfg P ctx (CreateAddress owner_ref network) =
     transaction (\<lambda>\<Gamma> s. bindr (post_address (cx_keystore ctx) (cx_accounts ctx) \<Gamma> owner_ref network (cp_db s)) (\<lambda>(db, rep). Inr (s\<lparr>cp_db := db\<rparr>, rep))) Replied"
| "chain_endpoint cfg P ctx (GetAddress owner_ref) = reading (\<lambda>s. get_address owner_ref (cp_db s)) Replied"
| "chain_endpoint cfg P ctx (OnchainBalance addr) = reading (\<lambda>s. onchain_balance (cx_adapter ctx) (cp_node s) addr) Replied"
| "chain_endpoint cfg P ctx (ListDeposits to_addr st limit) = reading (\<lambda>s. list_deposits to_addr st limit (cp_db s)) Deposits"
| "chain_endpoint cfg P ctx (GetTransaction i) = reading (\<lambda>s. get_transaction i (cp_db s)) Replied"
| "chain_endpoint cfg P ctx ChainState =
     reading (\<lambda>s. Inr (chain_state (cx_settings ctx) (cx_adapter ctx) (cp_node s) (cx_mock ctx (cp_node s)))) State"
| "chain_endpoint cfg P ctx (SimulateDeposit to_addr amount asset ref) =
     transaction (\<lambda>\<Gamma> s. bindr (simulate_deposit (cx_sha ctx) \<Gamma> to_addr amount asset ref (cx_mock ctx (cp_node s)))
       (\<lambda>(c, rep). Inr (s\<lparr>cp_node := cx_put ctx c (cp_node s)\<rparr>, rep))) Replied"
| "chain_endpoint cfg P ctx (Mine n) = (\<lambda>\<Gamma>. on_mock ctx (mine (cx_sha ctx) \<Gamma> n) Replied)"
| "chain_endpoint cfg P ctx (Reorg depth drops) = (\<lambda>\<Gamma>. on_mock ctx (force_reorg (cx_sha ctx) \<Gamma> depth drops) Reorganised)"
| "chain_endpoint cfg P ctx (Faults rpc halt n) = (\<lambda>\<Gamma>. on_mock ctx (inject_faults rpc halt n) FaultsSet)"
| "chain_endpoint cfg P ctx Tick = (\<lambda>\<Gamma> s.
     case tick (cx_settings ctx) (cx_adapter ctx) (cx_describe ctx) \<Gamma> (cx_publish ctx) (cx_batch_size ctx) (cx_max_backoff ctx)
         (cp_node s) (cp_db s) (cp_bus s) of
       (c, db, b, r) \<Rightarrow> (\<lparr>cp_db = db, cp_node = c, cp_bus = b\<rparr>, bindr r (\<lambda>x. Inr (Ticked x))))"
| "chain_endpoint cfg P ctx ChainLive = reading (\<lambda>_. Inr (live_reply (cc_service_name cfg) (cc_version cfg))) ChainAlive"
| "chain_endpoint cfg P ctx ChainHealth = chain_ready P ctx"
| "chain_endpoint cfg P ctx ChainReady = chain_ready P ctx"
| "chain_endpoint cfg P ctx ChainMetrics = reading (\<lambda>_. Inr (pr_metrics P)) ChainExposition"

definition chain_app :: "chain_config \<Rightarrow> chain_probes \<Rightarrow> 'c chain_context \<Rightarrow> env \<Rightarrow> headers \<Rightarrow> chain_call \<Rightarrow> 'c chain_process \<Rightarrow>
    'c chain_process \<times> (chain_answer reply \<times> string option) option" where
  "chain_app cfg P ctx \<Gamma> h call = respond (chain_create_app cfg) (chain_auth cfg) (chain_route call) (chain_endpoint cfg P ctx call) \<Gamma> h"

section \<open>Every request\<close>

lemma chain_app_keys:
  "route_key ` set (chain_create_app cfg) = set ops_keys \<union> route_key ` set chain_build_router \<union>
     (if cc_enable_simulation_api cfg then route_key ` set build_simulation_router else {})"
  by (auto simp: chain_create_app_def build_ops_router_def image_Un)

interpretation capp: guarded_app "chain_create_app cfg" for cfg
  by unfold_locales (auto simp: chain_create_app_def build_ops_router_def chain_build_router_def build_simulation_router_def
      simp flip: route_keys(2) split: if_splits)

definition chain_probe :: "chain_call \<Rightarrow> bool" where
  "chain_probe call = (chain_route call \<in> set ops_keys)"

definition simulation :: "chain_call \<Rightarrow> bool" where
  "simulation call = (take 9 (snd (chain_route call)) = ''/simulate'')"

lemma chain_mounted: "row_of route_key (chain_route call) (chain_create_app cfg) = None \<longleftrightarrow> simulation call \<and> \<not> cc_enable_simulation_api cfg"
  unfolding row_of_None chain_app_keys chain_build_router_def build_simulation_router_def route_keys ops_keys_def simulation_def by (cases call) simp_all

text \<open>A request leaves the database as it is, or commits transactions of the service.\<close>

lemma chain_app_told:
  assumes U: "uuid5 \<Gamma> = U"
  shows "works_told U (cx_settings ctx) (cx_adapter ctx) (cx_publish ctx) (cx_batch_size ctx) (cx_max_backoff ctx) (cp_bus s, cp_db s)
    (cp_bus (fst (chain_app cfg P ctx \<Gamma> h call s)), cp_db (fst (chain_app cfg P ctx \<Gamma> h call s)))"
proof -
  let ?\<Gamma> = "\<Gamma>\<lparr>cid := Some (request_correlation \<Gamma> (hd_correlation h) (hd_request_id h))\<rparr>"
  let ?R = "\<lambda>s s'. works_told U (cx_settings ctx) (cx_adapter ctx) (cx_publish ctx) (cx_batch_size ctx) (cx_max_backoff ctx) (cp_bus s, cp_db s) (cp_bus s', cp_db s')"
  have post: "chain_works U (cx_settings ctx) (cx_adapter ctx) db db'" if "post_address ks accounts \<Gamma>' owner_ref network db = Inr (db', rep)"
    for ks accounts \<Gamma>' owner_ref network db db' rep
    using that by (auto simp: post_address_def bindr_eq_Inr intro: r_into_rtranclp work_address)
  have "?R s (fst (chain_endpoint cfg P ctx call ?\<Gamma> s))"
  proof (cases call)
    case Tick
    then show ?thesis using U by (auto split: prod.split dest: tick_told [rotated])
  qed (auto simp: transaction_def reading_def chain_ready_def on_mock_def bindr_eq_Inr split: sum.split prod.split option.split intro!: works_told_refl dest: post)
  then show ?thesis
    using respond_state [of "chain_create_app cfg" "chain_auth cfg" "chain_route call" "chain_endpoint cfg P ctx call" \<Gamma> h s]
    by (auto simp: chain_app_def works_told_refl)
qed

lemma chain_app_steps:
  "uuid5 \<Gamma> = U \<Longrightarrow> chain_steps U (cx_settings ctx) (cx_adapter ctx) (cp_db s) (cp_db (fst (chain_app cfg P ctx \<Gamma> h call s)))"
  using works_told_works [OF chain_app_told] chain_works_steps by fastforce

text \<open>
  Property C15. The endpoints of the blockchain service are internal: with authentication on, a
  request to anything but a probe without the configured key changes neither the database,
  nor the node, nor the bus, and is refused (401, or 500 when the credential is not ASCII;
  a route that is not mounted is unknown to the framework). When the simulation is not
  enabled, its routes do not exist, and no request, whoever sends it, changes the node or the
  bus.
\<close>

theorem chain_app_guarded:
  "(cc_auth_enabled cfg \<and> is_ascii (cc_internal_api_key cfg) \<and> \<not> chain_probe call \<and>
     (cc_internal_api_key cfg = [] \<or> credential h \<noteq> cc_internal_api_key cfg) \<longrightarrow>
     (\<exists>rep. chain_app cfg P ctx \<Gamma> h call s = (s, rep) \<and>
        (case rep of None \<Rightarrow> simulation call \<and> \<not> cc_enable_simulation_api cfg
         | Some (Answer x, c) \<Rightarrow> False
         | Some (Problem d, c) \<Rightarrow> p_status d = refusal_status (cc_internal_api_key cfg) h))) \<and>
   (\<not> cc_enable_simulation_api cfg \<longrightarrow>
     (simulation call \<longrightarrow> chain_app cfg P ctx \<Gamma> h call s = (s, None)) \<and>
     cp_node (fst (chain_app cfg P ctx \<Gamma> h call s)) = cp_node s \<and> cp_bus (fst (chain_app cfg P ctx \<Gamma> h call s)) = cp_bus s)"
proof (intro conjI impI; (elim conjE)?)
  assume on: "cc_auth_enabled cfg" and ascii: "is_ascii (cc_internal_api_key cfg)" and call: "\<not> chain_probe call"
    and bad: "cc_internal_api_key cfg = [] \<or> credential h \<noteq> cc_internal_api_key cfg"
  from auth_refuses [OF ascii bad, where header = "''X-Internal-Key''"] obtain e
    where e: "chain_auth cfg h = Inl e" "p_status (error_response None e) = refusal_status (cc_internal_api_key cfg) h"
    using on by (auto simp: chain_auth_def)
  show "\<exists>rep. chain_app cfg P ctx \<Gamma> h call s = (s, rep) \<and>
      (case rep of None \<Rightarrow> simulation call \<and> \<not> cc_enable_simulation_api cfg
       | Some (Answer x, c) \<Rightarrow> False
       | Some (Problem d, c) \<Rightarrow> p_status d = refusal_status (cc_internal_api_key cfg) h)"
  proof (cases "row_of route_key (chain_route call) (chain_create_app cfg)")
    case None
    then show ?thesis using chain_mounted [of call cfg] unfolding chain_app_def respond_unmounted [OF None] by auto
  next
    case (Some r)
    then have "\<exists>d c. chain_app cfg P ctx \<Gamma> h call s = (s, Some (Problem d, c)) \<and> p_status d = p_status (error_response None e)"
      unfolding chain_app_def using call
      by (intro capp.refusal [where auth = "chain_auth cfg" and h = h, OF e(1)]) (simp_all add: chain_probe_def)
    then show ?thesis using e(2) by fastforce
  qed
next
  assume off: "\<not> cc_enable_simulation_api cfg"
  show gone: "chain_app cfg P ctx \<Gamma> h call s = (s, None)" if "simulation call"
    using that off chain_mounted [of call cfg] by (simp add: chain_app_def respond_unmounted)
  let ?\<Gamma> = "\<Gamma>\<lparr>cid := Some (request_correlation \<Gamma> (hd_correlation h) (hd_request_id h))\<rparr>"
  have "cp_node (fst (chain_endpoint cfg P ctx call ?\<Gamma> s)) = cp_node s \<and> cp_bus (fst (chain_endpoint cfg P ctx call ?\<Gamma> s)) = cp_bus s"
    if "\<not> simulation call"
    using that by (cases call) (auto simp: simulation_def transaction_def reading_def chain_ready_def bindr_eq_Inr split: sum.split)
  then have "cp_node (fst (chain_app cfg P ctx \<Gamma> h call s)) = cp_node s \<and> cp_bus (fst (chain_app cfg P ctx \<Gamma> h call s)) = cp_bus s"
    using gone respond_state [of "chain_create_app cfg" "chain_auth cfg" "chain_route call" "chain_endpoint cfg P ctx call" \<Gamma> h s]
    by (cases "simulation call") (auto simp: chain_app_def)
  then show "cp_node (fst (chain_app cfg P ctx \<Gamma> h call s)) = cp_node s" "cp_bus (fst (chain_app cfg P ctx \<Gamma> h call s)) = cp_bus s" by blast+
qed

definition sample_context :: "mock_node chain_context" where
  "sample_context = \<lparr>cx_settings = sample_settings, cx_adapter = MockChainAdapter sample_digest ''BSC'', cx_mock = (\<lambda>c. Some (snd c)),
     cx_put = (\<lambda>m c. (fst c, m)), cx_keystore = sample_keystore, cx_accounts = sample_accounts, cx_sha = sample_digest, cx_describe = (\<lambda>_. []),
     cx_publish = (\<lambda>b ev. (publish b ev, None)), cx_batch_size = 100, cx_max_backoff = 60\<rparr>"

definition sample_process :: "mock_node chain_process" where
  "sample_process = \<lparr>cp_db = empty_cdb, cp_node = (sample_env, sample_node), cp_bus = empty_bus\<rparr>"

definition sealed_config :: chain_config where
  "sealed_config = \<lparr>cc_service_name = ''blockchain-service'', cc_version = ''1.0.0'', cc_auth_enabled = True,
     cc_internal_api_key = ''dev-internal-key'', cc_enable_simulation_api = False\<rparr>"

theorem chain_app_guarded_witness:
  "(\<exists>d c. chain_app sealed_config \<lparr>pr_select = Inr (), pr_redis_ping = Inr True, pr_metrics = []\<rparr> sample_context sample_env
      (sample_headers ''guess'') (CreateAddress ''user:1'' None) sample_process = (sample_process, Some (Problem d, c)) \<and> p_status d = 401) \<and>
   chain_app sealed_config \<lparr>pr_select = Inr (), pr_redis_ping = Inr True, pr_metrics = []\<rparr> sample_context sample_env
      (sample_headers ''dev-internal-key'') (Mine 1) sample_process = (sample_process, None)"
proof -
  let ?P = "\<lparr>pr_select = Inr (), pr_redis_ping = Inr True, pr_metrics = []\<rparr> :: chain_probes"
  have cfg: "cc_auth_enabled sealed_config" "is_ascii (cc_internal_api_key sealed_config)" "\<not> cc_enable_simulation_api sealed_config"
    "\<not> chain_probe (CreateAddress ''user:1'' None)" "\<not> simulation (CreateAddress ''user:1'' None)" "simulation (Mine 1)"
    by (simp_all add: sealed_config_def is_ascii_def chain_probe_def ops_keys_def simulation_def)
  have bad: "credential (sample_headers ''guess'') \<noteq> cc_internal_api_key sealed_config"
    "refusal_status (cc_internal_api_key sealed_config) (sample_headers ''guess'') = 401"
    by (simp_all add: sealed_config_def credential_def sample_headers_def refusal_status_def is_ascii_def)
  obtain rep where "chain_app sealed_config ?P sample_context sample_env (sample_headers ''guess'') (CreateAddress ''user:1'' None) sample_process =
        (sample_process, rep)"
      and "case rep of None \<Rightarrow> simulation (CreateAddress ''user:1'' None) \<and> \<not> cc_enable_simulation_api sealed_config
        | Some (Answer x, c) \<Rightarrow> False | Some (Problem d, c) \<Rightarrow> p_status d = refusal_status (cc_internal_api_key sealed_config) (sample_headers ''guess'')"
    using chain_app_guarded [of sealed_config "CreateAddress ''user:1'' None" "sample_headers ''guess''" ?P sample_context sample_env sample_process]
      cfg bad by blast
  moreover have "chain_app sealed_config ?P sample_context sample_env (sample_headers ''dev-internal-key'') (Mine 1) sample_process = (sample_process, None)"
    using chain_app_guarded [of sealed_config "Mine 1" "sample_headers ''dev-internal-key''" ?P sample_context sample_env sample_process] cfg by blast
  ultimately show ?thesis using cfg bad by (auto split: option.splits reply.splits)
qed

end
