(* ===== verification/Provenance.thy ===== *)
theory Provenance
  imports Bus
begin

text \<open>
  Where events come from: the envelopes of an outbox only grow, the relay changes none of
  them, and the bus carries only what a relay published from an outbox.
\<close>

definition envs :: "outbox \<Rightarrow> envelope set" where
  "envs ob = o_envelope ` set (o_rows ob)"

lemma envs_empty [simp]: "envs empty_outbox = {}"
  by (simp add: envs_def empty_outbox_def)

text \<open>Every envelope that is new in the second outbox satisfies \<open>Q\<close>.\<close>

definition tells :: "(envelope \<Rightarrow> bool) \<Rightarrow> outbox \<Rightarrow> outbox \<Rightarrow> bool" where
  "tells Q ob ob' = (envs ob \<subseteq> envs ob' \<and> (\<forall>ev\<in>envs ob'. ev \<in> envs ob \<or> Q ev))"

lemma tells_refl [simp]: "tells Q ob ob"
  by (simp add: tells_def)

lemma tells_trans [trans]: "\<lbrakk>tells Q a b; tells Q b c\<rbrakk> \<Longrightarrow> tells Q a c"
  unfolding tells_def by blast

lemma tells_mono: "\<lbrakk>tells Q a b; \<And>ev. Q ev \<Longrightarrow> P ev\<rbrakk> \<Longrightarrow> tells P a b"
  unfolding tells_def by blast

lemma enqueue_tells:
  assumes "enqueue_event ob ev = Inr ob'" and "Q ev"
  shows "tells Q ob ob'"
  using enqueue_event_rows [OF assms(1)] assms(2) by (auto simp: tells_def envs_def)

lemma relay_envs: "relay_run_once pub bs mb locked t b ob = (b', ob', n) \<Longrightarrow> envs ob' = envs ob"
proof -
  assume "relay_run_once pub bs mb locked t b ob = (b', ob', n)"
  then have "set (map row_core (o_rows ob')) = set (map row_core (o_rows ob))" using relay_keeps_rows by metis
  then have "(\<lambda>c. snd (snd (snd c))) ` row_core ` set (o_rows ob') = (\<lambda>c. snd (snd (snd c))) ` row_core ` set (o_rows ob)" by simp
  then show ?thesis by (simp add: envs_def image_image row_core_def)
qed

lemma relay_loop_carries:
  "\<lbrakk>relay_loop (eb_publish InMemoryBus) mb t todo b rows done_ids = (b', rows', ids'); carried b' ev\<rbrakk> \<Longrightarrow>
   carried b ev \<or> ev \<in> o_envelope ` set todo"
proof (induction todo arbitrary: b rows done_ids)
  case (Cons r todo)
  have "relay_loop (eb_publish InMemoryBus) mb t todo (publish b (o_envelope r)) rows (done_ids @ [o_id r]) = (b', rows', ids')"
    using Cons.prems(1) by (simp add: InMemoryBus_def)
  from Cons.IH [OF this Cons.prems(2)] show ?case by (auto simp: carried_publish)
qed simp

lemma relay_carries:
  assumes "relay_run_once (eb_publish InMemoryBus) bs mb locked t b ob = (b', ob', n)" and "carried b' ev"
  shows "carried b ev \<or> ev \<in> envs ob"
proof -
  have "set (claim_rows bs locked t ob) \<subseteq> set (o_rows ob)"
    by (auto simp: claim_rows_def dest!: in_set_takeD)
  then show ?thesis
    using assms by (auto simp: relay_run_once_def envs_def Let_def split: if_splits prod.splits dest!: relay_loop_carries)
qed

end
