(* ===== verification/ChainEvents.thy ===== *)
theory ChainEvents
  imports ChainService Provenance Transfers
begin

text \<open>
  Which events the blockchain service writes, and when: an event about a transaction names the
  row of an accepted transfer, a confirmation was counted, and a confirmed deposit is a
  recorded one. And which operation creates rows of outgoing transactions: only the acceptance
  of a request.
\<close>

section \<open>News\<close>

definition concerns :: "chain_settings \<Rightarrow> uuid \<Rightarrow> envelope \<Rightarrow> bool" where
  "concerns S u ev = (event_type ev \<in> {TX_BROADCASTED, TX_CONFIRMED, TX_FAILED} \<and>
     jget (e_payload ev) ''transfer_id'' = Some (JStr (uuid_str u)) \<and>
     (event_type ev = TX_CONFIRMED \<longrightarrow> (\<exists>n\<ge>confirmations_required S. jget (e_payload ev) ''confirmations'' = Some (JInt n))))"

definition tx_news :: "chain_settings \<Rightarrow> cdb \<Rightarrow> envelope \<Rightarrow> bool" where
  "tx_news S db ev = (\<exists>r\<in>set (outgoings db). concerns S (og_transfer_id r) ev)"

definition dep_news :: "chain_settings \<Rightarrow> cdb \<Rightarrow> envelope \<Rightarrow> bool" where
  "dep_news S db ev = (event_type ev \<in> {DEPOSIT_DETECTED, DEPOSIT_REORGED} \<or> event_type ev = DEPOSIT_CONFIRMED \<and>
     (\<exists>d\<in>set (deposits db). \<exists>d2. dep_immut d2 = dep_immut d \<and> confirmations_required S \<le> d_confirmations d2 \<and>
        deposit_payload d2 None = Inr (e_payload ev)))"

definition news :: "chain_settings \<Rightarrow> cdb \<Rightarrow> envelope \<Rightarrow> bool" where
  "news S db ev = (tx_news S db ev \<or> dep_news S db ev)"

lemma news_mono:
  assumes ok: "chaindb_ok U db" and le: "chain_mono db db'" and "news S db ev"
  shows "news S db' ev"
  using assms(3) unfolding news_def
proof
  assume "tx_news S db ev"
  then obtain r where r: "r \<in> set (outgoings db)" "concerns S (og_transfer_id r) ev" by (auto simp: tx_news_def)
  have "row_of og_id (og_id r) (outgoings db) = Some r" using ok r(1) by (simp add: chaindb_ok_def outs_ok_def row_of_unique)
  with le obtain r' where "row_of og_id (og_id r) (outgoings db') = Some r'" "out_immut r' = out_immut r"
    unfolding chain_mono_def outs_le_def by blast
  then have "r' \<in> set (outgoings db')" "og_transfer_id r' = og_transfer_id r" using row_of_Some out_immut_sel(2) by fast+
  then have "tx_news S db' ev" using r(2) unfolding tx_news_def by (intro bexI [of _ r']) simp_all
  then show "tx_news S db' ev \<or> dep_news S db' ev" ..
next
  assume dn: "dep_news S db ev"
  show "tx_news S db' ev \<or> dep_news S db' ev"
  proof (cases "event_type ev \<in> {DEPOSIT_DETECTED, DEPOSIT_REORGED}")
    case False
    with dn obtain d d2 where d: "d \<in> set (deposits db)" "dep_immut d2 = dep_immut d" "confirmations_required S \<le> d_confirmations d2"
      "deposit_payload d2 None = Inr (e_payload ev)" "event_type ev = DEPOSIT_CONFIRMED" by (auto simp: dep_news_def)
    have "row_of d_id (d_id d) (deposits db) = Some d" using ok d(1) by (simp add: chaindb_ok_def deps_ok_def row_of_unique)
    with le obtain d' where d': "row_of d_id (d_id d) (deposits db') = Some d'" "dep_immut d' = dep_immut d"
      unfolding chain_mono_def deps_le_def by blast
    have "d' \<in> set (deposits db')" using row_of_Some [OF d'(1)] by simp
    moreover have "dep_immut d2 = dep_immut d'" using d(2) d'(2) by simp
    ultimately show ?thesis using d(3-5) unfolding dep_news_def by blast
  qed (simp add: dep_news_def)
qed

section \<open>Transactions\<close>

lemma emit_tells:
  assumes "emit \<Gamma> ty p k corr db = Inr db'" and "\<And>ev. \<lbrakk>event_type ev = ty; e_payload ev = p\<rbrakk> \<Longrightarrow> Q ev"
  shows "tells Q (c_outbox db) (c_outbox db')" and "outgoings db' = outgoings db"
  using assms by (auto simp: emit_def bindr_eq_Inr new_event_def intro!: enqueue_tells)

lemma save_outgoing_frame:
  assumes "save_outgoing \<Gamma> r db = Inr db'"
  shows "c_outbox db' = c_outbox db" and "map og_id (outgoings db') = map og_id (outgoings db)"
proof -
  from assms obtain r' where chk: "check_outgoing (r\<lparr>og_updated_at := now \<Gamma>\<rparr>) = Inr r'"
    and db': "db' = db\<lparr>outgoings := upd_of og_id (og_id r) (\<lambda>_. r') (outgoings db)\<rparr>"
    by (auto simp: save_outgoing_def bindr_eq_Inr split: if_splits)
  have "og_id r' = og_id r" by (rule check_outgoingE [OF chk]) auto
  then have "og_id (if og_id x = og_id r then r' else x) = og_id x" for x by simp
  then show "c_outbox db' = c_outbox db" "map og_id (outgoings db') = map og_id (outgoings db)"
    by (auto simp: db' upd_of_def)
qed

lemma emit_save_tells:
  assumes "emit \<Gamma> ty p k corr db = Inr db1" and "save_outgoing \<Gamma>' r db1 = Inr db'"
    and "\<And>ev. \<lbrakk>event_type ev = ty; e_payload ev = p\<rbrakk> \<Longrightarrow> Q ev"
  shows "tells Q (c_outbox db) (c_outbox db') \<and> map og_id (outgoings db') = map og_id (outgoings db)"
  using emit_tells [OF assms(1,3)] save_outgoing_frame [OF assms(2)] by simp

lemma payload_names:
  "failure_payload r reason code = Inr p \<Longrightarrow> jget p ''transfer_id'' = Some (JStr (uuid_str (og_transfer_id r)))"
  "broadcasted_payload r h = Inr p \<Longrightarrow> jget p ''transfer_id'' = Some (JStr (uuid_str (og_transfer_id r)))"
  "confirmed_payload r h rc = Inr p \<Longrightarrow>
     jget p ''transfer_id'' = Some (JStr (uuid_str (og_transfer_id r))) \<and> jget p ''confirmations'' = Some (JInt (og_confirmations r))"
  by (auto simp: failure_payload_def broadcasted_payload_def confirmed_payload_def bindr_eq_Inr jget_def)

lemma concernsI:
  assumes "jget (e_payload ev) ''transfer_id'' = Some (JStr (uuid_str u))"
  shows "event_type ev = TX_FAILED \<Longrightarrow> concerns S u ev" and "event_type ev = TX_BROADCASTED \<Longrightarrow> concerns S u ev"
    and "\<lbrakk>event_type ev = TX_CONFIRMED; jget (e_payload ev) ''confirmations'' = Some (JInt n); confirmations_required S \<le> n\<rbrakk> \<Longrightarrow> concerns S u ev"
  using assms by (auto simp: concerns_def event_type_defs)

definition quiet :: "chain_settings \<Rightarrow> uuid \<Rightarrow> cdb \<Rightarrow> cdb \<Rightarrow> bool" where
  "quiet S u db db' = (tells (concerns S u) (c_outbox db) (c_outbox db') \<and> map og_id (outgoings db') = map og_id (outgoings db))"

lemma quiet_refl [simp]: "quiet S u db db"
  by (simp add: quiet_def)

lemma quiet_save: "save_outgoing \<Gamma> r db = Inr db' \<Longrightarrow> quiet S u db db'"
  by (simp add: quiet_def save_outgoing_frame)

lemma quiet_fail:
  assumes "fail_outgoing \<Gamma> r reason code corr db = Inr db'"
  shows "quiet S (og_transfer_id r) db db'"
proof -
  let ?r = "r\<lparr>og_status := TxFailed, og_failure_reason := Some reason\<rparr>"
  from assms obtain p k db1 where p: "failure_payload ?r reason code = Inr p"
    and em: "emit \<Gamma> TX_FAILED p k corr db = Inr db1" and sv: "save_outgoing \<Gamma> ?r db1 = Inr db'"
    by (auto simp: fail_outgoing_def Let_def bindr_eq_Inr)
  have "jget p ''transfer_id'' = Some (JStr (uuid_str (og_transfer_id r)))" using payload_names(1) [OF p] by simp
  then show ?thesis unfolding quiet_def by (intro emit_save_tells [OF em sv] concernsI(1)) simp_all
qed

text \<open>A transaction of the broadcaster or the watcher speaks of one row and creates none.\<close>

lemma quiet_record_broadcast:
  assumes "record_broadcast \<Gamma> row h db = Inr (db', out)"
  shows "db' = db \<or> (\<exists>r. row_of og_id (og_id row) (outgoings db) = Some r \<and> quiet S (og_transfer_id r) db db')"
proof (cases "row_of og_id (og_id row) (outgoings db)")
  case None
  with assms show ?thesis by (simp add: record_broadcast_def)
next
  case (Some r)
  let ?r = "r\<lparr>og_tx_hash := Some h, og_status := TxBroadcasted, og_broadcast_at := Some (now \<Gamma>), og_failure_reason := None,
    og_next_attempt_at := None\<rparr>"
  from assms Some consider "db' = db" | p k corr db1 where "broadcasted_payload ?r h = Inr p"
      "emit \<Gamma> TX_BROADCASTED p k corr db = Inr db1" "save_outgoing \<Gamma> ?r db1 = Inr db'"
    by (auto simp: record_broadcast_def Let_def bindr_eq_Inr split: if_splits)
  then show ?thesis
  proof cases
    case 2
    have "jget p ''transfer_id'' = Some (JStr (uuid_str (og_transfer_id r)))" using payload_names(2) [OF 2(1)] by simp
    then have "quiet S (og_transfer_id r) db db'" unfolding quiet_def by (intro emit_save_tells [OF 2(2,3)] concernsI(2)) simp_all
    with Some show ?thesis by blast
  qed simp
qed

lemma quiet_record_failure:
  assumes "record_broadcast_failure \<Gamma> row reason code db = Inr (db', out)"
  shows "db' = db \<or> (\<exists>r. row_of og_id (og_id row) (outgoings db) = Some r \<and> quiet S (og_transfer_id r) db db')"
  using assms quiet_fail [where S = S]
  by (fastforce simp: record_broadcast_failure_def bindr_eq_Inr split: option.split_asm if_split_asm)

lemma quiet_schedule: "quiet S u db (schedule_retry \<Gamma> row reason db)"
  by (auto simp: quiet_def schedule_retry_def upd_of_def)

lemma quiet_reorged:
  assumes "mark_outgoing_reorged \<Gamma> r db = Inr (db', out)"
  shows "quiet S (og_transfer_id r) db db'"
proof -
  let ?f = "map (\<lambda>(k, v). (k, if k = ''was_confirmed'' then JBool True else v))"
  from assms obtain p k corr db1 r1 reason code where p: "failure_payload r reason code = Inr p"
    and em: "emit \<Gamma> TX_FAILED (?f p) k corr db = Inr db1" and sv: "save_outgoing \<Gamma> r1 db1 = Inr db'"
    by (auto simp: mark_outgoing_reorged_def Let_def bindr_eq_Inr)
  have "jget (?f p) ''transfer_id'' = Some (JStr (uuid_str (og_transfer_id r)))"
    using p by (auto simp: failure_payload_def bindr_eq_Inr jget_def)
  then show ?thesis unfolding quiet_def by (intro emit_save_tells [OF em sv] concernsI(1)) simp_all
qed

lemma quiet_stuck:
  assumes "handle_stuck S \<Gamma> r b att db = Inr (db', out)"
  shows "quiet S (og_transfer_id r) db db'"
  using assms
  by (auto simp: handle_stuck_def Let_def bindr_eq_Inr split: option.split_asm if_split_asm intro: quiet_save quiet_fail)

lemma quiet_check_apply:
  assumes "check_apply S \<Gamma> head h receipt r0 r db = Inr (db', out)"
  shows "quiet S (og_transfer_id r) db db'"
proof (cases receipt)
  case None
  with assms show ?thesis by (auto simp: check_apply_def Let_def split: if_splits intro: quiet_reorged quiet_stuck)
next
  case (Some rc)
  let ?\<Gamma> = "correlation_scope (og_correlation_id r) \<Gamma>"
  let ?r1 = "r\<lparr>og_block_number := Some (rc_block_number rc), og_block_hash := Some (rc_block_hash rc),
                 og_confirmations := max 0 (head - rc_block_number rc + 1)\<rparr>"
  let ?r2 = "?r1\<lparr>og_status := TxConfirmed\<rparr>"
  from assms Some consider "save_outgoing ?\<Gamma> ?r1 db = Inr db'"
    | reason code corr where "fail_outgoing ?\<Gamma> ?r1 reason code corr db = Inr db'"
    | p k corr db1 where "confirmations_required S \<le> og_confirmations ?r1" "confirmed_payload ?r2 h rc = Inr p"
        "emit ?\<Gamma> TX_CONFIRMED p k corr db = Inr db1" "save_outgoing ?\<Gamma> ?r2 db1 = Inr db'"
    by (auto simp: check_apply_def Let_def bindr_eq_Inr split: if_splits)
  then show ?thesis
  proof cases
    case 2
    from quiet_fail [OF this] show ?thesis by simp
  next
    case 3
    have "jget p ''transfer_id'' = Some (JStr (uuid_str (og_transfer_id r)))" "jget p ''confirmations'' = Some (JInt (og_confirmations ?r1))"
      using payload_names(3) [OF 3(2)] by simp_all
    then show ?thesis unfolding quiet_def using 3(1) by (intro emit_save_tells [OF 3(3,4)] concernsI(3)) simp_all
  qed (rule quiet_save)
qed

lemma quiet_news:
  assumes "quiet S (og_transfer_id r) db db'" and "row_of og_id i (outgoings db) = Some r"
  shows "tells (news S db) (c_outbox db) (c_outbox db')" and "map og_id (outgoings db') = map og_id (outgoings db)"
  using assms by (auto simp: quiet_def news_def tx_news_def elim!: tells_mono dest!: row_of_Some)

section \<open>Deposits\<close>

lemma save_deposit_frame: "save_deposit d db = Inr db' \<Longrightarrow> c_outbox db' = c_outbox db \<and> outgoings db' = outgoings db"
  by (auto simp: save_deposit_def bindr_eq_Inr)

lemma reverify_apply_news:
  assumes run: "reverify_apply \<Gamma> head (confirmations_required S) found d db = Inr (db', out)" and d: "d \<in> set (deposits db)"
  shows "tells (news S db) (c_outbox db) (c_outbox db') \<and> outgoings db' = outgoings db"
proof -
  have reorg: "news S db ev" if "event_type ev = DEPOSIT_REORGED" for ev using that by (simp add: news_def dep_news_def)
  show ?thesis
  proof (cases found)
    case None
    with run obtain \<Gamma>' p k corr db1 d1 where em: "emit \<Gamma>' DEPOSIT_REORGED p k corr db = Inr db1" and sv: "save_deposit d1 db1 = Inr db'"
      by (auto simp: reverify_apply_def mark_deposit_reorged_def Let_def bindr_eq_Inr)
    show ?thesis using emit_tells [OF em reorg] save_deposit_frame [OF sv] by simp
  next
    case (Some bh)
    obtain block hash where bh: "bh = (block, hash)" by fastforce
    let ?d1 = "d\<lparr>d_block_number := block, d_block_hash := hash, d_confirmations := max 0 (head - block + 1)\<rparr>"
    let ?d2 = "?d1\<lparr>d_status := DepConfirmed, d_confirmed_at := Some (now \<Gamma>)\<rparr>"
    from run Some bh consider "save_deposit ?d1 db = Inr db'"
      | \<Gamma>' p k corr db1 where "confirmations_required S \<le> d_confirmations ?d2" "deposit_payload ?d2 None = Inr p"
          "emit \<Gamma>' DEPOSIT_CONFIRMED p k corr db = Inr db1" "save_deposit ?d2 db1 = Inr db'"
      by (auto simp: reverify_apply_def Let_def bindr_eq_Inr correlation_scope_def split: if_splits)
    then show ?thesis
    proof cases
      case 1
      from save_deposit_frame [OF this] show ?thesis by simp
    next
      case 2
      have "dep_immut ?d2 = dep_immut d" by (simp add: dep_immut_def)
      then have "news S db ev" if "event_type ev = DEPOSIT_CONFIRMED" "e_payload ev = p" for ev
        unfolding news_def dep_news_def using that 2(1,2) d by blast
      from emit_tells [OF 2(3) this] save_deposit_frame [OF 2(4)] show ?thesis by simp
    qed
  qed
qed

lemma upsert_row_frame:
  assumes "upsert_row \<Gamma> e db = Inr (db', got)"
  shows "c_outbox db' = c_outbox db \<and> outgoings db' = outgoings db"
  using assms by (auto simp: upsert_row_def Let_def bindr_eq_Inr split: option.split_asm if_split_asm)

lemma upsert_all_news: "upsert_all \<Gamma> es db = Inr (db', n) \<Longrightarrow> tells (news S db0) (c_outbox db) (c_outbox db') \<and> outgoings db' = outgoings db"
proof (induction es arbitrary: db n)
  case (Cons e es)
  then obtain db1 hit m where one: "upsert_deposit \<Gamma> e db = Inr (db1, hit)" and rest: "upsert_all \<Gamma> es db1 = Inr (db', m)"
    by (auto simp: bindr_eq_Inr)
  have det: "news S db0 ev" if "event_type ev = DEPOSIT_DETECTED" for ev using that by (simp add: news_def dep_news_def)
  have "tells (news S db0) (c_outbox db) (c_outbox db1) \<and> outgoings db1 = outgoings db" using one
  proof (cases rule: upsert_deposit_cases)
    case 1
    then show ?thesis using upsert_row_frame by simp
  next
    case (2 db2 d p)
    from emit_tells [OF 2(4) det] upsert_row_frame [OF 2(1)] show ?thesis by simp
  qed
  then show ?case using Cons.IH [OF rest] tells_trans by metis
qed simp

lemma scanner_news:
  assumes "scanner_run_once S A C \<Gamma> db0 db1 db = Inr (db', rep)"
  shows "tells (news S dbx) (c_outbox db) (c_outbox db') \<and> outgoings db' = outgoings db"
proof (cases "db' = db")
  case False
  with assms obtain es db2 n to_block tip where up: "upsert_all \<Gamma> es db = Inr (db2, n)" and cu: "set_cursor \<Gamma> (cs_network S) to_block tip db2 = Inr db'"
    unfolding scanner_run_once_def Let_def bindr_eq_Inr by (auto simp: bindr_eq_Inr split: if_splits)
  have "c_outbox db' = c_outbox db2 \<and> outgoings db' = outgoings db2" using cu by (auto simp: set_cursor_def bindr_eq_Inr)
  with upsert_all_news [OF up] show ?thesis by simp
qed simp

section \<open>Accepting a request\<close>

text \<open>Rows that keep their keys keep their identity.\<close>

lemma rows_back:
  assumes le: "outs_le db db'" and ids: "map og_id (outgoings db') = map og_id (outgoings db)" and u: "uniq og_id (outgoings db')"
    and r': "r' \<in> set (outgoings db')"
  shows "\<exists>r\<in>set (outgoings db). out_immut r' = out_immut r"
proof -
  have "og_id r' \<in> set (map og_id (outgoings db))" using r' by (simp flip: ids)
  then obtain r where r: "row_of og_id (og_id r') (outgoings db) = Some r" by (cases "row_of og_id (og_id r') (outgoings db)") (simp_all add: row_of_None)
  with le obtain r2 where r2: "row_of og_id (og_id r') (outgoings db') = Some r2" "out_immut r2 = out_immut r"
    unfolding outs_le_def by blast
  have "r2 = r'" using r2(1) row_of_unique [OF u r'] by (metis option.inject)
  moreover have "r \<in> set (outgoings db)" using row_of_Some [OF r] by simp
  ultimately show ?thesis using r2(2) by (intro bexI [of _ r]) simp_all
qed

lemma insert_outgoing_addresses:
  assumes run: "insert_outgoing \<Gamma> tid network asset f t n corr db = Inr (db', Some r)" and len: "length f \<le> 64" "length t \<le> 64"
  shows "og_from_address r = f" and "og_to_address r = t"
proof -
  from run obtain r0 x where x: "check_outgoing r0 = Inr x" "x = r" and r0: "og_from_address r0 = f" "og_to_address r0 = t"
    unfolding insert_outgoing_def bindr_eq_Inr Let_def by (elim exE conjE) (rule that, assumption, simp_all split: if_splits)
  have chk: "check_outgoing r0 = Inr r" using x by simp
  show "og_from_address r = f" "og_to_address r = t"
    by (rule check_outgoingE [OF chk]; use len r0 in simp)+
qed

text \<open>What the wallet asked for.\<close>

definition asked_row :: "transfer \<Rightarrow> outgoing \<Rightarrow> bool" where
  "asked_row t r = (og_transfer_id r = t_id t \<and> og_from_address r = from_address t \<and> og_to_address r = to_address t \<and> og_amount r = t_amount t)"

lemma accept_creates:
  assumes ok: "outs_ok U db" and U: "uuid5 \<Gamma> = U"
    and run: "accept_transfer_request \<Gamma> (requested_payload a t) corr db = Inr (db', out)"
    and t: "\<bar>t_amount t\<bar> < 10 ^ 78" "length (from_address t) \<le> 64" "length (to_address t) \<le> 64"
    and r': "r' \<in> set (outgoings db')"
  shows "asked_row t r' \<or> (\<exists>r\<in>set (outgoings db). out_immut r' = out_immut r)"
proof -
  have amt: "jint (JStr (py_str (t_amount t))) = Inr (t_amount t)" using t(1) by (rule jint_str)
  have addr: "text_column 64 col (JStr (from_address t)) = Inr (from_address t)" "text_column 64 col (JStr (to_address t)) = Inr (to_address t)" for col
    using t by (simp_all add: text_column_def)
  from run amt addr obtain network asset db1 got where
      ins: "insert_outgoing \<Gamma> (t_id t) network asset (from_address t) (to_address t) (t_amount t) (Some corr) db = Inr (db1, got)"
    and raw: "(case got of None \<Rightarrow> Inr (db1, ''duplicate'') | Some r \<Rightarrow>
         if row_of ad_address (from_address t) (addresses db) = None
         then bindr (fail_outgoing \<Gamma> r ''unknown sending address'' ''UNKNOWN_SENDING_ADDRESS'' (Some corr) db1) (\<lambda>db2. Inr (db2, ''processed''))
         else Inr (db1, ''processed'')) = Inr (db', out)"
    by (auto simp: accept_transfer_request_def requested_payload_def jreq_def jget_def bindr_eq_Inr [of "jint x" for x]
        bindr_eq_Inr [of "text_column n c v" for n c v] bindr_eq_Inr [of "insert_outgoing x1 x2 x3 x4 x5 x6 x7 x8 x9" for x1 x2 x3 x4 x5 x6 x7 x8 x9]
        simp del: jint.simps)
  have rest: "(case got of None \<Rightarrow> db' = db1 | Some r \<Rightarrow> db' = db1 \<or>
       fail_outgoing \<Gamma> r ''unknown sending address'' ''UNKNOWN_SENDING_ADDRESS'' (Some corr) db1 = Inr db')"
    using raw by (cases got) (auto simp: bindr_eq_Inr split: if_split_asm)
  have 1: "asked_row t r \<or> r \<in> set (outgoings db)" if "r \<in> set (outgoings db1)" for r
    using ins
  proof (cases rule: insert_outgoing_cases)
    case (2 x)
    from insert_outgoing_addresses [OF ins [unfolded 2(1)] t(2,3)] 2 that show ?thesis by (auto simp: asked_row_def)
  qed (use that in simp)
  show ?thesis
  proof (cases "db' = db1")
    case True
    with 1 [of r'] r' show ?thesis by auto
  next
    case False
    with rest obtain r where r: "got = Some r" and f: "fail_outgoing \<Gamma> r ''unknown sending address'' ''UNKNOWN_SENDING_ADDRESS'' (Some corr) db1 = Inr db'"
      by (auto split: option.split_asm)
    have k: "out_keeps U db db1" and row: "row_of og_id (og_id r) (outgoings db1) = Some r" using insert_keeps [OF ok ins] r by auto
    have k1: "out_keeps U db1 db'" by (rule fail_keeps [OF out_keepsD [OF k] row _ _ _ U f]) simp_all
    have "map og_id (outgoings db') = map og_id (outgoings db1)" using quiet_fail [OF f] by (simp add: quiet_def)
    from rows_back [OF _ this _ r'] k1 obtain x where "x \<in> set (outgoings db1)" "out_immut r' = out_immut x"
      by (auto simp: out_keeps_def outs_ok_def)
    then show ?thesis using 1 [of x] by (auto simp: asked_row_def out_immut_def)
  qed
qed

lemma accept_news:
  assumes ok: "chaindb_ok U db" and U: "uuid5 \<Gamma> = U" and run: "accept_transfer_request \<Gamma> p corr db = Inr (db', out)"
  shows "tells (news S db') (c_outbox db) (c_outbox db')"
  using run
proof (cases rule: accept_cases)
  case (3 v tid network asset f t n r db1)
  have o: "outs_ok U db" using ok by (simp add: chaindb_ok_def)
  have k: "out_keeps U db db1" and row: "row_of og_id (og_id r) (outgoings db1) = Some r" using insert_keeps [OF o 3(4)] by auto
  have c1: "chaindb_ok U db1" using out_keeps_chain [OF ok k] by simp
  have "out_keeps U db1 db'" by (rule fail_keeps [OF out_keepsD [OF k] row _ _ _ U 3(5)]) simp_all
  then have le: "chain_mono db1 db'" using out_keeps_chain [OF c1] by simp
  have "tells (news S db1) (c_outbox db1) (c_outbox db')" using quiet_news(1) [OF quiet_fail [OF 3(5)] row] .
  then have "tells (news S db') (c_outbox db1) (c_outbox db')" by (rule tells_mono) (rule news_mono [OF c1 le])
  moreover have "c_outbox db1 = c_outbox db" using 3(4) by (cases rule: insert_outgoing_cases) simp_all
  ultimately show ?thesis by simp
qed (auto elim: insert_outgoing_cases)

section \<open>Every step\<close>

text \<open>A step that is not the handling of an event.\<close>

lemma work_news:
  assumes step: "chain_step U S A db db'" and ok: "chaindb_ok U db"
  shows "tells (news S db') (c_outbox db) (c_outbox db') \<and>
    (c_processed db' = c_processed db \<longrightarrow> map og_id (outgoings db') = map og_id (outgoings db))"
proof -
  have mono: "news S db ev \<Longrightarrow> news S db' ev" for ev using news_mono [OF ok] chain_step_keeps [OF step ok] by blast
  have up: "tells (news S db) (c_outbox db) (c_outbox db') \<Longrightarrow> tells (news S db') (c_outbox db) (c_outbox db')" using tells_mono mono by blast
  have q: "db' = db \<or> (\<exists>i r. row_of og_id i (outgoings db) = Some r \<and> quiet S (og_transfer_id r) db db') \<Longrightarrow> ?thesis"
    using up quiet_news by fastforce
  from step show ?thesis
  proof cases
    case address
    from address_frame [OF this] show ?thesis by simp
  next
    case (event \<Gamma> ev out)
    from event(2) show ?thesis
    proof (cases rule: chain_dispatch_cases)
      case (new u p)
      let ?db = "db\<lparr>c_processed := c_processed db @ [p]\<rparr>"
      have c: "c_processed db' = c_processed db @ [p]" using new(4) by (auto dest: accept_processed split: if_splits)
      have ok': "chaindb_ok U ?db" 
        by (rule chain_same [OF ok, THEN conjunct1])
          (use ok new(2,3) in \<open>auto simp: event_ids_def chaindb_ok_def chain_seen_def row_of_append uniq_snoc split: option.splits\<close>)
      have U': "uuid5 (correlation_scope (Some (e_correlation_id ev)) \<Gamma>) = U" using event(1) by simp
      have "tells (news S db') (c_outbox ?db) (c_outbox db')"
        using new(4) accept_news [OF ok' U'] by (auto split: if_splits)
      with c show ?thesis by simp
    qed simp
  next
    case (dead \<Gamma> item)
    then show ?thesis by (auto simp: record_chain_dead_letter_def Let_def bindr_eq_Inr split: option.splits if_splits)
  next
    case (relay pub bs mb locked t b b' ob' n)
    from relay_envs [OF relay(2)] relay(1) show ?thesis by (simp add: tells_def)
  next
    case scan
    from scanner_news [OF scan(2), of db] up show ?thesis by simp
  next
    case (deposit \<Gamma> c1 c2 head i db0 out)
    show ?thesis
    proof (cases "db' = db")
      case False
      with deposit obtain found d where d: "row_of d_id i (deposits db) = Some d"
        and ap: "reverify_apply \<Gamma> head (confirmations_required S) found d db = Inr (db', out)"
        by (auto simp: reverify_def bindr_eq_Inr split: option.splits)
      have "d \<in> set (deposits db)" using row_of_Some [OF d] by simp
      from reverify_apply_news [OF ap this] up show ?thesis by simp
    qed simp
  next
    case claim
    then show ?thesis by (auto simp: claim_outgoing_def Let_def take_lease_def split: if_splits)
  next
    case (sent \<Gamma> describe row answer out)
    from sent(2) have "db' = db \<or> (\<exists>i r. row_of og_id i (outgoings db) = Some r \<and> quiet S (og_transfer_id r) db db') \<or>
        (\<exists>\<Gamma>' reason. db' = schedule_retry \<Gamma>' row reason db)"
      by (auto simp: broadcast_outcome_def Let_def split: sum.split_asm exn.split_asm if_split_asm
          dest!: quiet_record_broadcast [where S = S] quiet_record_failure [where S = S])
    then show ?thesis
    proof (elim disjE exE)
      fix \<Gamma>' reason assume "db' = schedule_retry \<Gamma>' row reason db"
      then show ?thesis by (auto simp: schedule_retry_def upd_of_def)
    qed (use q in blast)+
  next
    case (watched \<Gamma> c head i db0 out)
    then have "db' = db \<or> (\<exists>r. row_of og_id i (outgoings db) = Some r \<and> quiet S (og_transfer_id r) db db')"
      by (auto simp: check_one_def bindr_eq_Inr split: option.split_asm if_split_asm intro: quiet_check_apply)
    then show ?thesis using q by blast
  qed
qed

end
