(* ===== verification/WalletSchema.thy ===== *)
theory WalletSchema
  imports WalletService "HOL-Library.Sublist"
begin

text \<open>
  The schema of the initial migration of the wallet service as a predicate on the database:
  column types, checks, keys and foreign keys of every table. Every committed transaction
  keeps it, and none changes or removes a ledger entry.
\<close>

section \<open>Columns\<close>

definition user_cols :: "user \<Rightarrow> bool" where
  "user_cols u = (length (u_name u) \<le> 128 \<and> length (u_email u) \<le> 255 \<and> length (u_status u) \<le> 16)"

definition wallet_cols :: "wallet \<Rightarrow> bool" where
  "wallet_cols w = (length (w_network w) \<le> 32 \<and> length (w_asset w) \<le> 16 \<and> length (w_address w) \<le> 64 \<and> length (w_status w) \<le> 16)"

definition balance_cols :: "balance \<Rightarrow> bool" where
  "balance_cols b = (length (b_asset b) \<le> 16 \<and> \<bar>posted b\<bar> < 10 ^ 78 \<and> \<bar>reserved b\<bar> < 10 ^ 78 \<and> - (2 ^ 31) \<le> version b \<and> version b < 2 ^ 31 \<and>
     0 \<le> reserved b \<and> 0 \<le> posted b - reserved b)"

definition entry_cols :: "ledger_entry \<Rightarrow> bool" where
  "entry_cols e = (length (l_asset e) \<le> 16 \<and> \<bar>l_amount e\<bar> < 10 ^ 78 \<and> length (reference_type e) \<le> 24 \<and> length (reference_id e) \<le> 200 \<and>
     fits_opt 64 (l_correlation_id e) \<and> l_amount e \<noteq> 0)"

definition transfer_cols :: "transfer \<Rightarrow> bool" where
  "transfer_cols t = (length (t_idempotency_key t) \<le> 128 \<and> length (t_asset t) \<le> 16 \<and> length (t_network t) \<le> 32 \<and> \<bar>t_amount t\<bar> < 10 ^ 78 \<and>
     length (from_address t) \<le> 64 \<and> length (to_address t) \<le> 64 \<and> fits_opt 80 (t_tx_hash t) \<and> fits_opt 48 (failure_code t) \<and>
     fits_opt 64 (t_correlation_id t) \<and> 0 < t_amount t \<and> from_user_id t \<noteq> to_user_id t)"

definition idem_cols :: "idempotency_key \<Rightarrow> bool" where
  "idem_cols i = (length (i_scope i) \<le> 64 \<and> length (i_key i) \<le> 128 \<and> length (request_hash i) \<le> 64 \<and>
     - (2 ^ 31) \<le> response_status i \<and> response_status i < 2 ^ 31 \<and> fits_opt 64 (resource_id i))"

definition outbox_cols :: "outbox_row \<Rightarrow> bool" where
  "outbox_cols r = (length (o_event_type r) \<le> 64 \<and> length (o_correlation_id r) \<le> 64)"

definition processed_cols :: "processed_event \<Rightarrow> bool" where
  "processed_cols p = (length (pe_consumer p) \<le> 64 \<and> length (pe_event_type p) \<le> 64)"

definition dead_cols :: "dead_letter_row \<Rightarrow> bool" where
  "dead_cols d = (length (dr_consumer d) \<le> 64 \<and> length (dr_event_type d) \<le> 64 \<and> - (2 ^ 31) \<le> dr_delivery_count d \<and> dr_delivery_count d < 2 ^ 31)"

definition wallet_columns :: "wdb \<Rightarrow> bool" where
  "wallet_columns db = (list_all user_cols (users db) \<and> list_all wallet_cols (wallets db) \<and> list_all balance_cols (balances db) \<and>
     list_all entry_cols (entries db) \<and> list_all transfer_cols (transfers db) \<and> list_all idem_cols (idem_keys db) \<and>
     list_all outbox_cols (o_rows (w_outbox db)) \<and> list_all processed_cols (processed db) \<and> list_all dead_cols (dead_rows db))"

definition wallet_keys :: "wdb \<Rightarrow> bool" where
  "wallet_keys db = (uniq u_id (users db) \<and> uniq u_email (users db) \<and> uniq w_id (wallets db) \<and> uniq wallet_key (wallets db) \<and> uniq w_address (wallets db) \<and>
     uniq bal_key (balances db) \<and> uniq l_id (entries db) \<and> uniq entry_id (entries db) \<and> uniq entry_key (entries db) \<and>
     uniq t_id (transfers db) \<and> uniq t_idempotency_key (transfers db) \<and> uniq idem_key (idem_keys db) \<and> uniq o_id (o_rows (w_outbox db)) \<and>
     uniq o_event_id (o_rows (w_outbox db)) \<and> uniq pe_key (processed db) \<and> uniq dr_id (dead_rows db))"

definition wallet_references :: "wdb \<Rightarrow> bool" where
  "wallet_references db = (list_all (\<lambda>w. user_exists db (w_user_id w)) (wallets db) \<and> list_all (\<lambda>b. user_exists db (b_user_id b)) (balances db) \<and>
     list_all (\<lambda>e. user_exists db (l_user_id e)) (entries db) \<and>
     list_all (\<lambda>t. user_exists db (from_user_id t) \<and> user_exists db (to_user_id t)) (transfers db))"

definition wallet_schema :: "wdb \<Rightarrow> bool" where
  "wallet_schema db = (wallet_columns db \<and> wallet_keys db \<and> wallet_references db)"

section \<open>What a transaction writes\<close>

text \<open>The columns stay well typed, with what that needs of the keys, and the ledger only grows at its end.\<close>

definition typed :: "wdb \<Rightarrow> bool" where
  "typed db = (wallet_columns db \<and> uniq dr_id (dead_rows db) \<and> uniq bal_key (balances db))"

definition writes :: "wdb \<Rightarrow> wdb \<Rightarrow> bool" where
  "writes db db' = ((typed db \<longrightarrow> typed db') \<and> prefix (entries db) (entries db'))"

lemma writes_refl [simp]: "writes db db"
  by (simp add: writes_def)

lemma writes_trans: "writes a b \<Longrightarrow> writes b c \<Longrightarrow> writes a c"
  by (auto simp: writes_def)

lemma varchar_opt_length: "varchar_opt n col v = Inr v' \<Longrightarrow> fits_opt n v'"
  by (auto simp: varchar_opt_def fits_opt_def bindr_eq_Inr split: option.splits dest: varchar_length)

lemma fits_opt_None [simp]: "fits_opt n None"
  by (simp add: fits_opt_def)

lemma list_all_upd_of: "\<lbrakk>list_all P xs; \<And>x. P x \<Longrightarrow> P (f x)\<rbrakk> \<Longrightarrow> list_all P (upd_of key k f xs)"
  by (auto simp: upd_of_def list_all_iff)

lemmas schema_simps = writes_def typed_def wallet_columns_def bindr_eq_Inr result_simps uniq_snoc
lemmas column_lengths = varchar_length varchar_opt_length

lemma writes_create_user: "create_user \<Gamma> name email db = Inr (db', u) \<Longrightarrow> writes db db'"
  by (auto simp: create_user_def schema_simps Let_def user_cols_def split: if_splits dest: column_lengths)

lemma writes_insert_wallet: "insert_wallet \<Gamma> u network a address db = Inr (db', i) \<Longrightarrow> writes db db'"
  by (auto simp: insert_wallet_def schema_simps Let_def wallet_cols_def split: if_splits dest: column_lengths)

lemma writes_ensure_balance: "ensure_balance \<Gamma> u a db = Inr db' \<Longrightarrow> writes db db'"
  by (auto simp: ensure_balance_def schema_simps balance_cols_def bal_key_def split: if_splits dest: column_lengths)

lemma writes_lock_balance: "lock_balance \<Gamma> u a db = Inr (db', b) \<Longrightarrow> writes db db'"
  by (auto simp: lock_balance_def bindr_eq_Inr split: option.splits dest: writes_ensure_balance)

lemma writes_move_balance:
  assumes "move_balance \<Gamma> u a dp dr db = Inr (db', n)"
  shows "writes db db'"
proof (cases "read_balance u a db")
  case None
  with assms show ?thesis by (simp add: move_balance_def)
next
  case (Some b)
  with assms have c: "check_balance (moved \<Gamma> dp dr b) = Inr (moved \<Gamma> dp dr b)"
    and db': "db' = db\<lparr>balances := upd_of bal_key (u, a) (moved \<Gamma> dp dr) (balances db)\<rparr>"
    by (auto simp: move_balance_def bindr_eq_Inr check_balance_eq)
  have key: "bal_key (moved \<Gamma> dp dr x) = bal_key x" for x by (simp add: bal_key_def moved_def)
  have cols: "balance_cols x" if ok: "list_all balance_cols (balances db)" "uniq bal_key (balances db)"
    and x: "x \<in> set (upd_of bal_key (u, a) (moved \<Gamma> dp dr) (balances db))" for x
  proof -
    from x obtain y where y: "y \<in> set (balances db)" "x = (if bal_key y = (u, a) then moved \<Gamma> dp dr y else y)"
      by (auto simp: set_upd_of)
    have b: "b \<in> set (balances db)" "bal_key b = (u, a)" using Some row_of_Some unfolding read_balance_def by fastforce+
    show ?thesis
    proof (cases "bal_key y = (u, a)")
      case True
      with y(1) b ok(2) have "y = b" by (metis row_of_unique option.inject)
      moreover have "length (b_asset b) \<le> 16" using ok(1) b(1) by (auto simp: list_all_iff balance_cols_def)
      ultimately show ?thesis using y(2) True c by (auto simp: balance_cols_def check_balance_eq moved_def simp del: power_numeral)
    next
      case False
      with y ok(1) show ?thesis by (auto simp: list_all_iff)
    qed
  qed
  show ?thesis using cols by (auto simp: db' schema_simps uniq_upd key list_all_iff)
qed

lemma writes_insert_entry: "insert_entry \<Gamma> a p db = Inr (db', i) \<Longrightarrow> writes db db'"
  by (auto simp: insert_entry_def schema_simps Let_def entry_cols_def split: if_splits dest: column_lengths)

lemma writes_post_one: "post_one \<Gamma> a p (db, k) = Inr (db', k') \<Longrightarrow> writes db db'"
  by (auto simp: post_one_def bindr_eq_Inr split: option.splits
      dest!: writes_lock_balance writes_insert_entry writes_move_balance intro: writes_trans)

lemma writes_post_all: "post_all \<Gamma> a ps (db, k) = Inr (db', k') \<Longrightarrow> writes db db'"
proof (induction ps arbitrary: db k)
  case (Cons p ps)
  then obtain db1 k1 where "post_one \<Gamma> a p (db, k) = Inr (db1, k1)" "post_all \<Gamma> a ps (db1, k1) = Inr (db', k')"
    by (auto simp: bindr_eq_Inr)
  then show ?case using Cons.IH writes_post_one writes_trans by blast
qed simp

lemma writes_post_entries: "post_entries \<Gamma> a ps db = Inr (db', k) \<Longrightarrow> writes db db'"
  by (simp add: post_entries_def writes_post_all)

lemma writes_place_hold: "place_hold \<Gamma> u a n db = Inr (db', r) \<Longrightarrow> writes db db'"
  by (auto simp: place_hold_def bindr_eq_Inr split: option.splits if_splits dest: writes_move_balance)

lemma writes_release_hold: "release_hold \<Gamma> u a n db = Inr db' \<Longrightarrow> writes db db'"
  by (auto simp: release_hold_def bindr_eq_Inr dest: writes_move_balance)

lemma writes_insert_transfer: "insert_transfer t db = Inr db' \<Longrightarrow> t_tx_hash t = None \<Longrightarrow> failure_code t = None \<Longrightarrow> writes db db'"
  by (auto simp: insert_transfer_def schema_simps transfer_cols_def split: if_splits dest: column_lengths)

lemma writes_enqueue: "enqueue ev db = Inr db' \<Longrightarrow> writes db db'"
  by (auto simp: enqueue_def enqueue_event_def schema_simps outbox_cols_def split: option.splits if_splits dest: column_lengths)

lemma writes_draws [simp]: "writes db (db'\<lparr>draws := n\<rparr>) = writes db db'" "writes (db\<lparr>draws := n\<rparr>) db' = writes db db'"
  by (simp_all add: schema_simps)

lemma writes_save_transfer: "save_transfer \<Gamma> old new db = Inr db' \<Longrightarrow> writes db db'"
  by (auto simp: save_transfer_def schema_simps transfer_cols_def with_mutable_def split: if_splits dest!: column_lengths intro!: list_all_upd_of)

lemma writes_claim: "claim \<Gamma> scope key hash db = Inr (db', r) \<Longrightarrow> writes db db'"
  by (auto simp: claim_def schema_simps idem_cols_def PLACEHOLDER_STATUS_def split: if_splits option.splits dest: column_lengths)

lemma writes_complete: "complete scope key status body resource db = Inr db' \<Longrightarrow> writes db db'"
  by (auto simp: complete_def schema_simps idem_cols_def dest!: column_lengths intro!: list_all_upd_of)

section \<open>Transactions\<close>

lemma writes_create_transfer:
  assumes "create_transfer \<Gamma> fu tu asset amount key network db = Inr (db', t)"
  shows "writes db db'"
proof -
  obtain a db1 b db2 db3 fw tw where "lock_balance \<Gamma> fu (symbol a) db = Inr (db1, b)" "place_hold \<Gamma> fu (symbol a) amount db1 = Inr (db2, True)"
    and t: "t = new_transfer \<Gamma> db2 fu tu a amount key network fw tw"
    and "insert_transfer t (db2\<lparr>draws := Suc (draws db2)\<rparr>) = Inr db3" "enqueue (requested_event \<Gamma> a t) db3 = Inr db'"
    using assms by (auto simp: create_transfer_def bindr_eq_Inr Let_def split: if_split_asm option.split_asm prod.split_asm)
  moreover have "t_tx_hash t = None" "failure_code t = None" by (simp_all add: t new_transfer_def)
  ultimately have "writes db db1" "writes db1 db2" "writes (db2\<lparr>draws := Suc (draws db2)\<rparr>) db3" "writes db3 db'"
    by (blast dest: writes_lock_balance writes_place_hold writes_enqueue writes_insert_transfer)+
  then show ?thesis unfolding writes_draws by (blast intro: writes_trans)
qed

lemma writes_settle:
  assumes "settle_transfer \<Gamma> p db = Inr (db', out)"
  shows "writes db db'"
proof -
  obtain r where r: "load_for_update p db = Inr r" using assms by (auto simp: settle_transfer_def bindr_eq_Inr)
  show ?thesis using assms r
    by (cases r) (auto simp: settle_transfer_def bindr_eq_Inr split: if_split_asm
        dest!: writes_release_hold writes_post_entries writes_save_transfer intro: writes_trans)
qed

lemma writes_fail: "fail_transfer \<Gamma> p db = Inr (db', out) \<Longrightarrow> writes db db'"
  by (auto simp: fail_transfer_def bindr_eq_Inr Let_def split: option.split_asm if_split_asm
      dest!: writes_release_hold writes_post_entries writes_save_transfer intro: writes_trans)

lemma writes_broadcasted: "mark_broadcasted \<Gamma> p db = Inr (db', out) \<Longrightarrow> writes db db'"
  by (auto simp: mark_broadcasted_def bindr_eq_Inr split: option.split_asm if_split_asm dest!: writes_save_transfer)

lemma writes_post_deposit: "post_deposit \<Gamma> a q db = Inr (db', n) \<Longrightarrow> writes db db'"
  by (auto simp: post_deposit_def bindr_eq_Inr split: option.splits dest: writes_post_entries)

lemma writes_credit: "credit_deposit \<Gamma> p db = Inr (db', out) \<Longrightarrow> writes db db'"
  by (auto simp: credit_deposit_def bindr_eq_Inr split: option.splits dest: writes_post_deposit)

lemma writes_reverse: "reverse_deposit \<Gamma> p db = Inr (db', out) \<Longrightarrow> writes db db'"
  by (auto simp: reverse_deposit_def bindr_eq_Inr split: option.split_asm if_split_asm dest: writes_post_deposit)

lemma writes_handle: "handle_event \<Gamma> ev db = Inr (db', out) \<Longrightarrow> writes db db'"
  by (auto simp: handle_event_def split: if_splits dest: writes_settle writes_fail writes_broadcasted writes_credit writes_reverse)

lemma writes_dispatch:
  assumes "dispatch \<Gamma> ev db = Inr (db', out)"
  shows "writes db db'"
proof -
  have consumer: "length CONSUMER_NAME \<le> 64" by (simp add: CONSUMER_NAME_def)
  have mark: "writes db (db\<lparr>processed := processed db @ [p]\<rparr>)" if "processed_cols p" for p
    using that by (simp add: schema_simps)
  from assms consider "db' = db"
    | u ty where "varchar 64 ''processed_events.event_type'' (event_type ev) = Inr ty"
      "handle_event (correlation_scope (Some (e_correlation_id ev)) \<Gamma>) ev (db\<lparr>processed := processed db @
         [\<lparr>pe_consumer = CONSUMER_NAME, pe_event_id = u, pe_event_type = ty, processed_at = now \<Gamma>\<rparr>]\<rparr>) = Inr (db', out)"
    by (auto simp: dispatch_def Let_def bindr_eq_Inr split: option.split_asm if_split_asm)
  then show ?thesis
  proof cases
    case 2
    from writes_handle [OF 2(2)] varchar_length [OF 2(1)] consumer show ?thesis
      by (intro writes_trans [OF mark]) (simp_all add: processed_cols_def)
  qed simp
qed

lemma writes_dead_letter: "record_dead_letter \<Gamma> item db = Inr (db', ()) \<Longrightarrow> writes db db'"
  by (auto simp: record_dead_letter_def schema_simps Let_def dead_cols_def CONSUMER_NAME_def split: option.split_asm if_split_asm dest: varchar_length)

lemma relay_loop_cols: "\<lbrakk>relay_loop pub mb t todo b rows ok = (b', rows', ok'); list_all outbox_cols rows\<rbrakk> \<Longrightarrow> list_all outbox_cols rows'"
  by (induction todo arbitrary: b rows ok)
    (fastforce simp: mark_failed_def outbox_cols_def split: prod.splits option.splits intro!: list_all_upd_of)+

lemma writes_relay:
  assumes "relay_run_once pub bs mb locked t b (w_outbox db) = (b', ob', n)"
  shows "writes db (db\<lparr>w_outbox := ob'\<rparr>)"
proof -
  have mark: "list_all outbox_cols rows \<Longrightarrow> list_all outbox_cols (mark_published t ids rows)" for ids rows
    by (auto simp: mark_published_def list_all_iff outbox_cols_def)
  have "list_all outbox_cols (o_rows (w_outbox db)) \<Longrightarrow> list_all outbox_cols (o_rows ob')"
    using assms by (auto simp: relay_run_once_def Let_def split: if_splits prod.splits dest: relay_loop_cols intro!: mark)
  then show ?thesis by (simp add: schema_simps)
qed

lemma writes_progress: "writes db (fst (advance_transfers \<Gamma> db))"
  by (auto simp: advance_transfers_def schema_simps Let_def list_all_iff transfer_cols_def)

lemma wallet_step_writes: "wallet_step U S sha db db' \<Longrightarrow> writes db db'"
proof (induction rule: wallet_step.induct)
  case (user valid_email \<Gamma> name email db db' rep)
  then show ?case by (auto simp: post_user_def bindr_eq_Inr dest: writes_create_user)
next
  case (wallet issue \<Gamma> uid network asset db0 db db' rep)
  then show ?case
    by (auto simp: post_wallet_def attach_wallet_def bindr_eq_Inr split: option.splits
        dest!: writes_insert_wallet writes_ensure_balance intro: writes_trans)
next
  case (transfer \<Gamma> q db db' rep)
  from transfer(2) show ?case
    by (cases rule: post_transfer_cases) (auto dest!: writes_claim writes_create_transfer writes_complete intro: writes_trans)
qed (auto dest: writes_dispatch writes_dead_letter writes_relay intro: writes_progress)

lemma wallet_steps_write: "wallet_steps U S sha db db' \<Longrightarrow> writes db db'"
  by (induction rule: rtranclp_induct) (auto dest: wallet_step_writes intro: writes_trans)


text \<open>
  Property C17. The ledger is append-only: whatever the service does, from any state, the
  entries it had stay where they are, unchanged and in order, and new entries are only added
  behind them.
\<close>

theorem ledger_append_only:
  assumes "wallet_steps U S sha db db'"
  shows "prefix (entries db) (entries db')"
  using wallet_steps_write [OF assms] by (simp add: writes_def)


theorem ledger_append_only_witness: "prefix (entries hist_deposited) (entries (fst hist_transferred)) \<and> entries hist_deposited \<noteq> []"
proof -
  have "hist_steps hist_deposited (fst hist_transferred)" using wallet_step.transfer [OF refl hist_transfer(1)] by (rule r_into_rtranclp)
  from ledger_append_only [OF this] show ?thesis by (simp add: hist_deposited_def)
qed

end
