(* ===== verification/WalletEvents.thy ===== *)
theory WalletEvents
  imports WalletSchema Provenance
begin

text \<open>
  Which events the wallet service writes, and what it takes an event for it to act: a request
  event describes a stored transfer, a transfer is broadcast, settled or failed only by an
  event of that kind that names it, and money enters only by a deposit event.
\<close>

section \<open>Requests\<close>

definition asks :: "wdb \<Rightarrow> envelope \<Rightarrow> bool" where
  "asks db ev = (event_type ev = TRANSFER_REQUESTED \<and> (\<exists>t\<in>set (transfers db). \<exists>a. e_payload ev = requested_payload a t))"

lemma requested_payload_immut: "immut t' = immut t \<Longrightarrow> requested_payload a t' = requested_payload a t"
  by (simp add: requested_payload_def immut_def)

lemma asks_mono:
  assumes ok: "wallet_ok U db" and le: "transfers_le db db'" and "asks db ev"
  shows "asks db' ev"
proof -
  from assms(3) obtain t a where t: "event_type ev = TRANSFER_REQUESTED" "t \<in> set (transfers db)" "e_payload ev = requested_payload a t"
    by (auto simp: asks_def)
  have "row_of t_id (t_id t) (transfers db) = Some t" using ok t(2) by (simp add: wallet_ok_def transfers_ok_def row_of_unique)
  with le obtain t' where t': "row_of t_id (t_id t) (transfers db') = Some t'" "immut t' = immut t" unfolding transfers_le_def by blast
  have "t' \<in> set (transfers db')" using row_of_Some [OF t'(1)] by simp
  then show ?thesis using t requested_payload_immut [OF t'(2)] unfolding asks_def by (intro conjI bexI [of _ t'] exI [of _ a]) simp_all
qed

lemma wallet_found: "\<lbrakk>get_wallet u network a db = Some w; list_all wallet_cols (wallets db)\<rbrakk> \<Longrightarrow> length (w_address w) \<le> 64 \<and> length network \<le> 32"
  by (auto simp: get_wallet_def wallet_key_def list_all_iff wallet_cols_def dest!: row_of_Some)

lemma create_asks:
  assumes ok: "ledger_ok db" "transfers_ok db" "list_all wallet_cols (wallets db)"
    and run: "create_transfer \<Gamma> fu tu s amount key network db = Inr (db', t)"
  shows "tells (asks db') (w_outbox db) (w_outbox db')"
proof -
  from run have ne: "fu \<noteq> tu" by (auto simp: create_transfer_def)
  from run ne obtain a where a: "get_asset s = Inr a" by (auto simp: create_transfer_def bindr_eq_Inr)
  from run ne a obtain fw tw db1 b db2 db3 where w: "get_wallet fu network (symbol a) db = Some fw" "get_wallet tu network (symbol a) db = Some tw"
    and lk: "lock_balance \<Gamma> fu (symbol a) db = Inr (db1, b)" and ph: "place_hold \<Gamma> fu (symbol a) amount db1 = Inr (db2, True)"
    and t: "t = new_transfer \<Gamma> db2 fu tu a amount key network fw tw"
    and ins: "insert_transfer t (db2\<lparr>draws := Suc (draws db2)\<rparr>) = Inr db3" and enq: "enqueue (requested_event \<Gamma> a t) db3 = Inr db'"
    by (auto simp: create_transfer_def bindr_eq_Inr Let_def split: option.splits if_splits)
  have len: "length (from_address t) \<le> 64" "length (to_address t) \<le> 64" "length (t_network t) \<le> 32"
    using wallet_found [OF w(1) ok(3)] wallet_found [OF w(2) ok(3)] by (simp_all add: t new_transfer_def)
  from ins len obtain t' where t': "transfers db3 = transfers db2 @ [t']" "requested_payload a t' = requested_payload a t" "w_outbox db3 = w_outbox db2"
    by (auto simp: insert_transfer_def bindr_eq_Inr requested_payload_def split: if_split_asm)
  have ob: "w_outbox db2 = w_outbox db"
    using lock_balance_spec(2) [OF ok(1) lk] place_hold_spec(2) [OF lock_balance_spec(1) [OF ok(1) lk] ph] by (simp add: ledger_frame_sel)
  from enq t'(3) ob obtain db4 where e: "enqueue_event (w_outbox db) (requested_event \<Gamma> a t) = Inr (w_outbox db')" and tr: "transfers db' = transfers db3"
    by (auto simp: enqueue_def bindr_eq_Inr)
  have "asks db' (requested_event \<Gamma> a t)"
    unfolding asks_def requested_event_def using t'(1,2) tr by (intro conjI bexI [of _ t'] exI [of _ a]) (simp_all add: new_event_def)
  then show ?thesis by (rule enqueue_tells [OF e])
qed

section \<open>Events decide transfers\<close>

definition named_transfer :: "envelope \<Rightarrow> uuid result" where
  "named_transfer ev = bindr (jreq (e_payload ev) ''transfer_id'') juuid"

definition decides :: "envelope \<Rightarrow> uuid \<Rightarrow> transfer_status \<Rightarrow> bool" where
  "decides ev u st = (named_transfer ev = Inr u \<and>
     (st = BROADCASTED \<and> event_type ev = TX_BROADCASTED \<or> st = CONFIRMED \<and> event_type ev = TX_CONFIRMED \<or> st = FAILED \<and> event_type ev = TX_FAILED))"

lemma load_names: "load_for_update (e_payload ev) db = Inr (Some t) \<Longrightarrow> named_transfer ev = Inr (t_id t) \<and> row_of t_id (t_id t) (transfers db) = Some t"
  by (auto simp: load_for_update_def named_transfer_def bindr_eq_Inr dest: row_of_Some)

definition moved_by :: "(uuid \<Rightarrow> transfer_status \<Rightarrow> bool) \<Rightarrow> wdb \<Rightarrow> wdb \<Rightarrow> bool" where
  "moved_by D db db' = (\<forall>t'\<in>set (transfers db'). \<exists>t\<in>set (transfers db). immut t' = immut t \<and> (t_status t' = t_status t \<or> D (t_id t) (t_status t')))"

lemma moved_same: "transfers db' = transfers db \<Longrightarrow> moved_by D db db'"
  by (auto simp: moved_by_def)

lemma save_moves:
  assumes save: "save_transfer \<Gamma> t new dbx = Inr db'" and im: "immut new = immut t" and tr: "transfers dbx = transfers db"
    and row: "row_of t_id (t_id t) (transfers db) = Some t" and u: "uniq t_id (transfers db)" and D: "D (t_id t) (t_status new)"
  shows "moved_by D db db'"
  using save im
proof (cases rule: save_transfer_cases)
  case (1 f)
  have t: "t \<in> set (transfers db)" using row_of_Some [OF row] by simp
  show ?thesis unfolding moved_by_def
  proof
    fix t' assume "t' \<in> set (transfers db')"
    then obtain y where y: "y \<in> set (transfers db)" "t' = (if t_id y = t_id t then f y else y)" by (auto simp: 1(1) tr set_upd_of)
    show "\<exists>x\<in>set (transfers db). immut t' = immut x \<and> (t_status t' = t_status x \<or> D (t_id x) (t_status t'))"
    proof (cases "t_id y = t_id t")
      case True
      have "y = t" using row_of_unique [OF u y(1)] row unfolding True by simp
      then have "immut t' = immut t \<and> t_status t' = t_status new" using y(2) 1(2,3) by simp
      then show ?thesis using t D by auto
    qed (use y in auto)
  qed
qed

text \<open>Each handler changes nothing or saves the transfer that its payload names.\<close>

lemma settle_moves:
  assumes ok: "ledger_ok db" "transfers_ok db" and run: "settle_transfer \<Gamma> (e_payload ev) db = Inr (db', out)" and ty: "event_type ev = TX_CONFIRMED"
  shows "moved_by (decides ev) db db'"
proof -
  from run obtain r where r: "load_for_update (e_payload ev) db = Inr r" by (auto simp: settle_transfer_def bindr_eq_Inr)
  show ?thesis
  proof (cases "r = None \<or> t_status (the r) = CONFIRMED \<or> t_status (the r) = FAILED")
    case True
    with run r have "db' = db" by (auto simp: settle_transfer_def split: option.splits if_splits)
    then show ?thesis by (simp add: moved_same)
  next
    case False
    then obtain t where t: "r = Some t" "t_status t \<noteq> CONFIRMED" "t_status t \<noteq> FAILED" by auto
    let ?new = "t\<lparr>t_status := CONFIRMED, t_tx_hash := pget_or (e_payload ev) ''tx_hash'' (t_tx_hash t), settled_at := Some (now \<Gamma>)\<rparr>"
    note n = load_names [OF r [unfolded t(1)]]
    from run r t obtain db1 db2 k where rel: "release_hold \<Gamma> (from_user_id t) (t_asset t) (t_amount t) db = Inr db1"
      and post: "post_entries \<Gamma> (t_asset t) (settle_postings t) db1 = Inr (db2, k)" and save: "save_transfer \<Gamma> t ?new db2 = Inr db'"
      by (auto simp: settle_transfer_def bindr_eq_Inr)
    note R = release_hold_spec [OF ok(1) rel]
    have "ledger_frame db db2" using R(2) post_all_ok [OF R(1) post [unfolded post_entries_def]] ledger_frame_trans by blast
    then have tr: "transfers db2 = transfers db" by (simp add: ledger_frame_sel)
    show ?thesis
      by (rule save_moves [OF save _ tr]) (use n ok ty in \<open>simp_all add: immut_def decides_def transfers_ok_def\<close>)
  qed
qed

lemma fail_moves:
  assumes ok: "ledger_ok db" "transfers_ok db" and run: "fail_transfer \<Gamma> (e_payload ev) db = Inr (db', out)" and ty: "event_type ev = TX_FAILED"
  shows "moved_by (decides ev) db db'"
proof -
  from run obtain r where r: "load_for_update (e_payload ev) db = Inr r" by (auto simp: fail_transfer_def bindr_eq_Inr)
  show ?thesis
  proof (cases "r = None \<or> t_status (the r) = FAILED")
    case True
    with run r have "db' = db" by (auto simp: fail_transfer_def split: option.splits)
    then show ?thesis by (simp add: moved_same)
  next
    case False
    then obtain t where t: "r = Some t" "t_status t \<noteq> FAILED" by auto
    note n = load_names [OF r [unfolded t(1)]]
    from run r t obtain db1 new where first: "(if t_status t = CONFIRMED
         then bindr (post_entries \<Gamma> (t_asset t) (reversal_postings t) db) (\<lambda>(db1, _). Inr db1)
         else release_hold \<Gamma> (from_user_id t) (t_asset t) (t_amount t) db) = Inr db1"
      and save: "save_transfer \<Gamma> t new db1 = Inr db'" and new: "t_status new = FAILED" "immut new = immut t"
      by (auto simp: fail_transfer_def bindr_eq_Inr Let_def immut_def)
    have "ledger_frame db db1"
    proof (cases "t_status t = CONFIRMED")
      case True
      with first obtain k where "post_entries \<Gamma> (t_asset t) (reversal_postings t) db = Inr (db1, k)" by (auto simp: bindr_eq_Inr)
      then show ?thesis using post_all_ok [OF ok(1)] by (auto simp: post_entries_def)
    next
      case False
      with first show ?thesis using release_hold_spec(2) [OF ok(1)] by simp
    qed
    then have tr: "transfers db1 = transfers db" by (simp add: ledger_frame_sel)
    show ?thesis
      by (rule save_moves [OF save new(2) tr]) (use n ok ty new in \<open>simp_all add: decides_def transfers_ok_def\<close>)
  qed
qed

lemma broadcast_moves:
  assumes ok: "transfers_ok db" and run: "mark_broadcasted \<Gamma> (e_payload ev) db = Inr (db', out)" and ty: "event_type ev = TX_BROADCASTED"
  shows "moved_by (decides ev) db db'"
proof -
  from run obtain r where r: "load_for_update (e_payload ev) db = Inr r" by (auto simp: mark_broadcasted_def bindr_eq_Inr)
  show ?thesis
  proof (cases "r = None \<or> t_status (the r) \<in> set TERMINAL")
    case True
    with run r have "db' = db" by (auto simp: mark_broadcasted_def split: option.splits)
    then show ?thesis by (simp add: moved_same)
  next
    case False
    then obtain t where t: "r = Some t" by auto
    note n = load_names [OF r [unfolded t]]
    from run r t False obtain new where save: "save_transfer \<Gamma> t new db = Inr db'" and new: "t_status new = BROADCASTED" "immut new = immut t"
      by (auto simp: mark_broadcasted_def bindr_eq_Inr immut_def)
    show ?thesis
      by (rule save_moves [OF save new(2) refl]) (use n ok ty new in \<open>simp_all add: decides_def transfers_ok_def\<close>)
  qed
qed

section \<open>Events decide entries\<close>

lemma post_all_entries:
  "\<lbrakk>ledger_ok db; post_all \<Gamma> a ps (db, n) = Inr (db', n'); e \<in> set (entries db')\<rbrakk> \<Longrightarrow> e \<in> set (entries db) \<or> (\<exists>p\<in>set ps. entry_of a p e)"
proof (induction ps arbitrary: db n)
  case (Cons p ps)
  from Cons.prems(2) obtain db1 n1 where one: "post_one \<Gamma> a p (db, n) = Inr (db1, n1)" and rest: "post_all \<Gamma> a ps (db1, n1) = Inr (db', n')"
    by (auto simp: bindr_eq_Inr)
  note S = post_one_spec [OF Cons.prems(1) one]
  show ?case
  proof (cases "e \<in> set (entries db1)")
    case True
    then show ?thesis using S(6) by (auto split: if_split_asm)
  next
    case False
    with Cons.IH [OF S(1) rest Cons.prems(3)] show ?thesis by auto
  qed
qed simp

lemma entry_of_type: "entry_of a p e \<Longrightarrow> l_entry_type e = p_entry_type p"
  by (cases "varchar 24 ''ledger_entries.reference_type'' (p_reference_type p)"; cases "varchar 200 ''ledger_entries.reference_id'' (p_reference_id p)")
    (simp_all add: entry_of_def posted_key_def entry_key_def)

lemma post_entries_entries:
  assumes "ledger_ok db" and "post_entries \<Gamma> a ps db = Inr (db', n)" and "e \<in> set (entries db')"
  shows "e \<in> set (entries db) \<or> (\<exists>p\<in>set ps. l_user_id e = p_user_id p \<and> l_asset e = a \<and> l_amount e = p_amount p \<and> l_entry_type e = p_entry_type p)"
  using post_all_entries [OF assms(1) assms(2) [unfolded post_entries_def] assms(3)]
  using entry_of_type by (fastforce simp: entry_of_def)

text \<open>The deposit event behind a credit: it names the wallet of the user and the amount.\<close>

definition credits :: "wdb \<Rightarrow> envelope \<Rightarrow> ledger_entry \<Rightarrow> bool" where
  "credits db ev e = (event_type ev = DEPOSIT_CONFIRMED \<and> (\<exists>w v. payload_wallet (e_payload ev) db = Inr (Some w) \<and> w_user_id w = l_user_id e \<and>
     jreq (e_payload ev) ''amount_units'' = Inr v \<and> jint v = Inr (l_amount e)) \<and>
     (\<exists>v. jreq (e_payload ev) ''asset'' = Inr v \<and> jtext v = Some (l_asset e)))"

definition posted_by :: "(ledger_entry \<Rightarrow> bool) \<Rightarrow> wdb \<Rightarrow> wdb \<Rightarrow> bool" where
  "posted_by C db db' = (\<forall>e\<in>set (entries db'). l_entry_type e = DEPOSIT \<longrightarrow> e \<in> set (entries db) \<or> C e)"

lemma post_entries_posted:
  assumes "ledger_ok db" and "post_entries \<Gamma> a ps db = Inr (db', n)"
    and "\<And>p e. \<lbrakk>p \<in> set ps; p_entry_type p = DEPOSIT; l_user_id e = p_user_id p; l_asset e = a; l_amount e = p_amount p\<rbrakk> \<Longrightarrow> C e"
  shows "posted_by C db db'"
  unfolding posted_by_def using post_entries_entries [OF assms(1,2)] assms(3) by metis

lemma posted_by_cong: "\<lbrakk>posted_by C db1 db2; entries db1 = entries db; entries db2 = entries db'\<rbrakk> \<Longrightarrow> posted_by C db db'"
  by (simp add: posted_by_def)

lemma posted_same: "entries db' = entries db \<Longrightarrow> posted_by C db db'"
  by (simp add: posted_by_def)

lemma save_entries: "save_transfer \<Gamma> t new db = Inr db' \<Longrightarrow> entries db' = entries db"
  by (auto simp: save_transfer_def bindr_eq_Inr split: if_splits)

lemma settle_posts:
  assumes ok: "ledger_ok db" and run: "settle_transfer \<Gamma> p db = Inr (db', out)"
  shows "posted_by C db db'"
proof (cases "entries db' = entries db")
  case False
  with run obtain t db1 db2 k where rel: "release_hold \<Gamma> (from_user_id t) (t_asset t) (t_amount t) db = Inr db1"
      and post: "post_entries \<Gamma> (t_asset t) (settle_postings t) db1 = Inr (db2, k)" and "entries db' = entries db2"
    by (auto simp: settle_transfer_def bindr_eq_Inr split: option.split_asm if_split_asm dest!: save_entries)
  moreover have "posted_by C db1 db2"
    by (rule post_entries_posted [OF release_hold_spec(1) [OF ok rel] post]) (auto simp: settle_postings_def)
  ultimately show ?thesis using release_hold_spec(3) [OF ok rel] posted_by_cong by metis
qed (rule posted_same)

lemma fail_posts:
  assumes ok: "ledger_ok db" and run: "fail_transfer \<Gamma> p db = Inr (db', out)"
  shows "posted_by C db db'"
proof (cases "entries db' = entries db")
  case False
  have rel: "release_hold \<Gamma> u a n db = Inr db1 \<Longrightarrow> entries db1 = entries db" for u a n db1 using release_hold_spec(3) [OF ok] by simp
  from run False obtain t db1 k where post: "post_entries \<Gamma> (t_asset t) (reversal_postings t) db = Inr (db1, k)" and "entries db' = entries db1"
    by (auto simp: fail_transfer_def bindr_eq_Inr Let_def split: option.split_asm if_split_asm dest!: save_entries rel)
  moreover have "posted_by C db db1" by (rule post_entries_posted [OF ok post]) (auto simp: reversal_postings_def)
  ultimately show ?thesis using posted_by_cong by metis
qed (rule posted_same)

lemma credit_posts:
  assumes ok: "ledger_ok db" and run: "credit_deposit \<Gamma> (e_payload ev) db = Inr (db', out)" and ty: "event_type ev = DEPOSIT_CONFIRMED"
  shows "posted_by (credits db ev) db db'"
proof (cases "entries db' = entries db")
  case False
  with run obtain w v n a ref k where w: "payload_wallet (e_payload ev) db = Inr (Some w)" "jreq (e_payload ev) ''amount_units'' = Inr v" "jint v = Inr n" "jreq (e_payload ev) ''asset'' = Inr a"
    and post: "post_deposit \<Gamma> a (deposit_posting w n DEPOSIT ref) db = Inr (db', k)"
    by (auto simp: credit_deposit_def bindr_eq_Inr split: option.split_asm)
  from post obtain s where s: "jtext a = Some s" and "post_entries \<Gamma> s [deposit_posting w n DEPOSIT ref] db = Inr (db', k)"
    by (auto simp: post_deposit_def split: option.splits)
  from this(2) show ?thesis by (rule post_entries_posted [OF ok]) (use w s ty in \<open>auto simp: credits_def\<close>)
qed (rule posted_same)

lemma reverse_posts:
  assumes ok: "ledger_ok db" and run: "reverse_deposit \<Gamma> p db = Inr (db', out)"
  shows "posted_by C db db'"
proof (cases "entries db' = entries db")
  case False
  with run obtain w n a ref k where post: "post_deposit \<Gamma> a (deposit_posting w (- n) REVERSAL ref) db = Inr (db', k)"
    by (auto simp: reverse_deposit_def bindr_eq_Inr split: option.split_asm if_split_asm)
  then obtain s where "post_entries \<Gamma> s [deposit_posting w (- n) REVERSAL ref] db = Inr (db', k)" by (auto simp: post_deposit_def split: option.splits)
  then show ?thesis by (rule post_entries_posted [OF ok]) auto
qed (rule posted_same)

section \<open>Every transaction\<close>

lemma post_deposit_transfers:
  "\<lbrakk>ledger_ok db; post_deposit \<Gamma> a (deposit_posting w n ty ref) db = Inr (db', k)\<rbrakk> \<Longrightarrow> transfers db' = transfers db"
  using post_deposit_spec(2) ledger_frame_sel(4) by blast

lemma credit_transfers: "\<lbrakk>ledger_ok db; credit_deposit \<Gamma> p db = Inr (db', out)\<rbrakk> \<Longrightarrow> transfers db' = transfers db"
  by (auto simp: credit_deposit_def bindr_eq_Inr split: option.split_asm dest: post_deposit_transfers)

lemma reverse_transfers: "\<lbrakk>ledger_ok db; reverse_deposit \<Gamma> p db = Inr (db', out)\<rbrakk> \<Longrightarrow> transfers db' = transfers db"
  by (auto simp: reverse_deposit_def bindr_eq_Inr split: option.split_asm if_split_asm dest: post_deposit_transfers)

lemma mark_posts: "mark_broadcasted \<Gamma> p db = Inr (db', out) \<Longrightarrow> entries db' = entries db"
  by (auto simp: mark_broadcasted_def bindr_eq_Inr split: option.split_asm if_split_asm dest: save_entries)

lemma handle_decides:
  assumes ok: "ledger_ok db" "transfers_ok db" and run: "handle_event \<Gamma> ev db = Inr (db', out)"
  shows "moved_by (decides ev) db db' \<and> posted_by (credits db ev) db db'"
proof -
  from run consider "db' = db"
    | "event_type ev = DEPOSIT_CONFIRMED" "credit_deposit \<Gamma> (e_payload ev) db = Inr (db', out)"
    | "event_type ev = DEPOSIT_REORGED" "reverse_deposit \<Gamma> (e_payload ev) db = Inr (db', out)"
    | "event_type ev = TX_BROADCASTED" "mark_broadcasted \<Gamma> (e_payload ev) db = Inr (db', out)"
    | "event_type ev = TX_CONFIRMED" "settle_transfer \<Gamma> (e_payload ev) db = Inr (db', out)"
    | "event_type ev = TX_FAILED" "fail_transfer \<Gamma> (e_payload ev) db = Inr (db', out)"
    by (auto simp: handle_event_def split: if_splits)
  then show ?thesis
  proof cases
    case 1
    then show ?thesis by (simp add: moved_same posted_same)
  next
    case 2
    then show ?thesis using credit_posts [OF ok(1)] credit_transfers [OF ok(1)] by (simp add: moved_same)
  next
    case 3
    then show ?thesis using reverse_posts [OF ok(1)] reverse_transfers [OF ok(1)] by (simp add: moved_same)
  next
    case 4
    then show ?thesis using broadcast_moves [OF ok(2)] mark_posts by (simp add: posted_same)
  next
    case 5
    then show ?thesis using settle_moves [OF ok] settle_posts [OF ok(1)] by simp
  next
    case 6
    then show ?thesis using fail_moves [OF ok] fail_posts [OF ok(1)] by simp
  qed
qed

lemma dispatch_decides:
  assumes ok: "ledger_ok db" "transfers_ok db" and run: "dispatch \<Gamma> ev db = Inr (db', out)"
  shows "moved_by (decides ev) db db' \<and> posted_by (credits db ev) db db'"
  using run
proof (cases rule: dispatch_cases)
  case (dup u)
  then show ?thesis by (simp add: moved_same posted_same)
next
  case (new u p)
  let ?db = "db\<lparr>processed := processed db @ [p]\<rparr>"
  have "moved_by (decides ev) ?db db' \<and> posted_by (credits ?db ev) ?db db'"
    using ok handle_decides [OF _ _ new(4)] by (simp add: processed_invisible)
  moreover have "payload_wallet q ?db = payload_wallet q db" for q
    by (simp add: payload_wallet_def wallet_by_address_def cong: option.case_cong)
  then have "credits ?db ev = credits db ev" by (simp add: fun_eq_iff credits_def)
  ultimately show ?thesis by (simp add: moved_by_def posted_by_def)
qed

text \<open>A transaction that handles no event asks for what it stores, decides no transfer and posts nothing.\<close>

definition idle :: "wdb \<Rightarrow> wdb \<Rightarrow> bool" where
  "idle db db' = (entries db' = entries db \<and> (\<forall>t'\<in>set (transfers db'). t_status t' \<in> {CREATED, PROCESSING} \<or>
     (\<exists>t\<in>set (transfers db). immut t' = immut t \<and> t_status t' = t_status t)))"

lemma idle_same: "\<lbrakk>entries db' = entries db; transfers db' = transfers db\<rbrakk> \<Longrightarrow> idle db db'"
  by (auto simp: idle_def)

lemma dispatch_handled:
  assumes ok: "ledger_ok db" "transfers_ok db" and run: "dispatch \<Gamma> ev db = Inr (db', out)" and same: "processed db' = processed db"
  shows "db' = db"
  using run
proof (cases rule: dispatch_cases)
  case (new u p)
  let ?db = "db\<lparr>processed := processed db @ [p]\<rparr>"
  have "ledger_ok ?db" "transfers_ok ?db" using ok by (simp_all add: processed_invisible)
  then have "core_frame ?db db'" using handle_event_keeps [OF _ _ new(4)] by blast
  then have "processed db' = processed db @ [p]" by (simp add: core_frame_sel)
  with same show ?thesis by simp
qed simp

definition grows :: "wdb \<Rightarrow> wdb \<Rightarrow> bool" where
  "grows db db' = (set (wallets db) \<subseteq> set (wallets db') \<and> tells (asks db') (w_outbox db) (w_outbox db') \<and> (processed db' = processed db \<longrightarrow> idle db db'))"

lemma grows_same:
  "\<lbrakk>wallets db' = wallets db; w_outbox db' = w_outbox db; entries db' = entries db; transfers db' = transfers db\<rbrakk> \<Longrightarrow> grows db db'"
  by (simp add: grows_def idle_same)

lemma grows_wallet:
  assumes "attach_wallet \<Gamma> uid network a address db = Inr (db', w, c)"
  shows "grows db db'"
proof -
  from assms obtain db1 i where ins: "insert_wallet \<Gamma> uid network a address db = Inr (db1, i)" and ens: "ensure_balance \<Gamma> uid a db1 = Inr db'"
    by (auto simp: attach_wallet_def bindr_eq_Inr split: option.splits)
  have "\<exists>x y. db1 = db\<lparr>draws := x, wallets := wallets db @ y\<rparr>"
    using ins
  proof (cases rule: insert_wallet_cases)
    case dup
    then show ?thesis by (intro exI [of _ "draws db1"] exI [of _ "[]"]) simp
  next
    case new
    then show ?thesis by auto
  qed
  moreover have "\<exists>z. db' = db1\<lparr>balances := z\<rparr>" using ens by (auto simp: ensure_balance_def bindr_eq_Inr split: option.splits if_splits intro: exI [of _ "balances db1"])
  ultimately show ?thesis by (auto simp: grows_def idle_same)
qed

lemma wallet_step_grows:
  assumes step: "wallet_step U S sha db db'" and ok: "wallet_ok U db" and ty: "typed db"
  shows "grows db db'"
  using step
proof cases
  case (user valid_email \<Gamma> name email rep)
  then obtain e u where "create_user \<Gamma> name e db = Inr (db', u)" by (auto simp: post_user_def bindr_eq_Inr)
  then show ?thesis by (cases rule: create_user_cases) (simp add: grows_same)
next
  case (wallet issue \<Gamma> uid network asset db0 rep)
  then show ?thesis by (auto simp: post_wallet_def bindr_eq_Inr split: option.split_asm dest: grows_wallet intro: grows_same)
next
  case (transfer \<Gamma> q rep)
  from transfer(2) show ?thesis
  proof (cases rule: post_transfer_cases)
    case (replayed a units i)
    from replayed(4) have "db' = db" by (cases rule: claim_cases) simp_all
    then show ?thesis by (simp add: grows_same)
  next
    case (created a units db1 db2 t body)
    from claim_owned [OF created(4) valid_key(2,1) [OF created(1)]] obtain row where db1: "db1 = db\<lparr>idem_keys := idem_keys db @ [row]\<rparr>" by blast
    have lt: "ledger_ok db1" "transfers_ok db1" using ok by (simp_all add: db1 claim_invisible wallet_ok_def)
    have w: "list_all wallet_cols (wallets db1)" using ty by (simp add: db1 typed_def wallet_columns_def)
    note C = create_spec [OF lt created(5)]
    from created(7) obtain x where db': "db' = db2\<lparr>idem_keys := x\<rparr>" by (auto simp: complete_def bindr_eq_Inr)
    have "asks db' = asks db2" by (simp add: fun_eq_iff asks_def db')
    then have "tells (asks db') (w_outbox db) (w_outbox db')" using create_asks [OF lt w created(5)] by (simp add: db' db1)
    moreover have "idle db db'" using C(7,8) by (auto simp: idle_def db' db1)
    ultimately show ?thesis using C(11) by (simp add: grows_def db' db1)
  qed
next
  case (event \<Gamma> ev out)
  have lt: "ledger_ok db" "transfers_ok db" using ok by (simp_all add: wallet_ok_def)
  show ?thesis using dispatch_keeps [OF lt event] dispatch_handled [OF lt event] by (auto simp: grows_def idle_same)
next
  case (dead \<Gamma> item)
  then show ?thesis by (auto simp: record_dead_letter_def bindr_eq_Inr Let_def split: option.splits if_splits intro: grows_same)
next
  case (relay pub bs mb locked t b b' ob' n)
  from relay_envs [OF relay(2)] relay(1) show ?thesis by (simp add: grows_def idle_same tells_def)
next
  case (progress \<Gamma>)
  then show ?thesis by (auto simp: grows_def idle_def advance_transfers_def Let_def)
qed

end
