(* ===== verification/System.thy ===== *)
theory System
  imports ChainEvents WalletEvents
begin

text \<open>
  Both services on one bus. Each service works on its own database; an event reaches the other
  one only if a relay published it, and then at any time, in any order and any number of
  times. What the wallet service does to a transfer or credits to a user is then backed by
  what the blockchain service recorded and counted.
\<close>

record system =
  sys_w :: wdb
  sys_c :: cdb
  sys_b :: bus

abbreviation (input) at_state :: "wdb \<Rightarrow> cdb \<Rightarrow> bus \<Rightarrow> system" where
  "at_state w c b \<equiv> \<lparr>sys_w = w, sys_c = c, sys_b = b\<rparr>"

definition initial_system :: system where
  "initial_system = \<lparr>sys_w = empty_wdb, sys_c = empty_cdb, sys_b = empty_bus\<rparr>"

text \<open>
  A step is a transaction of one service that handles no event, the publication of outbox
  rows, the handling of an event that the bus carries, or the bookkeeping of deliveries.
\<close>

inductive system_step :: "(string \<Rightarrow> uuid) \<Rightarrow> wallet_settings \<Rightarrow> (string \<Rightarrow> string) \<Rightarrow> chain_settings \<Rightarrow> 'c chain_adapter \<Rightarrow> system \<Rightarrow> system \<Rightarrow> bool"
  for U Sw sha S A where
  wallet_work: "\<lbrakk>wallet_step U Sw sha (sys_w s) w'; processed w' = processed (sys_w s)\<rbrakk> \<Longrightarrow> system_step U Sw sha S A s (s\<lparr>sys_w := w'\<rparr>)"
| chain_work: "\<lbrakk>chain_step U S A (sys_c s) c'; c_processed c' = c_processed (sys_c s)\<rbrakk> \<Longrightarrow> system_step U Sw sha S A s (s\<lparr>sys_c := c'\<rparr>)"
| wallet_publishes: "relay_run_once (eb_publish InMemoryBus) bs mb locked t (sys_b s) (w_outbox (sys_w s)) = (b', ob', n) \<Longrightarrow>
    system_step U Sw sha S A s (s\<lparr>sys_w := (sys_w s)\<lparr>w_outbox := ob'\<rparr>, sys_b := b'\<rparr>)"
| chain_publishes: "relay_run_once (eb_publish InMemoryBus) bs mb locked t (sys_b s) (c_outbox (sys_c s)) = (b', ob', n) \<Longrightarrow>
    system_step U Sw sha S A s (s\<lparr>sys_c := (sys_c s)\<lparr>c_outbox := ob'\<rparr>, sys_b := b'\<rparr>)"
| wallet_handles: "\<lbrakk>carried (sys_b s) ev; dispatch \<Gamma> ev (sys_w s) = Inr (w', out)\<rbrakk> \<Longrightarrow> system_step U Sw sha S A s (s\<lparr>sys_w := w'\<rparr>)"
| chain_handles: "\<lbrakk>carried (sys_b s) ev; uuid5 \<Gamma> = U; chain_dispatch \<Gamma> ev (sys_c s) = Inr (c', out)\<rbrakk> \<Longrightarrow> system_step U Sw sha S A s (s\<lparr>sys_c := c'\<rparr>)"
| delivery: "streams b' = streams (sys_b s) \<Longrightarrow> system_step U Sw sha S A s (s\<lparr>sys_b := b'\<rparr>)"

abbreviation system_steps :: "(string \<Rightarrow> uuid) \<Rightarrow> wallet_settings \<Rightarrow> (string \<Rightarrow> string) \<Rightarrow> chain_settings \<Rightarrow> 'c chain_adapter \<Rightarrow> system \<Rightarrow> system \<Rightarrow> bool" where
  "system_steps U Sw sha S A \<equiv> (system_step U Sw sha S A)\<^sup>*\<^sup>*"

section \<open>The invariant\<close>

text \<open>A transfer that is past \<open>PROCESSING\<close> has the event that moved it in the other outbox.\<close>

definition decided :: "cdb \<Rightarrow> transfer \<Rightarrow> bool" where
  "decided c t = (t_status t \<in> {CREATED, PROCESSING} \<or> (\<exists>ev\<in>envs (c_outbox c). decides ev (t_id t) (t_status t)))"

definition deposit_confirmation :: "chain_settings \<Rightarrow> deposit \<Rightarrow> envelope \<Rightarrow> bool" where
  "deposit_confirmation S d ev = (event_type ev = DEPOSIT_CONFIRMED \<and>
     (\<exists>d2. dep_immut d2 = dep_immut d \<and> confirmations_required S \<le> d_confirmations d2 \<and> deposit_payload d2 None = Inr (e_payload ev)))"

text \<open>A credit is backed by a confirmed deposit of the same amount to an address of the user.\<close>

definition backed :: "chain_settings \<Rightarrow> wdb \<Rightarrow> cdb \<Rightarrow> ledger_entry \<Rightarrow> bool" where
  "backed S w c e = (\<exists>wl\<in>set (wallets w). \<exists>d\<in>set (deposits c). w_user_id wl = l_user_id e \<and> w_address wl = d_to_address d \<and>
     d_asset d = l_asset e \<and> d_amount d = l_amount e \<and> (\<exists>ev\<in>envs (c_outbox c). deposit_confirmation S d ev))"

definition both_ok :: "(string \<Rightarrow> uuid) \<Rightarrow> chain_settings \<Rightarrow> wdb \<Rightarrow> cdb \<Rightarrow> bool" where
  "both_ok U S w c = (wallet_ok U w \<and> typed w \<and> chaindb_ok U c \<and> (\<forall>ev\<in>envs (w_outbox w). asks w ev) \<and> (\<forall>ev\<in>envs (c_outbox c). news S c ev) \<and>
     (\<forall>r\<in>set (outgoings c). \<exists>t\<in>set (transfers w). asked_row t r) \<and> (\<forall>t\<in>set (transfers w). decided c t) \<and>
     (\<forall>e\<in>set (entries w). l_entry_type e = DEPOSIT \<longrightarrow> backed S w c e))"

definition from_outboxes :: "system \<Rightarrow> bool" where
  "from_outboxes s = (\<forall>ev. carried (sys_b s) ev \<longrightarrow> ev \<in> envs (w_outbox (sys_w s)) \<union> envs (c_outbox (sys_c s)))"

lemma bothD:
  assumes "both_ok U S w c"
  shows "wallet_ok U w" "typed w" "chaindb_ok U c" "ev \<in> envs (w_outbox w) \<Longrightarrow> asks w ev" "ev \<in> envs (c_outbox c) \<Longrightarrow> news S c ev"
    "r \<in> set (outgoings c) \<Longrightarrow> \<exists>t\<in>set (transfers w). asked_row t r" "t \<in> set (transfers w) \<Longrightarrow> decided c t"
    "\<lbrakk>e \<in> set (entries w); l_entry_type e = DEPOSIT\<rbrakk> \<Longrightarrow> backed S w c e"
  using assms by (auto simp: both_ok_def)

text \<open>The two kinds of events do not mix.\<close>

lemma news_not_request: "news S c ev \<Longrightarrow> event_type ev \<noteq> TRANSFER_REQUESTED"
  by (auto simp: news_def tx_news_def concerns_def dep_news_def event_type_defs)

lemma asks_types: "asks w ev \<Longrightarrow> event_type ev \<notin> {DEPOSIT_CONFIRMED, TX_BROADCASTED, TX_CONFIRMED, TX_FAILED}"
  by (auto simp: asks_def event_type_defs)

section \<open>Each database moves\<close>

lemma asked_immut: "\<lbrakk>immut t' = immut t; asked_row t r\<rbrakk> \<Longrightarrow> asked_row t' r"
  by (simp add: immut_def asked_row_def)

lemma asked_out: "\<lbrakk>out_immut r' = out_immut r; asked_row t r\<rbrakk> \<Longrightarrow> asked_row t r'"
  by (simp add: out_immut_def asked_row_def)

lemma asked_le:
  assumes "wallet_ok U w" "transfers_le w w'" "t \<in> set (transfers w)" "asked_row t r"
  shows "\<exists>t'\<in>set (transfers w'). asked_row t' r"
proof -
  have "row_of t_id (t_id t) (transfers w) = Some t" using assms(1,3) by (simp add: wallet_ok_def transfers_ok_def row_of_unique)
  with assms(2) obtain t' where t': "row_of t_id (t_id t) (transfers w') = Some t'" "immut t' = immut t" unfolding transfers_le_def by blast
  have "t' \<in> set (transfers w')" using row_of_Some [OF t'(1)] by simp
  with asked_immut [OF t'(2) assms(4)] show ?thesis by blast
qed

lemma decided_chain: "\<lbrakk>decided c t; envs (c_outbox c) \<subseteq> envs (c_outbox c')\<rbrakk> \<Longrightarrow> decided c' t"
  by (auto simp: decided_def)

lemma backed_wallet: "\<lbrakk>backed S w c e; set (wallets w) \<subseteq> set (wallets w')\<rbrakk> \<Longrightarrow> backed S w' c e"
  unfolding backed_def by blast

lemma backed_chain:
  assumes "backed S w c e" and ok: "chaindb_ok U c" and le: "chain_mono c c'" and env: "envs (c_outbox c) \<subseteq> envs (c_outbox c')"
  shows "backed S w c' e"
proof -
  from assms(1) obtain wl d ev where b: "wl \<in> set (wallets w)" "w_user_id wl = l_user_id e" "w_address wl = d_to_address d" "d_asset d = l_asset e"
      "d_amount d = l_amount e" and d: "d \<in> set (deposits c)" and ev: "ev \<in> envs (c_outbox c)" "deposit_confirmation S d ev"
    unfolding backed_def by blast
  have "row_of d_id (d_id d) (deposits c) = Some d" using ok d by (simp add: chaindb_ok_def deps_ok_def row_of_unique)
  with le obtain d' where d': "row_of d_id (d_id d) (deposits c') = Some d'" "dep_immut d' = dep_immut d"
    unfolding chain_mono_def deps_le_def by blast
  have "d' \<in> set (deposits c')" using row_of_Some [OF d'(1)] by simp
  moreover have "deposit_confirmation S d' ev" using ev(2) d'(2) by (simp add: deposit_confirmation_def)
  moreover have "d_to_address d' = d_to_address d" "d_asset d' = d_asset d" "d_amount d' = d_amount d" using d'(2) by (simp_all add: dep_immut_def)
  ultimately show ?thesis unfolding backed_def using b ev(1) env by (intro bexI [of _ wl] bexI [of _ d']) auto
qed

text \<open>The wallet service moves; its decisions and credits come from events of the other one.\<close>

lemma wallet_moves:
  assumes ok: "both_ok U S w c" and step: "wallet_step U Sw sha w w'"
    and tr: "\<And>t'. t' \<in> set (transfers w') \<Longrightarrow> t_status t' \<in> {CREATED, PROCESSING} \<or>
       (\<exists>t\<in>set (transfers w). immut t' = immut t \<and> t_status t' = t_status t) \<or> (\<exists>ev\<in>envs (c_outbox c). decides ev (t_id t') (t_status t'))"
    and en: "\<And>e. \<lbrakk>e \<in> set (entries w'); l_entry_type e = DEPOSIT\<rbrakk> \<Longrightarrow> e \<in> set (entries w) \<or> backed S w c e"
  shows "both_ok U S w' c" and "envs (w_outbox w) \<subseteq> envs (w_outbox w')"
proof -
  note B = bothD [OF ok]
  have k: "wallet_ok U w'" "wallet_mono w w'" using wallet_step_keeps [OF step B(1)] by simp_all
  have le: "transfers_le w w'" using k(2) by (simp add: wallet_mono_def)
  have ty: "typed w'" using wallet_step_writes [OF step] B(2) by (simp add: writes_def)
  have g: "grows w w'" by (rule wallet_step_grows [OF step B(1,2)])
  show "envs (w_outbox w) \<subseteq> envs (w_outbox w')" using g by (simp add: grows_def tells_def)
  have "\<forall>ev\<in>envs (w_outbox w'). asks w' ev" using g B(4) asks_mono [OF B(1) le] by (auto simp: grows_def tells_def)
  moreover have "\<forall>r\<in>set (outgoings c). \<exists>t\<in>set (transfers w'). asked_row t r" using B(6) asked_le [OF B(1) le] by blast
  moreover have "\<forall>t\<in>set (transfers w'). decided c t"
  proof
    fix t' assume "t' \<in> set (transfers w')"
    from tr [OF this] show "decided c t'"
    proof (elim disjE)
      assume "\<exists>t\<in>set (transfers w). immut t' = immut t \<and> t_status t' = t_status t"
      then obtain t where t: "t \<in> set (transfers w)" "immut t' = immut t" "t_status t' = t_status t" by blast
      with B(7) [OF t(1)] immut_sel(1) [OF t(2)] show ?thesis by (simp add: decided_def)
    qed (simp_all add: decided_def)
  qed
  moreover have "\<forall>e\<in>set (entries w'). l_entry_type e = DEPOSIT \<longrightarrow> backed S w' c e"
    using en B(8) g backed_wallet unfolding grows_def by blast
  ultimately show "both_ok U S w' c" using k(1) ty B(3,5) by (simp add: both_ok_def)
qed

text \<open>The blockchain service moves; its rows come from requests of the other one.\<close>

lemma chain_moves:
  assumes ok: "both_ok U S w c" and step: "chain_step U S A c c'"
    and rows: "\<And>r'. r' \<in> set (outgoings c') \<Longrightarrow> (\<exists>r\<in>set (outgoings c). out_immut r' = out_immut r) \<or> (\<exists>t\<in>set (transfers w). asked_row t r')"
  shows "both_ok U S w c'" and "envs (c_outbox c) \<subseteq> envs (c_outbox c')"
proof -
  note B = bothD [OF ok]
  have k: "chaindb_ok U c'" "chain_mono c c'" using chain_step_keeps [OF step B(3)] by simp_all
  have n: "tells (news S c') (c_outbox c) (c_outbox c')" using work_news [OF step B(3)] by simp
  then show env: "envs (c_outbox c) \<subseteq> envs (c_outbox c')" by (simp add: tells_def)
  have "\<forall>ev\<in>envs (c_outbox c'). news S c' ev" using n B(5) news_mono [OF B(3) k(2)] unfolding tells_def by blast
  moreover have "\<forall>r\<in>set (outgoings c'). \<exists>t\<in>set (transfers w). asked_row t r" using rows B(6) asked_out by blast
  moreover have "\<forall>t\<in>set (transfers w). decided c' t" using B(7) decided_chain env by blast
  moreover have "\<forall>e\<in>set (entries w). l_entry_type e = DEPOSIT \<longrightarrow> backed S w c' e" using B(8) backed_chain [OF _ B(3) k(2) env] by blast
  ultimately show "both_ok U S w c'" using k(1) B(1,2,4) by (simp add: both_ok_def)
qed

section \<open>Every step keeps the invariant\<close>

definition system_ok :: "(string \<Rightarrow> uuid) \<Rightarrow> chain_settings \<Rightarrow> system \<Rightarrow> bool" where
  "system_ok U S s = (both_ok U S (sys_w s) (sys_c s) \<and> from_outboxes s)"

lemma carried_streams: "streams b' = streams b \<Longrightarrow> carried b' = carried b"
  by (intro ext) (simp add: carried_def)

lemma deposit_payload_fields:
  "deposit_payload d n = Inr p \<Longrightarrow> jreq p ''to_address'' = Inr (JStr (d_to_address d)) \<and>
     jreq p ''amount_units'' = Inr (JStr (py_str (d_amount d))) \<and> jreq p ''asset'' = Inr (JStr (d_asset d))"
  by (auto simp: deposit_payload_def bindr_eq_Inr jreq_def jget_def)

lemma from_chain:
  "\<lbrakk>system_ok U S s; carried (sys_b s) ev; event_type ev \<in> {DEPOSIT_CONFIRMED, TX_BROADCASTED, TX_CONFIRMED, TX_FAILED}\<rbrakk> \<Longrightarrow>
   ev \<in> envs (c_outbox (sys_c s))"
  using bothD(4) asks_types unfolding system_ok_def from_outboxes_def by blast

lemma from_wallet:
  "\<lbrakk>system_ok U S s; carried (sys_b s) ev; event_type ev = TRANSFER_REQUESTED\<rbrakk> \<Longrightarrow> ev \<in> envs (w_outbox (sys_w s))"
  using bothD(5) news_not_request unfolding system_ok_def from_outboxes_def by blast

lemma wallet_handles_ok:
  assumes ok: "both_ok U S w c" and src: "event_type ev \<in> {DEPOSIT_CONFIRMED, TX_BROADCASTED, TX_CONFIRMED, TX_FAILED} \<Longrightarrow> ev \<in> envs (c_outbox c)"
    and run: "dispatch \<Gamma> ev w = Inr (w', out)"
  shows "both_ok U S w' c \<and> envs (w_outbox w) \<subseteq> envs (w_outbox w')"
proof -
  note B = bothD [OF ok]
  have lt: "ledger_ok w" "transfers_ok w" using B(1) by (simp_all add: wallet_ok_def)
  note D = dispatch_decides [OF lt run]
  have step: "wallet_step U Sw sha w w'" for Sw sha by (rule wallet_step.event [OF run])
  have tr: "t_status t' \<in> {CREATED, PROCESSING} \<or> (\<exists>t\<in>set (transfers w). immut t' = immut t \<and> t_status t' = t_status t) \<or>
      (\<exists>ev\<in>envs (c_outbox c). decides ev (t_id t') (t_status t'))" if t': "t' \<in> set (transfers w')" for t'
  proof -
    from D t' obtain t where t: "t \<in> set (transfers w)" "immut t' = immut t" "t_status t' = t_status t \<or> decides ev (t_id t) (t_status t')"
      unfolding moved_by_def by blast
    show ?thesis
    proof (cases "t_status t' = t_status t")
      case False
      with t(3) have d: "decides ev (t_id t') (t_status t')" using immut_sel(1) [OF t(2)] by simp
      then have "ev \<in> envs (c_outbox c)" using src by (auto simp: decides_def)
      with d show ?thesis by blast
    qed (use t in blast)
  qed
  have en: "e \<in> set (entries w) \<or> backed S w c e" if e: "e \<in> set (entries w')" "l_entry_type e = DEPOSIT" for e
  proof (cases "e \<in> set (entries w)")
    case False
    with D e have cr: "credits w ev e" unfolding posted_by_def by blast
    then have ty: "event_type ev = DEPOSIT_CONFIRMED" by (simp add: credits_def)
    then have ev: "ev \<in> envs (c_outbox c)" using src by simp
    from B(5) [OF this] ty obtain d d2 where d: "d \<in> set (deposits c)" "dep_immut d2 = dep_immut d" "confirmations_required S \<le> d_confirmations d2"
      "deposit_payload d2 None = Inr (e_payload ev)" by (auto simp: news_def tx_news_def concerns_def dep_news_def event_type_defs)
    have sel: "d_to_address d2 = d_to_address d" "d_asset d2 = d_asset d" "d_amount d2 = d_amount d" using d(2) by (simp_all add: dep_immut_def)
    have p: "jreq (e_payload ev) ''to_address'' = Inr (JStr (d_to_address d))" "jreq (e_payload ev) ''amount_units'' = Inr (JStr (py_str (d_amount d)))"
      "jreq (e_payload ev) ''asset'' = Inr (JStr (d_asset d))"
      using deposit_payload_fields [OF d(4)] sel by simp_all
    have "dep_stored d" using B(3) d(1) by (simp add: chaindb_ok_def deps_ok_def)
    then have amt: "jint (JStr (py_str (d_amount d))) = Inr (d_amount d)" by (intro jint_str) (simp add: dep_stored_def del: power_numeral)
    from cr obtain wl where wl: "wallet_by_address (d_to_address d) w = Some wl" "w_user_id wl = l_user_id e" and n: "l_amount e = d_amount d" "l_asset e = d_asset d"
      using p amt by (auto simp: credits_def payload_wallet_def simp del: jint.simps)
    have "wl \<in> set (wallets w) \<and> w_address wl = d_to_address d" using wl(1) row_of_Some unfolding wallet_by_address_def by fast
    moreover have "deposit_confirmation S d ev" unfolding deposit_confirmation_def using ty d(2-4) by blast
    ultimately have "backed S w c e" unfolding backed_def using d(1) ev wl(2) n by (intro bexI [of _ wl] bexI [of _ d]) auto
    then show ?thesis ..
  qed simp
  show ?thesis by (intro conjI; rule wallet_moves [OF ok step]; (erule tr | erule (1) en))
qed

lemma chain_handles_ok:
  assumes ok: "both_ok U S w c" and src: "event_type ev = TRANSFER_REQUESTED \<Longrightarrow> ev \<in> envs (w_outbox w)"
    and U: "uuid5 \<Gamma> = U" and run: "chain_dispatch \<Gamma> ev c = Inr (c', out)"
  shows "both_ok U S w c' \<and> envs (c_outbox c) \<subseteq> envs (c_outbox c')"
proof -
  note B = bothD [OF ok]
  have step: "chain_step U S A c c'" for A by (rule chain_step.event [OF U run])
  have rows: "(\<exists>r\<in>set (outgoings c). out_immut r' = out_immut r) \<or> (\<exists>t\<in>set (transfers w). asked_row t r')" if r': "r' \<in> set (outgoings c')" for r'
    using run
  proof (cases rule: chain_dispatch_cases)
    case (new u p)
    let ?c = "c\<lparr>c_processed := c_processed c @ [p]\<rparr>" and ?\<Gamma> = "correlation_scope (Some (e_correlation_id ev)) \<Gamma>"
    show ?thesis
    proof (cases "event_type ev = TRANSFER_REQUESTED")
      case True
      from B(4) [OF src [OF this]] obtain t a where t: "t \<in> set (transfers w)" "e_payload ev = requested_payload a t" by (auto simp: asks_def)
      have "transfer_cols t" using B(2) t(1) by (simp add: typed_def wallet_columns_def list_all_iff)
      then have cols: "\<bar>t_amount t\<bar> < 10 ^ 78" "length (from_address t) \<le> 64" "length (to_address t) \<le> 64"
        unfolding transfer_cols_def by blast+
      have "outs_ok U ?c" using B(3) by (simp add: chaindb_ok_def outs_ok_def event_ids_def)
      moreover have "uuid5 ?\<Gamma> = U" using U by simp
      moreover have "accept_transfer_request ?\<Gamma> (requested_payload a t) (e_correlation_id ev) ?c = Inr (c', out)" using new(4) True t(2) by simp
      ultimately have "asked_row t r' \<or> (\<exists>r\<in>set (outgoings ?c). out_immut r' = out_immut r)" by (rule accept_creates [OF _ _ _ cols r'])
      then show ?thesis using t(1) by auto
    next
      case False
      with new(4) r' show ?thesis by auto
    qed
  qed (use r' in auto)
  show ?thesis by (intro conjI; rule chain_moves [OF ok step]; erule rows)
qed

lemma system_step_ok:
  assumes step: "system_step U Sw sha S A s s'" and ok: "system_ok U S s"
  shows "system_ok U S s'"
proof -
  have b: "both_ok U S (sys_w s) (sys_c s)" and f: "from_outboxes s" using ok by (simp_all add: system_ok_def)
  from step show ?thesis
  proof cases
    case (wallet_work w')
    have g: "grows (sys_w s) w'" using wallet_step_grows [OF wallet_work(2)] bothD(1,2) [OF b] by simp
    with wallet_work(3) have i: "idle (sys_w s) w'" by (simp add: grows_def)
    have "both_ok U S w' (sys_c s) \<and> envs (w_outbox (sys_w s)) \<subseteq> envs (w_outbox w')"
      by (intro conjI wallet_moves [OF b wallet_work(2)]) (use i in \<open>auto simp: idle_def\<close>)
    with f wallet_work(1) show ?thesis by (auto simp: system_ok_def from_outboxes_def)
  next
    case (chain_work c')
    have c: "chaindb_ok U (sys_c s)" by (rule bothD(3) [OF b])
    have ids: "map og_id (outgoings c') = map og_id (outgoings (sys_c s))" using work_news [OF chain_work(2) c] chain_work(3) by simp
    note k = chain_step_keeps [OF chain_work(2) c]
    have "uniq og_id (outgoings c')" "outs_le (sys_c s) c'" using k by (simp_all add: chaindb_ok_def outs_ok_def chain_mono_def)
    from rows_back [OF this(2) ids this(1)]
    have "both_ok U S (sys_w s) c' \<and> envs (c_outbox (sys_c s)) \<subseteq> envs (c_outbox c')" using chain_moves [OF b chain_work(2)] by blast
    with f chain_work(1) show ?thesis by (auto simp: system_ok_def from_outboxes_def)
  next
    case (wallet_publishes bs mb locked t b' ob' n)
    have st: "wallet_step U Sw sha (sys_w s) ((sys_w s)\<lparr>w_outbox := ob'\<rparr>)" by (rule wallet_step.relay [OF wallet_publishes(2)])
    have "both_ok U S ((sys_w s)\<lparr>w_outbox := ob'\<rparr>) (sys_c s)" by (rule wallet_moves(1) [OF b st]) auto
    moreover have "ev \<in> envs (w_outbox (sys_w s)) \<union> envs (c_outbox (sys_c s))" if "carried b' ev" for ev
      using relay_carries [OF wallet_publishes(2) that] f by (auto simp: from_outboxes_def)
    ultimately show ?thesis using wallet_publishes(1) relay_envs [OF wallet_publishes(2)] by (simp add: system_ok_def from_outboxes_def)
  next
    case (chain_publishes bs mb locked t b' ob' n)
    have st: "chain_step U S A (sys_c s) ((sys_c s)\<lparr>c_outbox := ob'\<rparr>)" by (rule chain_step.relay [OF chain_publishes(2)])
    have "both_ok U S (sys_w s) ((sys_c s)\<lparr>c_outbox := ob'\<rparr>)" by (rule chain_moves(1) [OF b st]) auto
    moreover have "ev \<in> envs (w_outbox (sys_w s)) \<union> envs (c_outbox (sys_c s))" if "carried b' ev" for ev
      using relay_carries [OF chain_publishes(2) that] f by (auto simp: from_outboxes_def)
    ultimately show ?thesis using chain_publishes(1) relay_envs [OF chain_publishes(2)] by (simp add: system_ok_def from_outboxes_def)
  next
    case (wallet_handles ev \<Gamma> w' out)
    from wallet_handles_ok [OF b from_chain [OF ok wallet_handles(2)] wallet_handles(3)] f wallet_handles(1) show ?thesis
      by (auto simp: system_ok_def from_outboxes_def)
  next
    case (chain_handles ev \<Gamma> c' out)
    from chain_handles_ok [OF b from_wallet [OF ok chain_handles(2)] chain_handles(3,4)] f chain_handles(1) show ?thesis
      by (auto simp: system_ok_def from_outboxes_def)
  next
    case (delivery b')
    with ok show ?thesis using carried_streams [OF delivery(2)] by (simp add: system_ok_def from_outboxes_def)
  qed
qed

lemma initial_ok: "system_ok U S initial_system"
proof -
  have "typed empty_wdb" by (simp add: typed_def wallet_columns_def empty_wdb_def empty_outbox_def)
  moreover have "envs (w_outbox empty_wdb) = {}" "envs (c_outbox empty_cdb) = {}" "outgoings empty_cdb = []" "transfers empty_wdb = []" "entries empty_wdb = []"
    by (simp_all add: empty_wdb_def empty_cdb_def)
  moreover have "\<not> carried empty_bus ev" for ev by (simp add: carried_def empty_bus_def get_or_def)
  ultimately show ?thesis
    by (simp add: system_ok_def both_ok_def from_outboxes_def initial_system_def empty_wallet_ok empty_chaindb_ok)
qed

lemma system_reachable: "system_steps U Sw sha S A initial_system s \<Longrightarrow> system_ok U S s"
  by (induction rule: rtranclp_induct) (simp_all add: initial_ok system_step_ok)

end
