(* ===== verification/Scenario.thy ===== *)
theory Scenario
  imports EndToEnd WalletApi
begin

text \<open>
  One run of both services: a deposit is scanned, confirmed and credited, then spent in a
  transfer whose sending address the blockchain service does not know, which fails it. The
  states are written out, and each is evaluated from the one before it.
\<close>

definition demo_env :: env where "demo_env = sample_env\<lparr>uuid5 := \<lambda>s. of_nat (length s)\<rparr>"

definition yields :: "('s \<times> 'x) result \<Rightarrow> 's \<Rightarrow> bool" where
  "yields r s = (case r of Inr (s', x) \<Rightarrow> s' = s | Inl _ \<Rightarrow> False)"

lemma yields_eq: "yields r s \<longleftrightarrow> (\<exists>x. r = Inr (s, x))"
  by (auto simp: yields_def split: sum.splits)

section \<open>The blockchain service records a deposit\<close>

definition demo_row :: "nat \<Rightarrow> uuid \<Rightarrow> envelope \<Rightarrow> outbox_row" where
  "demo_row i u ev = \<lparr>o_id = i, o_event_id = u, o_event_type = event_type ev, o_envelope = ev, o_correlation_id = e_correlation_id ev,
     o_published_at = None, o_attempts = 0, o_next_attempt_at = None, o_last_error = None\<rparr>"

definition demo_event :: "string \<Rightarrow> string \<Rightarrow> string \<Rightarrow> string \<Rightarrow> payload \<Rightarrow> envelope" where
  "demo_event i ty who corr p = \<lparr>event_id = ''00000000-0000-0000-0000-0000000000'' @ i, event_type = ty, schema_version = 1, occurred_at = 0, producer = who,
     e_correlation_id = corr, causation_id = None, e_payload = p\<rparr>"

definition demo_deposit :: "int \<Rightarrow> payload" where
  "demo_deposit n = [(''deposit_id'', JStr ''00000000-0000-0000-0000-000000000002''), (''network'', JStr ''BSC''), (''asset'', JStr ''USDT''),
     (''tx_hash'', JStr ''0xt''), (''log_index'', JInt 0), (''from_address'', JStr ''0xe''), (''to_address'', JStr ''0x0''), (''amount'', JStr ''0.000500''),
     (''amount_units'', JStr ''500''), (''decimals'', JInt 6), (''block_number'', JInt 3), (''block_hash'', JStr ''0xb''), (''confirmations'', JInt n)]"

definition detected_event :: envelope where
  "detected_event = demo_event ''1e'' ''deposit.detected'' ''blockchain-service'' ''dep-t'' (demo_deposit 0)"

definition confirmed_event :: envelope where
  "confirmed_event = demo_event ''1f'' ''deposit.confirmed'' ''blockchain-service'' ''dep-t'' (demo_deposit 3)"

definition chain_addressed :: cdb where
  "chain_addressed = empty_cdb\<lparr>addresses := [\<lparr>ad_id = 1, ad_owner_ref = ''user:1'', ad_network = ''BSC'', ad_address = ''0x0'',
       ad_derivation = ''random-keypair'', ad_status = ''ACTIVE'', ad_created_at = 0\<rparr>],
     keys := [\<lparr>km_address = ''0x0'', km_encrypted_private_key = ''0-yek'', km_key_version = 1, km_created_at = 0\<rparr>], c_draws := 1\<rparr>"

definition chain_upserted :: cdb where
  "chain_upserted = chain_addressed\<lparr>deposits := [new_deposit demo_env 2 sample_log],
     c_outbox := \<lparr>o_rows = [demo_row 1 30 detected_event], o_seq = 1\<rparr>, c_draws := 2\<rparr>"

definition chain_scanned :: cdb where
  "chain_scanned = chain_upserted\<lparr>scans := [\<lparr>sc_network = ''BSC'', last_scanned_block = 5, last_scanned_hash = Some ''0xb'', sc_updated_at = 0\<rparr>]\<rparr>"

definition chain_confirmed :: cdb where
  "chain_confirmed = chain_scanned\<lparr>deposits := [(new_deposit demo_env 2 sample_log)\<lparr>d_confirmations := 3, d_status := DepConfirmed, d_confirmed_at := Some 0\<rparr>],
     c_outbox := \<lparr>o_rows = [demo_row 1 30 detected_event, demo_row 2 31 confirmed_event], o_seq = 2\<rparr>\<rparr>"

lemma demo_address: "yields (get_or_create_address sample_keystore sample_accounts demo_env ''user:1'' ''BSC'' empty_cdb) chain_addressed"
  by code_simp

lemma demo_upsert: "yields (upsert_all demo_env [sample_log] chain_addressed) chain_upserted"
proof -
  let ?d = "new_deposit demo_env 2 sample_log" and ?db = "chain_addressed\<lparr>deposits := [new_deposit demo_env 2 sample_log], c_draws := 2\<rparr>"
  have "upsert_row demo_env sample_log chain_addressed = Inr (?db, Some ?d)" by code_simp
  moreover have "deposit_payload ?d (Some 0) = Inr (demo_deposit 0)" by code_simp
  moreover have "deposit_cid (lg_tx_hash sample_log) = ''dep-t''" "log_identity sample_log @ '':'' @ lg_block_hash sample_log = ''BSC:0xt:0:0xb''" by code_simp+
  moreover have "emit (correlation_scope (Some ''dep-t'') demo_env) DEPOSIT_DETECTED (demo_deposit 0) ''BSC:0xt:0:0xb'' (Some ''dep-t'') ?db = Inr chain_upserted"
    by code_simp
  ultimately show ?thesis by (simp add: upsert_deposit_def yields_eq Let_def)
qed

lemma demo_scan: "yields (scanner_run_once wide_settings sample_port (\<lambda>_. ()) demo_env chain_addressed chain_addressed chain_addressed) chain_scanned"
proof -
  have logs: "block_number_at sample_port () = Inr 5" "block_hash_at sample_port () 5 = Inr (Some ''0xb'')"
    "transfer_logs_at sample_port () 1 5 [''0x0''] = Inr [sample_log]"
    by (simp_all add: sample_port_def sample_log_def)
  have c: "active_addresses chain_addressed = [''0x0'']" "scans chain_addressed = []" "scans chain_upserted = []" by code_simp+
  from demo_upsert obtain n where up: "upsert_all demo_env [sample_log] chain_addressed = Inr (chain_upserted, n)" by (auto simp: yields_eq)
  have "now demo_env = 0" by (simp add: demo_env_def sample_env_def)
  then show ?thesis unfolding yields_eq using logs c up
    by (auto simp: scanner_run_once_def rewind_def cursor_of_def wide_settings_def DepositTracking.sample_settings_def chain_scanned_def
        sample_external set_cursor_def int8_def Let_def simp del: upsert_all.simps)
qed

lemma demo_reverify: "yields (reverify wide_settings sample_port () () demo_env 5 2 chain_scanned chain_scanned) chain_confirmed"
  by code_simp

section \<open>The wallet service credits it\<close>

definition demo_user :: "int \<Rightarrow> string \<Rightarrow> user" where
  "demo_user i name = \<lparr>u_id = i, u_name = name, u_email = name @ ''@example.com'', u_status = ''ACTIVE'', u_created_at = 0\<rparr>"

definition demo_wallet :: "uuid \<Rightarrow> int \<Rightarrow> string \<Rightarrow> string \<Rightarrow> wallet" where
  "demo_wallet i u network address = \<lparr>w_id = i, w_user_id = u, w_network = network, w_asset = ''USDT'', w_address = address, w_status = ''ACTIVE'', w_created_at = 0\<rparr>"

definition demo_balance :: "int \<Rightarrow> int \<Rightarrow> int \<Rightarrow> int \<Rightarrow> balance" where
  "demo_balance u p r v = \<lparr>b_user_id = u, b_asset = ''USDT'', posted = p, reserved = r, version = v, b_updated_at = 0\<rparr>"

definition wallet_first :: wdb where
  "wallet_first = empty_wdb\<lparr>users := [demo_user 1 ''a''], user_seq := 1\<rparr>"

definition wallet_users :: wdb where
  "wallet_users = empty_wdb\<lparr>users := [demo_user 1 ''a'', demo_user 2 ''b''], user_seq := 2\<rparr>"

definition wallet_one :: wdb where
  "wallet_one = wallet_users\<lparr>wallets := [demo_wallet 1 1 ''BSC'' ''0x0''], balances := [demo_balance 1 0 0 0], draws := 1\<rparr>"

definition wallet_two :: wdb where
  "wallet_two = wallet_users\<lparr>wallets := [demo_wallet 1 1 ''BSC'' ''0x0'', demo_wallet 2 1 ''X'' ''0xc''], balances := [demo_balance 1 0 0 0], draws := 2\<rparr>"

definition wallet_three :: wdb where
  "wallet_three = wallet_users\<lparr>wallets := [demo_wallet 1 1 ''BSC'' ''0x0'', demo_wallet 2 1 ''X'' ''0xc'', demo_wallet 3 2 ''X'' ''0xd''],
     balances := [demo_balance 1 0 0 0, demo_balance 2 0 0 0], draws := 3\<rparr>"

definition demo_entry :: ledger_entry where
  "demo_entry = \<lparr>l_id = 1, entry_id = 4, l_user_id = 1, l_asset = ''USDT'', l_amount = 500, l_entry_type = DEPOSIT, reference_type = ''DEPOSIT'',
     reference_id = ''BSC:0xt:0:0xb'', l_correlation_id = Some ''dep-t'', l_created_at = 0\<rparr>"

definition demo_handled :: "uuid \<Rightarrow> string \<Rightarrow> processed_event" where
  "demo_handled u ty = \<lparr>pe_consumer = ''wallet-service'', pe_event_id = u, pe_event_type = ty, processed_at = 0\<rparr>"

definition wallet_credited :: wdb where
  "wallet_credited = wallet_three\<lparr>balances := [demo_balance 1 500 0 1, demo_balance 2 0 0 0], entries := [demo_entry], entry_seq := 1,
     processed := [demo_handled 31 ''deposit.confirmed''], draws := 4\<rparr>"

abbreviation (input) issues :: "string \<Rightarrow> string \<Rightarrow> string \<Rightarrow> string result" where
  "issues address \<equiv> (\<lambda>_ _. Inr address)"

lemma demo_users:
  "yields (post_user Some demo_env ''a'' ''a@example.com'' empty_wdb) wallet_first"
  "yields (post_user Some demo_env ''b'' ''b@example.com'' wallet_first) wallet_users"
  by code_simp+

lemma demo_post:
  assumes "lookup_wallet S uid network asset db = Inr (a, None)"
    and "attach_wallet \<Gamma> uid (or_default network (default_network S)) (symbol a) address db = Inr (db', w, created)"
  shows "yields (post_wallet S (issues address) \<Gamma> uid network asset db db) db'"
  using assms by (simp add: post_wallet_def yields_eq)

lemma demo_wallet_one: "yields (post_wallet WalletApi.sample_settings (issues ''0x0'') demo_env 1 None None wallet_users wallet_users) wallet_one"
  by (rule demo_post [where a = USDT and w = "demo_wallet 1 1 ''BSC'' ''0x0''" and created = True]; code_simp)

lemma demo_wallet_two: "yields (post_wallet WalletApi.sample_settings (issues ''0xc'') demo_env 1 (Some ''X'') None wallet_one wallet_one) wallet_two"
  by (rule demo_post [where a = USDT and w = "demo_wallet 2 1 ''X'' ''0xc''" and created = True]; code_simp)

lemma demo_wallet_three: "yields (post_wallet WalletApi.sample_settings (issues ''0xd'') demo_env 2 (Some ''X'') None wallet_two wallet_two) wallet_three"
  by (rule demo_post [where a = USDT and w = "demo_wallet 3 2 ''X'' ''0xd''" and created = True]; code_simp)

lemma demo_credit: "yields (dispatch demo_env confirmed_event wallet_three) wallet_credited"
  by code_simp

section \<open>The user spends it\<close>

definition demo_request :: transfer_request where
  "demo_request = \<lparr>q_from_user_id = 1, q_to_user_id = 2, q_asset = ''USDT'', q_amount = ''0.0002'', q_idempotency_key = ''demo-key'', q_network = Some ''X''\<rparr>"

definition demo_transfer :: transfer where
  "demo_transfer = \<lparr>t_id = 5, t_idempotency_key = ''demo-key'', from_user_id = 1, to_user_id = 2, t_asset = ''USDT'', t_network = ''X'', t_amount = 200,
     from_address = ''0xc'', to_address = ''0xd'', t_status = CREATED, t_tx_hash = None, failure_code = None, failure_reason = None,
     t_correlation_id = Some ''cid-0'', t_created_at = 0, t_updated_at = 0, settled_at = None\<rparr>"

definition demo_failed_transfer :: transfer where
  "demo_failed_transfer = demo_transfer\<lparr>t_status := FAILED, failure_code := Some ''UNKNOWN_SENDING_ADDRESS'', failure_reason := Some ''unknown sending address''\<rparr>"

definition demo_key :: idempotency_key where
  "demo_key = \<lparr>i_scope = ''transfers'', i_key = ''demo-key'', request_hash = ''h'', response_status = 202,
     response_body = [(''id'', JStr ''00000000-0000-0000-0000-000000000005''), (''idempotency_key'', JStr ''demo-key''), (''from_user_id'', JInt 1),
       (''to_user_id'', JInt 2), (''asset'', JStr ''USDT''), (''network'', JStr ''X''), (''amount'', JStr ''0.000200''), (''status'', JStr ''CREATED''),
       (''tx_hash'', JNull), (''failure_code'', JNull), (''failure_reason'', JNull), (''correlation_id'', JStr ''cid-0''), (''created_at'', JInt 0),
       (''updated_at'', JInt 0), (''settled_at'', JNull)],
     resource_id = Some ''00000000-0000-0000-0000-000000000005'', i_created_at = 0\<rparr>"

definition demo_requested_event :: envelope where
  "demo_requested_event = demo_event ''37'' ''transfer.requested'' ''wallet-service'' ''cid-0''
     [(''transfer_id'', JStr ''00000000-0000-0000-0000-000000000005''), (''from_user_id'', JInt 1), (''to_user_id'', JInt 2), (''asset'', JStr ''USDT''),
      (''network'', JStr ''X''), (''from_address'', JStr ''0xc''), (''to_address'', JStr ''0xd''), (''amount'', JStr ''0.000200''), (''amount_units'', JStr ''200'')]"

definition demo_failed_event :: envelope where
  "demo_failed_event = demo_event ''5a'' ''blockchain.transaction.failed'' ''blockchain-service'' ''cid-0''
     [(''transfer_id'', JStr ''00000000-0000-0000-0000-000000000005''), (''tx_hash'', JNull), (''network'', JStr ''X''), (''asset'', JStr ''USDT''),
      (''amount'', JStr ''0.000200''), (''amount_units'', JStr ''200''), (''reason'', JStr ''unknown sending address''),
      (''code'', JStr ''UNKNOWN_SENDING_ADDRESS''), (''attempts'', JInt 0), (''was_confirmed'', JBool False)]"

definition demo_outgoing :: outgoing where
  "demo_outgoing = \<lparr>og_id = 3, og_transfer_id = 5, og_network = ''X'', og_asset = ''USDT'', og_from_address = ''0xc'', og_to_address = ''0xd'', og_amount = 200,
     og_tx_hash = None, og_nonce = None, og_status = TxFailed, og_block_number = None, og_block_hash = None, og_confirmations = 0,
     og_failure_reason = Some ''unknown sending address'', og_attempts = 0, og_next_attempt_at = None, og_broadcast_at = None,
     og_correlation_id = Some ''cid-0'', og_created_at = 0, og_updated_at = 0\<rparr>"

definition wallet_asked :: wdb where
  "wallet_asked = wallet_credited\<lparr>balances := [demo_balance 1 500 200 2, demo_balance 2 0 0 0], transfers := [demo_transfer], idem_keys := [demo_key],
     w_outbox := \<lparr>o_rows = [demo_row 1 55 demo_requested_event], o_seq = 1\<rparr>, draws := 5\<rparr>"

definition claimed_key :: idempotency_key where
  "claimed_key = demo_key\<lparr>response_status := PLACEHOLDER_STATUS, response_body := [], resource_id := None\<rparr>"

definition wallet_claimed :: wdb where
  "wallet_claimed = wallet_credited\<lparr>idem_keys := [claimed_key]\<rparr>"

definition wallet_held :: wdb where
  "wallet_held = wallet_claimed\<lparr>balances := [demo_balance 1 500 200 2, demo_balance 2 0 0 0]\<rparr>"

definition wallet_inserted :: wdb where
  "wallet_inserted = wallet_held\<lparr>transfers := [demo_transfer], draws := 5\<rparr>"

definition wallet_enqueued :: wdb where
  "wallet_enqueued = wallet_inserted\<lparr>w_outbox := \<lparr>o_rows = [demo_row 1 55 demo_requested_event], o_seq = 1\<rparr>\<rparr>"

text \<open>A relay run marks what it published.\<close>

definition told :: "nat list \<Rightarrow> outbox \<Rightarrow> outbox" where
  "told is ob = ob\<lparr>o_rows := mark_published 0 is (o_rows ob)\<rparr>"

definition chain_told :: cdb where
  "chain_told = chain_confirmed\<lparr>c_outbox := told [1, 2] (c_outbox chain_confirmed)\<rparr>"

definition wallet_told :: wdb where
  "wallet_told = wallet_asked\<lparr>w_outbox := told [1] (w_outbox wallet_asked)\<rparr>"

definition chain_seen_request :: cdb where
  "chain_seen_request = chain_told\<lparr>c_processed :=
     [\<lparr>cp_consumer = ''blockchain-service'', cp_event_id = 55, cp_event_type = ''transfer.requested'', cp_processed_at = 0\<rparr>]\<rparr>"

definition demo_created :: outgoing where
  "demo_created = demo_outgoing\<lparr>og_status := TxCreated, og_failure_reason := None\<rparr>"

definition chain_accepted :: cdb where
  "chain_accepted = chain_seen_request\<lparr>outgoings := [demo_created], c_draws := 3\<rparr>"

definition chain_refused :: cdb where
  "chain_refused = chain_told\<lparr>outgoings := [demo_outgoing],
     c_outbox := (told [1, 2] (c_outbox chain_confirmed))\<lparr>o_rows := o_rows (told [1, 2] (c_outbox chain_confirmed)) @ [demo_row 3 90 demo_failed_event], o_seq := 3\<rparr>,
     c_processed := [\<lparr>cp_consumer = ''blockchain-service'', cp_event_id = 55, cp_event_type = ''transfer.requested'', cp_processed_at = 0\<rparr>], c_draws := 3\<rparr>"

definition wallet_failed :: wdb where
  "wallet_failed = wallet_told\<lparr>balances := [demo_balance 1 500 0 3, demo_balance 2 0 0 0], transfers := [demo_failed_transfer],
     processed := [demo_handled 31 ''deposit.confirmed'', demo_handled 90 ''blockchain.transaction.failed'']\<rparr>"

lemma demo_created_transfer: "create_transfer demo_env 1 2 ''USDT'' 200 ''demo-key'' ''X'' wallet_claimed = Inr (wallet_enqueued, demo_transfer)"
proof -
  note users = demo_user_def check_active_def and wallets = demo_wallet_def check_wallet_def
  have "get_asset ''USDT'' = Inr USDT" "get_user 1 wallet_claimed = Inr (demo_user 1 ''a'')" "get_user 2 wallet_claimed = Inr (demo_user 2 ''b'')"
    "get_wallet 1 ''X'' (symbol USDT) wallet_claimed = Some (demo_wallet 2 1 ''X'' ''0xc'')"
    "get_wallet 2 ''X'' (symbol USDT) wallet_claimed = Some (demo_wallet 3 2 ''X'' ''0xd'')" by code_simp+
  moreover have "lock_balance demo_env 1 (symbol USDT) wallet_claimed = Inr (wallet_claimed, demo_balance 1 500 0 1)" by code_simp
  moreover have "place_hold demo_env 1 (symbol USDT) 200 wallet_claimed = Inr (wallet_held, True)" by code_simp
  moreover have "new_transfer demo_env wallet_held 1 2 USDT 200 ''demo-key'' ''X'' (demo_wallet 2 1 ''X'' ''0xc'') (demo_wallet 3 2 ''X'' ''0xd'') = demo_transfer"
    by code_simp
  moreover have "insert_transfer demo_transfer (wallet_held\<lparr>draws := Suc (draws wallet_held)\<rparr>) = Inr wallet_inserted" by code_simp
  moreover have "enqueue (requested_event demo_env USDT demo_transfer) wallet_inserted = Inr wallet_enqueued" by code_simp
  ultimately show ?thesis by (simp add: create_transfer_def users wallets Let_def)
qed

lemma demo_ask: "yields (post_transfer WalletApi.sample_settings (\<lambda>_. ''h'') demo_env demo_request wallet_credited) wallet_asked"
proof -
  let ?q = demo_request
  have q: "validate (transfer_request_errors ?q) = Inr ()" "resolve_asset (q_asset ?q) = Inr USDT" "amount_units (q_amount ?q) USDT = Inr 200"
    "or_default (q_network ?q) (default_network WalletApi.sample_settings) = ''X''" "q_idempotency_key ?q = ''demo-key''"
    "q_from_user_id ?q = 1" "q_to_user_id ?q = 2" "symbol USDT = ''USDT''" by code_simp+
  have new: "claim demo_env TRANSFER_SCOPE ''demo-key'' ''h'' wallet_credited = Inr (wallet_claimed, None)" by code_simp
  have body: "transfer_response demo_transfer = Inr (response_body demo_key)" by code_simp
  have "complete TRANSFER_SCOPE ''demo-key'' 202 (response_body demo_key) (Some (uuid_str (t_id demo_transfer))) wallet_enqueued = Inr wallet_asked" by code_simp
  then show ?thesis
    by (simp add: yields_eq post_transfer_def q fingerprint_def new demo_created_transfer body Let_def)
qed

lemma demo_insert:
  "insert_outgoing (correlation_scope (Some ''cid-0'') demo_env) 5 ''X'' ''USDT'' ''0xc'' ''0xd'' 200 (Some ''cid-0'') chain_seen_request =
     Inr (chain_accepted, Some demo_created)"
  by code_simp

lemma demo_unknown:
  "fail_outgoing (correlation_scope (Some ''cid-0'') demo_env) demo_created ''unknown sending address'' ''UNKNOWN_SENDING_ADDRESS'' (Some ''cid-0'')
     chain_accepted = Inr chain_refused"
  by code_simp

lemma demo_refuse: "yields (chain_dispatch demo_env demo_requested_event chain_told) chain_refused"
proof -
  let ?p = "e_payload demo_requested_event"
  have ev: "uuid_of_string (event_id demo_requested_event) = Some 55" "event_type demo_requested_event = TRANSFER_REQUESTED"
    "e_correlation_id demo_requested_event = ''cid-0''" "TRANSFER_REQUESTED = ''transfer.requested''" by code_simp+
  have p: "jreq ?p ''transfer_id'' = Inr (JStr ''00000000-0000-0000-0000-000000000005'')" "juuid (JStr ''00000000-0000-0000-0000-000000000005'') = Inr 5"
    "jreq ?p ''from_address'' = Inr (JStr ''0xc'')" "jreq ?p ''to_address'' = Inr (JStr ''0xd'')" "jreq ?p ''amount_units'' = Inr (JStr ''200'')"
    "jint (JStr ''200'') = Inr 200" "get_default ?p ''network'' ''BSC'' = JStr ''X''" "get_default ?p ''asset'' ''USDT'' = JStr ''USDT''" by code_simp+
  have c: "c_processed chain_told = []" "now demo_env = 0" "row_of ad_address ''0xc'' (addresses chain_seen_request) = None" by code_simp+
  have "chain_dispatch demo_env demo_requested_event chain_told =
      accept_transfer_request (correlation_scope (Some ''cid-0'') demo_env) ?p ''cid-0'' chain_seen_request"
    by (simp add: chain_dispatch_def ev c chain_seen_request_def CHAIN_CONSUMER_NAME_def)
  also have "\<dots> = Inr (chain_refused, ''processed'')"
    using c(3) by (simp add: accept_transfer_request_def p text_column_def demo_insert demo_unknown del: jint.simps)
  finally show ?thesis by (simp add: yields_eq)
qed

lemma demo_fail: "yields (dispatch demo_env demo_failed_event wallet_told) wallet_failed"
  by code_simp

end
