(* ===== verification/Agreement.thy ===== *)
theory Agreement
  imports System Scenario
begin

text \<open>
  What the two services agree on in every state they can reach together: a transfer is
  settled only if the chain side decided it, and money enters the ledger only if the chain
  side counted it. One run of both services, from nothing to a credited deposit and a refused
  transfer, shows both at work.
\<close>

section \<open>The two guarantees\<close>

text \<open>
  Property C1. No transfer is settled unless the chain confirmed it. In every state the two
  services can reach together, whatever the clients ask, however the workers interleave,
  whatever the chain answers, and however often and in whatever order the bus delivers: a
  transfer of the wallet service that is \<open>CONFIRMED\<close> has a transaction in the blockchain service with the
  same sender and recipient addresses and the same amount, and that service announced its
  confirmation with at least the required number of blocks; a \<open>BROADCASTED\<close> or \<open>FAILED\<close> one has
  such a transaction too, with the announcement of that decision. And the blockchain service
  has no transaction that the wallet service did not ask for.
\<close>

theorem settled_only_if_confirmed:
  assumes "system_steps U Sw sha S A initial_system s"
  shows "(\<forall>t\<in>set (transfers (sys_w s)). t_status t \<in> {BROADCASTED, CONFIRMED, FAILED} \<longrightarrow>
      (\<exists>r\<in>set (outgoings (sys_c s)). asked_row t r \<and> (\<exists>ev\<in>envs (c_outbox (sys_c s)). concerns S (t_id t) ev \<and> decides ev (t_id t) (t_status t)))) \<and>
    (\<forall>r\<in>set (outgoings (sys_c s)). \<exists>t\<in>set (transfers (sys_w s)). asked_row t r)"
proof (intro conjI ballI impI)
  have b: "both_ok U S (sys_w s) (sys_c s)" using system_reachable [OF assms] by (simp add: system_ok_def)
  note B = bothD [OF b]
  show "\<exists>t\<in>set (transfers (sys_w s)). asked_row t r" if "r \<in> set (outgoings (sys_c s))" for r using B(6) [OF that] .
  fix t assume t: "t \<in> set (transfers (sys_w s))" and st: "t_status t \<in> {BROADCASTED, CONFIRMED, FAILED}"
  from B(7) [OF t] st obtain ev where ev: "ev \<in> envs (c_outbox (sys_c s))" and dec: "decides ev (t_id t) (t_status t)"
    by (auto simp: decided_def)
  from dec have ty: "event_type ev \<in> {TX_BROADCASTED, TX_CONFIRMED, TX_FAILED}" and nm: "named_transfer ev = Inr (t_id t)"
    by (auto simp: decides_def)
  have "\<not> dep_news S (sys_c s) ev" using ty by (auto simp: dep_news_def event_type_defs)
  with B(5) [OF ev] obtain r where r: "r \<in> set (outgoings (sys_c s))" "concerns S (og_transfer_id r) ev" by (auto simp: news_def tx_news_def)
  have id: "og_transfer_id r = t_id t"
    using r(2) nm by (auto simp: concerns_def named_transfer_def jreq_def)
  obtain t0 where t0: "t0 \<in> set (transfers (sys_w s))" "asked_row t0 r" using B(6) [OF r(1)] by blast
  have u: "uniq t_id (transfers (sys_w s))" using B(1) by (simp add: wallet_ok_def transfers_ok_def)
  have "t_id t0 = t_id t" using t0(2) id by (simp add: asked_row_def)
  then have "t0 = t" using row_of_unique [OF u t] row_of_unique [OF u t0(1)] by simp
  with r t0 ev dec id show "\<exists>r\<in>set (outgoings (sys_c s)). asked_row t r \<and>
      (\<exists>ev\<in>envs (c_outbox (sys_c s)). concerns S (t_id t) ev \<and> decides ev (t_id t) (t_status t))" by auto
qed

text \<open>
  Property C2. No money enters the ledger that is not on the chain. In every state the two
  services can reach together, every deposit entry of the ledger belongs to a user who owns a
  wallet with the address of a deposit that the blockchain service recorded, has exactly the
  asset and the amount of that deposit, and that deposit was announced as confirmed with at
  least the required number of blocks.
\<close>

theorem credits_are_backed:
  assumes "system_steps U Sw sha S A initial_system s" and "e \<in> set (entries (sys_w s))" and "l_entry_type e = DEPOSIT"
  shows "\<exists>wl\<in>set (wallets (sys_w s)). \<exists>d\<in>set (deposits (sys_c s)). w_user_id wl = l_user_id e \<and> w_address wl = d_to_address d \<and>
     d_asset d = l_asset e \<and> d_amount d = l_amount e \<and> (\<exists>ev\<in>envs (c_outbox (sys_c s)). deposit_confirmation S d ev)"
  using system_reachable [OF assms(1)] bothD(8) assms(2,3) unfolding system_ok_def backed_def by blast

section \<open>The run, step by step\<close>

abbreviation demo_step :: "system \<Rightarrow> system \<Rightarrow> bool" where
  "demo_step \<equiv> system_step (uuid5 demo_env) WalletApi.sample_settings (\<lambda>_. ''h'') wide_settings sample_port"

lemma demo_wallet_work:
  "\<lbrakk>wallet_step (uuid5 demo_env) WalletApi.sample_settings (\<lambda>_. ''h'') w w'; processed w' = processed w\<rbrakk> \<Longrightarrow> demo_step (at_state w c b) (at_state w' c b)"
  using system_step.wallet_work [of _ _ _ "at_state w c b" w'] by simp

lemma demo_chain_work:
  "\<lbrakk>chain_step (uuid5 demo_env) wide_settings sample_port c c'; c_processed c' = c_processed c\<rbrakk> \<Longrightarrow> demo_step (at_state w c b) (at_state w c' b)"
  using system_step.chain_work [of _ _ _ "at_state w c b" c'] by simp

lemma demo_wallet_handles:
  "\<lbrakk>yields (dispatch demo_env ev w) w'; carried b ev\<rbrakk> \<Longrightarrow> demo_step (at_state w c b) (at_state w' c b)"
  unfolding yields_eq using system_step.wallet_handles [where s = "at_state w c b"] by fastforce

lemma demo_chain_handles:
  "\<lbrakk>yields (chain_dispatch demo_env ev c) c'; carried b ev\<rbrakk> \<Longrightarrow> demo_step (at_state w c b) (at_state w c' b)"
  unfolding yields_eq using system_step.chain_handles [where s = "at_state w c b"] by fastforce

text \<open>A relay run on the in-process bus publishes everything it claims.\<close>

lemma fold_carried:
  "carried (fold (\<lambda>r b. fst (eb_publish InMemoryBus b (o_envelope r))) rs b) ev \<longleftrightarrow> (\<exists>r\<in>set rs. ev = o_envelope r) \<or> carried b ev"
  by (induction rs arbitrary: b) (auto simp: InMemoryBus_def carried_publish)

lemma relay_all:
  assumes "claim_rows bs [] 0 ob = rs"
  shows "\<exists>b'. relay_run_once (eb_publish InMemoryBus) bs mb [] 0 b ob = (b', told (map o_id rs) ob, length rs) \<and>
    (\<forall>r\<in>set rs. carried b' (o_envelope r))"
proof -
  have "reliable (eb_publish InMemoryBus)" by (simp add: reliable_def InMemoryBus_def)
  then show ?thesis using assms by (auto simp: relay_run_once_eq relay_loop_reliable told_def fold_carried)
qed

lemma demo_chain_tells:
  assumes "claim_rows 100 [] 0 (c_outbox c) = rs"
  shows "\<exists>b'. demo_step (at_state w c b) (at_state w (c\<lparr>c_outbox := told (map o_id rs) (c_outbox c)\<rparr>) b') \<and> (\<forall>r\<in>set rs. carried b' (o_envelope r))"
  using relay_all [OF assms, of 60 b] system_step.chain_publishes [of 100 60 "[]" 0 "at_state w c b"] by fastforce

lemma demo_wallet_tells:
  assumes "claim_rows 100 [] 0 (w_outbox w) = rs"
  shows "\<exists>b'. demo_step (at_state w c b) (at_state (w\<lparr>w_outbox := told (map o_id rs) (w_outbox w)\<rparr>) c b') \<and> (\<forall>r\<in>set rs. carried b' (o_envelope r))"
  using relay_all [OF assms, of 60 b] system_step.wallet_publishes [of 100 60 "[]" 0 "at_state w c b"] by fastforce

lemma demo_claims:
  "claim_rows 100 [] 0 (c_outbox chain_confirmed) = [demo_row 1 30 detected_event, demo_row 2 31 confirmed_event]"
  "claim_rows 100 [] 0 (w_outbox wallet_asked) = [demo_row 1 55 demo_requested_event]"
  "claim_rows 100 [] 0 (c_outbox chain_refused) = [demo_row 3 90 demo_failed_event]"
  by code_simp+

lemma demo_quiet:
  "processed wallet_first = processed empty_wdb" "processed wallet_users = processed wallet_first" "processed wallet_one = processed wallet_users"
  "processed wallet_two = processed wallet_one" "processed wallet_three = processed wallet_two" "processed wallet_asked = processed wallet_credited"
  "c_processed chain_addressed = c_processed empty_cdb" "c_processed chain_scanned = c_processed chain_addressed"
  "c_processed chain_confirmed = c_processed chain_scanned"
  by code_simp+

lemma demo_row_fields [simp]: "o_envelope (demo_row i u ev) = ev" "o_id (demo_row i u ev) = i"
  by (simp_all add: demo_row_def)

definition chain_last :: cdb where
  "chain_last = chain_refused\<lparr>c_outbox := told [3] (c_outbox chain_refused)\<rparr>"

text \<open>Users and wallets, then the deposit.\<close>

lemma demo_wallet_ready: "demo_step\<^sup>*\<^sup>* (at_state empty_wdb c b) (at_state wallet_three c b)"
proof -
  have "demo_step (at_state empty_wdb c b) (at_state wallet_first c b)" "demo_step (at_state wallet_first c b) (at_state wallet_users c b)"
    using demo_users demo_quiet(1,2) by (auto simp: yields_eq intro!: demo_wallet_work intro: wallet_step.user)
  moreover have "demo_step (at_state wallet_users c b) (at_state wallet_one c b)" "demo_step (at_state wallet_one c b) (at_state wallet_two c b)"
    "demo_step (at_state wallet_two c b) (at_state wallet_three c b)"
    using demo_wallet_one demo_wallet_two demo_wallet_three demo_quiet(3-5) by (auto simp: yields_eq intro!: demo_wallet_work intro: wallet_step.wallet)
  ultimately show ?thesis by (meson converse_rtranclp_into_rtranclp rtranclp.rtrancl_refl)
qed

lemma demo_chain_ready: "demo_step\<^sup>*\<^sup>* (at_state w empty_cdb b) (at_state w chain_confirmed b)"
proof -
  have "demo_step (at_state w empty_cdb b) (at_state w chain_addressed b)"
    using demo_address demo_quiet(7) by (auto simp: yields_eq intro!: demo_chain_work intro: chain_step.address)
  moreover have "demo_step (at_state w chain_addressed b) (at_state w chain_scanned b)"
    using demo_scan demo_quiet(8) by (auto simp: yields_eq intro!: demo_chain_work intro: chain_step.scan)
  moreover have "demo_step (at_state w chain_scanned b) (at_state w chain_confirmed b)"
    using demo_reverify demo_quiet(9) by (auto simp: yields_eq intro!: demo_chain_work intro: chain_step.deposit)
  ultimately show ?thesis by (meson converse_rtranclp_into_rtranclp rtranclp.rtrancl_refl)
qed

text \<open>The whole run: the deposit is announced and credited, spent, refused, and the refusal handled.\<close>

lemma demo_run: "\<exists>b. demo_step\<^sup>*\<^sup>* initial_system (at_state wallet_failed chain_last b)"
proof -
  have "demo_step\<^sup>*\<^sup>* initial_system (at_state wallet_three chain_confirmed empty_bus)"
    unfolding initial_system_def by (rule rtranclp_trans [OF demo_wallet_ready demo_chain_ready])
  moreover obtain b1 where "demo_step (at_state wallet_three chain_confirmed empty_bus) (at_state wallet_three chain_told b1)" "carried b1 confirmed_event"
    using demo_chain_tells [OF demo_claims(1)] by (auto simp: chain_told_def)
  moreover from this(2) have "demo_step (at_state wallet_three chain_told b1) (at_state wallet_credited chain_told b1)"
    by (rule demo_wallet_handles [OF demo_credit])
  moreover have "demo_step (at_state wallet_credited chain_told b1) (at_state wallet_asked chain_told b1)"
    using demo_ask demo_quiet(6) by (auto simp: yields_eq intro!: demo_wallet_work intro: wallet_step.transfer)
  moreover obtain b2 where "demo_step (at_state wallet_asked chain_told b1) (at_state wallet_told chain_told b2)" "carried b2 demo_requested_event"
    using demo_wallet_tells [OF demo_claims(2)] by (auto simp: wallet_told_def)
  moreover from this(2) have "demo_step (at_state wallet_told chain_told b2) (at_state wallet_told chain_refused b2)"
    by (rule demo_chain_handles [OF demo_refuse])
  moreover obtain b3 where "demo_step (at_state wallet_told chain_refused b2) (at_state wallet_told chain_last b3)" "carried b3 demo_failed_event"
    using demo_chain_tells [OF demo_claims(3)] by (auto simp: chain_last_def)
  moreover from this(2) have "demo_step (at_state wallet_told chain_last b3) (at_state wallet_failed chain_last b3)"
    by (rule demo_wallet_handles [OF demo_fail])
  ultimately show ?thesis by (meson rtranclp.rtrancl_into_rtrancl)
qed

lemma demo_final:
  "transfers wallet_failed = [demo_failed_transfer]" "t_status demo_failed_transfer = FAILED" "entries wallet_failed = [demo_entry]"
  "l_entry_type demo_entry = DEPOSIT" "l_amount demo_entry = 500"
  by code_simp+

theorem settled_only_if_confirmed_witness:
  "\<exists>s. demo_step\<^sup>*\<^sup>* initial_system s \<and> (\<exists>t\<in>set (transfers (sys_w s)). t_status t = FAILED \<and>
     (\<exists>r\<in>set (outgoings (sys_c s)). asked_row t r \<and> (\<exists>ev\<in>envs (c_outbox (sys_c s)). decides ev (t_id t) FAILED)))"
proof -
  obtain b where run: "demo_step\<^sup>*\<^sup>* initial_system (at_state wallet_failed chain_last b)" using demo_run by blast
  from settled_only_if_confirmed [OF run] run demo_final show ?thesis by (intro exI [of _ "at_state wallet_failed chain_last b"]) auto
qed

theorem credits_are_backed_witness:
  "\<exists>s. demo_step\<^sup>*\<^sup>* initial_system s \<and> (\<exists>e\<in>set (entries (sys_w s)). l_amount e = 500 \<and>
     (\<exists>wl\<in>set (wallets (sys_w s)). \<exists>d\<in>set (deposits (sys_c s)). w_user_id wl = l_user_id e \<and> w_address wl = d_to_address d \<and> d_amount d = 500))"
proof -
  obtain b where run: "demo_step\<^sup>*\<^sup>* initial_system (at_state wallet_failed chain_last b)" using demo_run by blast
  from credits_are_backed [OF run, of demo_entry] run demo_final show ?thesis by (intro exI [of _ "at_state wallet_failed chain_last b"]) auto
qed

end
