(* ===== verification/Workers.thy ===== *)
theory Workers
  imports System WalletApp ChainApp
begin

text \<open>
  The worker processes: \<open>wallet_service/worker.py\<close> and \<open>blockchain_service/worker.py\<close>. Each is a set of
  loops over one event loop: the consumer, the outbox relay and the periodic jobs of its
  service. With the two applications they are the whole program, and every run of it is a
  run of \<open>System\<close>.
\<close>

section \<open>Loops\<close>

text \<open>
  \<open>periodic\<close>: one call of \<open>fn\<close> per round until the stop event is set. An exception is logged and
  what the call had committed stays. A round is what the call observes of its surroundings.
\<close>

fun periodic :: "('q \<Rightarrow> 's \<Rightarrow> 's \<times> 'r) \<Rightarrow> 'q list \<Rightarrow> 's \<Rightarrow> 's" where
  "periodic fn [] s = s"
| "periodic fn (q # qs) s = periodic fn qs (fst (fn q s))"

text \<open>The settings of the consumers; batch and block time are the defaults of \<open>ConsumerRuntime\<close>.\<close>

record worker_config =
  wk_consumer_group :: string
  wk_consumer_name :: string
  wk_consumer_max_delivery :: nat
  wk_consumer_claim_idle_ms :: int

definition runtime :: "string list \<Rightarrow> worker_config \<Rightarrow> consumer" where
  "runtime types cfg = \<lparr>c_group = wk_consumer_group cfg, c_name = wk_consumer_name cfg, c_event_types = types,
     c_max_delivery = wk_consumer_max_delivery cfg, c_claim_idle_ms = wk_consumer_claim_idle_ms cfg, c_batch = 32, c_block_ms = 2000\<rparr>"

text \<open>
  What a round observes: the clock of the bus, the environment of each transaction, the rows
  that another process holds locked, and (on the blockchain side) the node at each request.
\<close>

record 'd observed =
  rd_clock :: int
  rd_env :: "'d \<Rightarrow> env"
  rd_locked :: "nat list"

record 'c chain_round = "cdb observed" +
  rd_node :: "nat \<Rightarrow> 'c"
  rd_claimed :: "uuid list"

text \<open>
  A handler in its transaction, as the consumer calls it: an exception rolls the transaction
  back, and its text is what the runtime records.
\<close>

definition committing :: "(exn \<Rightarrow> string) \<Rightarrow> ('s \<Rightarrow> ('s \<times> 'a) result) \<Rightarrow> 's \<Rightarrow> 's \<times> (string + 'a)" where
  "committing describe f s = (case f s of Inl e \<Rightarrow> (s, Inl (describe e)) | Inr (s', x) \<Rightarrow> (s', Inr x))"

definition recording :: "(exn \<Rightarrow> string) \<Rightarrow> ('s \<Rightarrow> ('s \<times> unit) result) \<Rightarrow> 's \<Rightarrow> 's \<times> string option" where
  "recording describe f s = (case f s of Inl e \<Rightarrow> (s, Some (describe e)) | Inr (s', _) \<Rightarrow> (s', None))"

section \<open>The worker of the wallet service\<close>

record wallet_process =
  wp_db :: wdb
  wp_bus :: bus
  wp_started :: bool

datatype wallet_loop = WalletConsumer | WalletRelay | TransferProgress

definition wallet_tasks :: "(string \<times> wallet_loop) list" where
  "wallet_tasks = [(''consumer'', WalletConsumer), (''outbox'', WalletRelay), (''transfer-progress'', TransferProgress)]"

definition wallet_consumer :: "worker_config \<Rightarrow> (exn \<Rightarrow> string) \<Rightarrow> wdb observed \<Rightarrow> wallet_process \<Rightarrow> wallet_process \<times> (string + nat)" where
  "wallet_consumer cfg describe q s =
     (case consumer_run_once InMemoryBus (runtime SUBSCRIBED_EVENTS cfg)
         (\<lambda>db ev. committing describe (dispatch (rd_env q db) ev) db)
         (Some (\<lambda>db item. recording describe (record_dead_letter (rd_env q db) item) db))
         (rd_clock q) None (wp_started s) (wp_bus s) (wp_db s) of
       (started, b, db, r) \<Rightarrow> (\<lparr>wp_db = db, wp_bus = b, wp_started = started\<rparr>, r))"

text \<open>\<open>OutboxRelay\<close> with its default batch size and back-off.\<close>

definition wallet_relay :: "wdb observed \<Rightarrow> wallet_process \<Rightarrow> wallet_process \<times> (string + nat)" where
  "wallet_relay q s =
     (case relay_run_once (eb_publish InMemoryBus) 100 60 (rd_locked q) (now (rd_env q (wp_db s))) (wp_bus s) (w_outbox (wp_db s)) of
       (b, ob, n) \<Rightarrow> (s\<lparr>wp_db := (wp_db s)\<lparr>w_outbox := ob\<rparr>, wp_bus := b\<rparr>, Inr n))"

definition wallet_progress :: "wdb observed \<Rightarrow> wallet_process \<Rightarrow> wallet_process \<times> (string + nat)" where
  "wallet_progress q s = (case advance_transfers (rd_env q (wp_db s)) (wp_db s) of (db, n) \<Rightarrow> (s\<lparr>wp_db := db\<rparr>, Inr n))"

primrec wallet_round :: "worker_config \<Rightarrow> (exn \<Rightarrow> string) \<Rightarrow> wallet_loop \<Rightarrow> wdb observed \<Rightarrow> wallet_process \<Rightarrow> wallet_process \<times> (string + nat)" where
  "wallet_round cfg describe WalletConsumer = wallet_consumer cfg describe"
| "wallet_round cfg describe WalletRelay = wallet_relay"
| "wallet_round cfg describe TransferProgress = wallet_progress"

text \<open>\<open>run\<close>: the rounds of the tasks, in the order in which the event loop lets them run.\<close>

definition wallet_run :: "worker_config \<Rightarrow> (exn \<Rightarrow> string) \<Rightarrow> (wallet_loop \<times> wdb observed) list \<Rightarrow> wallet_process \<Rightarrow> wallet_process" where
  "wallet_run cfg describe = periodic (\<lambda>(l, q). wallet_round cfg describe l q)"

section \<open>The worker of the blockchain service\<close>

record 'c chain_worker =
  cw_db :: cdb
  cw_node :: 'c
  cw_bus :: bus
  cw_started :: bool

datatype chain_loop = ChainConsumer | ChainRelay | Scanner | DepositConfirmations | Broadcaster | TxConfirmations | Miner

definition chain_tasks :: "'c chain_context \<Rightarrow> bool \<Rightarrow> 'c \<Rightarrow> (string \<times> chain_loop) list" where
  "chain_tasks ctx mock_auto_mine c =
     [(''consumer'', ChainConsumer), (''outbox'', ChainRelay), (''scanner'', Scanner), (''deposit-confirmations'', DepositConfirmations),
      (''broadcaster'', Broadcaster), (''tx-confirmations'', TxConfirmations)] @
     (if cx_mock ctx c \<noteq> None \<and> mock_auto_mine then [(''miner'', Miner)] else [])"

definition chain_consumer :: "worker_config \<Rightarrow> (exn \<Rightarrow> string) \<Rightarrow> 'c chain_round \<Rightarrow> 'c chain_worker \<Rightarrow> 'c chain_worker \<times> (string + unit)" where
  "chain_consumer cfg describe q s =
     (case consumer_run_once InMemoryBus (runtime CHAIN_SUBSCRIBED_EVENTS cfg)
         (\<lambda>db ev. committing describe (chain_dispatch (rd_env q db) ev) db)
         (Some (\<lambda>db item. recording describe (record_chain_dead_letter (rd_env q db) item) db))
         (rd_clock q) None (cw_started s) (cw_bus s) (cw_db s) of
       (started, b, db, r) \<Rightarrow> (s\<lparr>cw_db := db, cw_bus := b, cw_started := started\<rparr>, bindr r (\<lambda>_. Inr ())))"

definition chain_relay :: "'c chain_round \<Rightarrow> 'c chain_worker \<Rightarrow> 'c chain_worker \<times> (string + unit)" where
  "chain_relay q s =
     (case relay_run_once (eb_publish InMemoryBus) 100 60 (rd_locked q) (now (rd_env q (cw_db s))) (cw_bus s) (c_outbox (cw_db s)) of
       (b, ob, n) \<Rightarrow> (s\<lparr>cw_db := (cw_db s)\<lparr>c_outbox := ob\<rparr>, cw_bus := b\<rparr>, Inr ()))"

text \<open>The outcome of a job, of which the loop logs an exception and forgets a result.\<close>

definition outcome :: "(exn \<Rightarrow> string) \<Rightarrow> 'a result \<Rightarrow> string + unit" where
  "outcome describe r = (case r of Inl e \<Rightarrow> Inl (describe e) | Inr _ \<Rightarrow> Inr ())"

definition scanner :: "'c chain_context \<Rightarrow> 'c chain_round \<Rightarrow> 'c chain_worker \<Rightarrow> 'c chain_worker \<times> (string + unit)" where
  "scanner ctx q s =
     (let db = cw_db s in
      case scanner_run_once (cx_settings ctx) (cx_adapter ctx) (rd_node q) (rd_env q db) db db db of
        Inl e \<Rightarrow> (s, Inl (cx_describe ctx e))
      | Inr (db', rep) \<Rightarrow> (s\<lparr>cw_db := db'\<rparr>, Inr ()))"

definition deposit_confirmations :: "'c chain_context \<Rightarrow> 'c chain_round \<Rightarrow> 'c chain_worker \<Rightarrow> 'c chain_worker \<times> (string + unit)" where
  "deposit_confirmations ctx q s =
     (case deposit_watcher_run_once (cx_settings ctx) (cx_adapter ctx) (rd_node q) (rd_env q (cw_db s)) (cw_db s) of
        (db', r) \<Rightarrow> (s\<lparr>cw_db := db'\<rparr>, outcome (cx_describe ctx) r))"

definition broadcaster :: "'c chain_context \<Rightarrow> 'c chain_round \<Rightarrow> 'c chain_worker \<Rightarrow> 'c chain_worker \<times> (string + unit)" where
  "broadcaster ctx q s =
     (case broadcaster_run_once (cx_settings ctx) (cx_adapter ctx) (cx_describe ctx) (rd_env q (cw_db s)) 20 (rd_claimed q) (cw_node s) (cw_db s) of
        (c', db', r) \<Rightarrow> (s\<lparr>cw_db := db', cw_node := c'\<rparr>, outcome (cx_describe ctx) r))"

definition tx_confirmations :: "'c chain_context \<Rightarrow> 'c chain_round \<Rightarrow> 'c chain_worker \<Rightarrow> 'c chain_worker \<times> (string + unit)" where
  "tx_confirmations ctx q s =
     (case outgoing_watcher_run_once (cx_settings ctx) (cx_adapter ctx) (rd_node q) (rd_env q (cw_db s)) (cw_db s) of
        (db', r) \<Rightarrow> (s\<lparr>cw_db := db'\<rparr>, outcome (cx_describe ctx) r))"

definition miner :: "'c chain_context \<Rightarrow> 'c chain_round \<Rightarrow> 'c chain_worker \<Rightarrow> 'c chain_worker \<times> (string + unit)" where
  "miner ctx q s =
     (case cx_mock ctx (cw_node s) of
        None \<Rightarrow> (s, Inr ())
      | Some m \<Rightarrow>
          (case mine_block (cx_sha ctx) (rd_env q (cw_db s)) m of
             Inl e \<Rightarrow> (s, Inl (cx_describe ctx e))
           | Inr (m', n) \<Rightarrow> (s\<lparr>cw_node := cx_put ctx m' (cw_node s)\<rparr>, Inr ())))"

primrec chain_loop_round :: "worker_config \<Rightarrow> 'c chain_context \<Rightarrow> chain_loop \<Rightarrow> 'c chain_round \<Rightarrow> 'c chain_worker \<Rightarrow> 'c chain_worker \<times> (string + unit)" where
  "chain_loop_round cfg ctx ChainConsumer = chain_consumer cfg (cx_describe ctx)"
| "chain_loop_round cfg ctx ChainRelay = chain_relay"
| "chain_loop_round cfg ctx Scanner = scanner ctx"
| "chain_loop_round cfg ctx DepositConfirmations = deposit_confirmations ctx"
| "chain_loop_round cfg ctx Broadcaster = broadcaster ctx"
| "chain_loop_round cfg ctx TxConfirmations = tx_confirmations ctx"
| "chain_loop_round cfg ctx Miner = miner ctx"

definition chain_run :: "worker_config \<Rightarrow> 'c chain_context \<Rightarrow> (chain_loop \<times> 'c chain_round) list \<Rightarrow> 'c chain_worker \<Rightarrow> 'c chain_worker" where
  "chain_run cfg ctx = periodic (\<lambda>(l, q). chain_loop_round cfg ctx l q)"

section \<open>What a consumer round does\<close>

text \<open>A relation that holds of every handler call and every dead letter holds of the round, closed under repetition.\<close>

lemma handle_related:
  assumes "handle B c disp (Some dl) d b s = (b', s', r)"
    and "\<And>s. R s (fst (disp s (d_envelope d)))" and "\<And>s item. R s (fst (dl s item))"
  shows "R\<^sup>*\<^sup>* s s'"
proof -
  have rej: "R\<^sup>*\<^sup>* s1 s2" if "reject B c (Some dl) d e b1 s1 = (b2, s2, r2)" for e b1 s1 b2 s2 r2
    using that assms(3) [of s1] by (auto simp: reject_def Let_def split: prod.splits option.splits) (metis fst_conv r_into_rtranclp)+
  have dis: "R s s1" if "disp s (d_envelope d) = (s1, x)" for s1 x using assms(2) [of s] that by simp
  show ?thesis using assms(1)
    by (auto simp: handle_def handler_failed_def split: if_splits prod.splits option.splits sum.splits
        dest: rej dis intro: converse_rtranclp_into_rtranclp [where r = R])
qed

lemma handle_all_related:
  assumes "handle_all B c disp (Some dl) ds n b s = (b', s', r)"
    and "\<And>s d. d \<in> set ds \<Longrightarrow> R s (fst (disp s (d_envelope d)))" and "\<And>s item. R s (fst (dl s item))"
  shows "R\<^sup>*\<^sup>* s s'"
  using assms
proof (induction ds arbitrary: n b s)
  case (Cons d ds)
  obtain b1 s1 r1 where h: "handle B c disp (Some dl) d b s = (b1, s1, r1)" by (metis prod.collapse)
  have 1: "R\<^sup>*\<^sup>* s s1" by (rule handle_related [where R = R, OF h]) (use Cons.prems in auto)
  show ?case
  proof (cases r1)
    case None
    with Cons.prems(1) h have "handle_all B c disp (Some dl) ds (Suc n) b1 s1 = (b', s', r)" by simp
    from Cons.IH [OF this] Cons.prems(2,3) have "R\<^sup>*\<^sup>* s1 s'" by simp
    with 1 show ?thesis by (rule rtranclp_trans)
  qed (use Cons.prems(1) h 1 in simp)
qed simp

text \<open>Every message is on the stream of its type.\<close>

definition routed :: "bus \<Rightarrow> bool" where
  "routed b = (\<forall>s. \<forall>(m, ev)\<in>set (msgs b s). s = stream_for (event_type ev))"

lemma routedD: "\<lbrakk>routed b; (m, ev) \<in> set (msgs b s)\<rbrakk> \<Longrightarrow> s = stream_for (event_type ev)"
  unfolding routed_def by blast

lemma consumer_related:
  assumes run: "consumer_run_once InMemoryBus c disp (Some dl) t block started b s = (started', b', s', r)"
    and ok: "bus_ok b" "routed b"
    and rel: "\<And>s ev. carried b ev \<Longrightarrow> R s (fst (disp s ev))" "\<And>s item. R s (fst (dl s item))"
  shows "streams b' = streams b \<and> bus_ok b' \<and> R\<^sup>*\<^sup>* s s'"
proof -
  let ?b1 = "if started then b else ensure_group b (c_event_types c) (c_group c)"
  obtain b2 stale where cl: "claim_types t ?b1 (c_event_types c) (c_group c) (c_claim_idle_ms c) (c_batch c) [] = (b2, stale)" by fastforce
  obtain b3 fresh where rd: "read_new t b2 (c_event_types c) (c_group c) (c_batch c) = (b3, fresh)" by fastforce
  from run cl rd have h: "handle_all InMemoryBus c disp (Some dl) (stale @ fresh) 0 b3 s = (b', s', r)"
    by (auto simp: consumer_run_once_def start_def claim_stale_def
        InMemoryBus_def [THEN arg_cong [of _ _ eb_ensure_group]] InMemoryBus_def [THEN arg_cong [of _ _ eb_claim_stale]]
        InMemoryBus_def [THEN arg_cong [of _ _ eb_read_new]] split: if_splits)
  have d1: "delivers b ?b1 []" using ok(1) by (simp add: delivers_refl ensure_group_delivers)
  then have d2: "delivers ?b1 b2 stale" using claim_types_delivers [OF cl] by (auto simp: delivers_def)
  then have d3: "delivers b2 b3 fresh" using read_new_delivers [OF rd] by (simp add: delivers_def)
  have all: "delivers b b3 (stale @ fresh)" using delivers_trans [OF d1 delivers_trans [OF d2 d3]] by simp
  have "carried b (d_envelope d)" if "d \<in> set (stale @ fresh)" for d
  proof -
    have m: "(d_message_id d, d_envelope d) \<in> set (msgs b (d_stream d))" using all that by (simp add: delivers_def)
    with routedD [OF ok(2) m] show ?thesis unfolding carried_def by auto
  qed
  then have "R\<^sup>*\<^sup>* s s'" using rel by (intro handle_all_related [where R = R, OF h]) auto
  moreover note sr = same_reads_handle_all [OF h]
  moreover have "bus_ok b3" "streams b3 = streams b" using all by (simp_all add: delivers_def same_log_def)
  ultimately show ?thesis using same_reads_ok [OF sr] by (simp add: same_reads_def)
qed

section \<open>Relays keep the bus well-formed\<close>

lemma routed_publish: "routed b \<Longrightarrow> routed (publish b ev)"
  unfolding routed_def [of "publish b ev"] by (auto simp: publish_def Let_def dest: routedD)

lemma relay_bus:
  assumes "relay_run_once (eb_publish InMemoryBus) bs mb locked t b ob = (b', ob', n)" and "bus_ok b" "routed b"
  shows "bus_ok b' \<and> routed b'"
proof -
  have rel: "reliable (eb_publish InMemoryBus)" by (simp add: reliable_def InMemoryBus_def)
  have "bus_ok (fold (\<lambda>r b. fst (eb_publish InMemoryBus b (o_envelope r))) rs b) \<and> routed (fold (\<lambda>r b. fst (eb_publish InMemoryBus b (o_envelope r))) rs b)"
    if "bus_ok b" "routed b" for rs b
    using that by (induction rs arbitrary: b) (simp_all add: InMemoryBus_def publish_ok routed_publish)
  with assms show ?thesis by (auto simp: relay_run_once_eq relay_loop_reliable [OF rel])
qed

section \<open>The whole program\<close>

text \<open>Both databases, the node, the bus, and whether each consumer has created its groups.\<close>

record 'c program =
  pg_w :: wdb
  pg_c :: cdb
  pg_node :: 'c
  pg_b :: bus
  pg_w_started :: bool
  pg_c_started :: bool

definition start_program :: "'c \<Rightarrow> 'c program" where
  "start_program c = \<lparr>pg_w = empty_wdb, pg_c = empty_cdb, pg_node = c, pg_b = empty_bus, pg_w_started = False, pg_c_started = False\<rparr>"

definition as_system :: "'c program \<Rightarrow> system" where
  "as_system p = \<lparr>sys_w = pg_w p, sys_c = pg_c p, sys_b = pg_b p\<rparr>"

definition wallet_side :: "'c program \<Rightarrow> wallet_process" where
  "wallet_side p = \<lparr>wp_db = pg_w p, wp_bus = pg_b p, wp_started = pg_w_started p\<rparr>"

definition chain_side :: "'c program \<Rightarrow> 'c chain_worker" where
  "chain_side p = \<lparr>cw_db = pg_c p, cw_node = pg_node p, cw_bus = pg_b p, cw_started = pg_c_started p\<rparr>"

text \<open>
  A step is a request to one of the applications, a round of a task of one of the workers, or
  a move of the chain. Issued addresses, e-mail checks, probes and key generation may answer
  differently every time.
\<close>

inductive program_step :: "(string \<Rightarrow> uuid) \<Rightarrow> (string \<Rightarrow> string) \<Rightarrow> wallet_config \<Rightarrow> worker_config \<Rightarrow> chain_settings \<Rightarrow> 'c chain_adapter \<Rightarrow>
    chain_config \<Rightarrow> worker_config \<Rightarrow> bool \<Rightarrow> 'c program \<Rightarrow> 'c program \<Rightarrow> bool"
  for U sha cfg wk S A ccfg ck auto where
  wallet_request: "\<lbrakk>uuid5 \<Gamma> = U; ww_sha W = sha; wallet_app cfg W \<Gamma> h call db0 (pg_w p) = (w', rep)\<rbrakk> \<Longrightarrow>
    program_step U sha cfg wk S A ccfg ck auto p (p\<lparr>pg_w := w'\<rparr>)"
| chain_request: "\<lbrakk>uuid5 \<Gamma> = U; cx_settings ctx = S; cx_adapter ctx = A; cx_publish ctx = eb_publish InMemoryBus;
    chain_app ccfg P ctx \<Gamma> h call \<lparr>cp_db = pg_c p, cp_node = pg_node p, cp_bus = pg_b p\<rparr> = (s', rep)\<rbrakk> \<Longrightarrow>
    program_step U sha cfg wk S A ccfg ck auto p (p\<lparr>pg_c := cp_db s', pg_node := cp_node s', pg_b := cp_bus s'\<rparr>)"
| wallet_worker: "\<lbrakk>(nm, l) \<in> set wallet_tasks; wallet_round wk describe l q (wallet_side p) = (s', r)\<rbrakk> \<Longrightarrow>
    program_step U sha cfg wk S A ccfg ck auto p (p\<lparr>pg_w := wp_db s', pg_b := wp_bus s', pg_w_started := wp_started s'\<rparr>)"
| chain_worker: "\<lbrakk>\<forall>db. uuid5 (rd_env q db) = U; cx_settings ctx = S; cx_adapter ctx = A; (nm, l) \<in> set (chain_tasks ctx auto (pg_node p));
    chain_loop_round ck ctx l q (chain_side p) = (s', r)\<rbrakk> \<Longrightarrow>
    program_step U sha cfg wk S A ccfg ck auto p (p\<lparr>pg_c := cw_db s', pg_node := cw_node s', pg_b := cw_bus s', pg_c_started := cw_started s'\<rparr>)"
| chain_moves: "program_step U sha cfg wk S A ccfg ck auto p (p\<lparr>pg_node := c'\<rparr>)"

abbreviation program_steps :: "(string \<Rightarrow> uuid) \<Rightarrow> (string \<Rightarrow> string) \<Rightarrow> wallet_config \<Rightarrow> worker_config \<Rightarrow> chain_settings \<Rightarrow> 'c chain_adapter \<Rightarrow>
    chain_config \<Rightarrow> worker_config \<Rightarrow> bool \<Rightarrow> 'c program \<Rightarrow> 'c program \<Rightarrow> bool" where
  "program_steps U sha cfg wk S A ccfg ck auto \<equiv> (program_step U sha cfg wk S A ccfg ck auto)\<^sup>*\<^sup>*"

section \<open>Every run of the program is a run of the system\<close>

lemma wallet_works:
  "\<lbrakk>wallet_step U Sw sha w w'; processed w' = processed w\<rbrakk> \<Longrightarrow> system_step U Sw sha S A (at_state w c b) (at_state w' c b)"
  using system_step.wallet_work [of U Sw sha "at_state w c b" w'] by simp

lemma moved_bus: "streams b' = streams b \<Longrightarrow> system_step U Sw sha S A (at_state w c b) (at_state w c b')"
  using system_step.delivery [of b' "at_state w c b"] by simp

lemma wallet_handled: "\<lbrakk>carried b ev; dispatch \<Gamma> ev w = Inr (w', out)\<rbrakk> \<Longrightarrow> system_step U Sw sha S A (at_state w c b) (at_state w' c b)"
  using system_step.wallet_handles [of "at_state w c b" ev \<Gamma> w' out U Sw sha S A] by simp

lemma chain_handled: "\<lbrakk>carried b ev; uuid5 \<Gamma> = U; chain_dispatch \<Gamma> ev c = Inr (c', out)\<rbrakk> \<Longrightarrow> system_step U Sw sha S A (at_state w c b) (at_state w c' b)"
  using system_step.chain_handles [of "at_state w c b" ev \<Gamma> U c' out Sw sha S A] by simp

lemma wallet_dead:
  assumes run: "record_dead_letter \<Gamma> item w = Inr (w', u)"
  shows "system_step U Sw sha S A (at_state w c b) (at_state w' c b)"
proof (rule wallet_works)
  show "wallet_step U Sw sha w w'" using run by (intro wallet_step.dead) simp
  show "processed w' = processed w" using run by (auto simp: record_dead_letter_def Let_def bindr_eq_Inr split: option.splits if_splits)
qed

lemma chain_dead:
  assumes run: "record_chain_dead_letter \<Gamma> item c = Inr (c', u)"
  shows "system_step U Sw sha S A (at_state w c b) (at_state w c' b)"
proof -
  have "c_processed c' = c_processed c" using run by (auto simp: record_chain_dead_letter_def Let_def bindr_eq_Inr split: option.splits if_splits)
  moreover have "chain_step U S A c c'" using run by (intro chain_step.dead) simp
  ultimately show ?thesis using system_step.chain_work [of U S A "at_state w c b" c'] by simp
qed

lemma works_system:
  assumes "chain_works U S A c c'" and "chaindb_ok U c"
  shows "system_steps U Sw sha S A (at_state w c b) (at_state w c' b)"
proof -
  have "system_steps U Sw sha S A (at_state w c b) (at_state w c' b) \<and> chaindb_ok U c'"
    using assms
  proof (induction rule: rtranclp_induct)
    case (step x y)
    then have st: "chain_step U S A x y" "c_processed y = c_processed x" by (simp_all add: chain_work_def)
    have "system_step U Sw sha S A (at_state w x b) (at_state w y b)" using system_step.chain_work [of U S A "at_state w x b" y] st by simp
    moreover have "chaindb_ok U y" using chain_step_keeps [OF st(1)] step by simp
    ultimately show ?case using step by (auto intro: rtranclp.rtrancl_into_rtrancl)
  qed simp
  then show ?thesis ..
qed

text \<open>A relation of one database whose steps the system can make in place, closed under repetition.\<close>

lemma repeat_steps:
  assumes "R\<^sup>*\<^sup>* x y" and "\<And>x y. R x y \<Longrightarrow> Q\<^sup>*\<^sup>* (f x) (f y)"
  shows "Q\<^sup>*\<^sup>* (f x) (f y)"
  using assms(1) by (induction rule: rtranclp_induct) (auto dest: assms(2))

text \<open>Requests handle no event.\<close>

lemma wallet_request_quiet:
  assumes ok: "wallet_ok U db"
  shows "processed (fst (wallet_app cfg W \<Gamma> h call db0 db)) = processed db"
proof -
  let ?\<Gamma> = "\<Gamma>\<lparr>cid := Some (request_correlation \<Gamma> (hd_correlation h) (hd_request_id h))\<rparr>"
  have user: "processed db' = processed db" if "post_user e \<Gamma>' name email db = Inr (db', rep)" for e \<Gamma>' name email db' rep
  proof -
    from that obtain e u where "create_user \<Gamma>' name e db = Inr (db', u)" by (auto simp: post_user_def bindr_eq_Inr)
    then show ?thesis by (cases rule: create_user_cases) simp
  qed
  have attach: "processed db' = processed db" if "attach_wallet \<Gamma>' uid network a address db = Inr (db', w, c)" for \<Gamma>' uid network a address db' w c
  proof -
    from that obtain db1 i where ins: "insert_wallet \<Gamma>' uid network a address db = Inr (db1, i)" and ens: "ensure_balance \<Gamma>' uid a db1 = Inr db'"
      by (auto simp: attach_wallet_def bindr_eq_Inr split: option.splits)
    have "processed db1 = processed db" using ins by (cases rule: insert_wallet_cases) auto
    moreover have "processed db' = processed db1" using ens by (auto simp: ensure_balance_def bindr_eq_Inr split: if_splits)
    ultimately show ?thesis by simp
  qed
  have wallet: "processed db' = processed db" if "post_wallet S' issue \<Gamma>' uid network asset db0 db = Inr (db', rep)" for S' issue \<Gamma>' uid network asset db' rep
    using that by (auto simp: post_wallet_def bindr_eq_Inr split: option.split_asm dest: attach)
  have transfer: "processed db' = processed db" if "post_transfer S' sha' \<Gamma>' q db = Inr (db', rep)" for S' sha' \<Gamma>' q db' rep
    using that
  proof (cases rule: post_transfer_cases)
    case (replayed a units i)
    from replayed(4) show ?thesis by (cases rule: claim_cases) simp_all
  next
    case (created a units db1 db2 t body)
    from claim_owned [OF created(4) valid_key(2,1) [OF created(1)]] obtain row where db1: "db1 = db\<lparr>idem_keys := idem_keys db @ [row]\<rparr>" by blast
    have lt: "ledger_ok db1" "transfers_ok db1" using ok by (simp_all add: db1 claim_invisible wallet_ok_def)
    from created(7) obtain x where db': "db' = db2\<lparr>idem_keys := x\<rparr>" by (auto simp: complete_def bindr_eq_Inr)
    show ?thesis using create_spec(13) [OF lt created(5)] by (simp add: db' db1)
  qed
  have "processed (fst (wallet_endpoint cfg W db0 call ?\<Gamma> db)) = processed db"
    by (cases call) (auto simp: transaction_def reading_def split: sum.split dest: user wallet transfer)
  then show ?thesis
    using respond_state [of wallet_create_app "wallet_auth cfg" "wallet_route call" "wallet_endpoint cfg W db0 call" \<Gamma> h db]
    by (auto simp: wallet_app_def)
qed

text \<open>A run of a worker, with its tasks in any order, is a run of the program.\<close>

lemma wallet_run_program:
  "program_steps U sha cfg wk S A ccfg ck auto p (p\<lparr>pg_w := wp_db (wallet_run wk describe sched (wallet_side p)),
     pg_b := wp_bus (wallet_run wk describe sched (wallet_side p)), pg_w_started := wp_started (wallet_run wk describe sched (wallet_side p))\<rparr>)"
proof (induction sched arbitrary: p)
  case Nil
  then show ?case by (simp add: wallet_run_def wallet_side_def)
next
  case (Cons x sched)
  obtain l q where x: "x = (l, q)" by fastforce
  obtain s r where run: "wallet_round wk describe l q (wallet_side p) = (s, r)" by fastforce
  let ?p = "p\<lparr>pg_w := wp_db s, pg_b := wp_bus s, pg_w_started := wp_started s\<rparr>"
  have "\<exists>nm. (nm, l) \<in> set wallet_tasks" by (cases l) (auto simp: wallet_tasks_def)
  then have "program_step U sha cfg wk S A ccfg ck auto p ?p" using run program_step.wallet_worker by blast
  moreover have "wallet_side ?p = s" by (simp add: wallet_side_def)
  ultimately show ?case using Cons.IH [of ?p] by (auto simp: wallet_run_def x run intro: converse_rtranclp_into_rtranclp)
qed

lemma chain_run_program:
  assumes "cx_settings ctx = S" "cx_adapter ctx = A"
    and "\<forall>(l, q)\<in>set sched. (\<forall>db. uuid5 (rd_env q db) = U) \<and> (\<forall>c. l \<in> snd ` set (chain_tasks ctx auto c))"
  shows "program_steps U sha cfg wk S A ccfg ck auto p (p\<lparr>pg_c := cw_db (chain_run ck ctx sched (chain_side p)),
     pg_node := cw_node (chain_run ck ctx sched (chain_side p)), pg_b := cw_bus (chain_run ck ctx sched (chain_side p)),
     pg_c_started := cw_started (chain_run ck ctx sched (chain_side p))\<rparr>)"
  using assms(3)
proof (induction sched arbitrary: p)
  case Nil
  then show ?case by (simp add: chain_run_def chain_side_def)
next
  case (Cons x sched)
  obtain l q where x: "x = (l, q)" by fastforce
  obtain s r where run: "chain_loop_round ck ctx l q (chain_side p) = (s, r)" by fastforce
  let ?p = "p\<lparr>pg_c := cw_db s, pg_node := cw_node s, pg_b := cw_bus s, pg_c_started := cw_started s\<rparr>"
  from Cons.prems x obtain nm where "(nm, l) \<in> set (chain_tasks ctx auto (pg_node p))" and U: "\<forall>db. uuid5 (rd_env q db) = U" by fastforce
  then have "program_step U sha cfg wk S A ccfg ck auto p ?p" by (intro program_step.chain_worker [OF U assms(1,2) _ run])
  moreover have "chain_side ?p = s" by (simp add: chain_side_def)
  moreover have "\<forall>(l, q)\<in>set sched. (\<forall>db. uuid5 (rd_env q db) = U) \<and> (\<forall>c. l \<in> snd ` set (chain_tasks ctx auto c))" using Cons.prems by simp
  ultimately show ?case using Cons.IH [of ?p] by (auto simp: chain_run_def x run intro: converse_rtranclp_into_rtranclp)
qed

text \<open>What a program state is, seen from the system.\<close>

definition program_ok :: "(string \<Rightarrow> uuid) \<Rightarrow> chain_settings \<Rightarrow> 'c program \<Rightarrow> bool" where
  "program_ok U S p = (system_ok U S (as_system p) \<and> bus_ok (pg_b p) \<and> routed (pg_b p))"

text \<open>One move: the system follows, and the bus stays well-formed.\<close>

definition followed :: "(string \<Rightarrow> uuid) \<Rightarrow> wallet_settings \<Rightarrow> (string \<Rightarrow> string) \<Rightarrow> chain_settings \<Rightarrow> 'c chain_adapter \<Rightarrow>
    wdb \<times> cdb \<times> bus \<Rightarrow> wdb \<times> cdb \<times> bus \<Rightarrow> bool" where
  "followed U Sw sha S A s s' = (case (s, s') of ((w, c, b), (w', c', b')) \<Rightarrow>
     system_steps U Sw sha S A (at_state w c b) (at_state w' c' b') \<and> bus_ok b' \<and> routed b')"

lemma routed_streams: "\<lbrakk>streams b' = streams b; routed b\<rbrakk> \<Longrightarrow> routed b'"
  by (simp add: routed_def)

lemma wallet_round_followed:
  assumes ok: "bus_ok (wp_bus s)" "routed (wp_bus s)" and run: "wallet_round wk describe l q s = (s', r)"
  shows "followed U Sw sha S A (wp_db s, c, wp_bus s) (wp_db s', c, wp_bus s')"
proof (cases l)
  case WalletConsumer
  let ?R = "\<lambda>w w'. (system_step U Sw sha S A)\<^sup>*\<^sup>* (at_state w c (wp_bus s)) (at_state w' c (wp_bus s))"
  from run WalletConsumer obtain started b w r' where
    k: "consumer_run_once InMemoryBus (runtime SUBSCRIBED_EVENTS wk) (\<lambda>db ev. committing describe (dispatch (rd_env q db) ev) db)
        (Some (\<lambda>db item. recording describe (record_dead_letter (rd_env q db) item) db)) (rd_clock q) None (wp_started s) (wp_bus s) (wp_db s) =
        (started, b, w, r')" and s': "wp_db s' = w" "wp_bus s' = b"
    by (auto simp: wallet_consumer_def split: prod.splits)
  have "?R w (fst (committing describe (dispatch (rd_env q w) ev) w))" if "carried (wp_bus s) ev" for w ev
    by (auto simp: committing_def split: sum.split intro: r_into_rtranclp [where r = "system_step U Sw sha S A", OF wallet_handled [OF that]])
  moreover have "?R w (fst (recording describe (record_dead_letter (rd_env q w) item) w))" for w item
    by (auto simp: recording_def split: sum.split intro: r_into_rtranclp [where r = "system_step U Sw sha S A", OF wallet_dead])
  ultimately have "streams b = streams (wp_bus s) \<and> bus_ok b \<and> ?R\<^sup>*\<^sup>* (wp_db s) w"
    by (intro consumer_related [where R = ?R, OF k ok]) auto
  then have b: "streams b = streams (wp_bus s)" "bus_ok b" and st: "?R (wp_db s) w"
    using repeat_steps [where f = "\<lambda>w. at_state w c (wp_bus s)" and R = ?R and Q = "system_step U Sw sha S A"] by auto
  from st moved_bus [OF b(1)] have "system_steps U Sw sha S A (at_state (wp_db s) c (wp_bus s)) (at_state w c b)"
    by (rule rtranclp.rtrancl_into_rtrancl)
  with b routed_streams [OF b(1) ok(2)] show ?thesis by (simp add: followed_def s')
next
  case WalletRelay
  from run WalletRelay obtain b ob n where
    re: "relay_run_once (eb_publish InMemoryBus) 100 60 (rd_locked q) (now (rd_env q (wp_db s))) (wp_bus s) (w_outbox (wp_db s)) = (b, ob, n)"
    and s': "wp_db s' = (wp_db s)\<lparr>w_outbox := ob\<rparr>" "wp_bus s' = b"
    by (auto simp: wallet_relay_def split: prod.splits)
  have "system_step U Sw sha S A (at_state (wp_db s) c (wp_bus s)) (at_state ((wp_db s)\<lparr>w_outbox := ob\<rparr>) c b)"
    using system_step.wallet_publishes [of 100 60 "rd_locked q" _ "at_state (wp_db s) c (wp_bus s)"] re by fastforce
  with relay_bus [OF re ok] show ?thesis by (auto simp: followed_def s')
next
  case TransferProgress
  have "wallet_step U Sw sha (wp_db s) (fst (advance_transfers (rd_env q (wp_db s)) (wp_db s)))" by (rule wallet_step.progress)
  moreover have "processed (fst (advance_transfers (rd_env q (wp_db s)) (wp_db s))) = processed (wp_db s)" by (simp add: advance_transfers_def Let_def)
  ultimately have "system_step U Sw sha S A (at_state (wp_db s) c (wp_bus s)) (at_state (fst (advance_transfers (rd_env q (wp_db s)) (wp_db s))) c (wp_bus s))"
    by (rule wallet_works)
  with run TransferProgress ok show ?thesis by (auto simp: followed_def wallet_progress_def split: prod.splits)
qed

lemma told_followed:
  assumes "works_told U S A (eb_publish InMemoryBus) batch backoff (b, c) (b', c')" and ok: "chaindb_ok U c" "bus_ok b" "routed b"
  shows "followed U Sw sha S A (w, c, b) (w, c', b')"
proof -
  from assms(1) obtain c1 where w: "chain_works U S A c c1" and r: "b' = b \<and> c' = c1 \<or>
      (\<exists>t ob n. relay_run_once (eb_publish InMemoryBus) batch backoff [] t b (c_outbox c1) = (b', ob, n) \<and> c' = c1\<lparr>c_outbox := ob\<rparr>)"
    by (auto simp: works_told_def)
  note 1 = works_system [OF w ok(1), of Sw sha _ b]
  from r show ?thesis
  proof (elim disjE exE conjE)
    fix t ob n assume re: "relay_run_once (eb_publish InMemoryBus) batch backoff [] t b (c_outbox c1) = (b', ob, n)" and c': "c' = c1\<lparr>c_outbox := ob\<rparr>"
    have "system_step U Sw sha S A (at_state w c1 b) (at_state w c' b')"
      using system_step.chain_publishes [of batch backoff "[]" t "at_state w c1 b"] re c' by fastforce
    with 1 have "system_steps U Sw sha S A (at_state w c b) (at_state w c' b')" by (rule rtranclp.rtrancl_into_rtrancl)
    with relay_bus [OF re ok(2,3)] show ?thesis by (simp add: followed_def)
  qed (use 1 ok(2,3) in \<open>simp add: followed_def\<close>)
qed

lemma works_followed:
  "\<lbrakk>chain_works U S A c c'; chaindb_ok U c; bus_ok b; routed b\<rbrakk> \<Longrightarrow> followed U Sw sha S A (w, c, b) (w, c', b)"
  by (simp add: followed_def works_system)

lemma chain_round_followed:
  assumes ok: "chaindb_ok U (cw_db s)" "bus_ok (cw_bus s)" "routed (cw_bus s)" and U: "\<forall>db. uuid5 (rd_env q db) = U"
    and ctx: "cx_settings ctx = S" "cx_adapter ctx = A" and run: "chain_loop_round ck ctx l q s = (s', r)"
  shows "followed U Sw sha S A (w, cw_db s, cw_bus s) (w, cw_db s', cw_bus s')"
proof -
  have works: "followed U Sw sha S A (w, cw_db s, cw_bus s) (w, cw_db s', cw_bus s')"
    if "cw_bus s' = cw_bus s" "chain_works U S A (cw_db s) (cw_db s')"
    using works_followed [OF that(2) ok] by (simp add: that(1))
  have U': "uuid5 (rd_env q db) = U" for db using U by simp
  show ?thesis
  proof (cases l)
    case ChainConsumer
    let ?R = "\<lambda>c c'. (system_step U Sw sha S A)\<^sup>*\<^sup>* (at_state w c (cw_bus s)) (at_state w c' (cw_bus s))"
    from run ChainConsumer obtain started b c r' where
      k: "consumer_run_once InMemoryBus (runtime CHAIN_SUBSCRIBED_EVENTS ck) (\<lambda>db ev. committing (cx_describe ctx) (chain_dispatch (rd_env q db) ev) db)
          (Some (\<lambda>db item. recording (cx_describe ctx) (record_chain_dead_letter (rd_env q db) item) db)) (rd_clock q) None (cw_started s) (cw_bus s) (cw_db s) =
          (started, b, c, r')" and s': "cw_db s' = c" "cw_bus s' = b"
      by (auto simp: chain_consumer_def split: prod.splits)
    have "?R c (fst (committing (cx_describe ctx) (chain_dispatch (rd_env q c) ev) c))" if "carried (cw_bus s) ev" for c ev
      by (auto simp: committing_def split: sum.split intro: r_into_rtranclp [where r = "system_step U Sw sha S A", OF chain_handled [OF that U']])
    moreover have "?R c (fst (recording (cx_describe ctx) (record_chain_dead_letter (rd_env q c) item) c))" for c item
      by (auto simp: recording_def split: sum.split intro: r_into_rtranclp [where r = "system_step U Sw sha S A", OF chain_dead])
    ultimately have "streams b = streams (cw_bus s) \<and> bus_ok b \<and> ?R\<^sup>*\<^sup>* (cw_db s) c"
      by (intro consumer_related [where R = ?R, OF k ok(2,3)]) auto
    then have b: "streams b = streams (cw_bus s)" "bus_ok b" and st: "?R (cw_db s) c"
      using repeat_steps [where f = "\<lambda>c. at_state w c (cw_bus s)" and R = ?R and Q = "system_step U Sw sha S A"] by auto
    from st moved_bus [OF b(1)] have "system_steps U Sw sha S A (at_state w (cw_db s) (cw_bus s)) (at_state w c b)"
      by (rule rtranclp.rtrancl_into_rtrancl)
    with b routed_streams [OF b(1) ok(3)] show ?thesis by (simp add: followed_def s')
  next
    case ChainRelay
    from run ChainRelay obtain b ob n where
      re: "relay_run_once (eb_publish InMemoryBus) 100 60 (rd_locked q) (now (rd_env q (cw_db s))) (cw_bus s) (c_outbox (cw_db s)) = (b, ob, n)"
      and s': "cw_db s' = (cw_db s)\<lparr>c_outbox := ob\<rparr>" "cw_bus s' = b"
      by (auto simp: chain_relay_def split: prod.splits)
    have "system_step U Sw sha S A (at_state w (cw_db s) (cw_bus s)) (at_state w ((cw_db s)\<lparr>c_outbox := ob\<rparr>) b)"
      using system_step.chain_publishes [of 100 60 "rd_locked q" _ "at_state w (cw_db s) (cw_bus s)"] re by fastforce
    with relay_bus [OF re ok(2,3)] show ?thesis by (auto simp: followed_def s')
  next
    case Scanner
    with run ctx have "cw_bus s' = cw_bus s" "chain_works U S A (cw_db s) (cw_db s')"
      by (auto simp: scanner_def Let_def split: sum.splits prod.splits dest: work_scan [OF U'])
    then show ?thesis by (rule works)
  next
    case DepositConfirmations
    have "chain_works U S A (cw_db s) (fst (deposit_watcher_run_once S A (rd_node q) (rd_env q (cw_db s)) (cw_db s)))" by (rule deposit_watcher_steps [OF U'])
    with run ctx DepositConfirmations have "cw_bus s' = cw_bus s" "chain_works U S A (cw_db s) (cw_db s')"
      by (auto simp: deposit_confirmations_def split: prod.splits)
    then show ?thesis by (rule works)
  next
    case Broadcaster
    with run ctx have "cw_bus s' = cw_bus s" "chain_works U S A (cw_db s) (cw_db s')"
      by (auto simp: broadcaster_def split: prod.splits dest: broadcaster_steps [OF U'])
    then show ?thesis by (rule works)
  next
    case TxConfirmations
    have "chain_works U S A (cw_db s) (fst (outgoing_watcher_run_once S A (rd_node q) (rd_env q (cw_db s)) (cw_db s)))" by (rule outgoing_watcher_steps [OF U'])
    with run ctx TxConfirmations have "cw_bus s' = cw_bus s" "chain_works U S A (cw_db s) (cw_db s')"
      by (auto simp: tx_confirmations_def split: prod.splits)
    then show ?thesis by (rule works)
  next
    case Miner
    with run have "cw_bus s' = cw_bus s" "chain_works U S A (cw_db s) (cw_db s')" by (auto simp: miner_def split: option.splits sum.splits prod.splits)
    then show ?thesis by (rule works)
  qed
qed

lemma wallet_request_followed:
  assumes ok: "system_ok U S (as_system p)" "bus_ok (pg_b p)" "routed (pg_b p)"
    and run: "uuid5 \<Gamma> = U" "ww_sha W = sha" "wallet_app cfg W \<Gamma> h call db0 (pg_w p) = (w', rep)"
  shows "followed U (wc_settings cfg) sha S A (pg_w p, pg_c p, pg_b p) (w', pg_c p, pg_b p)"
proof -
  have w: "wallet_ok U (pg_w p)" using ok(1) by (simp add: system_ok_def both_ok_def as_system_def)
  have same: "processed w' = processed (pg_w p)" using wallet_request_quiet [OF w, of cfg W \<Gamma> h call db0] run(3) by simp
  have "w' = pg_w p \<or> wallet_step U (wc_settings cfg) sha (pg_w p) w'"
    using wallet_app_steps [OF run(1), of cfg W h call db0 "pg_w p"] run(2,3) by simp
  then have "system_steps U (wc_settings cfg) sha S A (at_state (pg_w p) (pg_c p) (pg_b p)) (at_state w' (pg_c p) (pg_b p))"
    by (auto intro: r_into_rtranclp [where r = "system_step U (wc_settings cfg) sha S A", OF wallet_works [OF _ same]])
  with ok show ?thesis by (simp add: followed_def)
qed

lemma program_step_followed:
  assumes step: "program_step U sha cfg wk S A ccfg ck auto p p'" and ok: "program_ok U S p"
  shows "system_steps U (wc_settings cfg) sha S A (as_system p) (as_system p') \<and> program_ok U S p'"
proof -
  have b: "bus_ok (pg_b p)" "routed (pg_b p)" and s: "system_ok U S (as_system p)" using ok by (simp_all add: program_ok_def)
  have c: "chaindb_ok U (pg_c p)" using s by (simp add: system_ok_def both_ok_def as_system_def)
  have f: "followed U (wc_settings cfg) sha S A (pg_w p, pg_c p, pg_b p) (pg_w p', pg_c p', pg_b p')"
    using step
  proof cases
    case (wallet_request \<Gamma> W h call db0 w' rep)
    with wallet_request_followed [OF s b wallet_request(2,3,4)] show ?thesis by simp
  next
    case (chain_request \<Gamma> ctx P h call s' rep)
    from chain_app_told [OF chain_request(2), of ctx "\<lparr>cp_db = pg_c p, cp_node = pg_node p, cp_bus = pg_b p\<rparr>" ccfg P h call] chain_request
    have "works_told U S A (eb_publish InMemoryBus) (cx_batch_size ctx) (cx_max_backoff ctx) (pg_b p, pg_c p) (cp_bus s', cp_db s')" by simp
    from told_followed [OF this c b] chain_request(1) show ?thesis by simp
  next
    case (wallet_worker nm l describe q s' r)
    with wallet_round_followed [of "wallet_side p" wk describe l q s' r] b show ?thesis by (simp add: wallet_side_def)
  next
    case (chain_worker q ctx nm l s' r)
    with chain_round_followed [of U "chain_side p" q ctx S A ck l s' r] b c show ?thesis by (simp add: chain_side_def)
  next
    case chain_moves
    with b show ?thesis by (simp add: followed_def)
  qed
  then have "system_steps U (wc_settings cfg) sha S A (as_system p) (as_system p')" "bus_ok (pg_b p')" "routed (pg_b p')"
    by (simp_all add: followed_def as_system_def)
  moreover from this(1) have "system_ok U S (as_system p')"
    using s by (induction rule: rtranclp_induct) (simp_all add: system_step_ok)
  ultimately show ?thesis by (simp add: program_ok_def)
qed

lemma start_ok: "program_ok U S (start_program c)"
proof -
  have "as_system (start_program c) = initial_system" by (simp add: as_system_def start_program_def initial_system_def)
  moreover have "routed empty_bus" by (simp add: routed_def empty_bus_def get_or_def)
  ultimately show ?thesis by (simp add: program_ok_def initial_ok start_program_def)
qed


definition sample_worker_config :: worker_config where
  "sample_worker_config = \<lparr>wk_consumer_group = ''wallet-service'', wk_consumer_name = ''wallet-1'', wk_consumer_max_delivery = 5,
     wk_consumer_claim_idle_ms = 15000\<rparr>"

definition sample_round :: "mock_node chain_round" where
  "sample_round = \<lparr>rd_clock = 0, rd_env = (\<lambda>_. sample_env), rd_locked = [], rd_node = (\<lambda>_. (sample_env, sample_node)), rd_claimed = []\<rparr>"

lemma sample_user_added:
  "map u_name (users (fst (wallet_app sample_config sample_world sample_env (sample_headers ''dev-api-key'') (CreateUser ''Ada'' ''ada@x.io'') empty_wdb empty_wdb))) = [''Ada'']"
  by code_simp


end
