(* ===== verification/Spec2Isabelle.thy ===== *)
theory Spec2Isabelle
  imports WalletService Retry RedisBus Logging ChainApi WalletApp ChainApp Agreement Workers
begin

text \<open>
  Verification of the mini crypto wallet: two Python services that keep users' balances in a
  double-entry ledger and settle transfers and deposits on a chain.

  \<^bold>\<open>The program.\<close> The wallet service (\<open>src/services/wallet\<close>) owns users, wallets, the ledger and
  transfers. A transfer request places a hold on the sender's balance, stores the transfer
  and writes the event \<open>transfer.requested\<close> to an outbox in the same transaction. The
  blockchain service (\<open>src/services/blockchain\<close>) issues custody addresses, turns the request
  into an outgoing transaction, submits and watches it, scans the chain for deposits, and
  answers with events through its own outbox. A relay publishes outbox rows to the bus; a
  consumer of the other service handles each event once, or dead-letters it. The shared code
  is in \<open>src/libs/common\<close>.

  \<^bold>\<open>Conventions.\<close> An operation that runs in a database transaction is a function from the
  database to a result: an exception as a value (\<^typ>\<open>exn\<close>), in which case nothing is
  committed, or the next database. A table is the list of its rows, with primary keys, unique
  and check constraints, foreign keys and column widths decided by the insert or update.
  Operations that commit in several transactions return the database in any case. Clock,
  random and name-based UUIDs and the correlation id are the record \<^typ>\<open>env\<close>. A text is a list
  of characters below 256, a Python integer an \<^typ>\<open>int\<close>, a UUID a \<^typ>\<open>128 word\<close>. Where a worker
  reads, calls the chain and writes in separate transactions, the reads have their own
  database or node argument, so that a statement covers every interleaving in between.
  Loops are structural recursions over the rows, blocks or attempts they run through; the only
  fuel is the number of runs in the statement that the scanner reaches the head, and the
  statement gives a number that is enough.

  \<^bold>\<open>The shared library.\<close>
  \<^item> \<open>Prelude\<close>: results, rows of a table by key, totals over rows. \<open>PyText\<close>: Python's text and number
    conversions and \<open>uuid.UUID\<close>. \<open>Errors\<close>: \<open>errors.py\<close>, the error handlers of \<open>http.py\<close>, payload
    access and column types. \<open>Assets\<close>, \<open>Money\<close>: \<open>assets.py\<close>, \<open>money.py\<close>; decimal parsing in the
    80-digit context, and that formatting and parsing are inverse.
  \<^item> \<open>Events\<close>: \<open>events.py\<close> and \<open>correlation.py\<close>. \<open>Outbox\<close>: \<open>outbox.py\<close>; the locale \<open>publisher\<close> states what the
    relay needs of a bus, and every row marked published is on the bus.
  \<^item> \<open>Bus\<close>: the bus protocol, the in-memory bus and the consumer runtime of \<open>bus.py\<close>; the locale
    \<open>acking_bus\<close> is the contract of a bus with its consumer, interpreted for the in-memory bus.
    No message is lost, and one that always fails is dead-lettered after the configured number of
    deliveries. \<open>RedisBus\<close>: the Redis Streams bus over the client's commands.
  \<^item> \<open>Http\<close>: middleware, authentication and readiness of \<open>http.py\<close>. \<open>App\<close>: routers with and without the
    dependency that authenticates, and how a request passes middleware, dependency and endpoint;
    the locale \<open>guarded_app\<close> is an application that guards all but its probes. \<open>WalletApp\<close>,
    \<open>ChainApp\<close>: \<open>main.py\<close> of both services over the endpoints of \<open>api/routes.py\<close>; each interprets the
    locale, and every request is at most one step of its service. \<open>Retry\<close>: \<open>retry.py\<close> and the wallet
    service's \<open>chain_client.py\<close>. \<open>Logging\<close>: the redaction of \<open>logging.py\<close>. \<open>Dedup\<close>: the locale of a
    consumer that records what it handled, interpreted for both dispatchers.

  \<^bold>\<open>The wallet service.\<close>
  \<^item> \<open>WalletDb\<close>: \<open>models.py\<close> and the migration. \<open>Ledger\<close>: \<open>services/ledger.py\<close>, with the locale \<open>hold_ledger\<close>
    for reservations. \<open>Users\<close>, \<open>Transfers\<close>, \<open>WalletDeposits\<close>, \<open>Idempotency\<close>: the modules of these names;
    \<open>TransferCycle\<close> proves what each step of a transfer does to the balances.
  \<^item> \<open>WalletDispatch\<close>: \<open>consumers/dispatcher.py\<close> and \<open>services/progress.py\<close>. \<open>WalletApi\<close>: \<open>api/routes.py\<close>
    and \<open>schemas.py\<close>. \<open>WalletService\<close>: the step relation over requests, deliveries and the worker,
    and the statements about every reachable state: the books balance, retries replay, an event
    takes effect once, transfers are announced and never move back. \<open>WalletSchema\<close>: the tables of
    the migration, column by column; every reachable row fits them, and the ledger only grows.

  \<^bold>\<open>The blockchain service.\<close>
  \<^item> \<open>Chain\<close>: \<open>chain/base.py\<close>, the port as a record and its contract as the locale \<open>chain_port\<close>. \<open>ChainDb\<close>:
    \<open>models.py\<close> and the migration. \<open>MockChain\<close>, \<open>MockNode\<close>: \<open>chain/mock.py\<close>, the simulated node with
    blocks, mempool, faults and reorganisations; it keeps its invariant and interprets
    \<open>chain_port\<close>. \<open>Evm\<close>: \<open>chain/evm.py\<close> over the calls of web3 and eth_account.
  \<^item> \<open>Custody\<close>: \<open>services/addresses.py\<close>, \<open>chain/keys.py\<close> over a cipher, and the callbacks of \<open>context.py\<close>.
    \<open>ChainDeposits\<close>, \<open>DepositTracking\<close>: \<open>services/deposits.py\<close>, its operations and what they decide.
    \<open>Outgoing\<close>, \<open>OutgoingTracking\<close>, \<open>OutgoingDecisions\<close>: \<open>services/transactions.py\<close>, its operations,
    their invariant, and the decision tables of the broadcaster and the watcher.
  \<^item> \<open>ChainDispatch\<close>: \<open>consumers/dispatcher.py\<close>. \<open>ChainService\<close>: the step relation over all of its
    transactions, for any chain, and its invariant. \<open>ChainApi\<close>: \<open>api/routes.py\<close>, \<open>schemas.py\<close> and
    \<open>chain/__init__.py\<close>.

  \<^bold>\<open>Both services.\<close> \<open>EndToEnd\<close> composes them: a confirmed deposit is credited with the amount of its log, a
  request becomes a transaction with the same parties and amount, and a confirmation settles
  the transfer. \<open>System\<close> runs both databases on one bus: each service works on its own, relays
  publish, and each handles what the bus carries, in any order and any number of times.
  \<open>Provenance\<close>, \<open>WalletEvents\<close> and \<open>ChainEvents\<close> prove what a step can add to an outbox and which
  event is behind a decision, a credit or a new transaction; \<open>Agreement\<close> concludes that nothing is settled
  and nothing credited that the chain side has not decided, and \<open>Scenario\<close> evaluates one run of
  both services from empty databases. \<open>Workers\<close>: \<open>worker.py\<close> of both services, the tasks and their
  rounds over the in-process bus; with the applications they make the whole program, and
  every state it reaches is a state of \<open>System\<close>, so the statements above hold of the program.

  \<^bold>\<open>Behaviour that differs from the documentation.\<close> Several statements fix such behaviour as
  it is: a deposit first seen below the finality depth is never confirmed
  (\<open>deep_deposit_stranded\<close>), a stale worker reopens a failed transaction
  (\<open>stale_retry_reopens\<close>), a credit is lost when the chain flips back
  (\<open>flip_back_credit_lost\<close>), and on the EVM backend only the first transfer of an address is
  sent, a retry changes its hash, and deposits to checksum addresses are ignored
  (\<open>later_transfers_never_sent\<close>, \<open>resend_reports_other_hash\<close>, \<open>evm_deposit_ignored\<close>).

  \<^bold>\<open>Parameters.\<close> Code that is not in the repository is an argument: the name-based UUID, SHA-256 of
  the simulated node and of fingerprints, the cipher of the keystore, key generation, the Redis
  client, the JSON form of an envelope, the transport of the HTTP client, and web3.

  \<^bold>\<open>Not modelled.\<close> Metrics (no behaviour depends on them), the set-up of logging and of the
  database engine, how the framework finds the route of a request, the construction of the
  contexts, signal handling, the intervals of the worker tasks (their rounds run in any order),
  the environments of the migration tool,
  and the texts of exceptions raised by libraries.
\<close>

end
